(* ===== verification/Prelude.thy ===== *)
theory Prelude
  imports Main "HOL-Library.Word" "HOL-Library.Monad_Syntax" "HOL-Library.Sublist"
begin

text \<open>
  Material the component theories share: linked sequences of nodes (the \<open>prev\<close>/\<open>next\<close>
  chains of the list components), decimal printing as \<open>fmt.Sprintf("%d")\<close> does it, joining
  of strings, and the lemma collections that carry the component proofs.

  Conventions of the whole development: a Go function that may dereference a nil pointer,
  index out of range, call \<open>panic\<close> or end the process with \<open>log.Logger.Fatalf\<close> returns an
  \<open>option\<close>, and \<open>None\<close> is that abrupt end.  A Go \<open>error\<close> result is a value of a sum type
  (or a status next to the new state, where the state is changed before the error is
  returned).  A pointer to a mutable object is a number; the object is a cell of a store.
\<close>

named_theorems seq_simps \<open>facts about linked sequences\<close>

section \<open>Linked sequences\<close>

text \<open>
  A doubly linked chain of nodes is the list of its node references, head first.  The
  \<open>next\<close> and \<open>prev\<close> fields of a node are the neighbours in that list; a node that is not
  linked (it was released) has neither.
\<close>

fun succ_of :: "'a list \<Rightarrow> 'a \<Rightarrow> 'a option" where
  "succ_of [] x = None"
| "succ_of (y # ys) x =
     (if y = x then (case ys of [] \<Rightarrow> None | z # _ \<Rightarrow> Some z) else succ_of ys x)"

fun pred_of :: "'a list \<Rightarrow> 'a \<Rightarrow> 'a option" where
  "pred_of [] x = None"
| "pred_of [y] x = None"
| "pred_of (y # z # zs) x = (if z = x then Some y else pred_of (z # zs) x)"

fun link_after :: "'a \<Rightarrow> 'a \<Rightarrow> 'a list \<Rightarrow> 'a list" where
  "link_after p x [] = []"
| "link_after p x (y # ys) = (if y = p then y # x # ys else y # link_after p x ys)"

fun suffix_from :: "'a \<Rightarrow> 'a list \<Rightarrow> 'a list" where
  "suffix_from x [] = []"
| "suffix_from x (y # ys) = (if y = x then y # ys else suffix_from x ys)"

definition following :: "'a list \<Rightarrow> 'a \<Rightarrow> 'a list" where
  "following xs x = tl (suffix_from x xs)"

lemma succ_of_notin [seq_simps]: "x \<notin> set xs \<Longrightarrow> succ_of xs x = None"
  by (induction xs) auto

lemma succ_of_mid [seq_simps]:
  "x \<notin> set as \<Longrightarrow> succ_of (as @ x # bs) x = (case bs of [] \<Rightarrow> None | b # _ \<Rightarrow> Some b)"
  by (induction as) auto

lemma succ_of_in: "succ_of xs x = Some y \<Longrightarrow> x \<in> set xs \<and> y \<in> set xs"
  by (induction xs) (auto split: if_splits list.splits)

lemma pred_of_notin [seq_simps]: "x \<notin> set xs \<Longrightarrow> pred_of xs x = None"
  by (induction xs x rule: pred_of.induct) auto

lemma pred_of_mid [seq_simps]:
  "x \<notin> set as \<Longrightarrow> pred_of (as @ x # bs) x =
     (if as = [] then (if x \<in> set bs then pred_of (x # bs) x else None) else Some (last as))"
proof (induction as rule: induct_list012)
  case 1
  then show ?case by (cases bs) (auto simp: pred_of_notin)
qed auto

lemma pred_of_in: "pred_of xs x = Some y \<Longrightarrow> x \<in> set xs \<and> y \<in> set xs"
  by (induction xs x rule: pred_of.induct) (auto split: if_splits)

lemma link_after_notin [seq_simps]: "p \<notin> set xs \<Longrightarrow> link_after p x xs = xs"
  by (induction xs) auto

lemma link_after_mid [seq_simps]:
  "p \<notin> set as \<Longrightarrow> link_after p x (as @ p # bs) = as @ p # x # bs"
  by (induction as) auto

lemma set_link_after [seq_simps]:
  "p \<in> set xs \<Longrightarrow> set (link_after p x xs) = insert x (set xs)"
  by (induction xs) auto

lemma set_link_after_subset: "set (link_after p x xs) \<subseteq> insert x (set xs)"
  by (induction xs) auto

lemma distinct_link_after [seq_simps]:
  "distinct xs \<Longrightarrow> x \<notin> set xs \<Longrightarrow> distinct (link_after p x xs)"
  by (induction xs) (use set_link_after_subset in fastforce)+

lemma length_link_after [seq_simps]:
  "p \<in> set xs \<Longrightarrow> length (link_after p x xs) = Suc (length xs)"
  by (induction xs) auto

lemma link_after_ne [simp]: "link_after p x xs = [] \<longleftrightarrow> xs = []"
  by (cases xs) auto

lemma hd_link_after [seq_simps]: "xs \<noteq> [] \<Longrightarrow> hd (link_after p x xs) = hd xs"
  by (cases xs) auto

lemma sum_list_link_after [seq_simps]:
  fixes f :: "'a \<Rightarrow> int"
  shows "p \<in> set xs \<Longrightarrow> sum_list (map f (link_after p x xs)) = sum_list (map f xs) + f x"
  by (induction xs) auto

lemma suffix_from_mid [seq_simps]: "x \<notin> set as \<Longrightarrow> suffix_from x (as @ x # bs) = x # bs"
  by (induction as) auto

lemma following_mid: "x \<notin> set as \<Longrightarrow> following (as @ x # bs) x = bs"
  by (simp add: following_def suffix_from_mid)

lemma split_at_mem: "x \<in> set xs \<Longrightarrow> \<exists>as bs. xs = as @ x # bs \<and> x \<notin> set as"
  by (meson split_list_first)

section \<open>Printing\<close>

text \<open>\<open>fmt.Sprintf("%d", n)\<close> of an unsigned integer, most significant digit first.\<close>

definition digit :: "nat \<Rightarrow> char" where
  "digit d = char_of (48 + d)"

fun dec :: "nat \<Rightarrow> string" where
  "dec n = (if n < 10 then [digit n] else dec (n div 10) @ [digit (n mod 10)])"

declare dec.simps [simp del]

text \<open>\<open>fmt.Sprintf("%d", i)\<close> of a signed integer.\<close>

definition dec_int :: "int \<Rightarrow> string" where
  "dec_int i = (if i < 0 then CHR ''-'' # dec (nat (- i)) else dec (nat i))"

text \<open>\<open>strings.Join\<close>\<close>

fun join_with :: "string \<Rightarrow> string list \<Rightarrow> string" where
  "join_with sep [] = []"
| "join_with sep [s] = s"
| "join_with sep (s # t # ts) = s @ sep @ join_with sep (t # ts)"

lemma of_char_digit: "d < 10 \<Longrightarrow> of_char (digit d) = (48 + d :: nat)"
  by (simp add: digit_def)

lemma digit_inj: "d < 10 \<Longrightarrow> e < 10 \<Longrightarrow> digit d = digit e \<Longrightarrow> d = e"
  by (metis add_left_cancel of_char_digit)

lemma dec_ne [simp]: "dec n \<noteq> []"
  by (subst dec.simps) simp

lemma dec_digits: "c \<in> set (dec n) \<Longrightarrow> \<exists>d<10. c = digit d"
proof (induction n rule: dec.induct)
  case (1 n)
  show ?case
  proof (cases "n < 10")
    case True
    with "1.prems" show ?thesis by (subst (asm) dec.simps) auto
  next
    case False
    with "1.prems" have "c \<in> set (dec (n div 10)) \<or> c = digit (n mod 10)"
      by (subst (asm) dec.simps) auto
    with "1.IH" False show ?thesis by (metis mod_less_divisor zero_less_numeral)
  qed
qed

lemma dec_no_colon: "CHR '':'' \<notin> set (dec n)"
proof
  assume "CHR '':'' \<in> set (dec n)"
  then obtain d where "d < 10" "CHR '':'' = digit d" using dec_digits by blast
  then have "of_char CHR '':'' = (48 + d :: nat)" by (simp add: of_char_digit)
  then show False using \<open>d < 10\<close> by simp
qed

lemma dec_inj: "dec m = dec n \<Longrightarrow> m = n"
proof (induction m arbitrary: n rule: dec.induct)
  case (1 m)
  show ?case
  proof (cases "m < 10 \<or> n < 10")
    case True
    with "1.prems" show ?thesis
      by (cases "m < 10"; cases "n < 10")
         (auto simp: dec.simps [of m] dec.simps [of n] Cons_eq_append_conv append_eq_Cons_conv
           dest: digit_inj)
  next
    case False
    with "1.prems" have "dec (m div 10) = dec (n div 10)" "digit (m mod 10) = digit (n mod 10)"
      by (simp_all add: dec.simps [of m] dec.simps [of n])
    with "1.IH" False have "m div 10 = n div 10" "m mod 10 = n mod 10"
      by (auto intro: digit_inj)
    then show ?thesis by (metis div_mult_mod_eq)
  qed
qed

lemma split_at_sep:
  "c \<notin> set xs \<Longrightarrow> c \<notin> set ys \<Longrightarrow> xs @ c # as = ys @ c # bs \<Longrightarrow> xs = ys \<and> as = bs"
  by (induction xs arbitrary: ys) (auto simp: Cons_eq_append_conv append_eq_Cons_conv)

end
