(* ===== verification/Ticket.thy ===== *)
theory Ticket
  imports Prelude "HOL-Library.List_Lexorder" "HOL-Library.Option_ord"
begin

text \<open>
  The logical clock of \<open>src/pkg/document/time\<close>: actor identifiers (\<open>actor_id.go\<close>) and time
  tickets (\<open>ticket.go\<close>).  An \<open>*ActorID\<close> is an \<open>actor_id option\<close>, \<open>None\<close> for nil; the array
  of twelve bytes is a byte list with the predicate \<open>wf_actor\<close>.  \<open>ticket_compare\<close> is
  \<open>Ticket.Compare\<close> with its panic on a nil actor as \<open>None\<close>.  The class order of tickets is
  the order that \<open>Compare\<close> computes wherever it returns (\<open>ticket_compare_order\<close>); the other
  theories compare tickets with it, that is, they are about tickets whose actor is set.
  The last part shows that the key strings used as map keys identify tickets, so the
  other theories key their maps by the ticket itself.
\<close>

section \<open>Actor identifiers\<close>

type_synonym byte = "8 word"
type_synonym actor_id = "byte list"

definition actor_id_size :: nat where
  "actor_id_size = 12"

definition wf_actor :: "actor_id \<Rightarrow> bool" where
  "wf_actor a \<longleftrightarrow> length a = actor_id_size"

definition initial_actor_id :: actor_id where
  "initial_actor_id = replicate actor_id_size 0"

definition max_actor_id :: actor_id where
  "max_actor_id = replicate actor_id_size 255"

datatype actor_error = ErrInvalidHexString

text \<open>\<open>encoding/hex\<close>: lower-case digits on output, both cases on input.\<close>

definition hex_digit :: "nat \<Rightarrow> char" where
  "hex_digit d = (if d < 10 then digit d else char_of (87 + d))"

definition hex_value :: "char \<Rightarrow> nat option" where
  "hex_value c = (let n = of_char c in
     if 48 \<le> n \<and> n \<le> 57 then Some (n - 48)
     else if 97 \<le> n \<and> n \<le> 102 then Some (n - 87)
     else if 65 \<le> n \<and> n \<le> 70 then Some (n - 55)
     else None)"

fun hex_encode :: "byte list \<Rightarrow> string" where
  "hex_encode [] = []"
| "hex_encode (b # bs) = hex_digit (unat b div 16) # hex_digit (unat b mod 16) # hex_encode bs"

fun hex_decode :: "string \<Rightarrow> byte list option" where
  "hex_decode [] = Some []"
| "hex_decode [c] = None"
| "hex_decode (c # d # s) = do {
     h \<leftarrow> hex_value c;
     l \<leftarrow> hex_value d;
     bs \<leftarrow> hex_decode s;
     Some (of_nat (16 * h + l) # bs) }"

definition actor_id_from_hex :: "string \<Rightarrow> actor_error + actor_id option" where
  "actor_id_from_hex str =
     (if str = [] then Inr None
      else case hex_decode str of
        None \<Rightarrow> Inl ErrInvalidHexString
      | Some decoded \<Rightarrow>
          if length decoded \<noteq> actor_id_size then Inl ErrInvalidHexString
          else Inr (Some decoded))"

definition actor_id_from_bytes :: "byte list \<Rightarrow> actor_error + actor_id option" where
  "actor_id_from_bytes bytes =
     (if length bytes = 0 then Inr None
      else if length bytes \<noteq> actor_id_size then Inl ErrInvalidHexString
      else Inr (Some bytes))"

definition actor_id_string :: "actor_id option \<Rightarrow> string" where
  "actor_id_string i = (case i of None \<Rightarrow> [] | Some a \<Rightarrow> hex_encode a)"

definition actor_id_bytes :: "actor_id option \<Rightarrow> byte list" where
  "actor_id_bytes i = (case i of None \<Rightarrow> [] | Some a \<Rightarrow> a)"

text \<open>\<open>bytes.Compare\<close>: lexicographic, byte by byte, a proper prefix being smaller.\<close>

fun bytes_compare :: "byte list \<Rightarrow> byte list \<Rightarrow> int" where
  "bytes_compare [] [] = 0"
| "bytes_compare [] (_ # _) = -1"
| "bytes_compare (_ # _) [] = 1"
| "bytes_compare (x # xs) (y # ys) =
     (if x < y then -1 else if y < x then 1 else bytes_compare xs ys)"

definition actor_id_compare :: "actor_id option \<Rightarrow> actor_id option \<Rightarrow> int option" where
  "actor_id_compare i j =
     (case (i, j) of (Some a, Some b) \<Rightarrow> Some (bytes_compare a b) | _ \<Rightarrow> None)"

section \<open>Tickets\<close>

datatype ticket =
  Ticket (lamport: "64 word") (delimiter: "32 word") (actorID: "actor_id option")

definition initial_ticket :: ticket where
  "initial_ticket = Ticket 0 0 (Some initial_actor_id)"

definition max_ticket :: ticket where
  "max_ticket = Ticket (2 ^ 64 - 1) (2 ^ 32 - 1) (Some max_actor_id)"

definition wf_ticket :: "ticket \<Rightarrow> bool" where
  "wf_ticket t \<longleftrightarrow> (case actorID t of None \<Rightarrow> True | Some a \<Rightarrow> wf_actor a)"

definition ticket_key :: "ticket \<Rightarrow> string" where
  "ticket_key t = dec (unat (lamport t)) @ '':'' @ dec (unat (delimiter t)) @ '':'' @
     actor_id_string (actorID t)"

definition annotated_string :: "ticket \<Rightarrow> string" where
  "annotated_string t = dec (unat (lamport t)) @ '':'' @ dec (unat (delimiter t)) @ '':'' @
     (case actorID t of None \<Rightarrow> ''nil'' | Some a \<Rightarrow> take 2 (drop 22 (actor_id_string (Some a))))"

definition ticket_compare :: "ticket \<Rightarrow> ticket \<Rightarrow> int option" where
  "ticket_compare t u =
     (if lamport t > lamport u then Some 1
      else if lamport t < lamport u then Some (-1)
      else do {
        c \<leftarrow> actor_id_compare (actorID t) (actorID u);
        if c \<noteq> 0 then Some c
        else if delimiter t > delimiter u then Some 1
        else if delimiter t < delimiter u then Some (-1)
        else Some 0 })"

definition ticket_after :: "ticket \<Rightarrow> ticket \<Rightarrow> bool option" where
  "ticket_after t u = do { c \<leftarrow> ticket_compare t u; Some (c > 0) }"

definition set_actor_id :: "ticket \<Rightarrow> actor_id option \<Rightarrow> ticket" where
  "set_actor_id t a = Ticket (lamport t) (delimiter t) a"

subsection \<open>The order of tickets\<close>

instantiation ticket :: linorder
begin

definition less_ticket :: "ticket \<Rightarrow> ticket \<Rightarrow> bool" where
  "t < u \<longleftrightarrow> lamport t < lamport u \<or> lamport t = lamport u \<and>
     (actorID t < actorID u \<or> actorID t = actorID u \<and> delimiter t < delimiter u)"

definition less_eq_ticket :: "ticket \<Rightarrow> ticket \<Rightarrow> bool" where
  "t \<le> u \<longleftrightarrow> t = u \<or> t < (u :: ticket)"

instance
proof
  fix x y z :: ticket
  show "x < y \<longleftrightarrow> x \<le> y \<and> \<not> y \<le> x"
    by (auto simp: less_ticket_def less_eq_ticket_def)
  show "x \<le> x" by (simp add: less_eq_ticket_def)
  show "x \<le> y \<Longrightarrow> y \<le> z \<Longrightarrow> x \<le> z"
    by (auto simp: less_ticket_def less_eq_ticket_def)
  show "x \<le> y \<Longrightarrow> y \<le> x \<Longrightarrow> x = y"
    by (auto simp: less_ticket_def less_eq_ticket_def)
  show "x \<le> y \<or> y \<le> x"
    by (cases x; cases y) (auto simp: less_ticket_def less_eq_ticket_def)
qed

end

subsection \<open>\<open>Compare\<close> computes that order\<close>

lemma bytes_compare_order:
  "bytes_compare a b = (if a = b then 0 else if a < b then -1 else 1)"
  by (induction a b rule: bytes_compare.induct) auto

lemma bytes_compare_cases [simp]:
  "bytes_compare a b = 0 \<longleftrightarrow> a = b" "bytes_compare a b < 0 \<longleftrightarrow> a < b"
  "bytes_compare a b > 0 \<longleftrightarrow> b < a"
  by (auto simp: bytes_compare_order)

lemma actor_id_compare_None [simp]:
  "actor_id_compare i j = None \<longleftrightarrow> i = None \<or> j = None"
  by (auto simp: actor_id_compare_def split: option.splits)

lemma ticket_compare_eq:
  "ticket_compare t u =
     (if lamport t = lamport u \<and> (actorID t = None \<or> actorID u = None) then None
      else Some (if t = u then 0 else if t < u then -1 else 1))"
proof (cases "lamport t = lamport u")
  case True
  show ?thesis
  proof (cases "actorID t = None \<or> actorID u = None")
    case True
    with \<open>lamport t = lamport u\<close> show ?thesis
      by (auto simp: ticket_compare_def actor_id_compare_def split: option.split)
  next
    case False
    with \<open>lamport t = lamport u\<close> show ?thesis
      by (cases t; cases u)
         (auto simp: ticket_compare_def actor_id_compare_def bytes_compare_order less_ticket_def)
  qed
next
  case False
  then show ?thesis
    by (cases t; cases u) (auto simp: ticket_compare_def less_ticket_def)
qed

lemma ticket_after_order:
  "ticket_after t u = (if lamport t = lamport u \<and> (actorID t = None \<or> actorID u = None)
     then None else Some (u < t))"
  by (auto simp: ticket_after_def ticket_compare_eq)

text \<open>\<open>Ticket.Compare\<close> panics exactly when the lamports are equal and an actor is nil, and
  otherwise returns the sign of a linear order; \<open>After\<close> is that strict order, reversed.\<close>
theorem ticket_compare_order:
  "(ticket_compare t u = None \<longleftrightarrow> lamport t = lamport u \<and> (actorID t = None \<or> actorID u = None)) \<and>
   (ticket_compare t u = None \<or>
    ticket_compare t u = Some (if t = u then 0 else if t < u then -1 else 1)) \<and>
   ticket_after t u = (if ticket_compare t u = None then None else Some (u < t))"
  by (auto simp: ticket_compare_eq ticket_after_order)

lemma less_ticketI: "lamport t < lamport u \<Longrightarrow> t < u"
  by (simp add: less_ticket_def)

section \<open>Hexadecimal actors and key strings\<close>

lemma hex_value_digit: "d < 16 \<Longrightarrow> hex_value (hex_digit d) = Some d"
  by (simp add: hex_value_def hex_digit_def digit_def Let_def)

lemma of_char_hex_digit: "d < 16 \<Longrightarrow> of_char (hex_digit d) \<noteq> (58 :: nat)"
  by (simp add: hex_digit_def digit_def)

lemma hex_decode_encode [simp]: "hex_decode (hex_encode bs) = Some bs"
proof (induction bs)
  case (Cons b bs)
  have "unat b < 256" using unsigned_less [where ?'a = nat and w = b] by simp
  then have d: "unat b div 16 < 16" "unat b mod 16 < 16" by auto
  have "of_nat (16 * (unat b div 16) + unat b mod 16) = b"
    by (simp only: mult_div_mod_eq) simp
  with Cons d show ?case
    by (simp add: hex_value_digit del: of_nat_add of_nat_mult)
qed simp

lemma hex_encode_inj: "hex_encode a = hex_encode b \<Longrightarrow> a = b"
  by (metis hex_decode_encode option.inject)

lemma length_hex_encode [simp]: "length (hex_encode bs) = 2 * length bs"
  by (induction bs) auto

lemma wf_actor_ne: "wf_actor a \<Longrightarrow> a \<noteq> [] \<and> hex_encode a \<noteq> []"
  by (cases a) (auto simp: wf_actor_def actor_id_size_def)

text \<open>Hexadecimal round trip of actor ids, nil being the empty string\<close>
theorem actor_id_hex_roundtrip:
  "(case i of None \<Rightarrow> True | Some a \<Rightarrow> wf_actor a) \<Longrightarrow>
     actor_id_from_hex (actor_id_string i) = Inr i \<and>
     actor_id_from_bytes (actor_id_bytes i) = Inr i"
  using wf_actor_ne
  by (cases i)
     (auto simp: actor_id_from_hex_def actor_id_from_bytes_def actor_id_string_def
       actor_id_bytes_def wf_actor_def actor_id_size_def)

theorem actor_id_hex_roundtrip_witness:
  "actor_id_from_hex (actor_id_string (Some max_actor_id)) = Inr (Some max_actor_id)"
  using actor_id_hex_roundtrip [of "Some max_actor_id"]
  by (simp add: wf_actor_def max_actor_id_def)

lemma actor_id_from_hex_wf:
  "actor_id_from_hex s = Inr (Some a) \<Longrightarrow> wf_actor a"
  by (auto simp: actor_id_from_hex_def wf_actor_def split: if_splits option.splits)

lemma actor_id_string_inj:
  "\<lbrakk>case i of None \<Rightarrow> True | Some a \<Rightarrow> wf_actor a;
    case j of None \<Rightarrow> True | Some a \<Rightarrow> wf_actor a;
    actor_id_string i = actor_id_string j\<rbrakk> \<Longrightarrow> i = j"
  using wf_actor_ne hex_encode_inj
  by (cases i; cases j) (auto simp: actor_id_string_def, metis)

lemma ticket_key_eq:
  assumes "wf_ticket t" "wf_ticket u"
  shows "ticket_key t = ticket_key u \<longleftrightarrow> t = u"
proof
  assume eq: "ticket_key t = ticket_key u"
  have 1: "dec (unat (lamport t)) = dec (unat (lamport u)) \<and>
      dec (unat (delimiter t)) @ '':'' @ actor_id_string (actorID t) =
      dec (unat (delimiter u)) @ '':'' @ actor_id_string (actorID u)"
    by (rule split_at_sep [of "CHR '':''"])
       (use eq dec_no_colon in \<open>auto simp: ticket_key_def\<close>)
  then have 2: "dec (unat (delimiter t)) = dec (unat (delimiter u)) \<and>
      actor_id_string (actorID t) = actor_id_string (actorID u)"
    by (intro split_at_sep [of "CHR '':''"]) (use dec_no_colon in auto)
  from 2 assms(1,2) have "actorID t = actorID u"
    by (auto simp: wf_ticket_def intro: actor_id_string_inj)
  with 1 2 show "t = u"
    by (auto intro!: ticket.expand dest!: dec_inj simp: word_unat_eq_iff)
qed simp

text \<open>The key under which every hash table of the document files a ticket identifies it: two
  tickets with well-formed actors have the same key only if they are equal.\<close>
theorem ticket_key_inj:
  assumes "wf_ticket t" "wf_ticket u" "ticket_key t = ticket_key u"
  shows "t = u"
  using ticket_key_eq assms by blast

theorem ticket_key_inj_witness:
  "wf_ticket (Ticket 1 23 (Some max_actor_id)) \<and> wf_ticket (Ticket 12 3 None) \<and>
     ticket_key (Ticket 1 23 (Some max_actor_id)) \<noteq> ticket_key (Ticket 12 3 None)"
  using ticket_key_inj [of "Ticket 1 23 (Some max_actor_id)" "Ticket 12 3 None"]
  by (auto simp: wf_ticket_def wf_actor_def max_actor_id_def)

section \<open>The least and the greatest ticket\<close>

lemma replicate_0_least: "length a = n \<Longrightarrow> replicate n (0 :: byte) \<le> a"
proof (induction a arbitrary: n)
  case (Cons b a)
  then show ?case by (cases "b = 0") (auto simp: word_gt_0)
qed simp

lemma replicate_max_greatest: "length a = n \<Longrightarrow> a \<le> replicate n (255 :: byte)"
proof (induction a arbitrary: n)
  case (Cons b a)
  have "(255 :: byte) = -1" by simp
  then have "b \<le> 255" by (simp only: word_n1_ge)
  with Cons show ?case by (auto simp: order_le_less)
qed simp

lemma initial_ticket_least:
  assumes "wf_ticket t" "actorID t \<noteq> None"
  shows "initial_ticket \<le> t"
proof -
  from assms obtain a where a: "actorID t = Some a" "length a = actor_id_size"
    by (auto simp: wf_ticket_def wf_actor_def)
  then have "initial_actor_id \<le> a"
    using replicate_0_least [of a] by (simp add: initial_actor_id_def)
  with a show ?thesis
    by (cases t) (auto simp: initial_ticket_def less_eq_ticket_def less_ticket_def word_gt_0)
qed

lemma max_ticket_greatest:
  assumes "wf_ticket t"
  shows "t \<le> max_ticket"
proof -
  have "(2 ^ 64 - 1 :: 64 word) = -1" "(2 ^ 32 - 1 :: 32 word) = -1" by simp_all
  then have l: "lamport t \<le> 2 ^ 64 - 1" "delimiter t \<le> 2 ^ 32 - 1"
    by (simp_all only: word_n1_ge)
  have "a \<le> max_actor_id" if "actorID t = Some a" for a
    using that assms replicate_max_greatest [of a]
    by (auto simp: wf_ticket_def wf_actor_def max_actor_id_def)
  with l show ?thesis
    by (cases t; cases "actorID t")
       (auto simp: max_ticket_def less_eq_ticket_def less_ticket_def order_le_less)
qed

end
