(* ===== verification/Clock.thy ===== *)
theory Clock
  imports Ticket
begin

text \<open>
  The immutable clocks and names built from tickets: \<open>Checkpoint\<close>
  (\<open>src/pkg/document/checkpoint/checkpoint.go\<close>), change identifiers with their Lamport
  clock (\<open>src/pkg/document/change/id.go\<close>) and document keys
  (\<open>src/pkg/document/key/key.go\<close>).  Sequence numbers and lamports keep their width and wrap.
\<close>

section \<open>Checkpoints\<close>

record checkpoint =
  cp_server_seq :: "64 word"
  cp_client_seq :: "32 word"

definition new_checkpoint :: "64 word \<Rightarrow> 32 word \<Rightarrow> checkpoint" where
  "new_checkpoint s c = \<lparr>cp_server_seq = s, cp_client_seq = c\<rparr>"

definition initial_checkpoint :: checkpoint where
  "initial_checkpoint = new_checkpoint 0 0"

definition max_checkpoint :: checkpoint where
  "max_checkpoint = new_checkpoint (2 ^ 64 - 1) (2 ^ 32 - 1)"

definition increase_client_seq :: "checkpoint \<Rightarrow> 32 word \<Rightarrow> checkpoint" where
  "increase_client_seq cp inc =
     (if inc = 0 then cp else new_checkpoint (cp_server_seq cp) (cp_client_seq cp + inc))"

definition next_client_seq :: "checkpoint \<Rightarrow> checkpoint" where
  "next_client_seq cp = increase_client_seq cp 1"

definition next_server_seq :: "checkpoint \<Rightarrow> 64 word \<Rightarrow> checkpoint" where
  "next_server_seq cp s =
     (if cp_server_seq cp = s then cp else new_checkpoint s (cp_client_seq cp))"

definition sync_client_seq :: "checkpoint \<Rightarrow> 32 word \<Rightarrow> checkpoint" where
  "sync_client_seq cp c =
     (if cp_client_seq cp < c then new_checkpoint (cp_server_seq cp) c else cp)"

definition cp_equals :: "checkpoint \<Rightarrow> checkpoint \<Rightarrow> bool" where
  "cp_equals a b \<longleftrightarrow> cp_server_seq a = cp_server_seq b \<and> cp_client_seq a = cp_client_seq b"

definition forward :: "checkpoint \<Rightarrow> checkpoint \<Rightarrow> checkpoint" where
  "forward cp other =
     (if cp_equals cp other then cp
      else
        let max_server = (if cp_server_seq cp < cp_server_seq other
                          then cp_server_seq other else cp_server_seq cp);
            max_client = (if cp_client_seq cp < cp_client_seq other
                          then cp_client_seq other else cp_client_seq cp)
        in new_checkpoint max_server max_client)"

definition cp_string :: "checkpoint \<Rightarrow> string" where
  "cp_string cp = ''serverSeq='' @ dec (unat (cp_server_seq cp)) @ '', clientSeq='' @
     dec (unat (cp_client_seq cp))"

text \<open>The order in which checkpoints advance, componentwise.\<close>

definition cp_le :: "checkpoint \<Rightarrow> checkpoint \<Rightarrow> bool" where
  "cp_le a b \<longleftrightarrow> cp_server_seq a \<le> cp_server_seq b \<and> cp_client_seq a \<le> cp_client_seq b"

lemma new_checkpoint_sel [simp]:
  "cp_server_seq (new_checkpoint s c) = s" "cp_client_seq (new_checkpoint s c) = c"
  by (simp_all add: new_checkpoint_def)

lemma new_checkpoint_eta [simp]: "new_checkpoint (cp_server_seq a) (cp_client_seq a) = a"
  by (simp add: new_checkpoint_def)

lemma checkpoint_eqI:
  "cp_server_seq a = cp_server_seq b \<Longrightarrow> cp_client_seq a = cp_client_seq b \<Longrightarrow> a = (b :: checkpoint)"
  by simp

lemma cp_le_refl [simp]: "cp_le a a"
  by (simp add: cp_le_def)

lemma cp_le_trans: "cp_le a b \<Longrightarrow> cp_le b c \<Longrightarrow> cp_le a c"
  by (auto simp: cp_le_def)

lemma forward_max:
  "forward a b = new_checkpoint (max (cp_server_seq a) (cp_server_seq b))
     (max (cp_client_seq a) (cp_client_seq b))"
  by (auto simp: forward_def cp_equals_def Let_def max_def intro!: checkpoint_eqI)

interpretation fwd: semilattice forward
  by unfold_locales (simp_all add: forward_max ac_simps)

lemma sync_client_seq_sel [simp]:
  "cp_server_seq (sync_client_seq cp c) = cp_server_seq cp"
  "cp_client_seq (sync_client_seq cp c) = max (cp_client_seq cp) c"
  by (auto simp: sync_client_seq_def max_def)

lemma next_server_seq_sel [simp]:
  "cp_server_seq (next_server_seq cp s) = s"
  "cp_client_seq (next_server_seq cp s) = cp_client_seq cp"
  by (auto simp: next_server_seq_def)

text \<open>\<open>Checkpoint.Forward\<close> is the join of the componentwise order: commutative,
  associative, idempotent, and the least checkpoint above both, so a checkpoint never goes
  back and the order in which packs arrive does not matter.\<close>
theorem forward_join:
  "forward a b = forward b a \<and> forward (forward a b) c = forward a (forward b c) \<and>
   forward a a = a \<and> (cp_le (forward a b) c \<longleftrightarrow> cp_le a c \<and> cp_le b c)"
  using fwd.commute fwd.assoc fwd.idem by (auto simp: forward_max cp_le_def)

section \<open>Change identifiers and the Lamport clock\<close>

record change_id =
  id_client_seq :: "32 word"
  id_lamport :: "64 word"
  id_actor :: "actor_id option"

definition new_id :: "32 word \<Rightarrow> 64 word \<Rightarrow> actor_id option \<Rightarrow> change_id" where
  "new_id c l a = \<lparr>id_client_seq = c, id_lamport = l, id_actor = a\<rparr>"

definition initial_id :: change_id where
  "initial_id = new_id 0 0 (Some initial_actor_id)"

definition next_id :: "change_id \<Rightarrow> change_id" where
  "next_id i = \<lparr>id_client_seq = id_client_seq i + 1, id_lamport = id_lamport i + 1,
     id_actor = id_actor i\<rparr>"

definition new_time_ticket :: "change_id \<Rightarrow> 32 word \<Rightarrow> ticket" where
  "new_time_ticket i d = Ticket (id_lamport i) d (id_actor i)"

definition sync_lamport :: "change_id \<Rightarrow> 64 word \<Rightarrow> change_id" where
  "sync_lamport i other =
     (if id_lamport i < other then new_id (id_client_seq i) other (id_actor i)
      else new_id (id_client_seq i) (id_lamport i + 1) (id_actor i))"

definition id_set_actor :: "change_id \<Rightarrow> actor_id option \<Rightarrow> change_id" where
  "id_set_actor i a = new_id (id_client_seq i) (id_lamport i) a"

lemma new_id_sel [simp]:
  "id_client_seq (new_id c l a) = c" "id_lamport (new_id c l a) = l" "id_actor (new_id c l a) = a"
  by (simp_all add: new_id_def)

lemma next_id_sel [simp]:
  "id_client_seq (next_id i) = id_client_seq i + 1"
  "id_lamport (next_id i) = id_lamport i + 1"
  "id_actor (next_id i) = id_actor i"
  by (simp_all add: next_id_def)

lemma sync_lamport_sel [simp]:
  "id_client_seq (sync_lamport i l) = id_client_seq i"
  "id_actor (sync_lamport i l) = id_actor i"
  by (simp_all add: sync_lamport_def)

lemma word_less_succ: "(w :: 'a::len word) < v \<Longrightarrow> w < w + 1"
  by (metis inc_less_eq_self_iff_eq linorder_not_le word_n1_ge)

lemma id_set_actor_sel [simp]:
  "id_client_seq (id_set_actor i a) = id_client_seq i"
  "id_lamport (id_set_actor i a) = id_lamport i"
  "id_actor (id_set_actor i a) = a"
  by (simp_all add: id_set_actor_def)

lemma sync_lamport_ge:
  assumes "id_lamport i < - 1"
  shows "id_lamport i < id_lamport (sync_lamport i l)" "l \<le> id_lamport (sync_lamport i l)"
  using word_less_succ [OF assms]
  by (auto simp: sync_lamport_def not_less intro: order.trans)

text \<open>C39: The Lamport clock condition: after the clock of a replica is synchronised with a
  lamport it has received, every ticket it issues for its next change is later than every
  ticket with a lamport up to the received one or up to its own previous one.\<close>
theorem lamport_clock_condition:
  assumes "id_lamport i < 2 ^ 64 - 2" and "l < 2 ^ 64 - 1"
    and "lamport t \<le> l \<or> lamport t \<le> id_lamport i"
  shows "t < new_time_ticket (next_id (sync_lamport i l)) d"
proof -
  let ?s = "sync_lamport i l"
  have i: "id_lamport i < - 1" using assms(1) by (rule order.strict_trans) simp
  have "id_lamport i + 1 < - 1"
    using assms(1)
    by (auto simp: word_less_nat_alt unat_word_ariths unsigned_minus_1_eq_mask mask_eq_exp_minus_1)
  moreover have "l < - 1"
    using assms(2)
    by (simp add: word_less_nat_alt unsigned_minus_1_eq_mask mask_eq_exp_minus_1)
  ultimately have "id_lamport ?s < - 1" by (simp add: sync_lamport_def)
  then have "id_lamport ?s < id_lamport (next_id ?s)" by (simp add: word_less_succ)
  moreover have "lamport t \<le> id_lamport ?s"
    using assms(3) sync_lamport_ge [OF i, of l] by auto
  ultimately show ?thesis
    by (intro less_ticketI) (simp add: new_time_ticket_def)
qed

theorem lamport_clock_condition_witness:
  "Ticket 7 9 None < new_time_ticket (next_id (sync_lamport initial_id 7)) 1"
  using lamport_clock_condition [of initial_id 7 "Ticket 7 9 None" 1]
  by (simp add: initial_id_def)

section \<open>Document keys\<close>

record doc_key =
  collection :: string
  document :: string

definition bson_splitter :: char where
  "bson_splitter = CHR ''$''"

text \<open>\<open>strings.Split\<close> with a separator of one character.\<close>

fun split_on :: "char \<Rightarrow> string \<Rightarrow> string list" where
  "split_on c [] = [[]]"
| "split_on c (x # xs) =
     (if x = c then [] # split_on c xs
      else case split_on c xs of [] \<Rightarrow> [[x]] | s # ss \<Rightarrow> (x # s) # ss)"

definition from_bson_key :: "string \<Rightarrow> doc_key option" where
  "from_bson_key s =
     (let splits = split_on bson_splitter s in
      if length splits \<noteq> 2 then None
      else Some \<lparr>collection = splits ! 0, document = splits ! 1\<rparr>)"

definition bson_key :: "doc_key \<Rightarrow> string" where
  "bson_key k = collection k @ bson_splitter # document k"

lemma split_on_ne [simp]: "split_on c s \<noteq> []"
  by (induction s) (auto split: list.splits)

lemma split_on_append_sep:
  "c \<notin> set s \<Longrightarrow> split_on c (s @ c # t) = s # split_on c t"
  by (induction s) auto

lemma split_on_no_sep: "c \<notin> set s \<Longrightarrow> split_on c s = [s]"
  by (induction s) auto

lemma length_split_on: "length (split_on c s) = Suc (count_list s c)"
  by (induction s) (auto split: list.splits)

text \<open>A document key survives the round trip through its BSON key exactly when neither
  part contains the separator, and a string is refused exactly when it does not have one
  separator.\<close>
theorem bson_key_roundtrip:
  "(from_bson_key (bson_key k) = Some k \<longleftrightarrow>
     bson_splitter \<notin> set (collection k) \<and> bson_splitter \<notin> set (document k)) \<and>
   (from_bson_key s = None \<longleftrightarrow> count_list s bson_splitter \<noteq> 1)"
proof (rule conjI)
  show "from_bson_key s = None \<longleftrightarrow> count_list s bson_splitter \<noteq> 1"
    by (simp add: from_bson_key_def Let_def length_split_on)
  show "from_bson_key (bson_key k) = Some k \<longleftrightarrow>
      bson_splitter \<notin> set (collection k) \<and> bson_splitter \<notin> set (document k)"
  proof
    assume r: "bson_splitter \<notin> set (collection k) \<and> bson_splitter \<notin> set (document k)"
    then show "from_bson_key (bson_key k) = Some k"
      by (simp add: from_bson_key_def bson_key_def split_on_append_sep split_on_no_sep)
  next
    assume "from_bson_key (bson_key k) = Some k"
    then have "length (split_on bson_splitter (bson_key k)) = 2"
      by (auto simp: from_bson_key_def Let_def split: if_splits)
    then have "count_list (collection k) bson_splitter + count_list (document k) bson_splitter = 0"
      by (simp add: length_split_on bson_key_def)
    then show "bson_splitter \<notin> set (collection k) \<and> bson_splitter \<notin> set (document k)"
      by (simp add: count_list_0_iff)
  qed
qed

end
