(* ===== verification/Llrb.thy ===== *)
theory Llrb
  imports Prelude
begin

text \<open>
  The left-leaning red-black tree of \<open>src/pkg/llrb/llrb.go\<close>.  A \<open>*Node\<close> is a \<open>('k, 'v) node\<close>,
  \<open>Nil\<close> for nil; every function that follows a child pointer returns \<open>None\<close> where the Go code
  would dereference nil.  The \<open>parent\<close> fields are written and read by \<open>Floor\<close> only: there the
  model carries the path that \<open>Floor\<close> has just written into them.  The keys are any linear
  order (\<open>Key.Compare\<close>).
\<close>

section \<open>The tree and its rotations\<close>

datatype ('k, 'v) node =
  Nil | Node "('k, 'v) node" 'k 'v bool "('k, 'v) node"

record ('k, 'v) llrb =
  llrb_root :: "('k, 'v) node"
  llrb_size :: int

definition new_tree :: "('k, 'v) llrb" where
  "new_tree = \<lparr>llrb_root = Nil, llrb_size = 0\<rparr>"

fun is_red :: "('k, 'v) node \<Rightarrow> bool" where
  "is_red Nil = False"
| "is_red (Node l k v c r) = c"

fun left_of :: "('k, 'v) node \<Rightarrow> ('k, 'v) node option" where
  "left_of Nil = None"
| "left_of (Node l k v c r) = Some l"

fun right_of :: "('k, 'v) node \<Rightarrow> ('k, 'v) node option" where
  "right_of Nil = None"
| "right_of (Node l k v c r) = Some r"

fun key_of :: "('k, 'v) node \<Rightarrow> 'k option" where
  "key_of Nil = None"
| "key_of (Node l k v c r) = Some k"

fun set_left :: "('k, 'v) node \<Rightarrow> ('k, 'v) node \<Rightarrow> ('k, 'v) node option" where
  "set_left Nil l' = None"
| "set_left (Node l k v c r) l' = Some (Node l' k v c r)"

fun set_right :: "('k, 'v) node \<Rightarrow> ('k, 'v) node \<Rightarrow> ('k, 'v) node option" where
  "set_right Nil r' = None"
| "set_right (Node l k v c r) r' = Some (Node l k v c r')"

fun set_red :: "bool \<Rightarrow> ('k, 'v) node \<Rightarrow> ('k, 'v) node option" where
  "set_red b Nil = None"
| "set_red b (Node l k v c r) = Some (Node l k v b r)"

fun rotate_left :: "('k, 'v) node \<Rightarrow> ('k, 'v) node option" where
  "rotate_left (Node l k v c (Node rl rk rv rc rr)) = Some (Node (Node l k v True rl) rk rv c rr)"
| "rotate_left _ = None"

fun rotate_right :: "('k, 'v) node \<Rightarrow> ('k, 'v) node option" where
  "rotate_right (Node (Node ll lk lv lc lr) k v c r) = Some (Node ll lk lv c (Node lr k v True r))"
| "rotate_right _ = None"

fun flip_colors :: "('k, 'v) node \<Rightarrow> ('k, 'v) node option" where
  "flip_colors (Node (Node ll lk lv lc lr) k v c (Node rl rk rv rc rr)) =
     Some (Node (Node ll lk lv (\<not> lc) lr) k v (\<not> c) (Node rl rk rv (\<not> rc) rr))"
| "flip_colors _ = None"

text \<open>\<open>isRed(n) && isRed(n.left)\<close> and \<open>!isRed(n) && !isRed(n.left)\<close>, evaluated left to right:
  the second operand dereferences \<open>n\<close>.\<close>

definition red_and_left_red :: "('k, 'v) node \<Rightarrow> bool option" where
  "red_and_left_red n = (if is_red n then do { l \<leftarrow> left_of n; Some (is_red l) } else Some False)"

definition black_and_left_black :: "('k, 'v) node \<Rightarrow> bool option" where
  "black_and_left_black n =
     (if \<not> is_red n then do { l \<leftarrow> left_of n; Some (\<not> is_red l) } else Some False)"

text \<open>The last two of the three repairs that \<open>put\<close> and \<open>fixUp\<close> share.\<close>

definition fix_left_left :: "('k, 'v) node \<Rightarrow> ('k, 'v) node option" where
  "fix_left_left n = do {
     l \<leftarrow> left_of n;
     b \<leftarrow> red_and_left_red l;
     n \<leftarrow> (if b then rotate_right n else Some n);
     l \<leftarrow> left_of n;
     r \<leftarrow> right_of n;
     if is_red l \<and> is_red r then flip_colors n else Some n }"

definition fix_up :: "('k, 'v) node \<Rightarrow> ('k, 'v) node option" where
  "fix_up n = do {
     r \<leftarrow> right_of n;
     n \<leftarrow> (if is_red r then rotate_left n else Some n);
     fix_left_left n }"

definition put_fix :: "('k, 'v) node \<Rightarrow> ('k, 'v) node option" where
  "put_fix n = do {
     l \<leftarrow> left_of n;
     r \<leftarrow> right_of n;
     n \<leftarrow> (if is_red r \<and> \<not> is_red l then rotate_left n else Some n);
     fix_left_left n }"

definition move_red_left :: "('k, 'v) node \<Rightarrow> ('k, 'v) node option" where
  "move_red_left n = do {
     n \<leftarrow> flip_colors n;
     r \<leftarrow> right_of n;
     rl \<leftarrow> left_of r;
     if is_red rl then do {
       r' \<leftarrow> rotate_right r;
       n \<leftarrow> set_right n r';
       n \<leftarrow> rotate_left n;
       flip_colors n }
     else Some n }"

definition move_red_right :: "('k, 'v) node \<Rightarrow> ('k, 'v) node option" where
  "move_red_right n = do {
     n \<leftarrow> flip_colors n;
     l \<leftarrow> left_of n;
     ll \<leftarrow> left_of l;
     if is_red ll then do {
       n \<leftarrow> rotate_right n;
       flip_colors n }
     else Some n }"

section \<open>Operations\<close>

fun put :: "int \<Rightarrow> ('k::linorder, 'v) node \<Rightarrow> 'k \<Rightarrow> 'v \<Rightarrow> (('k, 'v) node \<times> int) option" where
  "put sz Nil key value = Some (Node Nil key value True Nil, sz + 1)"
| "put sz (Node l k v c r) key value = do {
     (n, sz) \<leftarrow>
       (if key < k then do { (l', sz) \<leftarrow> put sz l key value; Some (Node l' k v c r, sz) }
        else if key > k then do { (r', sz) \<leftarrow> put sz r key value; Some (Node l k v c r', sz) }
        else Some (Node l k value c r, sz));
     n \<leftarrow> put_fix n;
     Some (n, sz) }"

definition tree_put :: "('k::linorder, 'v) llrb \<Rightarrow> 'k \<Rightarrow> 'v \<Rightarrow> ('k, 'v) llrb option" where
  "tree_put t k v = do {
     (root, sz) \<leftarrow> put (llrb_size t) (llrb_root t) k v;
     root \<leftarrow> set_red False root;
     Some \<lparr>llrb_root = root, llrb_size = sz\<rparr> }"

fun min_node :: "('k, 'v) node \<Rightarrow> ('k \<times> 'v) option" where
  "min_node Nil = None"
| "min_node (Node l k v c r) = (if l = Nil then Some (k, v) else min_node l)"

lemma size_rotate:
  "rotate_left n = Some n' \<Longrightarrow> size n' = size n"
  "rotate_right n = Some n' \<Longrightarrow> size n' = size n"
  "flip_colors n = Some n' \<Longrightarrow> size n' = size n"
    apply (cases n rule: rotate_left.cases; auto)
   apply (cases n rule: rotate_right.cases; auto)
  apply (cases n rule: flip_colors.cases; auto)
  done

lemma size_child:
  "left_of n = Some l \<Longrightarrow> size l < size n"
  "right_of n = Some r \<Longrightarrow> size r < size n"
  "right_of n = Some r \<Longrightarrow> set_right n r' = Some n' \<Longrightarrow> size n' + size r = size n + size r'"
  by (cases n; auto)+

lemma size_move_red:
  "move_red_left n = Some n' \<Longrightarrow> size n' = size n"
  "move_red_right n = Some n' \<Longrightarrow> size n' = size n"
  by (auto simp: move_red_left_def move_red_right_def bind_eq_Some_conv split: if_splits
      dest!: size_rotate dest: size_child(3))

function remove_min :: "('k, 'v) node \<Rightarrow> ('k, 'v) node option" where
  "remove_min n = do {
     l \<leftarrow> left_of n;
     if l = Nil then Some Nil
     else do {
       b \<leftarrow> black_and_left_black l;
       n \<leftarrow> (if b then move_red_left n else Some n);
       l \<leftarrow> left_of n;
       l' \<leftarrow> remove_min l;
       n \<leftarrow> set_left n l';
       fix_up n } }"
  by pat_completeness auto
termination
  by (relation "measure size")
     (auto split: if_splits dest!: size_move_red size_child(1))

declare remove_min.simps [simp del]

function remove :: "int \<Rightarrow> ('k::linorder, 'v) node \<Rightarrow> 'k \<Rightarrow> (('k, 'v) node \<times> int) option" where
  "remove sz n key = do {
     k \<leftarrow> key_of n;
     l \<leftarrow> left_of n;
     if key < k then do {
       b \<leftarrow> black_and_left_black l;
       n \<leftarrow> (if b then move_red_left n else Some n);
       l \<leftarrow> left_of n;
       (l', sz) \<leftarrow> remove sz l key;
       n \<leftarrow> set_left n l';
       n \<leftarrow> fix_up n;
       Some (n, sz) }
     else do {
       n \<leftarrow> (if is_red l then rotate_right n else Some n);
       k \<leftarrow> key_of n;
       r \<leftarrow> right_of n;
       if key = k \<and> r = Nil then Some (Nil, sz - 1)
       else do {
         b \<leftarrow> black_and_left_black r;
         n \<leftarrow> (if b then move_red_right n else Some n);
         k \<leftarrow> key_of n;
         r \<leftarrow> right_of n;
         if key = k then do {
           (mk, mv) \<leftarrow> min_node r;
           r' \<leftarrow> remove_min r;
           n \<leftarrow> (case n of Nil \<Rightarrow> None | Node l _ _ c _ \<Rightarrow> Some (Node l mk mv c r'));
           n \<leftarrow> fix_up n;
           Some (n, sz - 1) }
         else do {
           (r', sz) \<leftarrow> remove sz r key;
           n \<leftarrow> set_right n r';
           n \<leftarrow> fix_up n;
           Some (n, sz) } } } }"
  by pat_completeness auto
termination
  by (relation "measure (\<lambda>(_, n, _). size n)")
     (auto split: if_splits dest!: size_move_red size_child(1,2) size_rotate)

declare remove.simps [simp del]

definition tree_remove :: "('k::linorder, 'v) llrb \<Rightarrow> 'k \<Rightarrow> ('k, 'v) llrb option" where
  "tree_remove t key = do {
     let root = llrb_root t;
     l \<leftarrow> left_of root;
     r \<leftarrow> right_of root;
     root \<leftarrow> (if \<not> is_red l \<and> \<not> is_red r then set_red True root else Some root);
     (root, sz) \<leftarrow> remove (llrb_size t) root key;
     root \<leftarrow> (if root \<noteq> Nil then set_red False root else Some root);
     Some \<lparr>llrb_root = root, llrb_size = sz\<rparr> }"

text \<open>
  \<open>Floor\<close> descends from the root, writing each child's \<open>parent\<close> field, and climbs those fields
  when it has gone left into nil.  The path holds, innermost first, whether the step from
  that node went left, and the node's key and value.  \<open>Past_Root\<close> is the climb reading the
  \<open>parent\<close> field of the root itself, which no call has written for this descent: nil in a
  fresh tree (the code then dereferences nil), a stale node otherwise.
\<close>

datatype ('k, 'v) floor_result = No_Floor | Floor 'k 'v | Past_Root

fun climb :: "(bool \<times> 'k \<times> 'v) list \<Rightarrow> ('k, 'v) floor_result" where
  "climb [] = Past_Root"
| "climb ((went_left, k, v) # path) = (if went_left then climb path else Floor k v)"

fun floor_loop :: "('k::linorder, 'v) node \<Rightarrow> (bool \<times> 'k \<times> 'v) list \<Rightarrow> 'k \<Rightarrow>
    ('k, 'v) floor_result" where
  "floor_loop Nil path key = No_Floor"
| "floor_loop (Node l k v c r) path key =
     (if key > k then (if r \<noteq> Nil then floor_loop r ((False, k, v) # path) key else Floor k v)
      else if key < k then (if l \<noteq> Nil then floor_loop l ((True, k, v) # path) key else climb path)
      else Floor k v)"

definition tree_floor :: "('k::linorder, 'v) llrb \<Rightarrow> 'k \<Rightarrow> ('k, 'v) floor_result" where
  "tree_floor t key = floor_loop (llrb_root t) [] key"

fun traverse_in_order :: "('k, 'v) node \<Rightarrow> ('k \<times> 'v) list" where
  "traverse_in_order Nil = []"
| "traverse_in_order (Node l k v c r) = traverse_in_order l @ (k, v) # traverse_in_order r"

definition tree_string :: "('v \<Rightarrow> string) \<Rightarrow> ('k, 'v) llrb \<Rightarrow> string" where
  "tree_string show_value t =
     join_with '','' (map (\<lambda>(k, v). show_value v) (traverse_in_order (llrb_root t)))"

section \<open>Invariants\<close>

text \<open>
  The three invariants of the \<open>Tree\<close> comment: no red node has a red child, every path to a
  leaf has the same number of black nodes, and only left children are red.  The search order
  is the sortedness of the in-order traversal.
\<close>

abbreviation rb_keys :: "('k, 'v) node \<Rightarrow> 'k list" where
  "rb_keys n \<equiv> map fst (traverse_in_order n)"

fun black_height :: "('k, 'v) node \<Rightarrow> nat" where
  "black_height Nil = 0"
| "black_height (Node l k v c r) = black_height l + (if c then 0 else 1)"

fun rb_inv :: "('k, 'v) node \<Rightarrow> bool" where
  "rb_inv Nil = True"
| "rb_inv (Node l k v c r) \<longleftrightarrow> rb_inv l \<and> rb_inv r \<and> black_height l = black_height r \<and>
     \<not> is_red r \<and> (c \<longrightarrow> \<not> is_red l)"

definition llrb_inv :: "('k::linorder, 'v) llrb \<Rightarrow> bool" where
  "llrb_inv t \<longleftrightarrow> rb_inv (llrb_root t) \<and> \<not> is_red (llrb_root t) \<and>
     sorted_wrt (<) (rb_keys (llrb_root t)) \<and>
     llrb_size t = int (length (rb_keys (llrb_root t)))"

definition llrb_map :: "('k, 'v) llrb \<Rightarrow> 'k \<rightharpoonup> 'v" where
  "llrb_map t = map_of (traverse_in_order (llrb_root t))"

lemma black_Nil: "\<not> is_red t \<Longrightarrow> black_height t = 0 \<Longrightarrow> t = Nil"
  by (cases t) auto

lemma red_cases: "is_red t \<Longrightarrow> \<exists>l k v r. t = Node l k v True r"
  by (cases t) auto

lemma black_cases:
  "\<not> is_red t \<Longrightarrow> t \<noteq> Nil \<Longrightarrow> \<exists>l k v r. t = Node l k v False r"
  by (cases t) auto

section \<open>Association lists in key order\<close>

fun upd_list :: "'k::linorder \<Rightarrow> 'v \<Rightarrow> ('k \<times> 'v) list \<Rightarrow> ('k \<times> 'v) list" where
  "upd_list k v [] = [(k, v)]"
| "upd_list k v ((a, b) # ps) =
     (if k < a then (k, v) # (a, b) # ps
      else if k = a then (k, v) # ps else (a, b) # upd_list k v ps)"

definition del_list :: "'k \<Rightarrow> ('k \<times> 'v) list \<Rightarrow> ('k \<times> 'v) list" where
  "del_list k ps = filter (\<lambda>p. fst p \<noteq> k) ps"

lemma map_of_upd_list: "map_of (upd_list k v ps) = (map_of ps)(k \<mapsto> v)"
  by (induction k v ps rule: upd_list.induct) auto

lemma keys_upd_list: "fst ` set (upd_list k v ps) = insert k (fst ` set ps)"
  by (induction k v ps rule: upd_list.induct) auto

lemma sorted_upd_list:
  "sorted_wrt (<) (map fst ps) \<Longrightarrow> sorted_wrt (<) (map fst (upd_list k v ps))"
proof (induction k v ps rule: upd_list.induct)
  case (2 k v a b ps)
  have "set (map fst (upd_list k v ps)) = insert k (set (map fst ps))"
    by (simp add: keys_upd_list)
  with 2 show ?case by auto
qed simp

lemma length_upd_list:
  "sorted_wrt (<) (map fst ps) \<Longrightarrow>
     length (upd_list k v ps) = (if k \<in> set (map fst ps) then length ps else Suc (length ps))"
  by (induction k v ps rule: upd_list.induct) auto

lemma upd_list_left:
  "k < a \<Longrightarrow> upd_list k v (ps @ (a, b) # qs) = upd_list k v ps @ (a, b) # qs"
  by (induction ps) auto

lemma upd_list_right:
  "sorted_wrt (<) (map fst ps @ [a]) \<Longrightarrow> a \<le> k \<Longrightarrow>
     upd_list k v (ps @ (a, b) # qs) = ps @ upd_list k v ((a, b) # qs)"
  by (induction ps) auto

lemma map_of_del_list: "map_of (del_list k ps) = (map_of ps)(k := None)"
  by (induction ps) (auto simp: del_list_def)

lemma del_list_notin: "k \<notin> fst ` set ps \<Longrightarrow> del_list k ps = ps"
  by (induction ps) (auto simp: del_list_def)

lemma del_list_append [simp]: "del_list k (ps @ qs) = del_list k ps @ del_list k qs"
  by (simp add: del_list_def)

lemma del_list_Cons [simp]:
  "del_list k (p # ps) = (if fst p = k then del_list k ps else p # del_list k ps)"
  by (simp add: del_list_def)

lemma del_list_Nil [simp]: "del_list k [] = []"
  by (simp add: del_list_def)

lemma keys_del_list: "fst ` set (del_list k ps) = fst ` set ps - {k}"
  by (induction ps) auto

lemma sorted_del_list:
  "sorted_wrt (<) (map fst ps) \<Longrightarrow> sorted_wrt (<) (map fst (del_list k ps))"
  by (induction ps) (auto simp: del_list_def)

lemma length_del_list:
  "distinct (map fst ps) \<Longrightarrow> k \<in> fst ` set ps \<Longrightarrow> Suc (length (del_list k ps)) = length ps"
  by (induction ps) (auto simp: del_list_notin)

section \<open>Insertion\<close>

text \<open>What \<open>put\<close> may return below a red node: a left-leaning pair of reds at the top.\<close>

fun rb_weak :: "('k, 'v) node \<Rightarrow> bool" where
  "rb_weak Nil = True"
| "rb_weak (Node l k v c r) \<longleftrightarrow> rb_inv l \<and> rb_inv r \<and> black_height l = black_height r \<and>
     \<not> is_red r"

lemmas rb_fix_defs = put_fix_def fix_up_def fix_left_left_def red_and_left_red_def
  black_and_left_black_def

lemma rb_weak_cases: "rb_inv t \<Longrightarrow> rb_weak t" "rb_weak t \<Longrightarrow> \<not> is_red t \<Longrightarrow> rb_inv t"
  by (cases t; auto)+

lemma put_fix_black:
  assumes "rb_inv l" "rb_inv r" "black_height l = black_height r"
  shows "\<exists>t'. put_fix (Node l k v False r) = Some t' \<and> rb_inv t' \<and>
     black_height t' = Suc (black_height l) \<and>
     traverse_in_order t' = traverse_in_order l @ (k, v) # traverse_in_order r"
  using assms
  by (cases l; cases r) (auto simp: rb_fix_defs split: if_splits)

lemma put_fix_black_weak:
  assumes "rb_weak l" "is_red l" "rb_inv r" "\<not> is_red r" "black_height l = black_height r"
  shows "\<exists>t'. put_fix (Node l k v False r) = Some t' \<and> rb_inv t' \<and>
     black_height t' = Suc (black_height l) \<and>
     traverse_in_order t' = traverse_in_order l @ (k, v) # traverse_in_order r"
proof -
  from assms(2) obtain ll lk lv lr where l: "l = Node ll lk lv True lr" by (auto dest: red_cases)
  with assms show ?thesis
    by (cases ll; cases r) (auto simp: rb_fix_defs split: if_splits)
qed

lemma put_fix_red:
  assumes "rb_inv l" "rb_inv r" "black_height l = black_height r" "\<not> (is_red l \<and> is_red r)"
  shows "\<exists>t'. put_fix (Node l k v True r) = Some t' \<and> rb_weak t' \<and>
     black_height t' = black_height l \<and>
     traverse_in_order t' = traverse_in_order l @ (k, v) # traverse_in_order r"
  using assms
  by (cases l; cases r) (auto simp: rb_fix_defs split: if_splits)

lemma put_fix_weak:
  assumes "rb_weak l" "rb_inv r" "\<not> is_red r" "black_height l = black_height r" "c \<Longrightarrow> rb_inv l"
  shows "\<exists>t'. put_fix (Node l k v c r) = Some t' \<and> rb_weak t' \<and> (\<not> c \<longrightarrow> rb_inv t') \<and>
     black_height t' = black_height (Node l k v c r) \<and>
     traverse_in_order t' = traverse_in_order l @ (k, v) # traverse_in_order r"
proof (cases c)
  case True
  with assms put_fix_red [of l r k v] show ?thesis by auto
next
  case False
  show ?thesis
  proof (cases "is_red l")
    case True
    with False assms put_fix_black_weak [of l r k v] rb_weak_cases(1) show ?thesis by auto
  next
    assume "\<not> is_red l"
    with assms(1) have "rb_inv l" by (rule rb_weak_cases(2))
    with False assms put_fix_black [of l r k v] rb_weak_cases(1) show ?thesis by auto
  qed
qed

lemma put_fix_strong:
  assumes "rb_inv l" "rb_inv r" "black_height l = black_height r" "c \<Longrightarrow> \<not> is_red l"
  shows "\<exists>t'. put_fix (Node l k v c r) = Some t' \<and> rb_weak t' \<and> (\<not> c \<longrightarrow> rb_inv t') \<and>
     black_height t' = black_height (Node l k v c r) \<and>
     traverse_in_order t' = traverse_in_order l @ (k, v) # traverse_in_order r"
  using assms put_fix_red [of l r k v] put_fix_black [of l r k v] rb_weak_cases(1)
  by (cases c) auto

lemma put_correct:
  assumes "rb_inv t" "sorted_wrt (<) (rb_keys t)"
  shows "\<exists>t'. put sz t key value =
       Some (t', sz + (if key \<in> set (rb_keys t) then 0 else 1)) \<and>
     traverse_in_order t' = upd_list key value (traverse_in_order t) \<and>
     black_height t' = black_height t \<and> rb_weak t' \<and> (\<not> is_red t \<longrightarrow> rb_inv t')"
  using assms
proof (induction t)
  case (Node l k v c r)
  let ?L = "traverse_in_order l" and ?R = "traverse_in_order r"
  from Node.prems have inv: "rb_inv l" "rb_inv r" "black_height l = black_height r" "\<not> is_red r"
      "c \<Longrightarrow> \<not> is_red l"
    and srt: "sorted_wrt (<) (map fst ?L)" "sorted_wrt (<) (map fst ?R)"
      "sorted_wrt (<) (map fst ?L @ [k])" "\<forall>x\<in>set (map fst ?L). x < k" "\<forall>x\<in>set (map fst ?R). k < x"
    by (auto simp: sorted_wrt_append)
  consider "key < k" | "k < key" | "key = k" by fastforce
  then show ?case
  proof cases
    case 1
    with srt have mem: "key \<in> set (rb_keys (Node l k v c r)) \<longleftrightarrow> key \<in> set (rb_keys l)" by auto
    from Node.IH(1) [OF inv(1) srt(1)] obtain l' where l':
      "put sz l key value = Some (l', sz + (if key \<in> set (rb_keys l) then 0 else 1))"
      "traverse_in_order l' = upd_list key value ?L" "black_height l' = black_height l"
      "rb_weak l'" "\<not> is_red l \<longrightarrow> rb_inv l'" by blast
    with inv put_fix_weak [of l' r c k v] obtain t' where
      "put_fix (Node l' k v c r) = Some t'" "rb_weak t'" "\<not> c \<longrightarrow> rb_inv t'"
      "black_height t' = black_height (Node l' k v c r)"
      "traverse_in_order t' = upd_list key value ?L @ (k, v) # ?R"
      by auto
    with 1 l' mem show ?thesis by (simp add: upd_list_left)
  next
    case 2
    then have ord: "\<not> key < k" "key \<noteq> k" "k \<le> key" by auto
    from 2 srt have mem: "key \<in> set (rb_keys (Node l k v c r)) \<longleftrightarrow> key \<in> set (rb_keys r)" by auto
    from Node.IH(2) [OF inv(2) srt(2)] inv(4) obtain r' where r':
      "put sz r key value = Some (r', sz + (if key \<in> set (rb_keys r) then 0 else 1))"
      "traverse_in_order r' = upd_list key value ?R" "black_height r' = black_height r"
      "rb_inv r'" by blast
    with inv put_fix_strong [of l r' c k v] obtain t' where
      "put_fix (Node l k v c r') = Some t'" "rb_weak t'" "\<not> c \<longrightarrow> rb_inv t'"
      "black_height t' = black_height (Node l k v c r')"
      "traverse_in_order t' = ?L @ (k, v) # upd_list key value ?R"
      by auto
    with 2 ord r' mem srt(3) show ?thesis by (simp add: upd_list_right)
  next
    case 3
    from inv put_fix_strong [of l r c k "value"] obtain t' where
      "put_fix (Node l k value c r) = Some t'" "rb_weak t'" "\<not> c \<longrightarrow> rb_inv t'"
      "black_height t' = black_height (Node l k value c r)"
      "traverse_in_order t' = ?L @ (k, value) # ?R"
      by auto
    with 3 srt(3) show ?thesis by (simp add: upd_list_right)
  qed
qed simp

section \<open>Deletion\<close>

lemma move_red_left_borrow:
  "move_red_left (Node (Node ll lk lv False lr) k v True (Node (Node a xk xv True b) rk rv False rr)) =
     Some (Node (Node (Node ll lk lv True lr) k v False a) xk xv True (Node b rk rv False rr))"
  by (simp add: move_red_left_def)

lemma move_red_left_merge:
  "\<not> is_red rl \<Longrightarrow>
     move_red_left (Node (Node ll lk lv False lr) k v True (Node rl rk rv False rr)) =
     Some (Node (Node ll lk lv True lr) k v False (Node rl rk rv True rr))"
  by (simp add: move_red_left_def)

lemma move_red_right_borrow:
  "move_red_right (Node (Node (Node a xk xv True b) lk lv False lr) k v True (Node rl rk rv False rr)) =
     Some (Node (Node a xk xv False b) lk lv True (Node lr k v False (Node rl rk rv True rr)))"
  by (simp add: move_red_right_def)

lemma move_red_right_merge:
  "\<not> is_red ll \<Longrightarrow>
     move_red_right (Node (Node ll lk lv False lr) k v True (Node rl rk rv False rr)) =
     Some (Node (Node ll lk lv True lr) k v False (Node rl rk rv True rr))"
  by (simp add: move_red_right_def)

lemma fix_up_black:
  assumes "rb_inv l" "rb_inv r" "black_height l = black_height r"
  shows "\<exists>t'. fix_up (Node l k v False r) = Some t' \<and> rb_inv t' \<and>
     black_height t' = Suc (black_height l) \<and>
     (is_red t' \<longrightarrow> is_red l \<and> is_red r) \<and>
     traverse_in_order t' = traverse_in_order l @ (k, v) # traverse_in_order r"
proof (cases "is_red l \<and> is_red r")
  case True
  then obtain ll lk lv lr rl rk rv rr where
    "l = Node ll lk lv True lr" "r = Node rl rk rv True rr" by (auto dest!: red_cases)
  with assms show ?thesis by (auto simp: rb_fix_defs)
next
  case False
  with assms show ?thesis by (cases l; cases r) (auto simp: rb_fix_defs split: if_splits)
qed

lemma fix_up_red:
  assumes "\<not> is_red l" "\<not> is_red r"
  shows "fix_up (Node l k v True r) = Some (Node l k v True r)"
  using assms by (simp add: rb_fix_defs)

text \<open>
  \<open>removeMin\<close> and \<open>remove\<close> are called with a red node, or a black one with one red child.
  The result keeps the invariants and the black height, and a black node stays black.
\<close>

definition rb_result :: "('k, 'v) node \<Rightarrow> ('k, 'v) node \<Rightarrow> bool" where
  "rb_result t t' \<longleftrightarrow> rb_inv t' \<and> black_height t' = black_height t \<and> (\<not> is_red t \<longrightarrow> \<not> is_red t')"

definition rb_entry :: "('k, 'v) node \<Rightarrow> bool" where
  "rb_entry t \<longleftrightarrow> rb_inv t \<and> (is_red t \<or> (\<exists>l. left_of t = Some l \<and> is_red l))"

definition rb_right_lean :: "('k::linorder, 'v) node \<Rightarrow> 'k \<Rightarrow> bool" where
  "rb_right_lean t key \<longleftrightarrow> (\<exists>l k v r. t = Node l k v False r \<and> rb_inv l \<and> rb_inv r \<and>
     black_height l = black_height r \<and> \<not> is_red l \<and> is_red r \<and> k \<le> key)"

lemma rb_entry_Node:
  "rb_entry (Node l k v c r) \<longleftrightarrow> rb_inv l \<and> rb_inv r \<and> black_height l = black_height r \<and>
     \<not> is_red r \<and> (c \<longleftrightarrow> \<not> is_red l)"
  by (auto simp: rb_entry_def)

lemma rb_result_red: "rb_inv t \<Longrightarrow> is_red t \<Longrightarrow> rb_entry t"
  by (simp add: rb_entry_def)

text \<open>Before descending to the left, \<open>moveRedLeft\<close> makes the left child fit for the recursive
  call, and \<open>fixUp\<close> restores the node whatever that call returns.\<close>

lemma descend_left:
  assumes "rb_entry (Node l k v c r)" "l \<noteq> Nil"
  obtains b l1 k1 v1 c1 r1 xs where
    "black_and_left_black l = Some b"
    "(if b then move_red_left (Node l k v c r) else Some (Node l k v c r)) = Some (Node l1 k1 v1 c1 r1)"
    "rb_entry l1" "size l1 < size (Node l k v c r)"
    "traverse_in_order l1 @ (k1, v1) # traverse_in_order r1 = traverse_in_order (Node l k v c r)"
    "traverse_in_order l1 = traverse_in_order l @ xs"
    "\<And>l2. rb_result l1 l2 \<Longrightarrow> \<exists>t'. fix_up (Node l2 k1 v1 c1 r1) = Some t' \<and>
       rb_result (Node l k v c r) t' \<and>
       traverse_in_order t' = traverse_in_order l2 @ (k1, v1) # traverse_in_order r1"
proof (cases "is_red l")
  case True
  with assms have c: "c = False" and e: "rb_entry l" and
    i: "rb_inv r" "\<not> is_red r" "black_height l = black_height r"
    by (auto simp: rb_entry_Node intro: rb_result_red)
  have clo: "\<exists>t'. fix_up (Node l2 k v c r) = Some t' \<and> rb_result (Node l k v c r) t' \<and>
      traverse_in_order t' = traverse_in_order l2 @ (k, v) # traverse_in_order r"
    if "rb_result l l2" for l2
    using that c i fix_up_black [of l2 r k v] by (auto simp: rb_result_def)
  from True show thesis
    by (intro that [where b = False, OF _ _ e _ _ _ clo]) (simp_all add: black_and_left_black_def)
next
  case False
  with assms obtain ll lk lv lr where l: "l = Node ll lk lv False lr" by (auto dest: black_cases)
  with assms have inv: "c = True" "rb_inv l" "rb_inv r" "black_height l = black_height r" "\<not> is_red r"
    by (auto simp: rb_entry_Node)
  then obtain rl rk rv rr where r: "r = Node rl rk rv False rr"
    using l by (cases r) auto
  show thesis
  proof (cases "is_red ll")
    case True
    have clo: "\<exists>t'. fix_up (Node l2 k v c r) = Some t' \<and> rb_result (Node l k v c r) t' \<and>
        traverse_in_order t' = traverse_in_order l2 @ (k, v) # traverse_in_order r"
      if "rb_result l l2" for l2
      using that l inv fix_up_red [of l2 r k v] by (auto simp: rb_result_def)
    from True l inv show thesis
      by (intro that [where b = False, OF _ _ _ _ _ _ clo])
         (simp_all add: black_and_left_black_def rb_entry_Node)
  next
    case ll: False
    then have b: "black_and_left_black l = Some True" using l by (simp add: black_and_left_black_def)
    let ?l = "Node ll lk lv True lr"
    show thesis
    proof (cases "is_red rl")
      case True
      then obtain x xk xv y where rl: "rl = Node x xk xv True y" by (auto dest: red_cases)
      let ?l1 = "Node ?l k v False x" and ?r1 = "Node y rk rv False rr"
      have clo: "\<exists>t'. fix_up (Node l2 xk xv True ?r1) = Some t' \<and> rb_result (Node l k v c r) t' \<and>
          traverse_in_order t' = traverse_in_order l2 @ (xk, xv) # traverse_in_order ?r1"
        if "rb_result ?l1 l2" for l2
        using that l r rl inv fix_up_red [of l2 ?r1 xk xv] by (auto simp: rb_result_def)
      from l r rl inv ll show thesis
        by (intro that [OF b _ _ _ _ _ clo]) (simp_all add: move_red_left_borrow rb_entry_Node)
    next
      case False
      let ?r1 = "Node rl rk rv True rr"
      have clo: "\<exists>t'. fix_up (Node l2 k v False ?r1) = Some t' \<and> rb_result (Node l k v c r) t' \<and>
          traverse_in_order t' = traverse_in_order l2 @ (k, v) # traverse_in_order ?r1"
        if "rb_result ?l l2" for l2
        using that False l r inv fix_up_black [of l2 ?r1 k v] by (auto simp: rb_result_def)
      from False l r inv ll show thesis
        by (intro that [OF b _ _ _ _ _ clo]) (simp_all add: move_red_left_merge rb_entry_Node)
    qed
  qed
qed

lemma traverse_ne [simp]: "traverse_in_order t = [] \<longleftrightarrow> t = Nil"
  by (cases t) auto

lemma min_node_hd: "t \<noteq> Nil \<Longrightarrow> min_node t = Some (hd (traverse_in_order t))"
  by (induction t) (auto simp: hd_append)

lemma remove_min_correct:
  assumes "rb_entry t"
  shows "\<exists>t' mk mv. remove_min t = Some t' \<and> min_node t = Some (mk, mv) \<and>
     traverse_in_order t = (mk, mv) # traverse_in_order t' \<and> rb_result t t'"
  using assms
proof (induction "size t" arbitrary: t rule: less_induct)
  case less
  then obtain l k v c r where t: "t = Node l k v c r" by (cases t) (auto simp: rb_entry_def)
  show ?case
  proof (cases "l = Nil")
    case True
    with less.prems t have "r = Nil" by (auto simp: rb_entry_Node intro: black_Nil)
    with True t less.prems show ?thesis
      by (auto simp: remove_min.simps rb_result_def rb_entry_Node)
  next
    case False
    from less.prems t have e: "rb_entry (Node l k v c r)" by simp
    obtain b l1 k1 v1 c1 r1 xs where d:
      "black_and_left_black l = Some b"
      "(if b then move_red_left (Node l k v c r) else Some (Node l k v c r)) = Some (Node l1 k1 v1 c1 r1)"
      "rb_entry l1" "size l1 < size (Node l k v c r)"
      "traverse_in_order l1 @ (k1, v1) # traverse_in_order r1 = traverse_in_order (Node l k v c r)"
      "traverse_in_order l1 = traverse_in_order l @ xs"
      and clo: "\<And>l2. rb_result l1 l2 \<Longrightarrow> \<exists>t'. fix_up (Node l2 k1 v1 c1 r1) = Some t' \<and>
         rb_result (Node l k v c r) t' \<and>
         traverse_in_order t' = traverse_in_order l2 @ (k1, v1) # traverse_in_order r1"
      by (rule descend_left [OF e False], rule that) blast+
    from less.hyps [of l1] d(3,4) t obtain l2 mk mv where l2: "remove_min l1 = Some l2"
      "traverse_in_order l1 = (mk, mv) # traverse_in_order l2" "rb_result l1 l2" by auto
    from clo [OF l2(3)] obtain t' where t': "fix_up (Node l2 k1 v1 c1 r1) = Some t'"
      "rb_result (Node l k v c r) t'"
      "traverse_in_order t' = traverse_in_order l2 @ (k1, v1) # traverse_in_order r1" by blast
    have tr: "traverse_in_order t = (mk, mv) # traverse_in_order t'"
      using d(5) l2(2) t'(3) t by simp
    have "min_node t = Some (mk, mv)"
      using min_node_hd [of t] t tr by simp
    moreover have "remove_min t = Some t'"
      unfolding t
      by (subst remove_min.simps, use False d(1,2) l2(1) t'(1) in \<open>cases b; simp\<close>)
    ultimately show ?thesis using tr t'(2) t by blast
  qed
qed

text \<open>The mirror image for the right child; a key that is not below the node's is needed after
  \<open>moveRedRight\<close> has rotated the old root into the right subtree.\<close>

lemma descend_right:
  assumes "rb_entry t \<and> \<not> is_red l \<or> rb_right_lean t key" "t = Node l k v c r" "r \<noteq> Nil" "k \<le> key"
    and srt: "sorted_wrt (<) (rb_keys t)"
  obtains b l1 k1 v1 c1 r1 where
    "black_and_left_black r = Some b"
    "(if b then move_red_right t else Some t) = Some (Node l1 k1 v1 c1 r1)"
    "rb_entry r1 \<or> k1 \<noteq> key \<and> rb_right_lean r1 key" "size r1 < size t" "k1 \<le> key"
    "traverse_in_order l1 @ (k1, v1) # traverse_in_order r1 = traverse_in_order t"
    "\<And>r2 k2 v2. rb_result r1 r2 \<Longrightarrow> \<exists>t'. fix_up (Node l1 k2 v2 c1 r2) = Some t' \<and>
       rb_result t t' \<and>
       traverse_in_order t' = traverse_in_order l1 @ (k2, v2) # traverse_in_order r2"
proof (cases "is_red r")
  case True
  with assms(1,2) have i: "c = False" "rb_inv l" "rb_inv r" "black_height l = black_height r" "\<not> is_red l"
    by (auto simp: rb_entry_Node rb_right_lean_def)
  have clo: "\<exists>t'. fix_up (Node l k2 v2 c r2) = Some t' \<and> rb_result t t' \<and>
      traverse_in_order t' = traverse_in_order l @ (k2, v2) # traverse_in_order r2"
    if "rb_result r r2" for r2 k2 v2
    using that i assms(2) fix_up_black [of l r2 k2 v2] by (auto simp: rb_result_def)
  from True i assms(2,4) show thesis
    by (intro that [where b = False, OF _ _ _ _ _ _ clo])
       (simp_all add: black_and_left_black_def rb_result_red)
next
  case False
  with assms(1,2) have inv: "c = True" "rb_inv l" "rb_inv r" "black_height l = black_height r" "\<not> is_red l"
    by (auto simp: rb_entry_Node rb_right_lean_def)
  from False assms(3) obtain rl rk rv rr where r: "r = Node rl rk rv False rr"
    by (auto dest: black_cases)
  with inv obtain ll lk lv lr where l: "l = Node ll lk lv False lr" by (cases l) auto
  show thesis
  proof (cases "is_red rl")
    case True
    have clo: "\<exists>t'. fix_up (Node l k2 v2 c r2) = Some t' \<and> rb_result t t' \<and>
        traverse_in_order t' = traverse_in_order l @ (k2, v2) # traverse_in_order r2"
      if "rb_result r r2" for r2 k2 v2
      using that r inv assms(2) fix_up_red [of l r2 k2 v2] by (auto simp: rb_result_def)
    from True r inv assms(2,4) show thesis
      by (intro that [where b = False, OF _ _ _ _ _ _ clo])
         (simp_all add: black_and_left_black_def rb_entry_Node)
  next
    case rl: False
    then have b: "black_and_left_black r = Some True" using r by (simp add: black_and_left_black_def)
    show thesis
    proof (cases "is_red ll")
      case True
      then obtain x xk xv y where ll: "ll = Node x xk xv True y" by (auto dest: red_cases)
      let ?l1 = "Node x xk xv False y" and ?r1 = "Node lr k v False (Node rl rk rv True rr)"
      have "lk < k" using srt l assms(2) by (auto simp: sorted_wrt_append)
      have clo: "\<exists>t'. fix_up (Node ?l1 k2 v2 True r2) = Some t' \<and> rb_result t t' \<and>
          traverse_in_order t' = traverse_in_order ?l1 @ (k2, v2) # traverse_in_order r2"
        if "rb_result ?r1 r2" for r2 k2 v2
        using that l r ll inv assms(2) fix_up_red [of ?l1 r2 k2 v2] by (auto simp: rb_result_def)
      from l r ll inv rl assms(2,4) \<open>lk < k\<close> show thesis
        by (intro that [OF b _ _ _ _ _ clo, of lk lv])
           (auto simp: move_red_right_borrow rb_right_lean_def)
    next
      case False
      let ?l1 = "Node ll lk lv True lr" and ?r1 = "Node rl rk rv True rr"
      have clo: "\<exists>t'. fix_up (Node ?l1 k2 v2 False r2) = Some t' \<and> rb_result t t' \<and>
          traverse_in_order t' = traverse_in_order ?l1 @ (k2, v2) # traverse_in_order r2"
        if "rb_result ?r1 r2" for r2 k2 v2
        using that False l r inv assms(2) fix_up_black [of ?l1 r2 k2 v2] by (auto simp: rb_result_def)
      from False l r inv rl assms(2,4) show thesis
        by (intro that [OF b _ _ _ _ _ clo, of k v])
           (simp_all add: move_red_right_merge rb_entry_Node)
    qed
  qed
qed

lemma rotate_right_entry:
  assumes "rb_entry (Node l k v c r)" "is_red l"
  obtains l' k' v' where
    "rotate_right (Node l k v c r) = Some (Node l' k' v' False (Node (the (right_of l)) k v True r))"
    "rb_right_lean (Node l' k' v' False (Node (the (right_of l)) k v True r)) key \<longleftrightarrow> k' \<le> key"
    "traverse_in_order (Node l' k' v' False (Node (the (right_of l)) k v True r)) =
       traverse_in_order (Node l k v c r)"
    "black_height (Node l' k' v' False (Node (the (right_of l)) k v True r)) =
       black_height (Node l k v c r)"
    "sorted_wrt (<) (rb_keys (Node l k v c r)) \<Longrightarrow> k' < k"
    "c = False"
proof -
  from assms(2) obtain ll lk lv lr where "l = Node ll lk lv True lr" by (auto dest: red_cases)
  with assms(1) show thesis
    by (intro that [of ll lk lv]) (auto simp: rb_entry_Node rb_right_lean_def sorted_wrt_append)
qed

text \<open>The right branch of \<open>remove\<close>, from a node whose left child is black.\<close>

lemma remove_right:
  fixes t :: "('k::linorder, 'v) node"
  assumes pre: "rb_entry t \<and> \<not> is_red l \<or> rb_right_lean t key" and t: "t = Node l k v c r"
    and ord: "k \<le> key" and srt: "sorted_wrt (<) (rb_keys t)" and mem: "key \<in> set (rb_keys t)"
    and IH: "\<And>t1 :: ('k, 'v) node. \<lbrakk>size t1 < size t; rb_entry t1 \<or> rb_right_lean t1 key;
      sorted_wrt (<) (rb_keys t1); key \<in> set (rb_keys t1)\<rbrakk> \<Longrightarrow>
      \<exists>t'. remove sz t1 key = Some (t', sz - 1) \<and> rb_result t1 t' \<and>
        traverse_in_order t' = del_list key (traverse_in_order t1)"
  shows "\<exists>t'. remove sz t key = Some (t', sz - 1) \<and> rb_result t t' \<and>
    traverse_in_order t' = del_list key (traverse_in_order t)"
proof -
  from ord have ord': "\<not> key < k" by simp
  from pre t have bl: "\<not> is_red l" by (auto simp: rb_right_lean_def)
  show ?thesis
  proof (cases "r = Nil")
    case True
    then have "rb_entry t" using pre t by (auto simp: rb_right_lean_def)
    with True t bl have "l = Nil" "c" by (auto simp: rb_entry_Node intro: black_Nil)
    with True t mem show ?thesis
      by (auto simp: remove.simps [of sz "Node Nil k v True Nil"] rb_result_def)
  next
    case False
    obtain b l1 k1 v1 c1 r1 where d:
      "black_and_left_black r = Some b"
      "(if b then move_red_right t else Some t) = Some (Node l1 k1 v1 c1 r1)"
      "rb_entry r1 \<or> k1 \<noteq> key \<and> rb_right_lean r1 key" "size r1 < size t" "k1 \<le> key"
      "traverse_in_order l1 @ (k1, v1) # traverse_in_order r1 = traverse_in_order t"
      and clo: "\<And>r2 k2 v2. rb_result r1 r2 \<Longrightarrow> \<exists>t'. fix_up (Node l1 k2 v2 c1 r2) = Some t' \<and>
         rb_result t t' \<and>
         traverse_in_order t' = traverse_in_order l1 @ (k2, v2) # traverse_in_order r2"
      by (rule descend_right [OF pre t False ord srt], rule that) blast+
    from srt have srt': "sorted_wrt (<) (rb_keys l1 @ k1 # rb_keys r1)" unfolding d(6) [symmetric] by simp
    have notin: "key \<notin> set (rb_keys l1)" using srt' d(5) by (auto simp: sorted_wrt_append)
    show ?thesis
    proof (cases "key = k1")
      case True
      with d(3) have "rb_entry r1" by simp
      then obtain r2 mk mv where r2: "remove_min r1 = Some r2" "min_node r1 = Some (mk, mv)"
        "traverse_in_order r1 = (mk, mv) # traverse_in_order r2" "rb_result r1 r2"
        using remove_min_correct by blast
      from clo [OF r2(4), of mk mv] obtain t' where t': "fix_up (Node l1 mk mv c1 r2) = Some t'"
        "rb_result t t'" "traverse_in_order t' = traverse_in_order l1 @ (mk, mv) # traverse_in_order r2"
        by blast
      have "key \<notin> set (rb_keys r1)" using srt' True by (auto simp: sorted_wrt_append)
      then have "traverse_in_order t' = del_list key (traverse_in_order t)"
        using d(6) [symmetric] t'(3) r2(3) True notin by (auto simp: del_list_notin)
      moreover have "remove sz t key = Some (t', sz - 1)"
        unfolding t
        by (subst remove.simps, use bl ord' False d(1,2) t True r2 t'(1) in \<open>cases b; simp\<close>)
      ultimately show ?thesis using t'(2) by blast
    next
      case k1: False
      have "key \<in> set (rb_keys r1)"
        using mem notin k1 unfolding d(6) [symmetric] by auto
      with IH [of r1] d(3,4) srt' obtain r2 where r2: "remove sz r1 key = Some (r2, sz - 1)"
        "rb_result r1 r2" "traverse_in_order r2 = del_list key (traverse_in_order r1)"
        by (auto simp: sorted_wrt_append)
      from clo [OF r2(2), of k1 v1] obtain t' where t': "fix_up (Node l1 k1 v1 c1 r2) = Some t'"
        "rb_result t t'" "traverse_in_order t' = traverse_in_order l1 @ (k1, v1) # traverse_in_order r2"
        by blast
      have "traverse_in_order t' = del_list key (traverse_in_order t)"
        using d(6) [symmetric] t'(3) r2(3) k1 notin by (auto simp: del_list_notin)
      moreover have "remove sz t key = Some (t', sz - 1)"
        unfolding t
        by (subst remove.simps, use bl ord' False d(1,2) t k1 r2 t'(1) in \<open>cases b; simp\<close>)
      ultimately show ?thesis using t'(2) by blast
    qed
  qed
qed

lemma remove_correct:
  assumes "rb_entry t \<or> rb_right_lean t key" "sorted_wrt (<) (rb_keys t)" "key \<in> set (rb_keys t)"
  shows "\<exists>t'. remove sz t key = Some (t', sz - 1) \<and> rb_result t t' \<and>
    traverse_in_order t' = del_list key (traverse_in_order t)"
  using assms
proof (induction "size t" arbitrary: t rule: less_induct)
  case less
  then obtain l k v c r where t: "t = Node l k v c r" by (cases t) auto
  from less.prems(2) t have srt: "sorted_wrt (<) (map fst (traverse_in_order l))"
      "\<forall>x\<in>set (rb_keys l). x < k" "\<forall>x\<in>set (rb_keys r). k < x"
    by (auto simp: sorted_wrt_append)
  show ?case
  proof (cases "key < k")
    case True
    with less.prems(1) t have e: "rb_entry (Node l k v c r)" by (auto simp: rb_right_lean_def)
    from True less.prems(3) t srt(3) have mem: "key \<in> set (rb_keys l)" by auto
    then have ne: "l \<noteq> Nil" by auto
    obtain b l1 k1 v1 c1 r1 xs where d:
      "black_and_left_black l = Some b"
      "(if b then move_red_left (Node l k v c r) else Some (Node l k v c r)) = Some (Node l1 k1 v1 c1 r1)"
      "rb_entry l1" "size l1 < size (Node l k v c r)"
      "traverse_in_order l1 @ (k1, v1) # traverse_in_order r1 = traverse_in_order (Node l k v c r)"
      "traverse_in_order l1 = traverse_in_order l @ xs"
      and clo: "\<And>l2. rb_result l1 l2 \<Longrightarrow> \<exists>t'. fix_up (Node l2 k1 v1 c1 r1) = Some t' \<and>
         rb_result (Node l k v c r) t' \<and>
         traverse_in_order t' = traverse_in_order l2 @ (k1, v1) # traverse_in_order r1"
      by (rule descend_left [OF e ne], rule that) blast+
    have srt1: "sorted_wrt (<) (rb_keys l1 @ k1 # rb_keys r1)"
      using less.prems(2) t arg_cong [OF d(5), of "map fst"] by simp
    have mem1: "key \<in> set (rb_keys l1)" using mem d(6) by auto
    from less.hyps [of l1] d(3,4) t srt1 mem1 obtain l2 where l2:
      "remove sz l1 key = Some (l2, sz - 1)" "rb_result l1 l2"
      "traverse_in_order l2 = del_list key (traverse_in_order l1)"
      by (auto simp: sorted_wrt_append)
    from clo [OF l2(2)] obtain t' where t': "fix_up (Node l2 k1 v1 c1 r1) = Some t'"
      "rb_result (Node l k v c r) t'"
      "traverse_in_order t' = traverse_in_order l2 @ (k1, v1) # traverse_in_order r1" by blast
    have "key < k1" "\<forall>x\<in>set (rb_keys r1). k1 < x" using srt1 mem1 by (auto simp: sorted_wrt_append)
    then have "key \<noteq> k1" "key \<notin> set (rb_keys r1)" by force+
    then have "traverse_in_order t' = del_list key (traverse_in_order t)"
      using t'(3) l2(3) t d(5) [symmetric] by (auto simp: del_list_notin)
    moreover have "remove sz t key = Some (t', sz - 1)"
      unfolding t
      by (subst remove.simps, use True d(1,2) l2(1) t'(1) in \<open>cases b; simp\<close>)
    ultimately show ?thesis using t'(2) t by blast
  next
    case False
    then have ord: "k \<le> key" by simp
    show ?thesis
    proof (cases "is_red l \<and> rb_entry t")
      case True
      let ?r = "Node (the (right_of l)) k v True r"
      from True t rotate_right_entry [of l k v c r key] obtain l' k' v' where n:
        "rotate_right t = Some (Node l' k' v' False ?r)"
        "rb_right_lean (Node l' k' v' False ?r) key \<longleftrightarrow> k' \<le> key"
        "traverse_in_order (Node l' k' v' False ?r) = traverse_in_order t"
        "black_height (Node l' k' v' False ?r) = black_height t"
        "k' < k" "c = False"
        using less.prems(2) by metis
      let ?n = "Node l' k' v' False ?r"
      have size: "size ?n = size t" using n(1) by (auto dest: size_rotate)
      have lean: "rb_right_lean ?n key" using n(2,5) ord by simp
      then have bl: "\<not> is_red l'" by (auto simp: rb_right_lean_def)
      have nk: "\<not> key < k'" using n(5) ord by simp
      have eq: "remove sz t key = remove sz ?n key"
        using True n(1,5) False bl nk
        by (simp add: t remove.simps [of sz "Node l k v c r"] remove.simps [of sz ?n])
      have "\<exists>t'. remove sz ?n key = Some (t', sz - 1) \<and> rb_result ?n t' \<and>
          traverse_in_order t' = del_list key (traverse_in_order ?n)"
      proof (rule remove_right [OF _ refl])
        show "rb_entry ?n \<and> \<not> is_red l' \<or> rb_right_lean ?n key" using lean by blast
        show "k' \<le> key" using n(5) ord by simp
        show "sorted_wrt (<) (rb_keys ?n)" "key \<in> set (rb_keys ?n)"
          using less.prems(2,3) n(3) by simp_all
      qed (use less.hyps size in auto)
      moreover have "rb_result ?n t' \<Longrightarrow> rb_result t t'" for t'
        using n(4,6) t by (auto simp: rb_result_def)
      ultimately show ?thesis unfolding eq n(3) by blast
    next
      case nr: False
      then have "rb_entry t \<and> \<not> is_red l \<or> rb_right_lean t key" using less.prems(1) by blast
      then show ?thesis
        using remove_right [OF _ t ord less.prems(2,3)] less.hyps by blast
    qed
  qed
qed

section \<open>Correctness of the tree\<close>

lemma upd_list_ne [simp]: "upd_list k v ps \<noteq> []"
  by (cases "(k, v, ps)" rule: upd_list.cases) auto

lemma strictly_sorted_distinct:
  fixes xs :: "'a::linorder list"
  shows "sorted_wrt (<) xs \<Longrightarrow> distinct xs"
  by (simp add: strict_sorted_iff)

lemma tree_put_correct:
  assumes "llrb_inv t"
  shows "\<exists>t'. tree_put t k v = Some t' \<and> llrb_inv t' \<and> llrb_map t' = (llrb_map t)(k \<mapsto> v) \<and>
    traverse_in_order (llrb_root t') = upd_list k v (traverse_in_order (llrb_root t))"
proof -
  let ?r = "llrb_root t"
  from assms have i: "rb_inv ?r" "\<not> is_red ?r" "sorted_wrt (<) (rb_keys ?r)"
    "llrb_size t = int (length (rb_keys ?r))" by (auto simp: llrb_inv_def)
  from put_correct [OF i(1,3)] i(2) obtain t' where t':
    "put (llrb_size t) ?r k v = Some (t', llrb_size t + (if k \<in> set (rb_keys ?r) then 0 else 1))"
    "traverse_in_order t' = upd_list k v (traverse_in_order ?r)" "rb_inv t'" by blast
  from t'(2) have "t' \<noteq> Nil" by (metis traverse_ne upd_list_ne)
  then obtain l k' v' c r where n: "t' = Node l k' v' c r" by (cases t') auto
  let ?t = "\<lparr>llrb_root = Node l k' v' False r,
    llrb_size = llrb_size t + (if k \<in> set (rb_keys ?r) then 0 else 1)\<rparr>"
  have "tree_put t k v = Some ?t" using t' n by (simp add: tree_put_def)
  moreover have tr: "traverse_in_order (llrb_root ?t) = upd_list k v (traverse_in_order ?r)"
    using t'(2) n by simp
  moreover have "llrb_inv ?t"
    using t'(3) n i sorted_upd_list [OF i(3), of k v] length_upd_list [OF i(3), of k v] tr
    unfolding llrb_inv_def by auto
  moreover have "llrb_map ?t = (llrb_map t)(k \<mapsto> v)"
    using tr by (simp only: llrb_map_def map_of_upd_list)
  ultimately show ?thesis by blast
qed

lemma tree_remove_correct:
  assumes "llrb_inv t" "k \<in> dom (llrb_map t)"
  shows "\<exists>t'. tree_remove t k = Some t' \<and> llrb_inv t' \<and> llrb_map t' = (llrb_map t)(k := None) \<and>
    traverse_in_order (llrb_root t') = del_list k (traverse_in_order (llrb_root t))"
proof -
  let ?r = "llrb_root t"
  from assms have i: "rb_inv ?r" "\<not> is_red ?r" "sorted_wrt (<) (rb_keys ?r)"
    "llrb_size t = int (length (rb_keys ?r))" and mem: "k \<in> set (rb_keys ?r)"
    by (auto simp: llrb_inv_def llrb_map_def dom_map_of_conv_image_fst)
  then obtain l k' v' r where n: "?r = Node l k' v' False r" by (cases ?r) auto
  let ?b = "\<not> is_red l \<and> \<not> is_red r"
  let ?r1 = "Node l k' v' ?b r"
  have e: "rb_entry ?r1" using i(1) n by (auto simp: rb_entry_Node)
  have tr1: "traverse_in_order ?r1 = traverse_in_order ?r" using n by simp
  have "rb_entry ?r1 \<or> rb_right_lean ?r1 k" "sorted_wrt (<) (rb_keys ?r1)" "k \<in> set (rb_keys ?r1)"
    using e i(3) mem unfolding tr1 by blast+
  from remove_correct [OF this, of "llrb_size t"] obtain t' where t':
    "remove (llrb_size t) ?r1 k = Some (t', llrb_size t - 1)" "rb_inv t'"
    "traverse_in_order t' = del_list k (traverse_in_order ?r)"
    unfolding tr1 rb_result_def by blast
  let ?t = "\<lparr>llrb_root = (if t' = Nil then Nil else the (set_red False t')), llrb_size = llrb_size t - 1\<rparr>"
  have tr: "traverse_in_order (llrb_root ?t) = del_list k (traverse_in_order ?r)"
    using t'(3) by (cases t') auto
  have "tree_remove t k = Some ?t"
    using n t'(1) by (cases t') (auto simp: tree_remove_def Let_def split: if_splits)
  moreover have "rb_inv (llrb_root ?t)" "\<not> is_red (llrb_root ?t)"
    using t'(2) by (cases t'; simp)+
  then have "llrb_inv ?t"
    using i sorted_del_list [OF i(3), of k] mem length_del_list [of "traverse_in_order ?r" k] tr
      strictly_sorted_distinct [OF i(3)]
    unfolding llrb_inv_def by auto
  moreover have "llrb_map ?t = (llrb_map t)(k := None)"
    using tr by (simp only: llrb_map_def map_of_del_list)
  ultimately show ?thesis using tr by blast
qed

section \<open>Floor\<close>

lemma floor_loop_correct:
  assumes "t \<noteq> Nil" "sorted_wrt (<) (rb_keys t)"
  shows "floor_loop t path key =
    (let below = filter (\<lambda>p. fst p \<le> key) (traverse_in_order t) in
     if below = [] then climb path else Floor (fst (last below)) (snd (last below)))"
  using assms
proof (induction t arbitrary: path)
  case (Node l k v c r)
  from Node.prems have srt: "sorted_wrt (<) (rb_keys l)" "sorted_wrt (<) (rb_keys r)"
      "\<forall>x\<in>set (traverse_in_order l). fst x < k" "\<forall>x\<in>set (traverse_in_order r). k < fst x"
    by (auto simp: sorted_wrt_append)
  consider "k < key" | "key < k" | "key = k" by fastforce
  then show ?case
  proof cases
    case 1
    then have "filter (\<lambda>p. fst p \<le> key) (traverse_in_order l) = traverse_in_order l"
      using srt(3) by (fastforce simp: filter_id_conv)
    with 1 Node.IH(2) [OF _ srt(2)] show ?thesis by (cases "r = Nil") (auto simp: Let_def)
  next
    case 2
    then have "filter (\<lambda>p. fst p \<le> key) (traverse_in_order r) = []"
      using srt(4) by (fastforce simp: filter_empty_conv)
    with 2 Node.IH(1) [OF _ srt(1)] order.asym [OF 2] show ?thesis
      by (cases "l = Nil") (auto simp: Let_def)
  next
    case 3
    then have "filter (\<lambda>p. fst p \<le> key) (traverse_in_order r) = []"
      using srt(4) by (fastforce simp: filter_empty_conv)
    with 3 show ?thesis by (auto simp: Let_def)
  qed
qed simp

lemma last_filter_greatest:
  fixes ps :: "('k::linorder \<times> 'v) list"
  assumes "sorted_wrt (<) (map fst ps)" "filter P ps \<noteq> []"
  shows "last (filter P ps) \<in> set ps \<and> P (last (filter P ps)) \<and>
    (\<forall>p\<in>set ps. P p \<longrightarrow> fst p \<le> fst (last (filter P ps)))"
  using assms
proof (induction ps)
  case (Cons a ps)
  show ?case
  proof (cases "filter P ps = []")
    case True
    then have "\<forall>p\<in>set ps. \<not> P p" by (simp add: filter_empty_conv)
    with True Cons.prems(2) show ?thesis by (auto split: if_splits)
  next
    case False
    with Cons have "last (filter P ps) \<in> set ps \<and> P (last (filter P ps)) \<and>
      (\<forall>p\<in>set ps. P p \<longrightarrow> fst p \<le> fst (last (filter P ps)))" by simp
    moreover from this Cons.prems(1) have "fst a < fst (last (filter P ps))" by simp
    ultimately show ?thesis using False by auto
  qed
qed simp

lemma tree_floor_correct:
  assumes "llrb_inv t" "\<exists>k \<in> dom (llrb_map t). k \<le> key"
  shows "\<exists>k v. tree_floor t key = Floor k v \<and> llrb_map t k = Some v \<and> k \<le> key \<and>
    (\<forall>k' \<in> dom (llrb_map t). k' \<le> key \<longrightarrow> k' \<le> k)"
proof -
  let ?ps = "traverse_in_order (llrb_root t)" and ?P = "\<lambda>p. fst p \<le> key"
  from assms(1) have srt: "sorted_wrt (<) (map fst ?ps)" by (simp add: llrb_inv_def)
  from assms(2) obtain p where "p \<in> set ?ps" "fst p \<le> key"
    by (auto simp: llrb_map_def dom_map_of_conv_image_fst)
  then have ne: "filter ?P ?ps \<noteq> []" by (auto simp: filter_empty_conv)
  then have "llrb_root t \<noteq> Nil" by auto
  from floor_loop_correct [OF this srt, of "[]" key] ne
  have fl: "tree_floor t key = Floor (fst (last (filter ?P ?ps))) (snd (last (filter ?P ?ps)))"
    by (simp add: tree_floor_def Let_def)
  from last_filter_greatest [OF srt ne] strictly_sorted_distinct [OF srt] fl show ?thesis
    by (fastforce simp: llrb_map_def dom_map_of_conv_image_fst)
qed

text \<open>C28: \<open>Tree.Put\<close> never dereferences nil, keeps the three red-black invariants, the key
  order and the size counter, and stores exactly the new binding.\<close>
theorem llrb_put_refines_map_update:
  assumes "llrb_inv t"
  shows "\<exists>t'. tree_put t k v = Some t' \<and> llrb_inv t' \<and> llrb_map t' = (llrb_map t)(k \<mapsto> v)"
  using tree_put_correct [OF assms] by blast

theorem llrb_put_refines_map_update_witness:
  "\<exists>t'. tree_put (new_tree :: (nat, nat) llrb) 3 4 = Some t' \<and> llrb_map t' = [3 \<mapsto> 4]"
proof -
  have "llrb_inv (new_tree :: (nat, nat) llrb)" by (simp add: llrb_inv_def new_tree_def)
  from llrb_put_refines_map_update [OF this, of 3 4] show ?thesis
    by (auto simp: llrb_map_def new_tree_def)
qed

text \<open>C27: \<open>Tree.Remove\<close> of a key that is in the tree never dereferences nil, keeps the
  invariants and the size counter, and deletes exactly that binding.\<close>
theorem llrb_remove_refines_map_delete:
  assumes "llrb_inv t" "k \<in> dom (llrb_map t)"
  shows "\<exists>t'. tree_remove t k = Some t' \<and> llrb_inv t' \<and> llrb_map t' = (llrb_map t)(k := None)"
  using tree_remove_correct [OF assms] by blast

definition sample_tree :: "(nat, nat) llrb" where
  "sample_tree = \<lparr>llrb_root = Node (Node (Node Nil 1 10 True Nil) 2 20 False Nil) 3 30 False
     (Node Nil 4 40 False Nil), llrb_size = 4\<rparr>"

lemma sample_tree_inv: "llrb_inv sample_tree" "dom (llrb_map sample_tree) = {1, 2, 3, 4}"
  by (auto simp: llrb_inv_def llrb_map_def sample_tree_def)

theorem llrb_remove_refines_map_delete_witness:
  "\<exists>t'. tree_remove sample_tree 4 = Some t' \<and> llrb_inv t' \<and> dom (llrb_map t') = {1, 2, 3}"
proof -
  have "4 \<in> dom (llrb_map sample_tree)" by (simp add: sample_tree_inv)
  from llrb_remove_refines_map_delete [OF sample_tree_inv(1) this] obtain t' where
    "tree_remove sample_tree 4 = Some t'" "llrb_inv t'"
    "llrb_map t' = (llrb_map sample_tree)(4 := None)" by blast
  moreover from this(3) have "dom (llrb_map t') = {1, 2, 3}"
    using sample_tree_inv(2) by auto
  ultimately show ?thesis by blast
qed

text \<open>\<open>Tree.Floor\<close> returns the binding of the greatest key up to the given one, without
  reading the root's parent field, whenever some key of the tree is not above it.\<close>
theorem llrb_floor_greatest_below:
  assumes "llrb_inv t" "\<exists>k \<in> dom (llrb_map t). k \<le> key"
  shows "\<exists>k v. tree_floor t key = Floor k v \<and> llrb_map t k = Some v \<and> k \<le> key \<and>
    (\<forall>k' \<in> dom (llrb_map t). k' \<le> key \<longrightarrow> k' \<le> k)"
  using tree_floor_correct [OF assms] .

theorem llrb_floor_greatest_below_witness: "\<exists>v. tree_floor sample_tree 9 = Floor 4 v"
proof -
  have "\<exists>k \<in> dom (llrb_map sample_tree). k \<le> 9" by (simp add: sample_tree_inv)
  from llrb_floor_greatest_below [OF sample_tree_inv(1) this] obtain k v where
    fl: "tree_floor sample_tree 9 = Floor k v" "llrb_map sample_tree k = Some v"
    "\<forall>k' \<in> dom (llrb_map sample_tree). k' \<le> 9 \<longrightarrow> k' \<le> k" by blast
  then have "k \<in> {1, 2, 3, 4}" "4 \<le> k" using sample_tree_inv(2) by (blast, simp)
  with fl(1) show ?thesis by auto
qed

end
