(* ===== verification/Priority_Queue.thy ===== *)
theory Priority_Queue
  imports Prelude "HOL-Library.Multiset"
begin

text \<open>
  The priority queue of \<open>src/pkg/pq/priority_queue.go\<close>: an array of items that remember
  their position, arranged by Go's \<open>container/heap\<close>, whose functions \<open>up\<close>, \<open>down\<close>,
  \<open>Push\<close>, \<open>Pop\<close> and \<open>Remove\<close> are modelled as the standard library writes them.  The order is
  the \<open>Less\<close> of the stored values, an argument of the operations.  \<open>None\<close> is the panic of an
  index out of range (\<open>Peek\<close> and \<open>Pop\<close> of an empty queue).
\<close>

section \<open>The internal queue\<close>

record 'a pq_item =
  pq_value :: 'a
  pq_index :: int

type_synonym 'a internal_queue = "'a pq_item list"

definition new_pq_item :: "'a \<Rightarrow> 'a pq_item" where
  "new_pq_item v = \<lparr>pq_value = v, pq_index = -1\<rparr>"

definition queue_less :: "('a \<Rightarrow> 'a \<Rightarrow> bool) \<Rightarrow> 'a internal_queue \<Rightarrow> nat \<Rightarrow> nat \<Rightarrow> bool" where
  "queue_less lt q i j = lt (pq_value (q ! i)) (pq_value (q ! j))"

definition queue_swap :: "'a internal_queue \<Rightarrow> nat \<Rightarrow> nat \<Rightarrow> 'a internal_queue" where
  "queue_swap q i j =
     (let q1 = q[i := q ! j, j := q ! i];
          q2 = q1[i := (q1 ! i)\<lparr>pq_index := int i\<rparr>]
      in q2[j := (q2 ! j)\<lparr>pq_index := int j\<rparr>])"

definition queue_push :: "'a internal_queue \<Rightarrow> 'a pq_item \<Rightarrow> 'a internal_queue" where
  "queue_push q item = q @ [item\<lparr>pq_index := int (length q)\<rparr>]"

definition queue_pop :: "'a internal_queue \<Rightarrow> ('a internal_queue \<times> 'a pq_item) option" where
  "queue_pop q = (if q = [] then None else Some (butlast q, (last q)\<lparr>pq_index := -1\<rparr>))"

definition queue_peek :: "'a internal_queue \<Rightarrow> 'a pq_item option" where
  "queue_peek q = (if q = [] then None else Some (q ! 0))"

section \<open>\<open>container/heap\<close>\<close>

function heap_up :: "('a \<Rightarrow> 'a \<Rightarrow> bool) \<Rightarrow> 'a internal_queue \<Rightarrow> nat \<Rightarrow> 'a internal_queue" where
  "heap_up lt q j =
     (let i = (j - 1) div 2 in
      if i = j \<or> \<not> queue_less lt q j i then q
      else heap_up lt (queue_swap q i j) i)"
  by pat_completeness auto
termination
  by (relation "measure (\<lambda>(_, _, j). j)") auto

declare heap_up.simps [simp del]

function heap_down :: "('a \<Rightarrow> 'a \<Rightarrow> bool) \<Rightarrow> 'a internal_queue \<Rightarrow> nat \<Rightarrow> nat \<Rightarrow> nat \<Rightarrow>
    'a internal_queue \<times> bool" where
  "heap_down lt q i0 i n =
     (let j1 = 2 * i + 1 in
      if j1 \<ge> n then (q, i > i0)
      else
        let j2 = j1 + 1;
            j = (if j2 < n \<and> queue_less lt q j2 j1 then j2 else j1)
        in if \<not> queue_less lt q j i then (q, i > i0)
           else heap_down lt (queue_swap q i j) i0 j n)"
  by pat_completeness auto
termination
  by (relation "measure (\<lambda>(_, _, _, i, n). n - i)") (auto simp: Let_def split: if_splits)

declare heap_down.simps [simp del]

definition heap_push :: "('a \<Rightarrow> 'a \<Rightarrow> bool) \<Rightarrow> 'a internal_queue \<Rightarrow> 'a pq_item \<Rightarrow> 'a internal_queue" where
  "heap_push lt q x = (let q1 = queue_push q x in heap_up lt q1 (length q1 - 1))"

definition heap_pop :: "('a \<Rightarrow> 'a \<Rightarrow> bool) \<Rightarrow> 'a internal_queue \<Rightarrow>
    ('a internal_queue \<times> 'a pq_item) option" where
  "heap_pop lt q =
     (if q = [] then None
      else let n = length q - 1 in queue_pop (fst (heap_down lt (queue_swap q 0 n) 0 0 n)))"

definition heap_remove :: "('a \<Rightarrow> 'a \<Rightarrow> bool) \<Rightarrow> 'a internal_queue \<Rightarrow> nat \<Rightarrow>
    ('a internal_queue \<times> 'a pq_item) option" where
  "heap_remove lt q i =
     (if i \<ge> length q then None
      else
        let n = length q - 1;
            q1 = (if n \<noteq> i
                  then let (q', moved) = heap_down lt (queue_swap q i n) i i n
                       in if \<not> moved then heap_up lt q' i else q'
                  else q)
        in queue_pop q1)"

section \<open>The priority queue\<close>

definition new_priority_queue :: "'a internal_queue" where
  "new_priority_queue = []"

definition pq_peek :: "'a internal_queue \<Rightarrow> 'a option" where
  "pq_peek q = map_option pq_value (queue_peek q)"

definition pq_pop :: "('a \<Rightarrow> 'a \<Rightarrow> bool) \<Rightarrow> 'a internal_queue \<Rightarrow> ('a internal_queue \<times> 'a) option" where
  "pq_pop lt q = map_option (\<lambda>(q', item). (q', pq_value item)) (heap_pop lt q)"

definition pq_push :: "('a \<Rightarrow> 'a \<Rightarrow> bool) \<Rightarrow> 'a internal_queue \<Rightarrow> 'a \<Rightarrow> 'a internal_queue" where
  "pq_push lt q v = heap_push lt q (new_pq_item v)"

definition pq_len :: "'a internal_queue \<Rightarrow> nat" where
  "pq_len q = length q"

fun index_of_value :: "'a internal_queue \<Rightarrow> 'a \<Rightarrow> nat option" where
  "index_of_value [] v = None"
| "index_of_value (item # q) v =
     (if pq_value item = v then Some 0 else map_option Suc (index_of_value q v))"

definition pq_release :: "('a \<Rightarrow> 'a \<Rightarrow> bool) \<Rightarrow> 'a internal_queue \<Rightarrow> 'a \<Rightarrow> 'a internal_queue option" where
  "pq_release lt q v =
     (case index_of_value q v of
        None \<Rightarrow> Some q
      | Some idx \<Rightarrow> map_option fst (heap_remove lt q idx))"

definition pq_values :: "'a internal_queue \<Rightarrow> 'a list" where
  "pq_values q = map pq_value q"

section \<open>Lengths, values and positions\<close>

definition positions_ok :: "'a internal_queue \<Rightarrow> bool" where
  "positions_ok q \<longleftrightarrow> (\<forall>i<length q. pq_index (q ! i) = int i)"

lemma length_queue_swap [simp]: "length (queue_swap q i j) = length q"
  by (simp add: queue_swap_def Let_def)

lemma values_queue_swap:
  "i < length q \<Longrightarrow> j < length q \<Longrightarrow>
     map pq_value (queue_swap q i j) = (map pq_value q)[i := pq_value (q ! j), j := pq_value (q ! i)]"
  by (rule nth_equalityI) (auto simp: queue_swap_def Let_def nth_list_update)

lemma value_queue_swap:
  "i < length q \<Longrightarrow> j < length q \<Longrightarrow> k < length q \<Longrightarrow>
     pq_value (queue_swap q i j ! k) =
     (if k = j then pq_value (q ! i) else if k = i then pq_value (q ! j) else pq_value (q ! k))"
  by (auto simp: queue_swap_def Let_def nth_list_update)

lemma positions_queue_swap:
  "positions_ok q \<Longrightarrow> i < length q \<Longrightarrow> j < length q \<Longrightarrow> positions_ok (queue_swap q i j)"
  by (auto simp: positions_ok_def queue_swap_def Let_def nth_list_update)

lemma mset_queue_swap:
  "i < length q \<Longrightarrow> j < length q \<Longrightarrow>
     image_mset pq_value (mset (queue_swap q i j)) = image_mset pq_value (mset q)"
  using mset_swap [of j "map pq_value q" i] values_queue_swap [of i q j]
  by (metis length_map mset_map nth_map)

lemma heap_up_frame:
  "j < length q \<Longrightarrow>
     length (heap_up lt q j) = length q \<and>
     image_mset pq_value (mset (heap_up lt q j)) = image_mset pq_value (mset q) \<and>
     (positions_ok q \<longrightarrow> positions_ok (heap_up lt q j)) \<and>
     (\<forall>k. j < k \<and> k < length q \<longrightarrow> pq_value (heap_up lt q j ! k) = pq_value (q ! k))"
proof (induction lt q j rule: heap_up.induct)
  case (1 lt q j)
  let ?i = "(j - 1) div 2"
  show ?case
  proof (cases "?i = j \<or> \<not> queue_less lt q j ?i")
    case True
    then show ?thesis by (subst heap_up.simps, auto simp: Let_def)+
  next
    case False
    then have i: "?i < j" "?i < length q" using "1.prems" by auto
    have eq: "heap_up lt q j = heap_up lt (queue_swap q ?i j) ?i"
      using False by (subst heap_up.simps) (auto simp: Let_def)
    show ?thesis
      using "1.IH" [OF refl False] i "1.prems"
      by (auto simp: eq mset_queue_swap positions_queue_swap value_queue_swap)
  qed
qed

lemma heap_down_frame:
  "i < n \<Longrightarrow> n \<le> length q \<Longrightarrow>
     length (fst (heap_down lt q i0 i n)) = length q \<and>
     image_mset pq_value (mset (fst (heap_down lt q i0 i n))) = image_mset pq_value (mset q) \<and>
     (positions_ok q \<longrightarrow> positions_ok (fst (heap_down lt q i0 i n))) \<and>
     (\<forall>k. n \<le> k \<and> k < length q \<longrightarrow> pq_value (fst (heap_down lt q i0 i n) ! k) = pq_value (q ! k))"
proof (induction lt q i0 i n rule: heap_down.induct)
  case (1 lt q i0 i n)
  let ?j = "if 2 * i + 1 + 1 < n \<and> queue_less lt q (2 * i + 1 + 1) (2 * i + 1)
    then 2 * i + 1 + 1 else 2 * i + 1"
  show ?case
  proof (cases "2 * i + 1 \<ge> n \<or> \<not> queue_less lt q ?j i")
    case True
    then have "fst (heap_down lt q i0 i n) = q"
      by (subst heap_down.simps) (auto simp: Let_def)
    then show ?thesis by simp
  next
    case False
    then have j: "?j < n" "i < ?j" by auto
    have eq: "heap_down lt q i0 i n = heap_down lt (queue_swap q i ?j) i0 ?j n"
      using False by (subst heap_down.simps) (auto simp: Let_def)
    show ?thesis
      using "1.IH" [OF refl _ refl refl] False j "1.prems"
      unfolding eq by (auto simp: mset_queue_swap positions_queue_swap value_queue_swap)
  qed
qed

section \<open>The heap order\<close>

text \<open>What the queue relies on in \<open>Less\<close>: a strict weak order.\<close>

locale strict_weak_order =
  fixes lt :: "'a \<Rightarrow> 'a \<Rightarrow> bool"
  assumes asym: "lt x y \<Longrightarrow> \<not> lt y x"
    and neg_trans: "lt x z \<Longrightarrow> lt x y \<or> lt y z"
begin

lemma irrefl: "\<not> lt x x"
  using asym by blast

lemma trans: "lt x y \<Longrightarrow> lt y z \<Longrightarrow> lt x z"
  using asym neg_trans by blast

lemma not_lt_trans: "\<not> lt x y \<Longrightarrow> \<not> lt y z \<Longrightarrow> \<not> lt x z"
  using neg_trans by blast

end

definition edge_ok :: "('a \<Rightarrow> 'a \<Rightarrow> bool) \<Rightarrow> 'a internal_queue \<Rightarrow> nat \<Rightarrow> bool" where
  "edge_ok lt q i \<longleftrightarrow> i = 0 \<or> \<not> lt (pq_value (q ! i)) (pq_value (q ! ((i - 1) div 2)))"

definition heap_upto :: "('a \<Rightarrow> 'a \<Rightarrow> bool) \<Rightarrow> 'a internal_queue \<Rightarrow> nat \<Rightarrow> bool" where
  "heap_upto lt q n \<longleftrightarrow> (\<forall>i<n. edge_ok lt q i)"

definition is_heap :: "('a \<Rightarrow> 'a \<Rightarrow> bool) \<Rightarrow> 'a internal_queue \<Rightarrow> bool" where
  "is_heap lt q \<longleftrightarrow> heap_upto lt q (length q)"

text \<open>Every edge is in order but those at \<open>k\<close>, whose children are in order with its parent.\<close>

definition bypass_ok :: "('a \<Rightarrow> 'a \<Rightarrow> bool) \<Rightarrow> 'a internal_queue \<Rightarrow> nat \<Rightarrow> nat \<Rightarrow> bool" where
  "bypass_ok lt q n k \<longleftrightarrow> (\<forall>i. 0 < i \<and> i < n \<and> (i - 1) div 2 = k \<and> 0 < k \<longrightarrow>
     \<not> lt (pq_value (q ! i)) (pq_value (q ! ((k - 1) div 2))))"

definition heap_but :: "('a \<Rightarrow> 'a \<Rightarrow> bool) \<Rightarrow> 'a internal_queue \<Rightarrow> nat \<Rightarrow> nat \<Rightarrow> bool" where
  "heap_but lt q n k \<longleftrightarrow> (\<forall>i<n. i \<noteq> k \<and> (i = 0 \<or> (i - 1) div 2 \<noteq> k) \<longrightarrow> edge_ok lt q i) \<and>
     bypass_ok lt q n k"

definition children_ok :: "('a \<Rightarrow> 'a \<Rightarrow> bool) \<Rightarrow> 'a internal_queue \<Rightarrow> nat \<Rightarrow> nat \<Rightarrow> bool" where
  "children_ok lt q n k \<longleftrightarrow> (\<forall>i<n. 0 < i \<and> (i - 1) div 2 = k \<longrightarrow> edge_ok lt q i)"

lemma heap_upto_iff: "heap_upto lt q n \<Longrightarrow> m \<le> n \<Longrightarrow> heap_upto lt q m"
  by (simp add: heap_upto_def)

lemma heap_but_all:
  "heap_but lt q n k \<Longrightarrow> children_ok lt q n k \<Longrightarrow> k < n \<longrightarrow> edge_ok lt q k \<Longrightarrow> heap_upto lt q n"
  unfolding heap_but_def heap_upto_def children_ok_def by (metis bot_nat_0.not_eq_extremum)

lemma mset_butlast_last: "xs \<noteq> [] \<Longrightarrow> mset xs = add_mset (last xs) (mset (butlast xs))"
  by (metis append_butlast_last_id mset_append mset_single_iff union_mset_add_mset_right
      add.right_neutral mset.simps(1,2))

lemma index_of_value_in:
  "x \<in> set (pq_values q) \<Longrightarrow> \<exists>i. index_of_value q x = Some i \<and> i < length q \<and> pq_value (q ! i) = x"
  by (induction q) (auto simp: pq_values_def)

lemma index_of_value_none: "x \<notin> set (pq_values q) \<Longrightarrow> index_of_value q x = None"
  by (induction q) (auto simp: pq_values_def)

lemma parent_less: "0 < i \<Longrightarrow> (i - 1) div 2 < (i :: nat)"
  by auto

context strict_weak_order
begin

lemma up_heap:
  assumes "j < n" "n \<le> length q" "heap_but lt q n j" "children_ok lt q n j"
  shows "heap_upto lt (heap_up lt q j) n"
  using assms
proof (induction j arbitrary: q rule: less_induct)
  case (less j)
  let ?i = "(j - 1) div 2"
  show ?case
  proof (cases "?i = j \<or> \<not> queue_less lt q j ?i")
    case True
    then have "heap_up lt q j = q" by (subst heap_up.simps) (auto simp: Let_def)
    moreover have "edge_ok lt q j" using True by (auto simp: edge_ok_def queue_less_def)
    ultimately show ?thesis using less.prems(3,4) heap_but_all by metis
  next
    case False
    let ?q = "queue_swap q ?i j"
    have ij: "?i < j" "0 < j" using False by auto
    have v: "k < length q \<Longrightarrow> pq_value (?q ! k) =
        (if k = j then pq_value (q ! ?i) else if k = ?i then pq_value (q ! j) else pq_value (q ! k))" for k
      using ij less.prems(1,2) by (simp add: value_queue_swap)
    have lt: "lt (pq_value (q ! j)) (pq_value (q ! ?i))" using False by (simp add: queue_less_def)
    have but: "\<And>k. k < n \<Longrightarrow> k \<noteq> j \<Longrightarrow> edge_ok lt q k"
      using less.prems(3,4) unfolding heap_but_def children_ok_def by (metis bot_nat_0.not_eq_extremum)
    have byp: "\<And>k. 0 < k \<Longrightarrow> k < n \<Longrightarrow> (k - 1) div 2 = j \<Longrightarrow> \<not> lt (pq_value (q ! k)) (pq_value (q ! ?i))"
      using less.prems(3) ij(2) unfolding heap_but_def bypass_ok_def by blast
    have edges: "edge_ok lt ?q k" if k: "k < n" "k \<noteq> ?i" for k
    proof (cases "k = 0")
      case False
      have par: "(k - 1) div 2 < k" using False by auto
      then have pl: "(k - 1) div 2 < length q" "k < length q" using k less.prems(2) by auto
      consider "k = j" | "k \<noteq> j" "(k - 1) div 2 = j" | "k \<noteq> j" "(k - 1) div 2 = ?i"
        | "k \<noteq> j" "(k - 1) div 2 \<noteq> j" "(k - 1) div 2 \<noteq> ?i" by blast
      then show ?thesis
      proof cases
        case 1
        then show ?thesis using v [OF pl(2)] v [OF pl(1)] ij asym [OF lt] by (simp add: edge_ok_def)
      next
        case 2
        then show ?thesis
          using v [OF pl(2)] v [OF pl(1)] byp [of k] k False by (simp add: edge_ok_def)
      next
        case 3
        then have "\<not> lt (pq_value (q ! k)) (pq_value (q ! ?i))"
          using but [of k] k False by (simp add: edge_ok_def)
        then have "\<not> lt (pq_value (q ! k)) (pq_value (q ! j))" using lt trans by blast
        then show ?thesis using v [OF pl(2)] v [OF pl(1)] 3 k ij by (simp add: edge_ok_def)
      next
        case 4
        then show ?thesis
          using v [OF pl(2)] v [OF pl(1)] but [of k] k by (simp add: edge_ok_def)
      qed
    qed (simp add: edge_ok_def)
    have "bypass_ok lt ?q n ?i"
      unfolding bypass_ok_def
    proof (intro allI impI)
      fix k assume a: "0 < k \<and> k < n \<and> (k - 1) div 2 = ?i \<and> 0 < ?i"
      then have i: "\<not> lt (pq_value (q ! ?i)) (pq_value (q ! ((?i - 1) div 2)))"
        using but [of ?i] ij less.prems(1) by (simp add: edge_ok_def)
      have pp: "(?i - 1) div 2 < ?i" using a parent_less [of ?i] by blast
      have vp: "pq_value (?q ! ((?i - 1) div 2)) = pq_value (q ! ((?i - 1) div 2))"
        using v [of "(?i - 1) div 2"] pp ij less.prems(1,2) by auto
      have vk: "pq_value (?q ! k) = (if k = j then pq_value (q ! ?i) else pq_value (q ! k))"
        using v [of k] a less.prems(2) parent_less [of k] by force
      show "\<not> lt (pq_value (?q ! k)) (pq_value (?q ! ((?i - 1) div 2)))"
      proof (cases "k = j")
        case True
        with i vp vk show ?thesis by simp
      next
        case False
        then have "\<not> lt (pq_value (q ! k)) (pq_value (q ! ?i))"
          using but [of k] a by (auto simp: edge_ok_def)
        from not_lt_trans [OF this i] vp vk False show ?thesis by simp
      qed
    qed
    then have "heap_but lt ?q n ?i" "children_ok lt ?q n ?i"
      using edges ij by (auto simp: heap_but_def children_ok_def)
    then have "heap_upto lt (heap_up lt ?q ?i) n"
      using less.IH [of ?i ?q] ij less.prems(1,2) by simp
    then show ?thesis using False by (subst heap_up.simps) (auto simp: Let_def)
  qed
qed

text \<open>One step of \<open>down\<close>: the smaller child moves up over \<open>k\<close>.\<close>

lemma down_step:
  assumes but: "heap_but lt q n k" and j: "j < n" "0 < j" "(j - 1) div 2 = k" and n: "n \<le> length q"
    and lt: "lt (pq_value (q ! j)) (pq_value (q ! k))"
    and least: "\<And>i. 0 < i \<Longrightarrow> i < n \<Longrightarrow> (i - 1) div 2 = k \<Longrightarrow> \<not> lt (pq_value (q ! i)) (pq_value (q ! j))"
  shows "heap_but lt (queue_swap q k j) n j" "edge_ok lt (queue_swap q k j) j"
proof -
  let ?q = "queue_swap q k j"
  have kj: "k < j" using j parent_less by auto
  have v: "i < length q \<Longrightarrow> pq_value (?q ! i) =
      (if i = j then pq_value (q ! k) else if i = k then pq_value (q ! j) else pq_value (q ! i))" for i
    using kj j n by (simp add: value_queue_swap)
  have ok: "i < n \<Longrightarrow> i \<noteq> k \<Longrightarrow> (i = 0 \<or> (i - 1) div 2 \<noteq> k) \<Longrightarrow> edge_ok lt q i" for i
    using but unfolding heap_but_def by blast
  have byp: "0 < i \<Longrightarrow> i < n \<Longrightarrow> (i - 1) div 2 = k \<Longrightarrow> 0 < k \<Longrightarrow>
      \<not> lt (pq_value (q ! i)) (pq_value (q ! ((k - 1) div 2)))" for i
    using but unfolding heap_but_def bypass_ok_def by blast
  show "edge_ok lt ?q j"
    using v [of j] v [of k] j kj n asym [OF lt] by (auto simp: edge_ok_def)
  have "edge_ok lt ?q i" if i: "i < n" "i \<noteq> j" "i = 0 \<or> (i - 1) div 2 \<noteq> j" for i
  proof (cases "i = 0")
    case False
    have pl: "(i - 1) div 2 < length q" "i < length q" using False i n by auto
    have pi: "(i - 1) div 2 < i" using False parent_less by blast
    consider "i = k" | "i \<noteq> k" "(i - 1) div 2 = k" | "i \<noteq> k" "(i - 1) div 2 \<noteq> k" by blast
    then show ?thesis
    proof cases
      case 1
      then show ?thesis
        using v [OF pl(2)] v [OF pl(1)] byp [of j] j False pi kj by (simp add: edge_ok_def)
    next
      case 2
      then show ?thesis
        using v [OF pl(2)] v [OF pl(1)] least [of i] i False kj by (simp add: edge_ok_def)
    next
      case 3
      then show ?thesis
        using v [OF pl(2)] v [OF pl(1)] ok [of i] i False by (simp add: edge_ok_def)
    qed
  qed (simp add: edge_ok_def)
  moreover have "bypass_ok lt ?q n j"
    unfolding bypass_ok_def
  proof (intro allI impI)
    fix i assume i: "0 < i \<and> i < n \<and> (i - 1) div 2 = j \<and> 0 < j"
    then have "edge_ok lt q i" using ok [of i] kj parent_less [of i] by auto
    moreover have "i < length q" "i \<noteq> j" "i \<noteq> k" using i n kj parent_less [of i] by auto
    ultimately show "\<not> lt (pq_value (?q ! i)) (pq_value (?q ! ((j - 1) div 2)))"
      using v [of i] v [of k] i kj j n by (simp add: edge_ok_def)
  qed
  ultimately show "heap_but lt ?q n j" by (simp add: heap_but_def)
qed

lemma smaller_child:
  fixes q :: "'a internal_queue"
  assumes "2 * k + 1 < n"
  defines "j \<equiv> (if 2 * k + 1 + 1 < n \<and> queue_less lt q (2 * k + 1 + 1) (2 * k + 1)
    then 2 * k + 1 + 1 else 2 * k + 1)"
  shows "j < n" "0 < j" "(j - 1) div 2 = k"
    "\<And>i. 0 < i \<Longrightarrow> i < n \<Longrightarrow> (i - 1) div 2 = k \<Longrightarrow> \<not> lt (pq_value (q ! i)) (pq_value (q ! j))"
proof -
  show "j < n" "0 < j" "(j - 1) div 2 = k" using assms by (auto simp: j_def)
  fix i assume i: "0 < i" "i < n" "(i - 1) div 2 = k"
  then have "i = 2 * k + 1 \<or> i = 2 * k + 1 + 1" by auto
  then show "\<not> lt (pq_value (q ! i)) (pq_value (q ! j))"
    using irrefl asym [of "pq_value (q ! (2 * k + 1 + 1))" "pq_value (q ! (2 * k + 1))"] i(2)
    by (elim disjE) (simp_all add: j_def queue_less_def)
qed

lemma no_children: "\<not> 2 * k + 1 < n \<Longrightarrow> children_ok lt q n k"
  by (auto simp: children_ok_def)

lemma least_child_ok:
  assumes "2 * k + 1 < n" "\<not> queue_less lt q (if 2 * k + 1 + 1 < n \<and>
    queue_less lt q (2 * k + 1 + 1) (2 * k + 1) then 2 * k + 1 + 1 else 2 * k + 1) k"
  shows "children_ok lt q n k"
proof -
  have "\<not> lt (pq_value (q ! i)) (pq_value (q ! k))" if "i < n" "0 < i" "(i - 1) div 2 = k" for i
    using smaller_child(4) [OF assms(1) that(2,1,3)] assms(2) not_lt_trans
    unfolding queue_less_def by blast
  then show ?thesis by (auto simp: children_ok_def edge_ok_def)
qed

lemma down_heap:
  assumes "k < n" "n \<le> length q" "heap_but lt q n k" "edge_ok lt q k"
  shows "heap_upto lt (fst (heap_down lt q i0 k n)) n"
  using assms
proof (induction "n - k" arbitrary: q k rule: less_induct)
  case less
  let ?j = "if 2 * k + 1 + 1 < n \<and> queue_less lt q (2 * k + 1 + 1) (2 * k + 1)
    then 2 * k + 1 + 1 else 2 * k + 1"
  show ?case
  proof (cases "2 * k + 1 < n \<and> queue_less lt q ?j k")
    case False
    then have "children_ok lt q n k" using no_children least_child_ok by blast
    moreover have "fst (heap_down lt q i0 k n) = q"
      using False by (subst heap_down.simps) (auto simp: Let_def)
    ultimately show ?thesis using heap_but_all less.prems by metis
  next
    case True
    note j = smaller_child [OF conjunct1 [OF True], where q = q]
    have lt: "lt (pq_value (q ! ?j)) (pq_value (q ! k))" using True by (simp add: queue_less_def)
    note step = down_step [OF less.prems(3) j(1,2,3) less.prems(2) lt j(4)]
    have kj: "k < ?j" by auto
    have "heap_upto lt (fst (heap_down lt (queue_swap q k ?j) i0 ?j n)) n"
      by (rule less.hyps) (use step j(1) kj less.prems(1,2) in auto)
    moreover have "heap_down lt q i0 k n = heap_down lt (queue_swap q k ?j) i0 ?j n"
      using True by (subst heap_down.simps) (auto simp: Let_def)
    ultimately show ?thesis by simp
  qed
qed

lemma down_moved: "i0 \<le> k \<Longrightarrow> snd (heap_down lt q i0 k n) \<Longrightarrow> k = i0 \<Longrightarrow>
    2 * k + 1 < n \<and> queue_less lt q (if 2 * k + 1 + 1 < n \<and>
      queue_less lt q (2 * k + 1 + 1) (2 * k + 1) then 2 * k + 1 + 1 else 2 * k + 1) k"
  by (subst (asm) heap_down.simps) (auto simp: Let_def split: if_splits)

lemma down_moved_mono: "i0 < k \<Longrightarrow> snd (heap_down lt q i0 k n)"
proof (induction "n - k" arbitrary: q k rule: less_induct)
  case less
  then show ?case by (subst heap_down.simps) (auto simp: Let_def)
qed

text \<open>\<open>down\<close> from a position whose edges may all be wrong: either it moved and the heap is
  restored, or it did not and only the edge to the parent may be wrong.\<close>

lemma down_either:
  assumes "k < n" "n \<le> length q" "heap_but lt q n k" "heap_down lt q k k n = (q', moved)"
  shows "moved \<Longrightarrow> heap_upto lt q' n" "\<not> moved \<Longrightarrow> q' = q \<and> children_ok lt q n k"
proof -
  let ?j = "if 2 * k + 1 + 1 < n \<and> queue_less lt q (2 * k + 1 + 1) (2 * k + 1)
    then 2 * k + 1 + 1 else 2 * k + 1"
  show "heap_upto lt q' n" if moved
  proof -
    have c: "2 * k + 1 < n \<and> queue_less lt q ?j k"
      using down_moved [of k k q n] assms(4) that by simp
    note j = smaller_child [OF conjunct1 [OF c], where q = q]
    have lt: "lt (pq_value (q ! ?j)) (pq_value (q ! k))" using c by (simp add: queue_less_def)
    note step = down_step [OF assms(3) j(1,2,3) assms(2) lt j(4)]
    have "heap_upto lt (fst (heap_down lt (queue_swap q k ?j) k ?j n)) n"
      by (rule down_heap) (use step j(1) assms(2) in auto)
    moreover have "heap_down lt q k k n = heap_down lt (queue_swap q k ?j) k ?j n"
      using c by (subst heap_down.simps) (auto simp: Let_def)
    ultimately show ?thesis using assms(4) by (metis fst_conv)
  qed
  show "q' = q \<and> children_ok lt q n k" if "\<not> moved"
  proof -
    have nc: "\<not> (2 * k + 1 < n \<and> queue_less lt q ?j k)"
    proof
      assume c: "2 * k + 1 < n \<and> queue_less lt q ?j k"
      then have "heap_down lt q k k n = heap_down lt (queue_swap q k ?j) k ?j n"
        by (subst heap_down.simps) (auto simp: Let_def)
      moreover have "k < ?j" by auto
      ultimately show False using down_moved_mono [of k ?j] assms(4) that by (metis snd_conv)
    qed
    then have "heap_down lt q k k n = (q, False)"
      by (subst heap_down.simps) (auto simp: Let_def)
    moreover have "children_ok lt q n k" using nc no_children least_child_ok by blast
    ultimately show ?thesis using assms(4) by simp
  qed
qed

lemma heap_top:
  assumes "is_heap lt q" "i < length q"
  shows "\<not> lt (pq_value (q ! i)) (pq_value (q ! 0))"
  using assms(2)
proof (induction i rule: less_induct)
  case (less i)
  show ?case
  proof (cases "i = 0")
    case False
    then have p: "(i - 1) div 2 < i" using parent_less by blast
    then have "\<not> lt (pq_value (q ! ((i - 1) div 2))) (pq_value (q ! 0))"
      using less by simp
    moreover have "edge_ok lt q i" using assms(1) less.prems by (simp add: is_heap_def heap_upto_def)
    ultimately show ?thesis using False not_lt_trans by (auto simp: edge_ok_def)
  qed (simp add: irrefl)
qed

lemma heap_upto_butlast:
  "length q = Suc n \<Longrightarrow> heap_upto lt q n \<Longrightarrow> is_heap lt (butlast q)"
  by (auto simp: is_heap_def heap_upto_def edge_ok_def nth_butlast)

lemma is_heap_push: "is_heap lt q \<Longrightarrow> is_heap lt (heap_push lt q x)"
proof -
  assume q: "is_heap lt q"
  let ?q = "queue_push q x" and ?n = "length q"
  have len: "length ?q = Suc ?n" by (simp add: queue_push_def)
  have "edge_ok lt ?q i" if "i < ?n" for i
  proof -
    have "edge_ok lt q i" using q that by (simp add: is_heap_def heap_upto_def)
    moreover have "(i - 1) div 2 < ?n" using that by auto
    ultimately show ?thesis using that by (auto simp: edge_ok_def queue_push_def nth_append)
  qed
  moreover have nochild: "(i - 1) div 2 \<noteq> ?n" if "0 < i" "i < Suc ?n" for i
    using parent_less [OF that(1)] that(2) by linarith
  ultimately have "heap_but lt ?q (Suc ?n) ?n"
    unfolding heap_but_def bypass_ok_def by (metis less_SucE)
  moreover have "children_ok lt ?q (Suc ?n) ?n"
    using nochild unfolding children_ok_def by blast
  ultimately have "heap_upto lt (heap_up lt ?q ?n) (Suc ?n)"
    using up_heap [of ?n "Suc ?n" ?q] len by simp
  moreover have "length (heap_up lt ?q ?n) = Suc ?n"
    using heap_up_frame [of ?n ?q lt] len by simp
  ultimately show ?thesis by (simp add: heap_push_def is_heap_def len)
qed

text \<open>Exchanging the last item with the one at \<open>i\<close> leaves a heap but at \<open>i\<close>.\<close>

lemma heap_but_swap_last:
  assumes h: "is_heap lt q" and n: "length q = Suc n" and i: "i < n"
  shows "heap_but lt (queue_swap q i n) n i"
proof -
  let ?q = "queue_swap q i n"
  have v: "k < n \<Longrightarrow> pq_value (?q ! k) = (if k = i then pq_value (q ! n) else pq_value (q ! k))" for k
    using n i by (simp add: value_queue_swap)
  have e: "k < n \<Longrightarrow> edge_ok lt q k" for k
    using h n by (simp add: is_heap_def heap_upto_def)
  have p: "0 < k \<Longrightarrow> k < n \<Longrightarrow> (k - 1) div 2 < n" for k :: nat by auto
  have "edge_ok lt ?q k" if "k < n" "k \<noteq> i" "k = 0 \<or> (k - 1) div 2 \<noteq> i" for k
    using e [OF that(1)] that v [OF that(1)] v [OF p [of k]] by (auto simp: edge_ok_def)
  moreover have "bypass_ok lt ?q n i"
    unfolding bypass_ok_def
  proof (intro allI impI)
    fix k assume k: "0 < k \<and> k < n \<and> (k - 1) div 2 = i \<and> 0 < i"
    then have "k \<noteq> i" "(i - 1) div 2 \<noteq> i" "(i - 1) div 2 < n" using p i by auto
    moreover have "\<not> lt (pq_value (q ! k)) (pq_value (q ! i))"
      and "\<not> lt (pq_value (q ! i)) (pq_value (q ! ((i - 1) div 2)))"
      using e [of k] e [of i] k i by (auto simp: edge_ok_def)
    note not_lt_trans [OF this]
    ultimately show "\<not> lt (pq_value (?q ! k)) (pq_value (?q ! ((i - 1) div 2)))"
      using v [of k] v [of "(i - 1) div 2"] k by simp
  qed
  ultimately show ?thesis by (simp add: heap_but_def)
qed

lemma pq_pop_correct:
  assumes h: "is_heap lt q" and ne: "q \<noteq> []"
  obtains q' where "pq_pop lt q = Some (q', pq_value (q ! 0))" "is_heap lt q'"
    "image_mset pq_value (mset q) = add_mset (pq_value (q ! 0)) (image_mset pq_value (mset q'))"
    "positions_ok q \<Longrightarrow> positions_ok q'"
proof -
  obtain n where n: "length q = Suc n" using ne by (cases q) auto
  let ?q1 = "queue_swap q 0 n"
  let ?q2 = "fst (heap_down lt ?q1 0 0 n)"
  have val: "pq_value (?q1 ! n) = pq_value (q ! 0)" using n by (simp add: value_queue_swap)
  have f: "heap_upto lt ?q2 n \<and> length ?q2 = Suc n \<and>
      image_mset pq_value (mset ?q2) = image_mset pq_value (mset q) \<and>
      (positions_ok q \<longrightarrow> positions_ok ?q2) \<and> pq_value (?q2 ! n) = pq_value (q ! 0)"
  proof (cases "n = 0")
    case True
    then have "?q2 = ?q1" by (subst heap_down.simps) simp
    then show ?thesis
      using True n mset_queue_swap [of 0 q 0] positions_queue_swap [of q 0 0] val
      by (simp add: heap_upto_def)
  next
    case False
    then have "heap_upto lt ?q2 n"
      using down_heap [of 0 n ?q1 0] heap_but_swap_last [OF h n, of 0] n by (simp add: edge_ok_def)
    then show ?thesis
      using False heap_down_frame [of 0 n ?q1 lt 0] n mset_queue_swap [of 0 q n]
        positions_queue_swap [of q 0 n] val by simp
  qed
  have "?q2 \<noteq> []" using f by auto
  moreover have "last ?q2 = ?q2 ! n" using f \<open>?q2 \<noteq> []\<close> by (simp add: last_conv_nth)
  ultimately have pop: "pq_pop lt q = Some (butlast ?q2, pq_value (q ! 0))"
    using f n ne by (simp add: pq_pop_def heap_pop_def queue_pop_def)
  have ms: "mset ?q2 = add_mset (?q2 ! n) (mset (butlast ?q2))"
    using mset_butlast_last [OF \<open>?q2 \<noteq> []\<close>] \<open>last ?q2 = ?q2 ! n\<close> by simp
  show ?thesis
  proof (rule that [OF pop])
    show "is_heap lt (butlast ?q2)" using f heap_upto_butlast by blast
    show "image_mset pq_value (mset q) =
        add_mset (pq_value (q ! 0)) (image_mset pq_value (mset (butlast ?q2)))"
      using f ms by (metis image_mset_add_mset)
    show "positions_ok (butlast ?q2)" if "positions_ok q"
      using f that by (simp add: positions_ok_def nth_butlast)
  qed
qed

lemma pq_release_correct:
  assumes h: "is_heap lt q" and v: "x \<in> set (pq_values q)"
  obtains q' where "pq_release lt q x = Some q'" "is_heap lt q'"
    "image_mset pq_value (mset q) = add_mset x (image_mset pq_value (mset q'))"
    "positions_ok q \<Longrightarrow> positions_ok q'"
proof -
  obtain i where i: "index_of_value q x = Some i" "i < length q" "pq_value (q ! i) = x"
    using index_of_value_in [OF v] by auto
  obtain n where n: "length q = Suc n" using i(2) by (cases q) auto
  let ?q1 = "queue_swap q i n"
  let ?d = "heap_down lt ?q1 i i n"
  define q2 where "q2 = (if n \<noteq> i then if \<not> snd ?d then heap_up lt (fst ?d) i else fst ?d else q)"
  have val: "pq_value (?q1 ! n) = x" using n i by (simp add: value_queue_swap)
  have f: "heap_upto lt q2 n \<and> length q2 = Suc n \<and>
      image_mset pq_value (mset q2) = image_mset pq_value (mset q) \<and>
      (positions_ok q \<longrightarrow> positions_ok q2) \<and> pq_value (q2 ! n) = x"
  proof (cases "n = i")
    case True
    then show ?thesis using h i n heap_upto_iff [of lt q "Suc n" n] by (simp add: q2_def is_heap_def)
  next
    case False
    then have il: "i < n" using i(2) n by simp
    note but = heap_but_swap_last [OF h n il]
    note fd = heap_down_frame [of i n ?q1 lt i]
    note either = down_either [OF il _ but surjective_pairing]
    show ?thesis
    proof (cases "snd ?d")
      case True
      then have "q2 = fst ?d" using False by (simp add: q2_def)
      moreover have "heap_upto lt (fst ?d) n" using either(1) True n by simp
      ultimately show ?thesis
        using fd il n i(2) val mset_queue_swap [of i q n] positions_queue_swap [of q i n] by simp
    next
      case moved: False
      then have d: "fst ?d = ?q1 \<and> children_ok lt ?q1 n i" using either(2) n by simp
      then have q2: "q2 = heap_up lt ?q1 i" using False moved by (simp add: q2_def)
      have "heap_upto lt q2 n" unfolding q2 by (rule up_heap) (use d but il n in auto)
      then show ?thesis
        using heap_up_frame [of i ?q1 lt] il n val i(2) mset_queue_swap [of i q n]
          positions_queue_swap [of q i n] q2 by simp
    qed
  qed
  have "heap_remove lt q i = queue_pop q2"
    using i(2) n by (simp add: heap_remove_def q2_def case_prod_beta Let_def)
  then have rel: "pq_release lt q x = map_option fst (queue_pop q2)"
    by (simp add: pq_release_def i(1))
  have ne: "q2 \<noteq> []" using f by auto
  then have last: "last q2 = q2 ! n" using f by (simp add: last_conv_nth)
  have ms: "mset q2 = add_mset (q2 ! n) (mset (butlast q2))" using ne last mset_butlast_last by metis
  show ?thesis
  proof (rule that [of "butlast q2"])
    show "pq_release lt q x = Some (butlast q2)" using rel ne by (simp add: queue_pop_def)
    show "is_heap lt (butlast q2)" using f heap_upto_butlast by blast
    show "image_mset pq_value (mset q) = add_mset x (image_mset pq_value (mset (butlast q2)))"
      using f ms by (metis image_mset_add_mset)
    show "positions_ok (butlast q2)" if "positions_ok q"
      using f that by (simp add: positions_ok_def nth_butlast)
  qed
qed

text \<open>The item on top is a maximum of the queue.\<close>

lemma peek_maximum:
  assumes "is_heap lt q" "q \<noteq> []"
  shows "pq_peek q = Some (pq_value (q ! 0))" "w \<in> set (pq_values q) \<Longrightarrow> \<not> lt w (pq_value (q ! 0))"
  using assms heap_top [OF assms(1)]
  by (auto simp: pq_peek_def queue_peek_def pq_values_def in_set_conv_nth)

lemma pq_push_correct:
  assumes "is_heap lt q"
  shows "is_heap lt (pq_push lt q v)"
    "image_mset pq_value (mset (pq_push lt q v)) = add_mset v (image_mset pq_value (mset q))"
    "positions_ok q \<Longrightarrow> positions_ok (pq_push lt q v)"
proof -
  let ?q = "queue_push q (new_pq_item v)"
  have len: "length ?q = Suc (length q)" by (simp add: queue_push_def)
  show "is_heap lt (pq_push lt q v)" using is_heap_push [OF assms] by (simp add: pq_push_def)
  show "image_mset pq_value (mset (pq_push lt q v)) = add_mset v (image_mset pq_value (mset q))"
    using heap_up_frame [of "length q" ?q lt] len
    by (simp add: pq_push_def heap_push_def) (simp add: queue_push_def new_pq_item_def)
  show "positions_ok (pq_push lt q v)" if "positions_ok q"
  proof -
    have "positions_ok ?q"
      using that by (auto simp: positions_ok_def queue_push_def nth_append less_Suc_eq)
    then show ?thesis using heap_up_frame [of "length q" ?q lt] len by (simp add: pq_push_def heap_push_def)
  qed
qed

end

section \<open>Properties\<close>

text \<open>\<open>Pop\<close> of a non-empty heap never panics; it takes out the value \<open>Peek\<close> shows, no
  value of the queue sorts before it, exactly that value leaves the multiset of values, and the
  rest is a heap whose items know their positions.\<close>
theorem pq_pop_takes_maximum:
  assumes "strict_weak_order lt" "is_heap lt q" "positions_ok q" "q \<noteq> []"
  shows "\<exists>q' v. pq_pop lt q = Some (q', v) \<and> pq_peek q = Some v \<and>
    (\<forall>w\<in>set (pq_values q). \<not> lt w v) \<and>
    mset (pq_values q) = add_mset v (mset (pq_values q')) \<and> is_heap lt q' \<and> positions_ok q'"
proof -
  obtain q' where "pq_pop lt q = Some (q', pq_value (q ! 0))" "is_heap lt q'"
    "image_mset pq_value (mset q) = add_mset (pq_value (q ! 0)) (image_mset pq_value (mset q'))"
    "positions_ok q \<Longrightarrow> positions_ok q'"
    by (rule strict_weak_order.pq_pop_correct [OF assms(1,2,4)]) blast
  then show ?thesis
    using strict_weak_order.peek_maximum [OF assms(1,2,4)] assms(3) by (simp add: pq_values_def)
qed

lemma greater_nat_weak_order: "strict_weak_order ((>) :: nat \<Rightarrow> nat \<Rightarrow> bool)"
  by unfold_locales auto

definition sample_queue :: "nat internal_queue" where
  "sample_queue = [\<lparr>pq_value = 7, pq_index = 0\<rparr>, \<lparr>pq_value = 3, pq_index = 1\<rparr>,
     \<lparr>pq_value = 5, pq_index = 2\<rparr>, \<lparr>pq_value = 1, pq_index = 3\<rparr>]"

lemma sample_queue_ok: "is_heap (>) sample_queue" "positions_ok sample_queue"
  by (simp_all add: is_heap_def heap_upto_def edge_ok_def sample_queue_def positions_ok_def
      numeral_eq_Suc All_less_Suc)

theorem pq_pop_takes_maximum_witness:
  "\<exists>q' v. pq_pop (>) sample_queue = Some (q', v) \<and> pq_peek sample_queue = Some v \<and>
    (\<forall>w\<in>set (pq_values sample_queue). \<not> v < w) \<and>
    mset (pq_values sample_queue) = add_mset v (mset (pq_values q')) \<and> is_heap (>) q' \<and> positions_ok q'"
  by (rule pq_pop_takes_maximum [OF greater_nat_weak_order sample_queue_ok])
     (simp add: sample_queue_def)

text \<open>\<open>Push\<close> and \<open>Release\<close> keep the heap and the positions; \<open>Push\<close> adds one occurrence of the
  value, \<open>Release\<close> never panics and takes out one occurrence of a value that is stored and
  changes nothing for a value that is not.\<close>
theorem pq_push_release:
  assumes "strict_weak_order lt" "is_heap lt q" "positions_ok q"
  shows "is_heap lt (pq_push lt q v) \<and> positions_ok (pq_push lt q v) \<and>
    mset (pq_values (pq_push lt q v)) = add_mset v (mset (pq_values q)) \<and>
    (if x \<in> set (pq_values q)
     then \<exists>q'. pq_release lt q x = Some q' \<and> is_heap lt q' \<and> positions_ok q' \<and>
       mset (pq_values q) = add_mset x (mset (pq_values q'))
     else pq_release lt q x = Some q)"
proof -
  have "\<exists>q'. pq_release lt q x = Some q' \<and> is_heap lt q' \<and> positions_ok q' \<and>
      mset (pq_values q) = add_mset x (mset (pq_values q'))" if "x \<in> set (pq_values q)"
    by (rule strict_weak_order.pq_release_correct [OF assms(1,2) that])
       (auto simp: pq_values_def assms(3))
  moreover have "pq_release lt q x = Some q" if "x \<notin> set (pq_values q)"
    using index_of_value_none [OF that] by (simp add: pq_release_def)
  ultimately show ?thesis
    using strict_weak_order.pq_push_correct [OF assms(1,2)] assms(3) by (simp add: pq_values_def)
qed

theorem pq_push_release_witness:
  "is_heap (>) (pq_push (>) sample_queue 9) \<and> positions_ok (pq_push (>) sample_queue 9) \<and>
    mset (pq_values (pq_push (>) sample_queue 9)) = add_mset 9 (mset (pq_values sample_queue)) \<and>
    (if 3 \<in> set (pq_values sample_queue)
     then \<exists>q'. pq_release (>) sample_queue 3 = Some q' \<and> is_heap (>) q' \<and> positions_ok q' \<and>
       mset (pq_values sample_queue) = add_mset 3 (mset (pq_values q'))
     else pq_release (>) sample_queue 3 = Some sample_queue)"
  by (rule pq_push_release [OF greater_nat_weak_order sample_queue_ok])

end
