(* ===== verification/Splay.thy ===== *)
theory Splay
  imports Prelude
begin

text \<open>
  The weighted splay tree of \<open>src/pkg/splay/splay.go\<close>.  A subtree is a value of
  \<open>splay_tree\<close>; the \<open>parent\<close> pointers are the path of a zipper (\<open>frame list\<close>, the parent
  first), which is what \<open>Splay\<close>, \<open>rotateLeft\<close> and \<open>rotateRight\<close> walk and rewrite.  A stored value is
  the reference of a client's node, so it occurs once; its \<open>Len()\<close>, which the client may
  change, is the argument \<open>len\<close> of the operations.  Weights are Go \<open>int\<close>s, taken as
  integers: they count the elements of one document.
\<close>

section \<open>Trees and paths\<close>

datatype 'a splay_tree =
  Null | Splay_Node (splay_left: "'a splay_tree") (splay_value: 'a) (splay_weight: int)
    (splay_right: "'a splay_tree")

datatype 'a frame =
    Left_Of 'a int "'a splay_tree"   \<comment> \<open>the focus is the left child of this node\<close>
  | Right_Of "'a splay_tree" 'a int  \<comment> \<open>the focus is the right child of this node\<close>

type_synonym 'a location = "'a splay_tree \<times> 'a frame list"

fun weight_of :: "'a splay_tree \<Rightarrow> int" where
  "weight_of Null = 0"
| "weight_of (Splay_Node l x w r) = w"

text \<open>\<open>UpdateSubtree\<close>\<close>

fun update_subtree :: "('a \<Rightarrow> int) \<Rightarrow> 'a splay_tree \<Rightarrow> 'a splay_tree" where
  "update_subtree len Null = Null"
| "update_subtree len (Splay_Node l x w r) = Splay_Node l x (len x + weight_of l + weight_of r) r"

definition new_splay_node :: "('a \<Rightarrow> int) \<Rightarrow> 'a \<Rightarrow> 'a splay_tree" where
  "new_splay_node len x = Splay_Node Null x (len x) Null"

fun splay_inorder :: "'a splay_tree \<Rightarrow> 'a list" where
  "splay_inorder Null = []"
| "splay_inorder (Splay_Node l x w r) = splay_inorder l @ x # splay_inorder r"

text \<open>Following the pointer of a node: where it is in the tree.\<close>

fun locate :: "'a \<Rightarrow> 'a splay_tree \<Rightarrow> 'a frame list \<Rightarrow> 'a location option" where
  "locate x Null p = None"
| "locate x (Splay_Node l y w r) p =
     (if y = x then Some (Splay_Node l y w r, p)
      else case locate x l (Left_Of y w r # p) of
          Some loc \<Rightarrow> Some loc
        | None \<Rightarrow> locate x r (Right_Of l y w # p))"

section \<open>Rotations and splaying\<close>

text \<open>\<open>rotateRight(pivot)\<close> and \<open>rotateLeft(pivot)\<close>, the pivot at the focus.  Without a parent (or
  with the pivot on its other side, which \<open>Splay\<close> never asks for) they are not called.\<close>

fun splay_rotate_right :: "('a \<Rightarrow> int) \<Rightarrow> 'a location \<Rightarrow> 'a location" where
  "splay_rotate_right len (Splay_Node a x w b, Left_Of y v c # p) =
     (update_subtree len (Splay_Node a x w (update_subtree len (Splay_Node b y v c))), p)"
| "splay_rotate_right len loc = loc"

fun splay_rotate_left :: "('a \<Rightarrow> int) \<Rightarrow> 'a location \<Rightarrow> 'a location" where
  "splay_rotate_left len (Splay_Node b x w c, Right_Of a y v # p) =
     (update_subtree len (Splay_Node (update_subtree len (Splay_Node a y v b)) x w c), p)"
| "splay_rotate_left len loc = loc"

text \<open>From a node to its parent and back.\<close>

fun to_parent :: "'a location \<Rightarrow> 'a location" where
  "to_parent (t, Left_Of y v c # p) = (Splay_Node t y v c, p)"
| "to_parent (t, Right_Of a y v # p) = (Splay_Node a y v t, p)"
| "to_parent (t, []) = (t, [])"

fun to_left :: "'a location \<Rightarrow> 'a location" where
  "to_left (Splay_Node a x w b, p) = (a, Left_Of x w b # p)"
| "to_left (Null, p) = (Null, p)"

fun to_right :: "'a location \<Rightarrow> 'a location" where
  "to_right (Splay_Node a x w b, p) = (b, Right_Of a x w # p)"
| "to_right (Null, p) = (Null, p)"

text \<open>The loop of \<open>Splay\<close>: the focus is the node, one pair of rotations per round.\<close>

function splay_loop :: "('a \<Rightarrow> int) \<Rightarrow> 'a splay_tree \<Rightarrow> 'a frame list \<Rightarrow> 'a splay_tree" where
  "splay_loop len t [] = t"
| "splay_loop len t [Left_Of y v c] = fst (splay_rotate_right len (t, [Left_Of y v c]))"
| "splay_loop len t [Right_Of a y v] = fst (splay_rotate_left len (t, [Right_Of a y v]))"
| "splay_loop len t (Right_Of a y v # Left_Of z u d # p) =
     splay_loop len (fst (splay_rotate_right len
       (splay_rotate_left len (t, Right_Of a y v # Left_Of z u d # p)))) p"
| "splay_loop len t (Left_Of y v c # Right_Of d z u # p) =
     splay_loop len (fst (splay_rotate_left len
       (splay_rotate_right len (t, Left_Of y v c # Right_Of d z u # p)))) p"
| "splay_loop len t (Left_Of y v c # Left_Of z u d # p) =
     splay_loop len (fst (splay_rotate_right len
       (to_left (splay_rotate_right len (to_parent (t, Left_Of y v c # Left_Of z u d # p)))))) p"
| "splay_loop len t (Right_Of a y v # Right_Of d z u # p) =
     splay_loop len (fst (splay_rotate_left len
       (to_right (splay_rotate_left len (to_parent (t, Right_Of a y v # Right_Of d z u # p)))))) p"
  by pat_completeness auto
termination
  by (relation "measure (\<lambda>(_, _, p). length p)") auto

text \<open>\<open>Splay\<close>: a node that is not linked into the tree is left alone.\<close>

definition splay :: "('a \<Rightarrow> int) \<Rightarrow> 'a \<Rightarrow> 'a splay_tree \<Rightarrow> 'a splay_tree" where
  "splay len x t = (case locate x t [] of None \<Rightarrow> t | Some (f, p) \<Rightarrow> splay_loop len f p)"

section \<open>Insertion, deletion and search\<close>

text \<open>What \<open>prev.left\<close> and \<open>prev.right\<close> are once \<open>prev\<close> has been splayed: the children of the root,
  and nothing for a node that is not linked.\<close>

definition splayed_children :: "('a \<Rightarrow> int) \<Rightarrow> 'a \<Rightarrow> 'a splay_tree \<Rightarrow> 'a splay_tree \<times> 'a splay_tree" where
  "splayed_children len x t =
     (case locate x t [] of
        None \<Rightarrow> (Null, Null)
      | Some _ \<Rightarrow> (case splay len x t of
          Null \<Rightarrow> (Null, Null) | Splay_Node l y w r \<Rightarrow> (l, r)))"

definition splay_insert_after :: "('a \<Rightarrow> int) \<Rightarrow> 'a \<Rightarrow> 'a \<Rightarrow> 'a splay_tree \<Rightarrow> 'a splay_tree" where
  "splay_insert_after len prev x t =
     (let (l, r) = splayed_children len prev t
      in update_subtree len
           (Splay_Node (update_subtree len (Splay_Node l prev 0 Null)) x 0 r))"

definition splay_insert :: "('a \<Rightarrow> int) \<Rightarrow> 'a \<Rightarrow> 'a splay_tree \<Rightarrow> 'a splay_tree" where
  "splay_insert len x t =
     (case t of Null \<Rightarrow> new_splay_node len x | Splay_Node l y w r \<Rightarrow> splay_insert_after len y x t)"

fun splay_maximum :: "'a splay_tree \<Rightarrow> 'a option" where
  "splay_maximum Null = None"
| "splay_maximum (Splay_Node l x w r) =
     (case r of Null \<Rightarrow> Some x | Splay_Node _ _ _ _ \<Rightarrow> splay_maximum r)"

fun set_right_child :: "'a splay_tree \<Rightarrow> 'a splay_tree \<Rightarrow> 'a splay_tree" where
  "set_right_child Null r = Null"
| "set_right_child (Splay_Node l x w _) r = Splay_Node l x w r"

definition splay_delete :: "('a \<Rightarrow> int) \<Rightarrow> 'a \<Rightarrow> 'a splay_tree \<Rightarrow> 'a splay_tree" where
  "splay_delete len x t =
     (let (l, r) = splayed_children len x t
      in update_subtree len
           (case splay_maximum l of
              None \<Rightarrow> r
            | Some m \<Rightarrow> set_right_child (splay len m l) r))"

fun climb_index :: "('a \<Rightarrow> int) \<Rightarrow> int \<Rightarrow> 'a frame list \<Rightarrow> int" where
  "climb_index len i [] = i"
| "climb_index len i (Left_Of y v c # p) = climb_index len i p"
| "climb_index len i (Right_Of a y v # p) = climb_index len (i + (len y + weight_of a)) p"

definition splay_index_of :: "('a \<Rightarrow> int) \<Rightarrow> 'a \<Rightarrow> 'a splay_tree \<Rightarrow> int" where
  "splay_index_of len x t =
     (case locate x t [] of
        Some (Splay_Node l y w r, p) \<Rightarrow>
          if p = [] \<and> l = Null \<and> r = Null then - 1
          else climb_index len (len y + weight_of l) p - len y
      | _ \<Rightarrow> - 1)"

fun find_loop :: "('a \<Rightarrow> int) \<Rightarrow> 'a splay_tree \<Rightarrow> int \<Rightarrow> ('a \<times> int) option" where
  "find_loop len Null offset = None"
| "find_loop len (Splay_Node l x w r) offset =
     (if l \<noteq> Null \<and> offset \<le> weight_of l then find_loop len l offset
      else if r \<noteq> Null \<and> weight_of l + len x < offset
      then find_loop len r (offset - (weight_of l + len x))
      else Some (x, offset - weight_of l))"

text \<open>\<open>Find\<close>: \<open>None\<close> is the \<open>Fatalf\<close> of an index out of bounds; an empty tree has no node.\<close>

definition splay_find :: "('a \<Rightarrow> int) \<Rightarrow> 'a splay_tree \<Rightarrow> int \<Rightarrow> ('a option \<times> int) option" where
  "splay_find len t index =
     (case find_loop len t index of
        None \<Rightarrow> Some (None, 0)
      | Some (x, offset) \<Rightarrow> if offset > len x then None else Some (Some x, offset))"

definition splay_string :: "('a \<Rightarrow> string) \<Rightarrow> 'a splay_tree \<Rightarrow> string" where
  "splay_string show t = concat (map show (splay_inorder t))"

fun splay_weights :: "'a splay_tree \<Rightarrow> ('a \<times> int) list" where
  "splay_weights Null = []"
| "splay_weights (Splay_Node l x w r) = splay_weights l @ (x, w) # splay_weights r"

definition splay_annotated_string :: "('a \<Rightarrow> int) \<Rightarrow> ('a \<Rightarrow> string) \<Rightarrow> 'a splay_tree \<Rightarrow> string" where
  "splay_annotated_string len show t = concat (map (\<lambda>(x, w).
     ''['' @ dec_int w @ '','' @ dec_int (len x) @ '']'' @ show x) (splay_weights t))"

section \<open>Weights\<close>

definition total :: "('a \<Rightarrow> int) \<Rightarrow> 'a list \<Rightarrow> int" where
  "total len xs = sum_list (map len xs)"

lemma total_simps [simp]:
  "total len [] = 0" "total len (x # xs) = len x + total len xs"
  "total len (xs @ ys) = total len xs + total len ys"
  by (simp_all add: total_def)

lemma total_nonneg: "(\<And>x. 0 \<le> len x) \<Longrightarrow> 0 \<le> total len xs"
  by (induction xs) (simp_all add: add_nonneg_nonneg)

lemma total_cong: "(\<And>x. x \<in> set xs \<Longrightarrow> len x = len' x) \<Longrightarrow> total len xs = total len' xs"
  by (induction xs) auto

fun weights_ok :: "('a \<Rightarrow> int) \<Rightarrow> 'a splay_tree \<Rightarrow> bool" where
  "weights_ok len Null = True"
| "weights_ok len (Splay_Node l x w r) \<longleftrightarrow>
     w = len x + total len (splay_inorder l) + total len (splay_inorder r) \<and>
     weights_ok len l \<and> weights_ok len r"

text \<open>The invariant between operations: the weight of the root may be out of date (no
  operation reads it), all the others are right.\<close>

fun splay_inv :: "('a \<Rightarrow> int) \<Rightarrow> 'a splay_tree \<Rightarrow> bool" where
  "splay_inv len Null = True"
| "splay_inv len (Splay_Node l x w r) \<longleftrightarrow>
     weights_ok len l \<and> weights_ok len r \<and> distinct (splay_inorder l @ x # splay_inorder r)"

text \<open>The length of \<open>x\<close> has changed: only the weights on the way from the root to it may be wrong.\<close>

fun weights_but :: "('a \<Rightarrow> int) \<Rightarrow> 'a \<Rightarrow> 'a splay_tree \<Rightarrow> bool" where
  "weights_but len x Null = True"
| "weights_but len x (Splay_Node l y w r) \<longleftrightarrow>
     (if y = x then weights_ok len l \<and> weights_ok len r
      else (if x \<in> set (splay_inorder l) then weights_but len x l else weights_ok len l) \<and>
        (if x \<in> set (splay_inorder r) then weights_but len x r else weights_ok len r))"

definition splay_inv_but :: "('a \<Rightarrow> int) \<Rightarrow> 'a \<Rightarrow> 'a splay_tree \<Rightarrow> bool" where
  "splay_inv_but len x t \<longleftrightarrow> distinct (splay_inorder t) \<and> weights_but len x t"

lemma weight_of_total [simp]: "weights_ok len t \<Longrightarrow> weight_of t = total len (splay_inorder t)"
  by (cases t) auto

lemma inorder_update_subtree [simp]: "splay_inorder (update_subtree len t) = splay_inorder t"
  by (cases t) auto

lemma weights_ok_imp_but: "weights_ok len t \<Longrightarrow> weights_but len x t"
  by (induction t) auto

lemma splay_inv_imp_but: "splay_inv len t \<Longrightarrow> splay_inv_but len x t"
  by (cases t) (auto simp: splay_inv_but_def weights_ok_imp_but)

lemma weights_ok_cong:
  "(\<And>y. y \<in> set (splay_inorder t) \<Longrightarrow> len y = len' y) \<Longrightarrow> weights_ok len t = weights_ok len' t"
  by (induction t) (auto simp: total_cong [of _ len len'])

lemma weights_but_change:
  "weights_ok len t \<Longrightarrow> distinct (splay_inorder t) \<Longrightarrow>
     (\<And>y. y \<in> set (splay_inorder t) \<Longrightarrow> y \<noteq> x \<Longrightarrow> len y = len' y) \<Longrightarrow> weights_but len' x t"
proof (induction t)
  case (Splay_Node l y w r)
  have "x \<notin> set (splay_inorder s) \<Longrightarrow> set (splay_inorder s) \<subseteq> set (splay_inorder (Splay_Node l y w r)) \<Longrightarrow>
      weights_ok len s = weights_ok len' s" for s
    by (rule weights_ok_cong) (metis Splay_Node.prems(3) subsetD)
  with Splay_Node show ?case by (auto simp: disjoint_iff)
qed simp

text \<open>The client changes the length of one value: the tree is as good as before but for it.\<close>

lemma splay_inv_change:
  assumes "splay_inv len t" "\<And>y. y \<in> set (splay_inorder t) \<Longrightarrow> y \<noteq> x \<Longrightarrow> len y = len' y"
  shows "splay_inv_but len' x t"
proof (cases t)
  case (Splay_Node l y w r)
  have agree: "len z = len' z" if "z \<in> set (splay_inorder l) \<union> set (splay_inorder r)" "z \<noteq> x" for z
    using assms(2) [of z] that by (auto simp: Splay_Node)
  have "x \<notin> set (splay_inorder l) \<Longrightarrow> weights_ok len l = weights_ok len' l"
    "x \<notin> set (splay_inorder r) \<Longrightarrow> weights_ok len r = weights_ok len' r"
    by (rule weights_ok_cong; use agree in blast)+
  moreover have "weights_ok len l \<Longrightarrow> distinct (splay_inorder l) \<Longrightarrow> weights_but len' x l"
    "weights_ok len r \<Longrightarrow> distinct (splay_inorder r) \<Longrightarrow> weights_but len' x r"
    by (rule weights_but_change [of len]; use agree in blast)+
  ultimately show ?thesis using assms(1) Splay_Node by (auto simp: splay_inv_but_def)
qed (simp add: splay_inv_but_def)

lemma splay_inv_cong:
  assumes "splay_inv len t" "\<And>y. y \<in> set (splay_inorder t) \<Longrightarrow> len y = len' y"
  shows "splay_inv len' t"
  using assms weights_ok_cong [of _ len len'] by (cases t) auto

section \<open>Splaying keeps the order and restores the weights\<close>

text \<open>The nodes before and after the focus, and the weights of the siblings on the path.\<close>

fun path_before :: "'a frame list \<Rightarrow> 'a list" where
  "path_before [] = []"
| "path_before (Left_Of y v c # p) = path_before p"
| "path_before (Right_Of a y v # p) = path_before p @ splay_inorder a @ [y]"

fun path_after :: "'a frame list \<Rightarrow> 'a list" where
  "path_after [] = []"
| "path_after (Left_Of y v c # p) = y # splay_inorder c @ path_after p"
| "path_after (Right_Of a y v # p) = path_after p"

fun siblings_ok :: "('a \<Rightarrow> int) \<Rightarrow> 'a frame list \<Rightarrow> bool" where
  "siblings_ok len [] = True"
| "siblings_ok len (Left_Of y v c # p) \<longleftrightarrow> weights_ok len c \<and> siblings_ok len p"
| "siblings_ok len (Right_Of a y v # p) \<longleftrightarrow> weights_ok len a \<and> siblings_ok len p"

lemma locate_none [simp]: "locate x t p = None \<longleftrightarrow> x \<notin> set (splay_inorder t)"
  by (induction x t p rule: locate.induct) (auto split: option.splits)

lemma locate_correct:
  "locate x t p = Some (f, q) \<Longrightarrow> weights_but len x t \<Longrightarrow> siblings_ok len p \<Longrightarrow>
     distinct (splay_inorder t) \<Longrightarrow>
     \<exists>l w r. f = Splay_Node l x w r \<and> weights_ok len l \<and> weights_ok len r \<and> siblings_ok len q \<and>
       path_before p @ splay_inorder t @ path_after p =
       path_before q @ (splay_inorder l @ x # splay_inorder r) @ path_after q"
proof (induction t arbitrary: p)
  case (Splay_Node l y w r)
  show ?case
  proof (cases "y = x")
    case False
    show ?thesis
    proof (cases "x \<in> set (splay_inorder l)")
      case True
      then obtain loc where l: "locate x l (Left_Of y w r # p) = Some loc"
        using locate_none by (metis not_Some_eq)
      then have "locate x l (Left_Of y w r # p) = Some (f, q)"
        using Splay_Node.prems(1) False by simp
      moreover have "x \<notin> set (splay_inorder r)" using True Splay_Node.prems(4) by auto
      ultimately show ?thesis
        using Splay_Node.IH(1) [of "Left_Of y w r # p"] Splay_Node.prems True False by simp
    next
      case notl: False
      then have "locate x r (Right_Of l y w # p) = Some (f, q)"
        using Splay_Node.prems(1) False iffD2 [OF locate_none notl] by simp
      moreover from this have "x \<in> set (splay_inorder r)"
        using locate_none [of x r "Right_Of l y w # p"] by fastforce
      ultimately show ?thesis
        using Splay_Node.IH(2) [of "Right_Of l y w # p"] Splay_Node.prems notl False by simp
    qed
  qed (use Splay_Node.prems in auto)
qed simp

lemma splay_loop_correct:
  "\<lbrakk>weights_ok len l; weights_ok len r; siblings_ok len p\<rbrakk> \<Longrightarrow>
     \<exists>l' w' r'. splay_loop len (Splay_Node l x w r) p = Splay_Node l' x w' r' \<and>
       weights_ok len l' \<and> weights_ok len r' \<and>
       splay_inorder l' = path_before p @ splay_inorder l \<and>
       splay_inorder r' = splay_inorder r @ path_after p"
proof (induction len "Splay_Node l x w r" p arbitrary: l w r rule: splay_loop.induct)
qed (auto simp del: weight_of.simps)

lemma splay_root:
  assumes "splay_inv_but len x t" "x \<in> set (splay_inorder t)"
  obtains l w r where "splay len x t = Splay_Node l x w r" "weights_ok len l" "weights_ok len r"
    "splay_inorder t = splay_inorder l @ x # splay_inorder r"
proof -
  obtain f q where loc: "locate x t [] = Some (f, q)"
    using assms(2) locate_none by (metis not_Some_eq surj_pair)
  from assms(1) have but: "weights_but len x t" "distinct (splay_inorder t)"
    by (simp_all add: splay_inv_but_def)
  obtain l w r where f: "f = Splay_Node l x w r" "weights_ok len l" "weights_ok len r"
      "siblings_ok len q"
    and seq: "splay_inorder t = path_before q @ (splay_inorder l @ x # splay_inorder r) @ path_after q"
    using locate_correct [OF loc but(1) _ but(2)] by auto
  from splay_loop_correct [OF f(2,3,4), of x w] obtain l' w' r' where
    "splay_loop len f q = Splay_Node l' x w' r'" "weights_ok len l'" "weights_ok len r'"
    "splay_inorder l' = path_before q @ splay_inorder l" "splay_inorder r' = splay_inorder r @ path_after q"
    by (auto simp: f(1))
  with that show ?thesis using loc seq by (simp add: splay_def)
qed

lemma splay_unlinked: "x \<notin> set (splay_inorder t) \<Longrightarrow> splay len x t = t"
  by (simp add: splay_def iffD2 [OF locate_none])

lemma splay_correct:
  assumes "splay_inv_but len x t" "x \<in> set (splay_inorder t)"
  shows "splay_inv len (splay len x t)" "splay_inorder (splay len x t) = splay_inorder t"
  using assms by - (rule splay_root [OF assms], simp add: splay_inv_but_def)+

lemma splayed_children_correct:
  assumes "splay_inv_but len x t" "x \<in> set (splay_inorder t)"
  obtains l r where "splayed_children len x t = (l, r)" "weights_ok len l" "weights_ok len r"
    "splay_inorder t = splay_inorder l @ x # splay_inorder r"
proof -
  obtain f where "locate x t [] = Some f" using assms(2) locate_none by (metis not_Some_eq)
  moreover obtain l w r where "splay len x t = Splay_Node l x w r" "weights_ok len l"
    "weights_ok len r" "splay_inorder t = splay_inorder l @ x # splay_inorder r"
    by (rule splay_root [OF assms])
  ultimately show ?thesis using that by (simp add: splayed_children_def)
qed

lemma splay_insert_after_correct:
  assumes "splay_inv_but len p t" "p \<in> set (splay_inorder t)" "x \<notin> set (splay_inorder t)"
  shows "splay_inv len (splay_insert_after len p x t)"
    "splay_inorder (splay_insert_after len p x t) = link_after p x (splay_inorder t)"
proof -
  obtain l r where c: "splayed_children len p t = (l, r)" "weights_ok len l" "weights_ok len r"
    and seq: "splay_inorder t = splay_inorder l @ p # splay_inorder r"
    by (rule splayed_children_correct [OF assms(1,2)])
  have d: "distinct (splay_inorder t)" using assms(1) by (simp add: splay_inv_but_def)
  show "splay_inorder (splay_insert_after len p x t) = link_after p x (splay_inorder t)"
    using c seq d by (simp add: splay_insert_after_def link_after_mid)
  show "splay_inv len (splay_insert_after len p x t)"
    using c seq d assms(3) by (auto simp: splay_insert_after_def)
qed

lemma splay_maximum_last: "splay_maximum t = (if t = Null then None else Some (last (splay_inorder t)))"
proof (induction t rule: splay_maximum.induct)
  case (2 l x w r)
  then show ?case by (cases r) auto
qed simp

lemma inorder_ne [simp]: "splay_inorder t = [] \<longleftrightarrow> t = Null"
  by (cases t) auto

lemma splay_delete_correct:
  assumes "splay_inv_but len x t" "x \<in> set (splay_inorder t)"
  shows "splay_inv len (splay_delete len x t)"
    "splay_inorder (splay_delete len x t) = remove1 x (splay_inorder t)"
proof -
  obtain l r where c: "splayed_children len x t = (l, r)" "weights_ok len l" "weights_ok len r"
    and seq: "splay_inorder t = splay_inorder l @ x # splay_inorder r"
    by (rule splayed_children_correct [OF assms])
  have d: "distinct (splay_inorder t)" using assms(1) by (simp add: splay_inv_but_def)
  have r1: "remove1 x (splay_inorder t) = splay_inorder l @ splay_inorder r"
    using seq d by (simp add: remove1_append)
  have "splay_inv len (splay_delete len x t) \<and>
      splay_inorder (splay_delete len x t) = splay_inorder l @ splay_inorder r"
  proof (cases "l = Null")
    case True
    with c seq d show ?thesis
      by (cases r) (auto simp: splay_delete_def splay_maximum_last)
  next
    case False
    then obtain m where last: "last (splay_inorder l) = m" "m \<in> set (splay_inorder l)"
      by (metis inorder_ne last_in_set)
    have dl: "distinct (splay_inorder l)" using d seq by simp
    have but: "splay_inv_but len m l" using c dl by (simp add: splay_inv_but_def weights_ok_imp_but)
    obtain a w b where s: "splay len m l = Splay_Node a m w b" "weights_ok len a" "weights_ok len b"
      and sq: "splay_inorder l = splay_inorder a @ m # splay_inorder b"
      by (rule splay_root [OF but last(2)])
    have "b = Null"
    proof (rule ccontr)
      assume "b \<noteq> Null"
      then have "m \<in> set (splay_inorder b)" using sq last(1) last_in_set [of "splay_inorder b"] by simp
      then show False using dl sq by simp
    qed
    then have "splay_delete len x t = update_subtree len (Splay_Node a m w r)"
      using c s False last(1) by (simp add: splay_delete_def splay_maximum_last)
    then show ?thesis using c s d \<open>b = Null\<close> unfolding seq sq by simp
  qed
  then show "splay_inv len (splay_delete len x t)"
    "splay_inorder (splay_delete len x t) = remove1 x (splay_inorder t)" using r1 by auto
qed

section \<open>Search\<close>

text \<open>Positions of the sequence itself: the first node whose end reaches the index.\<close>

fun seq_find :: "('a \<Rightarrow> int) \<Rightarrow> 'a list \<Rightarrow> int \<Rightarrow> ('a option \<times> int) option" where
  "seq_find len [] i = None"
| "seq_find len (x # xs) i = (if i \<le> len x then Some (Some x, i) else seq_find len xs (i - len x))"

lemma seq_find_append:
  "seq_find len (xs @ ys) i =
     (if xs \<noteq> [] \<and> seq_find len xs i \<noteq> None then seq_find len xs i
      else seq_find len ys (i - total len xs))"
  by (induction xs arbitrary: i) (auto simp: algebra_simps)

lemma seq_find_none:
  "(\<And>x. 0 \<le> len x) \<Longrightarrow> xs \<noteq> [] \<Longrightarrow> seq_find len xs i = None \<longleftrightarrow> total len xs < i"
proof (induction xs arbitrary: i)
  case (Cons x xs)
  then show ?case
    using total_nonneg [of len xs] by (cases "xs = []") (auto simp: algebra_simps)
qed simp

lemma seq_find_past:
  "(\<And>x. 0 \<le> len x) \<Longrightarrow> xs = [] \<or> total len xs < i \<Longrightarrow> seq_find len xs i = None"
  using seq_find_none [of len xs i] by (cases xs) auto

lemma find_loop_none: "find_loop len t i = None \<longleftrightarrow> t = Null"
  by (induction len t i rule: find_loop.induct) auto

lemma find_loop_correct:
  assumes len: "\<And>x. 0 \<le> len x"
  shows "splay_inv len t \<or> weights_ok len t \<Longrightarrow> t \<noteq> Null \<Longrightarrow>
    \<exists>x off. find_loop len t i = Some (x, off) \<and>
      seq_find len (splay_inorder t) i = (if off \<le> len x then Some (Some x, off) else None)"
proof (induction t arbitrary: i)
  case (Splay_Node l x w r)
  have ok: "weights_ok len l" "weights_ok len r" using Splay_Node.prems(1) by auto
  consider (left) "l \<noteq> Null" "i \<le> total len (splay_inorder l)"
    | (right) "l = Null \<or> total len (splay_inorder l) < i" "r \<noteq> Null"
        "total len (splay_inorder l) + len x < i"
    | (here) "l = Null \<or> total len (splay_inorder l) < i"
        "r = Null \<or> i \<le> total len (splay_inorder l) + len x"
    by linarith
  then show ?case
  proof cases
    case left
    then have "seq_find len (splay_inorder l) i \<noteq> None" using seq_find_none [of len] len by auto
    then show ?thesis
      using Splay_Node.IH(1) [of i] ok left by (auto simp: seq_find_append split: if_splits)
  next
    case right
    then have "seq_find len (splay_inorder l) i = None" using seq_find_past [of len "splay_inorder l" i, OF len] by auto
    then show ?thesis
      using Splay_Node.IH(2) [of "i - (total len (splay_inorder l) + len x)"] ok right
      by (auto simp: seq_find_append algebra_simps)
  next
    case here
    then have "seq_find len (splay_inorder l) i = None" using seq_find_past [of len "splay_inorder l" i, OF len] by auto
    then show ?thesis using here ok by (auto simp: seq_find_append)
  qed
qed simp

text \<open>\<open>Find\<close> is the search of the sequence; it ends the process exactly past the end.\<close>

lemma splay_find_correct:
  assumes "\<And>x. 0 \<le> len x" "splay_inv len t" "t \<noteq> Null"
  shows "splay_find len t i = seq_find len (splay_inorder t) i"
  using find_loop_correct [of len t i] assms by (auto simp: splay_find_def)

lemma splay_find_total:
  assumes "\<And>x. 0 \<le> len x" "splay_inv len t" "t \<noteq> Null"
  shows "splay_find len t i = None \<longleftrightarrow> total len (splay_inorder t) < i"
  using splay_find_correct [OF assms] seq_find_none [of len "splay_inorder t" i] assms by simp

text \<open>Where a node begins.\<close>

fun seq_index :: "('a \<Rightarrow> int) \<Rightarrow> 'a list \<Rightarrow> 'a \<Rightarrow> int" where
  "seq_index len [] x = 0"
| "seq_index len (y # ys) x = (if y = x then 0 else len y + seq_index len ys x)"

lemma seq_index_mid: "x \<notin> set as \<Longrightarrow> seq_index len (as @ x # bs) x = total len as"
  by (induction as) auto

lemma climb_index_before:
  "siblings_ok len p \<Longrightarrow> climb_index len i p = i + total len (path_before p)"
  by (induction len i p rule: climb_index.induct) auto

lemma locate_singleton:
  "locate x t p = Some (Splay_Node Null x w Null, []) \<Longrightarrow> t = Splay_Node Null x w Null"
proof (induction t arbitrary: p)
  case (Splay_Node l y v r)
  have "locate x s q = Some (f, []) \<Longrightarrow> q = []" for s q f
    by (induction s arbitrary: q) (auto split: if_splits option.splits)
  then show ?case using Splay_Node.prems by (fastforce split: if_splits option.splits)
qed simp

lemma splay_index_of_correct:
  assumes "splay_inv len t" "x \<in> set (splay_inorder t)" "length (splay_inorder t) > 1"
  shows "splay_index_of len x t = seq_index len (splay_inorder t) x"
proof -
  have but: "weights_but len x t" "distinct (splay_inorder t)"
    using splay_inv_imp_but [OF assms(1)] by (simp_all add: splay_inv_but_def)
  obtain f q where loc: "locate x t [] = Some (f, q)"
    using assms(2) locate_none by (metis not_Some_eq surj_pair)
  obtain l w r where f: "f = Splay_Node l x w r" "weights_ok len l" "weights_ok len r"
      "siblings_ok len q"
    and seq: "splay_inorder t = path_before q @ (splay_inorder l @ x # splay_inorder r) @ path_after q"
    using locate_correct [OF loc but(1) _ but(2)] by auto
  have "\<not> (q = [] \<and> l = Null \<and> r = Null)" using seq assms(3) by auto
  moreover have "splay_inorder t = (path_before q @ splay_inorder l) @ x # (splay_inorder r @ path_after q)"
    using seq by simp
  then have "seq_index len (splay_inorder t) x = total len (path_before q @ splay_inorder l)"
    using seq_index_mid but(2) by (metis (no_types) disjoint_insert(1) distinct_append list.simps(15))
  ultimately show ?thesis
    using loc f climb_index_before [OF f(4)] by (simp add: splay_index_of_def)
qed

section \<open>The index tree as the list components see it\<close>

text \<open>
  A sequence of distinct values with lengths.  \<open>inv len t\<close> is the invariant for the lengths
  \<open>len\<close>, \<open>inv_but len x t\<close> what is left of it when the length of \<open>x\<close> has changed.
\<close>

locale index_tree =
  fixes inv :: "('a \<Rightarrow> int) \<Rightarrow> 't \<Rightarrow> bool"
    and inv_but :: "('a \<Rightarrow> int) \<Rightarrow> 'a \<Rightarrow> 't \<Rightarrow> bool"
    and sq :: "'t \<Rightarrow> 'a list"
    and touch :: "('a \<Rightarrow> int) \<Rightarrow> 'a \<Rightarrow> 't \<Rightarrow> 't"
    and insert_after :: "('a \<Rightarrow> int) \<Rightarrow> 'a \<Rightarrow> 'a \<Rightarrow> 't \<Rightarrow> 't"
    and remove :: "('a \<Rightarrow> int) \<Rightarrow> 'a \<Rightarrow> 't \<Rightarrow> 't"
    and index_of :: "('a \<Rightarrow> int) \<Rightarrow> 'a \<Rightarrow> 't \<Rightarrow> int"
    and find :: "('a \<Rightarrow> int) \<Rightarrow> 't \<Rightarrow> int \<Rightarrow> ('a option \<times> int) option"
  assumes inv_distinct: "inv len t \<Longrightarrow> distinct (sq t)"
    and inv_but: "inv len t \<Longrightarrow> inv_but len x t"
    and inv_cong: "inv len t \<Longrightarrow> (\<And>y. y \<in> set (sq t) \<Longrightarrow> len y = len' y) \<Longrightarrow> inv len' t"
    and inv_change: "inv len t \<Longrightarrow> (\<And>y. y \<in> set (sq t) \<Longrightarrow> y \<noteq> x \<Longrightarrow> len y = len' y) \<Longrightarrow>
      inv_but len' x t"
    and inv_touch: "inv_but len x t \<Longrightarrow> x \<in> set (sq t) \<Longrightarrow> inv len (touch len x t)"
    and sq_touch: "inv_but len x t \<Longrightarrow> x \<in> set (sq t) \<Longrightarrow> sq (touch len x t) = sq t"
    and inv_insert_after: "inv_but len p t \<Longrightarrow> p \<in> set (sq t) \<Longrightarrow> x \<notin> set (sq t) \<Longrightarrow>
      inv len (insert_after len p x t)"
    and sq_insert_after: "inv_but len p t \<Longrightarrow> p \<in> set (sq t) \<Longrightarrow> x \<notin> set (sq t) \<Longrightarrow>
      sq (insert_after len p x t) = link_after p x (sq t)"
    and inv_remove: "inv_but len x t \<Longrightarrow> x \<in> set (sq t) \<Longrightarrow> inv len (remove len x t)"
    and sq_remove: "inv_but len x t \<Longrightarrow> x \<in> set (sq t) \<Longrightarrow> sq (remove len x t) = remove1 x (sq t)"
    and index_of: "inv len t \<Longrightarrow> x \<in> set (sq t) \<Longrightarrow> 1 < length (sq t) \<Longrightarrow>
      index_of len x t = seq_index len (sq t) x"
    and find: "(\<And>x. 0 \<le> len x) \<Longrightarrow> inv len t \<Longrightarrow> sq t \<noteq> [] \<Longrightarrow> find len t i = seq_find len (sq t) i"
begin

lemma touch_changed:
  assumes "inv len t" "\<And>y. y \<in> set (sq t) \<Longrightarrow> y \<noteq> x \<Longrightarrow> len y = len' y" "x \<in> set (sq t)"
  shows "inv len' (touch len' x t)" "sq (touch len' x t) = sq t"
  using inv_touch sq_touch inv_change [OF assms(1,2)] assms(3) by blast+

lemma insert_new:
  assumes "inv len t" "\<And>y. y \<in> set (sq t) \<Longrightarrow> len y = len' y" "p \<in> set (sq t)" "x \<notin> set (sq t)"
  shows "inv len' (insert_after len' p x t)" "sq (insert_after len' p x t) = link_after p x (sq t)"
proof -
  have "inv len' t" by (rule inv_cong [OF assms(1,2)])
  then have "inv_but len' p t" by (rule inv_but)
  then show "inv len' (insert_after len' p x t)" "sq (insert_after len' p x t) = link_after p x (sq t)"
    using inv_insert_after sq_insert_after assms(3,4) by blast+
qed

lemma remove_inv:
  assumes "inv len t" "x \<in> set (sq t)"
  shows "inv len (remove len x t)" "sq (remove len x t) = remove1 x (sq t)"
    "x \<notin> set (sq (remove len x t))"
  using inv_remove sq_remove inv_but [OF assms(1)] assms inv_distinct [OF assms(1)] by auto

text \<open>The position of a node is found again.\<close>

lemma find_index_of:
  assumes nn: "\<And>x. 0 \<le> len x" and t: "inv len t" "x \<in> set (sq t)" "1 < length (sq t)"
    and k: "0 < k" "k \<le> len x"
  shows "find len t (index_of len x t + k) = Some (Some x, k)"
proof -
  obtain as bs where seq: "sq t = as @ x # bs" "x \<notin> set as" using split_at_mem [OF t(2)] by blast
  have "index_of len x t = total len as" using index_of [OF t] seq seq_index_mid by metis
  moreover have "seq_find len as (total len as + k) = None" using seq_find_past [of len as] nn k by auto
  ultimately show ?thesis
    using find [of len t "index_of len x t + k"] nn t seq k by (auto simp: seq_find_append)
qed

end

interpretation splay: index_tree splay_inv splay_inv_but splay_inorder splay splay_insert_after
    splay_delete splay_index_of splay_find
proof unfold_locales
  show "splay_inv len t \<Longrightarrow> distinct (splay_inorder t)" for len :: "'a \<Rightarrow> int" and t
    by (cases t) auto
  show "splay_find len t i = seq_find len (splay_inorder t) i"
    if "\<And>x. 0 \<le> len x" "splay_inv len t" "splay_inorder t \<noteq> []" for len :: "'a \<Rightarrow> int" and t i
    using splay_find_correct [OF that(1,2)] that(3) by simp
qed (fact splay_inv_imp_but splay_inv_cong splay_inv_change splay_correct
      splay_insert_after_correct splay_delete_correct splay_index_of_correct)+

section \<open>Properties\<close>

text \<open>C26: After the length of one node has changed (from \<open>len\<close> to \<open>len'\<close>), splaying that node,
  inserting after it or deleting it restores all the weights the searches read; the in-order
  sequence is kept, extended right after the node, and loses the node.\<close>
theorem splay_refines_sequence:
  assumes "splay_inv len t" "\<forall>y. y \<noteq> x \<longrightarrow> len y = len' y"
    "x \<in> set (splay_inorder t)" "z \<notin> set (splay_inorder t)"
  shows "splay_inv len' (splay len' x t) \<and> splay_inorder (splay len' x t) = splay_inorder t \<and>
    splay_inv len' (splay_insert_after len' x z t) \<and>
    splay_inorder (splay_insert_after len' x z t) = link_after x z (splay_inorder t) \<and>
    splay_inv len' (splay_delete len' x t) \<and>
    splay_inorder (splay_delete len' x t) = remove1 x (splay_inorder t)"
proof -
  have "splay_inv_but len' x t" using splay.inv_change assms(1,2) by metis
  then show ?thesis
    using assms(3,4) splay.inv_touch splay.sq_touch splay.inv_insert_after splay.sq_insert_after
      splay.inv_remove splay.sq_remove by metis
qed

definition sample_splay :: "nat splay_tree" where
  "sample_splay = Splay_Node (Splay_Node Null 10 2 Null) 20 9
     (Splay_Node (Splay_Node Null 30 3 Null) 40 4 Null)"

definition sample_len :: "nat \<Rightarrow> int" where
  "sample_len x = (if x = 10 then 2 else if x = 20 then 4 else if x = 30 then 3
     else if x = 40 then 1 else 0)"

theorem splay_refines_sequence_witness:
  "splay_inv (sample_len(30 := 0)) (splay (sample_len(30 := 0)) 30 sample_splay) \<and>
    splay_inorder (splay (sample_len(30 := 0)) 30 sample_splay) = splay_inorder sample_splay \<and>
    splay_inv (sample_len(30 := 0)) (splay_insert_after (sample_len(30 := 0)) 30 7 sample_splay) \<and>
    splay_inorder (splay_insert_after (sample_len(30 := 0)) 30 7 sample_splay) =
      link_after 30 7 (splay_inorder sample_splay) \<and>
    splay_inv (sample_len(30 := 0)) (splay_delete (sample_len(30 := 0)) 30 sample_splay) \<and>
    splay_inorder (splay_delete (sample_len(30 := 0)) 30 sample_splay) =
      remove1 30 (splay_inorder sample_splay)"
  by (rule splay_refines_sequence [of sample_len])
     (simp_all add: sample_splay_def sample_len_def)

text \<open>\<open>Find\<close> returns the first node of the sequence whose end reaches the index, with the
  offset in it, and \<open>IndexOf\<close> is its inverse; a search past the end is the only one that ends
  the process.\<close>
theorem splay_find_index:
  assumes "splay_inv len t" "\<forall>y. 0 \<le> len y" "1 < length (splay_inorder t)"
  shows "splay_find len t i = seq_find len (splay_inorder t) i \<and>
    (splay_find len t i = None \<longleftrightarrow> total len (splay_inorder t) < i) \<and>
    (\<forall>x\<in>set (splay_inorder t). splay_index_of len x t = seq_index len (splay_inorder t) x \<and>
       (\<forall>k\<in>{0<..len x}. splay_find len t (splay_index_of len x t + k) = Some (Some x, k)))"
proof -
  have t: "t \<noteq> Null" using assms(3) by auto
  have nn: "\<And>y. 0 \<le> len y" using assms(2) by blast
  show ?thesis
    using splay_find_correct [OF nn assms(1) t] splay_find_total [OF nn assms(1) t]
      splay.index_of [OF assms(1) _ assms(3)] splay.find_index_of [OF nn assms(1) _ assms(3)] by auto
qed

lemma sample_splay_ok:
  "splay_inv sample_len sample_splay" "\<forall>y. 0 \<le> sample_len y"
  "1 < length (splay_inorder sample_splay)" "30 \<in> set (splay_inorder sample_splay)"
  "2 \<in> {0<..sample_len 30}"
  by (simp_all add: sample_splay_def sample_len_def)

theorem splay_find_index_witness:
  "splay_find sample_len sample_splay 7 = seq_find sample_len (splay_inorder sample_splay) 7 \<and>
    splay_find sample_len sample_splay (splay_index_of sample_len 30 sample_splay + 2) =
      Some (Some 30, 2)"
  using splay_find_index [OF sample_splay_ok(1,2,3), of 7] sample_splay_ok(4,5) by blast

end
