(* ===== verification/Rht.thy ===== *)
theory Rht
  imports Ticket "HOL-Library.AList" "HOL-Library.Multiset" "HOL-Library.List_Lexorder" "HOL-Library.Char_ord"
begin

text \<open>
  The replicated hash table of \<open>src/pkg/document/json/rht.go\<close>, which holds the style attributes
  of rich text.  Both Go maps point at the same nodes, so the nodes are cells
  (\<open>rht_cells\<close>, appended to by allocation) and the maps hold cell numbers.  A Go map is an
  association list with distinct keys; Go leaves its iteration order open and the list order
  stands for one such order.  \<open>None\<close> is the nil dereference of a comparison with a nil ticket.
\<close>

section \<open>Definitions\<close>

record rht_node =
  rn_key :: string
  rn_val :: string
  rn_updated_at :: ticket
  rn_removed_at :: "ticket option"

record rht =
  rht_cells :: "rht_node list"
  rht_by_key :: "(string \<times> nat) list"
  rht_by_created_at :: "(string \<times> nat) list"

definition new_rht_node :: "string \<Rightarrow> string \<Rightarrow> ticket \<Rightarrow> rht_node" where
  "new_rht_node k v t = \<lparr>rn_key = k, rn_val = v, rn_updated_at = t, rn_removed_at = None\<rparr>"

definition rht_node_remove :: "rht_node \<Rightarrow> ticket \<Rightarrow> rht_node option" where
  "rht_node_remove n t =
     (case rn_removed_at n of
        None \<Rightarrow> Some (n\<lparr>rn_removed_at := Some t\<rparr>)
      | Some u \<Rightarrow> do { b \<leftarrow> ticket_after t u; Some (if b then n\<lparr>rn_removed_at := Some t\<rparr> else n) })"

definition rht_node_is_removed :: "rht_node \<Rightarrow> bool" where
  "rht_node_is_removed n \<longleftrightarrow> rn_removed_at n \<noteq> None"

definition new_rht :: rht where
  "new_rht = \<lparr>rht_cells = [], rht_by_key = [], rht_by_created_at = []\<rparr>"

definition rht_lookup :: "rht \<Rightarrow> string \<Rightarrow> rht_node option" where
  "rht_lookup r k = map_option (\<lambda>c. rht_cells r ! c) (map_of (rht_by_key r) k)"

definition rht_get :: "rht \<Rightarrow> string \<Rightarrow> string" where
  "rht_get r k =
     (case rht_lookup r k of
        None \<Rightarrow> []
      | Some n \<Rightarrow> if rht_node_is_removed n then [] else rn_val n)"

definition rht_has :: "rht \<Rightarrow> string \<Rightarrow> bool" where
  "rht_has r k =
     (case rht_lookup r k of None \<Rightarrow> False | Some n \<Rightarrow> \<not> rht_node_is_removed n)"

definition rht_put_node :: "rht \<Rightarrow> string \<Rightarrow> string \<Rightarrow> ticket \<Rightarrow> rht" where
  "rht_put_node r k v t =
     (let c = length (rht_cells r)
      in \<lparr>rht_cells = rht_cells r @ [new_rht_node k v t],
          rht_by_key = AList.update k c (rht_by_key r),
          rht_by_created_at = AList.update (ticket_key t) c (rht_by_created_at r)\<rparr>)"

definition rht_set :: "rht \<Rightarrow> string \<Rightarrow> string \<Rightarrow> ticket \<Rightarrow> rht option" where
  "rht_set r k v t =
     (case rht_lookup r k of
        None \<Rightarrow> Some (rht_put_node r k v t)
      | Some n \<Rightarrow> do {
          b \<leftarrow> ticket_after t (rn_updated_at n);
          Some (if b then rht_put_node r k v t else r) })"

text \<open>\<open>Remove\<close> compares with \<open>removedAt\<close> before testing it for nil.\<close>

definition rht_remove :: "rht \<Rightarrow> string \<Rightarrow> ticket \<Rightarrow> (rht \<times> string) option" where
  "rht_remove r k t =
     (case map_of (rht_by_key r) k of
        None \<Rightarrow> Some (r, [])
      | Some c \<Rightarrow> do {
          u \<leftarrow> rn_removed_at (rht_cells r ! c);
          b \<leftarrow> ticket_after t u;
          if b then do {
            n \<leftarrow> rht_node_remove (rht_cells r ! c) t;
            Some (r\<lparr>rht_cells := (rht_cells r)[c := n]\<rparr>, rn_val n) }
          else Some (r, []) })"

definition rht_remove_by_created_at :: "rht \<Rightarrow> ticket \<Rightarrow> ticket \<Rightarrow> (rht \<times> string) option" where
  "rht_remove_by_created_at r created removed =
     (case map_of (rht_by_created_at r) (ticket_key created) of
        None \<Rightarrow> Some (r, [])
      | Some c \<Rightarrow> do {
          n \<leftarrow> rht_node_remove (rht_cells r ! c) removed;
          Some (r\<lparr>rht_cells := (rht_cells r)[c := n]\<rparr>, rn_val n) })"

definition rht_nodes :: "rht \<Rightarrow> rht_node list" where
  "rht_nodes r = map (\<lambda>(k, c). rht_cells r ! c) (rht_by_key r)"

definition rht_elements :: "rht \<Rightarrow> (string \<times> string) list" where
  "rht_elements r = fold (\<lambda>n m. AList.update (rn_key n) (rn_val n) m)
     (filter (\<lambda>n. \<not> rht_node_is_removed n) (rht_nodes r)) []"

fun rht_set_all :: "rht \<Rightarrow> (string \<times> string \<times> ticket) list \<Rightarrow> rht option" where
  "rht_set_all r [] = Some r"
| "rht_set_all r ((k, v, t) # xs) = do { r \<leftarrow> rht_set r k v t; rht_set_all r xs }"

definition rht_deep_copy :: "rht \<Rightarrow> rht option" where
  "rht_deep_copy r =
     rht_set_all new_rht (map (\<lambda>n. (rn_key n, rn_val n, rn_updated_at n)) (rht_nodes r))"

definition quoted :: "string \<Rightarrow> string" where
  "quoted s = CHR 0x22 # s @ [CHR 0x22]"

definition rht_marshal :: "rht \<Rightarrow> string" where
  "rht_marshal r =
     (let members = rht_elements r;
          keys = sort (map fst members)
      in ''{'' @ join_with '',''
           (map (\<lambda>k. quoted k @ '':'' @ quoted (the (map_of members k))) keys) @ ''}'')"

section \<open>Invariant and view\<close>

definition rht_inv :: "rht \<Rightarrow> bool" where
  "rht_inv r \<longleftrightarrow> distinct (map fst (rht_by_key r)) \<and>
     (\<forall>(k, c)\<in>set (rht_by_key r). c < length (rht_cells r) \<and> rn_key (rht_cells r ! c) = k) \<and>
     (\<forall>(k, c)\<in>set (rht_by_created_at r). c < length (rht_cells r))"

lemma new_rht_inv: "rht_inv new_rht"
  by (simp add: rht_inv_def new_rht_def)

lemma set_update_subset: "set (AList.update k v xs) \<subseteq> insert (k, v) (set xs)"
  by (induction xs) auto

lemma rht_put_node_inv: "rht_inv r \<Longrightarrow> rht_inv (rht_put_node r k v t)"
proof -
  assume r: "rht_inv r"
  let ?c = "length (rht_cells r)"
  have key: "c < Suc ?c \<and> rn_key ((rht_cells r @ [new_rht_node k v t]) ! c) = k'"
    if "(k', c) \<in> set (AList.update k ?c (rht_by_key r))" for k' c
    using subsetD [OF set_update_subset that] r
    by (fastforce simp: rht_inv_def nth_append new_rht_node_def)
  have created: "c < Suc ?c" if "(k', c) \<in> set (AList.update (ticket_key t) ?c (rht_by_created_at r))" for k' c
    using subsetD [OF set_update_subset that] r by (fastforce simp: rht_inv_def)
  show ?thesis
    using r key created distinct_update [of "rht_by_key r" k ?c]
    by (auto simp: rht_inv_def rht_put_node_def Let_def)
qed

lemma rht_put_node_lookup:
  "rht_inv r \<Longrightarrow> rht_lookup (rht_put_node r k v t) =
     (rht_lookup r)(k \<mapsto> new_rht_node k v t)"
  by (rule ext)
     (auto simp: rht_lookup_def rht_put_node_def Let_def update_conv' rht_inv_def nth_append
       dest!: map_of_SomeD intro!: map_option_cong)

text \<open>A key's entry is the write with the latest ticket.\<close>

definition later_write :: "rht_node option \<Rightarrow> string \<Rightarrow> string \<Rightarrow> ticket \<Rightarrow> rht_node option" where
  "later_write e k v t =
     (case e of
        None \<Rightarrow> Some (new_rht_node k v t)
      | Some n \<Rightarrow> if rn_updated_at n < t then Some (new_rht_node k v t) else Some n)"

definition rht_actors :: "rht \<Rightarrow> bool" where
  "rht_actors r \<longleftrightarrow> (\<forall>n\<in>set (rht_cells r). actorID (rn_updated_at n) \<noteq> None)"

lemma rht_lookup_cell: "rht_inv r \<Longrightarrow> rht_lookup r k = Some n \<Longrightarrow> n \<in> set (rht_cells r) \<and> rn_key n = k"
  by (fastforce simp: rht_lookup_def rht_inv_def dest!: map_of_SomeD)

lemma rht_set_correct:
  assumes "rht_inv r" "rht_actors r" "actorID t \<noteq> None"
  obtains r' where "rht_set r k v t = Some r'" "rht_inv r'" "rht_actors r'"
    "rht_lookup r' = (rht_lookup r)(k := later_write (rht_lookup r k) k v t)"
proof (cases "rht_lookup r k")
  case None
  show ?thesis
    by (rule that [of "rht_put_node r k v t"])
       (use None assms rht_put_node_inv rht_put_node_lookup in
         \<open>auto simp: rht_set_def later_write_def rht_actors_def rht_put_node_def new_rht_node_def Let_def\<close>)
next
  case (Some n)
  then have "actorID (rn_updated_at n) \<noteq> None"
    using rht_lookup_cell assms(1,2) by (auto simp: rht_actors_def)
  then have after: "ticket_after t (rn_updated_at n) = Some (rn_updated_at n < t)"
    using assms(3) by (simp add: ticket_after_order)
  show ?thesis
  proof (cases "rn_updated_at n < t")
    case True
    show ?thesis
      by (rule that [of "rht_put_node r k v t"])
         (use Some True after assms rht_put_node_inv rht_put_node_lookup in
           \<open>auto simp: rht_set_def later_write_def rht_actors_def rht_put_node_def new_rht_node_def Let_def\<close>)
  next
    case False
    show ?thesis
      by (rule that [of r])
         (use Some False after assms in \<open>auto simp: rht_set_def later_write_def fun_upd_idem\<close>)
  qed
qed

section \<open>Convergence\<close>

lemma later_write_commute:
  "t \<noteq> u \<Longrightarrow> later_write (later_write e k v t) k w u = later_write (later_write e k w u) k v t"
  by (auto simp: later_write_def new_rht_node_def split: option.splits)

definition apply_write :: "string \<times> string \<times> ticket \<Rightarrow> (string \<Rightarrow> rht_node option) \<Rightarrow>
    string \<Rightarrow> rht_node option" where
  "apply_write = (\<lambda>(k, v, t) m. m(k := later_write (m k) k v t))"

lemma apply_write_commute:
  "snd (snd x) \<noteq> snd (snd y) \<Longrightarrow> apply_write x \<circ> apply_write y = apply_write y \<circ> apply_write x"
  by (auto simp: apply_write_def fun_eq_iff later_write_commute split: prod.splits)

lemma rht_set_all_lookup:
  "rht_inv r \<Longrightarrow> rht_actors r \<Longrightarrow> (\<forall>(k, v, t)\<in>set xs. actorID t \<noteq> None) \<Longrightarrow>
     \<exists>r'. rht_set_all r xs = Some r' \<and> rht_inv r' \<and> rht_actors r' \<and>
       rht_lookup r' = fold apply_write xs (rht_lookup r)"
proof (induction xs arbitrary: r)
  case (Cons x xs)
  obtain k v t where x: "x = (k, v, t)" by (cases x)
  have "actorID t \<noteq> None" using Cons.prems(3) x by auto
  then obtain r1 where "rht_set r k v t = Some r1" "rht_inv r1" "rht_actors r1"
    "rht_lookup r1 = apply_write x (rht_lookup r)"
    by (rule rht_set_correct [OF Cons.prems(1,2), where k = k and v = v])
       (auto simp: x apply_write_def)
  then show ?case using Cons.IH [of r1] Cons.prems(3) by (simp add: x)
qed simp

lemma fold_apply_write_perm:
  assumes "mset xs = mset ys" "distinct (map (snd \<circ> snd) xs)"
  shows "fold apply_write xs = fold apply_write ys"
proof (rule fold_multiset_equiv)
  fix x y assume "x \<in> set xs" "y \<in> set xs"
  then have "x = y \<or> snd (snd x) \<noteq> snd (snd y)"
    using assms(2) by (auto simp: distinct_map inj_on_def)
  then show "apply_write x \<circ> apply_write y = apply_write y \<circ> apply_write x"
    using apply_write_commute by blast
qed (fact assms(1))

lemma map_of_elements_fold:
  "map_of (fold (\<lambda>n m. AList.update (rn_key n) (rn_val n) m) ns m0) =
     fold (\<lambda>n m. m(rn_key n \<mapsto> rn_val n)) ns (map_of m0)"
  by (induction ns arbitrary: m0) (simp_all add: update_conv')

lemma distinct_elements_fold:
  "distinct (map fst m0) \<Longrightarrow>
     distinct (map fst (fold (\<lambda>n m. AList.update (rn_key n) (rn_val n) m) ns m0))"
  by (induction ns arbitrary: m0) (simp_all add: distinct_update)

text \<open>What the table shows: the live entry of each key.\<close>

definition rht_shown :: "rht \<Rightarrow> string \<rightharpoonup> string" where
  "rht_shown r k = (case rht_lookup r k of
     Some n \<Rightarrow> if rht_node_is_removed n then None else Some (rn_val n) | None \<Rightarrow> None)"

lemma fold_live_nodes:
  "distinct (map fst kcs) \<Longrightarrow> (\<forall>(k, c)\<in>set kcs. rn_key (f c) = k) \<Longrightarrow>
     fold (\<lambda>n m. m(rn_key n \<mapsto> rn_val n)) (filter P (map (\<lambda>(k, c). f c) kcs)) m0 k =
     (case map_of kcs k of
        Some c \<Rightarrow> if P (f c) then Some (rn_val (f c)) else m0 k | None \<Rightarrow> m0 k)"
proof (induction kcs arbitrary: m0)
  case (Cons kc kcs)
  obtain k' c where kc: "kc = (k', c)" by (cases kc)
  have fc: "rn_key (f c) = k'" and d: "distinct (map fst kcs)" "k' \<notin> fst ` set kcs"
    using Cons.prems kc by auto
  have rest: "\<forall>(k, c)\<in>set kcs. rn_key (f c) = k" using Cons.prems(2) by auto
  have none: "map_of kcs k' = None" using d(2) by (simp add: map_of_eq_None_iff)
  show ?case
    using Cons.IH [OF d(1) rest, of "if P (f c) then m0(k' \<mapsto> rn_val (f c)) else m0"] none
    by (cases "k = k'"; cases "P (f c)"; cases "map_of kcs k") (simp_all add: kc fc)
qed simp

lemma rht_elements_shown:
  assumes "rht_inv r"
  shows "map_of (rht_elements r) = rht_shown r" "distinct (map fst (rht_elements r))"
proof -
  show "distinct (map fst (rht_elements r))"
    unfolding rht_elements_def by (rule distinct_elements_fold) simp
  show "map_of (rht_elements r) = rht_shown r"
  proof
    fix k
    have "\<forall>(k, c)\<in>set (rht_by_key r). rn_key (rht_cells r ! c) = k"
      using assms by (auto simp: rht_inv_def)
    with assms show "map_of (rht_elements r) k = rht_shown r k"
      using fold_live_nodes [of "rht_by_key r" "(!) (rht_cells r)" "\<lambda>n. \<not> rht_node_is_removed n" Map.empty k]
      by (auto simp: rht_elements_def map_of_elements_fold rht_nodes_def rht_shown_def rht_lookup_def
          rht_inv_def split: option.splits)
  qed
qed

lemma rht_marshal_shown:
  assumes "rht_inv r" "rht_inv r'" "rht_shown r = rht_shown r'"
  shows "rht_marshal r = rht_marshal r'"
proof -
  have m: "map_of (rht_elements r) = map_of (rht_elements r')"
    using rht_elements_shown assms by simp
  then have "set (map fst (rht_elements r)) = set (map fst (rht_elements r'))"
    by (metis dom_map_of_conv_image_fst list.set_map)
  then have "mset (map fst (rht_elements r)) = mset (map fst (rht_elements r'))"
    using rht_elements_shown(2) assms(1,2) by (metis set_eq_iff_mset_eq_distinct)
  then have "sort (map fst (rht_elements r)) = sort (map fst (rht_elements r'))"
    by (metis sorted_list_of_multiset_mset)
  then show ?thesis by (simp add: rht_marshal_def m Let_def)
qed

lemma fold_copied_nodes:
  "distinct (map fst kcs) \<Longrightarrow> (\<forall>(k, c)\<in>set kcs. rn_key (f c) = k \<and> m k = None) \<Longrightarrow>
     fold apply_write (map (\<lambda>n. (rn_key n, rn_val n, rn_updated_at n)) (map (\<lambda>(k, c). f c) kcs)) m k =
     (case map_of kcs k of
        None \<Rightarrow> m k | Some c \<Rightarrow> Some ((f c :: rht_node)\<lparr>rn_removed_at := None\<rparr>))"
proof (induction kcs arbitrary: m)
  case (Cons kc kcs)
  obtain k' c where kc: "kc = (k', c)" by (cases kc)
  have key: "rn_key (f c) = k'" and m: "m k' = None" using Cons.prems kc by auto
  have step: "apply_write (rn_key (f c), rn_val (f c), rn_updated_at (f c)) m =
      m(k' \<mapsto> (f c)\<lparr>rn_removed_at := None\<rparr>)"
    using m key by (cases "f c") (simp add: apply_write_def later_write_def new_rht_node_def)
  have d: "distinct (map fst kcs)" "k' \<notin> fst ` set kcs" using Cons.prems(1) kc by auto
  then have none: "map_of kcs k' = None" by (simp add: map_of_eq_None_iff)
  have "\<forall>(k, c1)\<in>set kcs. rn_key (f c1) = k \<and> (m(k' \<mapsto> (f c)\<lparr>rn_removed_at := None\<rparr>)) k = None"
    using Cons.prems(2) d(2) by force
  note ih = Cons.IH [OF d(1) this]
  have "fold apply_write (map (\<lambda>n. (rn_key n, rn_val n, rn_updated_at n))
      (map (\<lambda>(k, c). f c) (kc # kcs))) m k =
      (case map_of kcs k of
        None \<Rightarrow> (m(k' \<mapsto> (f c)\<lparr>rn_removed_at := None\<rparr>)) k
      | Some c \<Rightarrow> Some ((f c)\<lparr>rn_removed_at := None\<rparr>))"
    unfolding ih [symmetric] by (simp add: kc step)
  also have "\<dots> = (case map_of (kc # kcs) k of
      None \<Rightarrow> m k | Some c \<Rightarrow> Some ((f c)\<lparr>rn_removed_at := None\<rparr>))"
    using none by (auto simp: kc split: option.splits)
  finally show ?case .
qed simp

lemma rht_deep_copy_correct:
  assumes "rht_inv r" "rht_actors r"
  shows "\<exists>c. rht_deep_copy r = Some c \<and> rht_inv c \<and> rht_actors c \<and>
    (\<forall>k. rht_lookup c k = map_option (\<lambda>n. n\<lparr>rn_removed_at := None\<rparr>) (rht_lookup r k))"
proof -
  let ?xs = "map (\<lambda>n. (rn_key n, rn_val n, rn_updated_at n)) (rht_nodes r)"
  have cells: "c < length (rht_cells r) \<and> rn_key (rht_cells r ! c) = k"
    if "(k, c) \<in> set (rht_by_key r)" for k c using assms(1) that by (auto simp: rht_inv_def)
  then have "\<forall>(k, v, t)\<in>set ?xs. actorID t \<noteq> None"
    using assms(2) by (fastforce simp: rht_nodes_def rht_actors_def)
  then obtain c where c: "rht_deep_copy r = Some c" "rht_inv c" "rht_actors c"
    "rht_lookup c = fold apply_write ?xs (rht_lookup new_rht)"
    using rht_set_all_lookup [OF new_rht_inv, of ?xs]
    by (auto simp: rht_deep_copy_def rht_actors_def new_rht_def)
  have new: "rht_lookup new_rht = Map.empty" by (simp add: rht_lookup_def new_rht_def fun_eq_iff)
  have "rht_lookup c k = map_option (\<lambda>n. n\<lparr>rn_removed_at := None\<rparr>) (rht_lookup r k)" for k
  proof -
    have "\<forall>(k, c)\<in>set (rht_by_key r). rn_key (rht_cells r ! c) = k \<and> Map.empty k = None"
      using cells by auto
    from fold_copied_nodes [OF _ this, of k] show ?thesis
      using assms(1) unfolding c(4) new
      by (auto simp: rht_nodes_def rht_lookup_def rht_inv_def split: option.splits)
  qed
  with c(1-3) show ?thesis by blast
qed

section \<open>Properties\<close>

text \<open>C35: Replicas of a hash table that receive the same writes, in any order, agree: no write
  panics, each key holds the same entry, and the printed tables are equal.\<close>
theorem rht_convergence:
  assumes "rht_inv r" "rht_actors r" "mset xs = mset ys" "distinct (map (snd \<circ> snd) xs)"
    "\<forall>(k, v, t)\<in>set xs. actorID t \<noteq> None"
  shows "\<exists>a b. rht_set_all r xs = Some a \<and> rht_set_all r ys = Some b \<and>
    rht_lookup a = rht_lookup b \<and> rht_marshal a = rht_marshal b"
proof -
  have "set xs = set ys" using assms(3) by (metis set_mset_mset)
  then obtain a b where "rht_set_all r xs = Some a" "rht_inv a" "rht_set_all r ys = Some b" "rht_inv b"
    "rht_lookup a = rht_lookup b"
    using rht_set_all_lookup [OF assms(1,2), of xs] rht_set_all_lookup [OF assms(1,2), of ys]
      fold_apply_write_perm [OF assms(3,4)] assms(5) by auto
  moreover from this have "rht_shown a = rht_shown b" by (auto simp: rht_shown_def fun_eq_iff)
  ultimately show ?thesis using rht_marshal_shown by blast
qed

theorem rht_convergence_witness:
  "\<exists>a b. rht_set_all new_rht
      [(''b'', ''1'', Ticket 1 1 (Some [])), (''b'', ''2'', Ticket 2 1 (Some []))] = Some a \<and>
    rht_set_all new_rht
      [(''b'', ''2'', Ticket 2 1 (Some [])), (''b'', ''1'', Ticket 1 1 (Some []))] = Some b \<and>
    rht_lookup a = rht_lookup b \<and> rht_marshal a = rht_marshal b"
  by (rule rht_convergence [OF new_rht_inv]) (auto simp: rht_actors_def new_rht_def)

text \<open>A copy of a hash table keeps the value and the write time of every key, but forgets the
  removals: the copy shows the attributes that had been removed.\<close>
theorem rht_deep_copy_forgets_removals:
  assumes "rht_inv r" "rht_actors r"
  shows "\<exists>c. rht_deep_copy r = Some c \<and>
    (\<forall>k. rht_lookup c k = map_option (\<lambda>n. n\<lparr>rn_removed_at := None\<rparr>) (rht_lookup r k))"
  using rht_deep_copy_correct [OF assms] by blast

definition sample_rht :: rht where
  "sample_rht = \<lparr>rht_cells = [\<lparr>rn_key = ''b'', rn_val = ''1'', rn_updated_at = Ticket 1 1 (Some []),
     rn_removed_at = Some (Ticket 2 1 (Some []))\<rparr>],
     rht_by_key = [(''b'', 0)], rht_by_created_at = []\<rparr>"

theorem rht_deep_copy_forgets_removals_witness:
  "\<exists>c. rht_deep_copy sample_rht = Some c \<and> rht_get sample_rht ''b'' = [] \<and> rht_get c ''b'' = ''1''"
proof -
  have "rht_inv sample_rht" "rht_actors sample_rht"
    by (simp_all add: rht_inv_def rht_actors_def sample_rht_def)
  from rht_deep_copy_forgets_removals [OF this] obtain c where "rht_deep_copy sample_rht = Some c"
    "rht_lookup c ''b'' = map_option (\<lambda>n. n\<lparr>rn_removed_at := None\<rparr>) (rht_lookup sample_rht ''b'')"
    by blast
  then show ?thesis
    by (auto simp: rht_get_def rht_lookup_def sample_rht_def rht_node_is_removed_def)
qed

end
