(* ===== verification/Values.thy ===== *)
theory Values
  imports Prelude "HOL-Library.Multiset"
begin

text \<open>
  The values of JSON primitives and counters: \<open>src/pkg/document/json/primitive.go\<close> and
  \<open>src/pkg/document/json/counter.go\<close>.  An \<open>interface{}\<close> that holds one of the supported Go
  types is a \<open>go_value\<close>; \<open>None\<close> is the panic of an unsupported type, of a failed type
  assertion or of a slice that is too short.  Go \<open>int\<close> is 64 bits wide.  A \<open>float64\<close> is its bit
  pattern, and the IEEE operations the code applies to it are the record \<open>float_ops\<close>; the
  text of a time depends on the time zone of the process and is an argument too.  The clock
  fields of an element (creation, move, removal) are in theory \<open>Elements\<close>.
\<close>

section \<open>Go values\<close>

datatype go_value =
    Go_Nil | Go_Bool bool | Go_Int "64 word" | Go_Int64 "64 word" | Go_Float64 "64 word"
  | Go_String string | Go_Bytes "8 word list" | Go_Time int nat | Go_Other

record float_ops =
  float_add :: "64 word \<Rightarrow> 64 word \<Rightarrow> 64 word"
  float_of_int :: "64 word \<Rightarrow> 64 word"
  int_of_float :: "64 word \<Rightarrow> 64 word"
  float_text :: "64 word \<Rightarrow> string"

definition max_int32 :: int where
  "max_int32 = 2 ^ 31 - 1"

definition min_int32 :: int where
  "min_int32 = - (2 ^ 31)"

definition out_of_int32 :: "64 word \<Rightarrow> bool" where
  "out_of_int32 v \<longleftrightarrow> sint v > max_int32 \<or> sint v < min_int32"

text \<open>\<open>encoding/binary\<close>, little endian.\<close>

fun put_uint :: "nat \<Rightarrow> 64 word \<Rightarrow> 8 word list" where
  "put_uint 0 w = []"
| "put_uint (Suc n) w = ucast w # put_uint n (drop_bit 8 w)"

fun get_uint :: "nat \<Rightarrow> 8 word list \<Rightarrow> 64 word option" where
  "get_uint 0 bs = Some 0"
| "get_uint (Suc n) [] = None"
| "get_uint (Suc n) (b # bs) = do { w \<leftarrow> get_uint n bs; Some (or (ucast b) (push_bit 8 w)) }"

definition sign_extend32 :: "64 word \<Rightarrow> 64 word" where
  "sign_extend32 w = word_of_int (sint (ucast w :: 32 word))"

definition string_bytes :: "string \<Rightarrow> 8 word list" where
  "string_bytes s = map (\<lambda>c. word_of_nat (of_char c)) s"

definition bytes_string :: "8 word list \<Rightarrow> string" where
  "bytes_string bs = map (\<lambda>b. char_of (unat b)) bs"

section \<open>Primitives\<close>

datatype value_type =
    Null_Type | Boolean_Type | Integer_Type | Long_Type | Double_Type | String_Type | Bytes_Type | Date_Type

record primitive =
  value_type :: value_type
  prim_value :: go_value

definition new_primitive :: "go_value \<Rightarrow> primitive option" where
  "new_primitive v =
     (case v of
        Go_Nil \<Rightarrow> Some \<lparr>value_type = Null_Type, prim_value = Go_Nil\<rparr>
      | Go_Bool b \<Rightarrow> Some \<lparr>value_type = Boolean_Type, prim_value = v\<rparr>
      | Go_Int i \<Rightarrow>
          if out_of_int32 i then Some \<lparr>value_type = Long_Type, prim_value = Go_Int64 i\<rparr>
          else Some \<lparr>value_type = Integer_Type, prim_value = v\<rparr>
      | Go_Int64 i \<Rightarrow> Some \<lparr>value_type = Long_Type, prim_value = v\<rparr>
      | Go_Float64 f \<Rightarrow> Some \<lparr>value_type = Double_Type, prim_value = v\<rparr>
      | Go_String s \<Rightarrow> Some \<lparr>value_type = String_Type, prim_value = v\<rparr>
      | Go_Bytes bs \<Rightarrow> Some \<lparr>value_type = Bytes_Type, prim_value = v\<rparr>
      | Go_Time sec nsec \<Rightarrow> Some \<lparr>value_type = Date_Type, prim_value = v\<rparr>
      | Go_Other \<Rightarrow> None)"

definition primitive_bytes :: "primitive \<Rightarrow> 8 word list option" where
  "primitive_bytes p =
     (if value_type p = Null_Type then Some []
      else case prim_value p of
        Go_Bool b \<Rightarrow> Some [if b then 1 else 0]
      | Go_Int i \<Rightarrow> Some (put_uint 4 i)
      | Go_Int64 i \<Rightarrow> Some (put_uint 8 i)
      | Go_Float64 f \<Rightarrow> Some (put_uint 8 f)
      | Go_String s \<Rightarrow> Some (string_bytes s)
      | Go_Bytes bs \<Rightarrow> Some bs
      | Go_Time sec nsec \<Rightarrow> Some (put_uint 8 (word_of_int sec))
      | _ \<Rightarrow> None)"

definition value_from_bytes :: "value_type \<Rightarrow> 8 word list \<Rightarrow> go_value option" where
  "value_from_bytes ty bs =
     (case ty of
        Null_Type \<Rightarrow> Some Go_Nil
      | Boolean_Type \<Rightarrow> (case bs of [] \<Rightarrow> None | b # _ \<Rightarrow> Some (Go_Bool (b = 1)))
      | Integer_Type \<Rightarrow> map_option (\<lambda>w. Go_Int (sign_extend32 w)) (get_uint 4 bs)
      | Long_Type \<Rightarrow> map_option Go_Int64 (get_uint 8 bs)
      | Double_Type \<Rightarrow> map_option Go_Float64 (get_uint 8 bs)
      | String_Type \<Rightarrow> Some (Go_String (bytes_string bs))
      | Bytes_Type \<Rightarrow> Some (Go_Bytes bs)
      | Date_Type \<Rightarrow> map_option (\<lambda>w. Go_Time (sint w) 0) (get_uint 8 bs))"

text \<open>\<open>%t\<close>, \<open>%d\<close>, \<open>%f\<close> and \<open>%s\<close> of a value whose dynamic type is the one its type tag promises.\<close>

definition primitive_marshal :: "float_ops \<Rightarrow> (int \<Rightarrow> nat \<Rightarrow> string) \<Rightarrow> primitive \<Rightarrow> string option" where
  "primitive_marshal fl rfc3339 p =
     (case (value_type p, prim_value p) of
        (Null_Type, _) \<Rightarrow> Some ''null''
      | (Boolean_Type, Go_Bool b) \<Rightarrow> Some (if b then ''true'' else ''false'')
      | (Integer_Type, Go_Int i) \<Rightarrow> Some (dec_int (sint i))
      | (Long_Type, Go_Int64 i) \<Rightarrow> Some (dec_int (sint i))
      | (Double_Type, Go_Float64 f) \<Rightarrow> Some (float_text fl f)
      | (String_Type, Go_String s) \<Rightarrow> Some (CHR 0x22 # s @ [CHR 0x22])
      | (Bytes_Type, Go_Bytes bs) \<Rightarrow> Some (CHR 0x22 # bytes_string bs @ [CHR 0x22])
      | (Date_Type, Go_Time sec nsec) \<Rightarrow> Some (rfc3339 sec nsec)
      | _ \<Rightarrow> None)"

definition primitive_is_numeric :: "primitive \<Rightarrow> bool" where
  "primitive_is_numeric p \<longleftrightarrow> value_type p \<in> {Integer_Type, Long_Type, Double_Type}"

section \<open>Counters\<close>

datatype counter_type = Integer_Cnt | Long_Cnt | Double_Cnt

record counter =
  counter_type :: counter_type
  counter_value :: go_value

definition new_counter :: "go_value \<Rightarrow> counter option" where
  "new_counter v =
     (case v of
        Go_Int i \<Rightarrow>
          if out_of_int32 i then Some \<lparr>counter_type = Long_Cnt, counter_value = Go_Int64 i\<rparr>
          else Some \<lparr>counter_type = Integer_Cnt, counter_value = v\<rparr>
      | Go_Int64 i \<Rightarrow> Some \<lparr>counter_type = Long_Cnt, counter_value = v\<rparr>
      | Go_Float64 f \<Rightarrow> Some \<lparr>counter_type = Double_Cnt, counter_value = v\<rparr>
      | _ \<Rightarrow> None)"

definition counter_value_from_bytes :: "counter_type \<Rightarrow> 8 word list \<Rightarrow> go_value option" where
  "counter_value_from_bytes ty bs =
     (case ty of
        Integer_Cnt \<Rightarrow> map_option (\<lambda>w. Go_Int (sign_extend32 w)) (get_uint 4 bs)
      | Long_Cnt \<Rightarrow> map_option Go_Int64 (get_uint 8 bs)
      | Double_Cnt \<Rightarrow> map_option Go_Float64 (get_uint 8 bs))"

definition counter_bytes :: "counter \<Rightarrow> 8 word list option" where
  "counter_bytes p =
     (case counter_value p of
        Go_Int i \<Rightarrow> Some (put_uint 4 i)
      | Go_Int64 i \<Rightarrow> Some (put_uint 8 i)
      | Go_Float64 f \<Rightarrow> Some (put_uint 8 f)
      | _ \<Rightarrow> None)"

definition counter_marshal :: "float_ops \<Rightarrow> counter \<Rightarrow> string option" where
  "counter_marshal fl p =
     (case (counter_type p, counter_value p) of
        (Integer_Cnt, Go_Int i) \<Rightarrow> Some (dec_int (sint i))
      | (Long_Cnt, Go_Int64 i) \<Rightarrow> Some (dec_int (sint i))
      | (Double_Cnt, Go_Float64 f) \<Rightarrow> Some (float_text fl f)
      | _ \<Rightarrow> None)"

text \<open>Type assertions.\<close>

fun as_int :: "go_value \<Rightarrow> 64 word option" where
  "as_int (Go_Int i) = Some i"
| "as_int _ = None"

fun as_int64 :: "go_value \<Rightarrow> 64 word option" where
  "as_int64 (Go_Int64 i) = Some i"
| "as_int64 _ = None"

fun as_float64 :: "go_value \<Rightarrow> 64 word option" where
  "as_float64 (Go_Float64 f) = Some f"
| "as_float64 _ = None"

definition counter_increase :: "float_ops \<Rightarrow> counter \<Rightarrow> primitive \<Rightarrow> counter option" where
  "counter_increase fl p v =
     (if \<not> primitive_is_numeric v then None
      else case counter_type p of
        Integer_Cnt \<Rightarrow> do {
          a \<leftarrow> as_int (counter_value p);
          b \<leftarrow> (case value_type v of
                 Long_Type \<Rightarrow> as_int64 (prim_value v)
               | Double_Type \<Rightarrow> map_option (int_of_float fl) (as_float64 (prim_value v))
               | _ \<Rightarrow> as_int (prim_value v));
          Some (if out_of_int32 (a + b)
                then \<lparr>counter_type = Long_Cnt, counter_value = Go_Int64 (a + b)\<rparr>
                else p\<lparr>counter_value := Go_Int (a + b)\<rparr>) }
      | Long_Cnt \<Rightarrow> do {
          a \<leftarrow> as_int64 (counter_value p);
          b \<leftarrow> (case value_type v of
                 Integer_Type \<Rightarrow> as_int (prim_value v)
               | Double_Type \<Rightarrow> map_option (int_of_float fl) (as_float64 (prim_value v))
               | _ \<Rightarrow> as_int64 (prim_value v));
          Some (p\<lparr>counter_value := Go_Int64 (a + b)\<rparr>) }
      | Double_Cnt \<Rightarrow> do {
          a \<leftarrow> as_float64 (counter_value p);
          b \<leftarrow> (case value_type v of
                 Integer_Type \<Rightarrow> map_option (float_of_int fl) (as_int (prim_value v))
               | Long_Type \<Rightarrow> map_option (float_of_int fl) (as_int64 (prim_value v))
               | _ \<Rightarrow> as_float64 (prim_value v));
          Some (p\<lparr>counter_value := Go_Float64 (float_add fl a b)\<rparr>) })"

section \<open>Encoding\<close>

lemma get_put_uint:
  "8 * n \<le> 64 \<Longrightarrow> get_uint n (put_uint n w) = Some (take_bit (8 * n) w)"
proof (induction n arbitrary: w)
  case (Suc n)
  have "or (ucast (ucast w :: 8 word)) (push_bit 8 (take_bit (8 * n) (drop_bit 8 w))) =
      take_bit (8 * Suc n) w"
    by (rule bit_word_eqI)
       (auto simp: bit_or_iff bit_push_bit_iff bit_take_bit_iff bit_drop_bit_eq bit_ucast_iff)
  with Suc show ?case by simp
qed simp

lemma length_put_uint [simp]: "length (put_uint n w) = n"
  by (induction n arbitrary: w) simp_all

lemma get_put_uint64: "get_uint 8 (put_uint 8 w) = Some w"
  using get_put_uint [of 8 w] by (simp add: take_bit_word_eq_self)

lemma sint_low32: "sint (ucast w :: 32 word) = signed_take_bit 31 (sint (w :: 64 word))"
  by transfer (simp add: signed_take_bit_take_bit signed_take_bit_signed_take_bit)

lemma sign_extend_low32: "ucast (take_bit 32 (w :: 64 word)) = (ucast w :: 32 word)"
  by transfer simp

lemma get_put_int32:
  assumes "\<not> out_of_int32 w"
  shows "map_option sign_extend32 (get_uint 4 (put_uint 4 w)) = Some w"
proof -
  have "signed_take_bit 31 (sint w) = sint w"
    using assms by (intro signed_take_bit_int_eq_self)
      (simp_all add: out_of_int32_def max_int32_def min_int32_def)
  then have "sign_extend32 (take_bit 32 w) = w"
    by (simp add: sign_extend32_def sign_extend_low32 sint_low32)
  then show ?thesis using get_put_uint [of 4 w] by simp
qed

lemma char_of_byte_of_char: "char_of (unat (word_of_nat (of_char c) :: 8 word)) = c"
proof -
  have "unat (word_of_nat (of_char c) :: 8 word) = (of_char c mod 256 :: nat)"
    by (simp add: unat_of_nat)
  then show ?thesis by simp
qed

lemma bytes_string_bytes [simp]: "bytes_string (string_bytes s) = s"
  by (induction s) (simp_all add: bytes_string_def string_bytes_def char_of_byte_of_char)

section \<open>Counters converge\<close>

text \<open>The integer a counter shows, and the integer of an operand.\<close>

definition integer_counter :: "counter \<Rightarrow> 64 word \<Rightarrow> bool" where
  "integer_counter p a \<longleftrightarrow> counter_type p = Integer_Cnt \<and> counter_value p = Go_Int a \<or>
     counter_type p = Long_Cnt \<and> counter_value p = Go_Int64 a"

definition integer_operand :: "primitive \<Rightarrow> 64 word \<Rightarrow> bool" where
  "integer_operand v b \<longleftrightarrow> value_type v = Integer_Type \<and> prim_value v = Go_Int b \<or>
     value_type v = Long_Type \<and> prim_value v = Go_Int64 b"

definition operand_value :: "primitive \<Rightarrow> 64 word" where
  "operand_value v = (case prim_value v of Go_Int b \<Rightarrow> b | Go_Int64 b \<Rightarrow> b | _ \<Rightarrow> 0)"

fun increase_all :: "float_ops \<Rightarrow> counter \<Rightarrow> primitive list \<Rightarrow> counter option" where
  "increase_all fl p [] = Some p"
| "increase_all fl p (v # vs) = do { p \<leftarrow> counter_increase fl p v; increase_all fl p vs }"

lemma integer_operand_value: "integer_operand v b \<Longrightarrow> operand_value v = b"
  by (auto simp: integer_operand_def operand_value_def)

lemma counter_increase_integer:
  "integer_counter p a \<Longrightarrow> integer_operand v b \<Longrightarrow>
     \<exists>p'. counter_increase fl p v = Some p' \<and> integer_counter p' (a + b)"
  by (auto simp: integer_counter_def integer_operand_def counter_increase_def
      primitive_is_numeric_def)

lemma increase_all_integer:
  "integer_counter p a \<Longrightarrow> \<forall>v\<in>set vs. \<exists>b. integer_operand v b \<Longrightarrow>
     \<exists>p'. increase_all fl p vs = Some p' \<and> integer_counter p' (a + sum_list (map operand_value vs))"
proof (induction vs arbitrary: p a)
  case (Cons v vs)
  then obtain b where b: "integer_operand v b" by auto
  obtain p1 where p1: "counter_increase fl p v = Some p1" "integer_counter p1 (a + b)"
    using counter_increase_integer [OF Cons.prems(1) b] by blast
  show ?case
    using Cons.IH [OF p1(2)] Cons.prems(2) p1(1) integer_operand_value [OF b]
    by (auto simp: algebra_simps)
qed auto

lemma integer_counter_marshal: "integer_counter p a \<Longrightarrow> counter_marshal fl p = Some (dec_int (sint a))"
  by (auto simp: integer_counter_def counter_marshal_def)

section \<open>Properties\<close>

text \<open>The bytes of a primitive decode to its value, for every type: an integer that
  \<open>NewPrimitive\<close> has tagged as such, and a date whose seconds fit in 64 bits, of which the
  fraction of the second is lost.\<close>
theorem primitive_bytes_roundtrip:
  assumes "new_primitive v = Some p"
    "\<forall>sec nsec. v = Go_Time sec nsec \<longrightarrow> - (2 ^ 63) \<le> sec \<and> sec < 2 ^ 63"
  shows "\<exists>bs. primitive_bytes p = Some bs \<and> value_from_bytes (value_type p) bs =
    Some (case prim_value p of Go_Time sec nsec \<Rightarrow> Go_Time sec 0 | w \<Rightarrow> w)"
proof (cases v)
  case (Go_Int i)
  show ?thesis
  proof (cases "out_of_int32 i")
    case True
    then show ?thesis
      using assms(1) Go_Int get_put_uint64 by (auto simp: new_primitive_def primitive_bytes_def value_from_bytes_def)
  next
    case False
    then show ?thesis
      using assms(1) Go_Int get_put_int32 [OF False]
      by (auto simp: new_primitive_def primitive_bytes_def value_from_bytes_def)
  qed
next
  case (Go_Time sec nsec)
  then have "sint (word_of_int sec :: 64 word) = sec"
    using assms(2) by (simp add: sint_sbintrunc' signed_take_bit_int_eq_self)
  then show ?thesis
    using assms(1) Go_Time get_put_uint64
    by (auto simp: new_primitive_def primitive_bytes_def value_from_bytes_def)
qed (use assms(1) get_put_uint64 in
  \<open>auto simp: new_primitive_def primitive_bytes_def value_from_bytes_def\<close>)

theorem primitive_bytes_roundtrip_witness:
  "\<exists>bs. primitive_bytes \<lparr>value_type = Integer_Type, prim_value = Go_Int (-5)\<rparr> = Some bs \<and>
     value_from_bytes Integer_Type bs = Some (Go_Int (-5))"
  using primitive_bytes_roundtrip [of "Go_Int (-5)" "\<lparr>value_type = Integer_Type, prim_value = Go_Int (-5)\<rparr>"]
  by (simp add: new_primitive_def out_of_int32_def max_int32_def min_int32_def)

text \<open>Increases of an integer counter by integers commute as numbers: whatever their order
  no increase panics and the counter shows the sum, wrapping around at 64 bits.\<close>
theorem counter_convergence:
  assumes "integer_counter p a" "\<forall>v\<in>set vs. \<exists>b. integer_operand v b" "mset vs = mset ws"
  shows "\<exists>x y. increase_all fl p vs = Some x \<and> increase_all fl p ws = Some y \<and>
    counter_marshal fl x = counter_marshal fl y \<and>
    counter_marshal fl x = Some (dec_int (sint (a + sum_list (map operand_value vs))))"
proof -
  have ws: "\<forall>v\<in>set ws. \<exists>b. integer_operand v b" using assms(2,3) by (metis set_mset_mset)
  have sum: "sum_list (map operand_value ws) = sum_list (map operand_value vs)"
    using assms(3) by (metis mset_map sum_mset_sum_list)
  obtain x y where "increase_all fl p vs = Some x" "increase_all fl p ws = Some y"
    "integer_counter x (a + sum_list (map operand_value vs))"
    "integer_counter y (a + sum_list (map operand_value vs))"
    using increase_all_integer [OF assms(1,2), of fl] increase_all_integer [OF assms(1) ws, of fl] sum
    by auto
  then show ?thesis by (simp add: integer_counter_marshal)
qed

definition sample_float :: float_ops where
  "sample_float = \<lparr>float_add = (\<lambda>a b. a), float_of_int = (\<lambda>a. a), int_of_float = (\<lambda>a. a),
     float_text = (\<lambda>a. [])\<rparr>"

theorem counter_convergence_witness:
  "\<exists>x y. increase_all sample_float \<lparr>counter_type = Integer_Cnt, counter_value = Go_Int 2147483647\<rparr>
      [\<lparr>value_type = Integer_Type, prim_value = Go_Int 1\<rparr>,
       \<lparr>value_type = Integer_Type, prim_value = Go_Int (-1)\<rparr>] = Some x \<and>
    increase_all sample_float \<lparr>counter_type = Integer_Cnt, counter_value = Go_Int 2147483647\<rparr>
      [\<lparr>value_type = Integer_Type, prim_value = Go_Int (-1)\<rparr>,
       \<lparr>value_type = Integer_Type, prim_value = Go_Int 1\<rparr>] = Some y \<and>
    counter_marshal sample_float x = counter_marshal sample_float y"
proof -
  let ?p = "\<lparr>counter_type = Integer_Cnt, counter_value = Go_Int 2147483647\<rparr>"
  let ?u = "\<lparr>value_type = Integer_Type, prim_value = Go_Int 1\<rparr>"
  let ?v = "\<lparr>value_type = Integer_Type, prim_value = Go_Int (-1)\<rparr>"
  show ?thesis
    using counter_convergence [of ?p 2147483647 "[?u, ?v]" "[?v, ?u]" sample_float]
    by (auto simp: integer_counter_def integer_operand_def)
qed

text \<open>The type of a counter does depend on the order: two replicas that receive the same
  increases in opposite orders end with the same number, one as an integer and one as a long,
  and encode it differently.\<close>
theorem counter_type_diverges:
  "\<exists>p u v x y. integer_counter p 2147483647 \<and> increase_all fl p [u, v] = Some x \<and>
     increase_all fl p [v, u] = Some y \<and> counter_type x = Long_Cnt \<and> counter_type y = Integer_Cnt \<and>
     counter_bytes x \<noteq> counter_bytes y"
proof -
  let ?p = "\<lparr>counter_type = Integer_Cnt, counter_value = Go_Int 2147483647\<rparr>"
  let ?u = "\<lparr>value_type = Integer_Type, prim_value = Go_Int 1\<rparr>"
  let ?v = "\<lparr>value_type = Integer_Type, prim_value = Go_Int (-1)\<rparr>"
  let ?x = "\<lparr>counter_type = Long_Cnt, counter_value = Go_Int64 2147483647\<rparr>"
  have "increase_all fl ?p [?u, ?v] = Some ?x" "increase_all fl ?p [?v, ?u] = Some ?p"
    by (simp_all add: counter_increase_def primitive_is_numeric_def out_of_int32_def
        max_int32_def min_int32_def)
  moreover have "counter_bytes ?x \<noteq> counter_bytes ?p"
    using length_put_uint [of 8 2147483647] length_put_uint [of 4 2147483647]
    by (auto simp: counter_bytes_def simp del: length_put_uint)
  moreover have "integer_counter ?p 2147483647" by (simp add: integer_counter_def)
  ultimately show ?thesis by (metis counter.select_convs(1))
qed

end
