(* ===== verification/Cells.thy ===== *)
theory Cells
  imports Ticket "HOL-Library.Multiset"
begin

text \<open>
  The heap of JSON elements.  A Go pointer to an element is a \<open>ref\<close>, the element a \<open>cell\<close>: the
  three tickets every element type carries (\<open>CreatedAt\<close>, \<open>MovedAt\<close>, \<open>RemovedAt\<close> of
  \<open>src/pkg/document/json/element.go\<close>) and a body, whose type the containers fix later.
  \<open>Remove\<close> is written identically in all six element types.
\<close>

section \<open>Cells\<close>

type_synonym ref = nat

record 'b cell =
  created_at :: ticket
  moved_at :: "ticket option"
  removed_at :: "ticket option"
  body :: 'b

record 'b heap =
  cells :: "ref \<Rightarrow> 'b cell"
  next_ref :: ref

definition new_cell :: "ticket \<Rightarrow> 'b \<Rightarrow> 'b cell" where
  "new_cell t b = \<lparr>created_at = t, moved_at = None, removed_at = None, body = b\<rparr>"

definition alloc :: "'b cell \<Rightarrow> 'b heap \<Rightarrow> ref \<times> 'b heap" where
  "alloc c h = (next_ref h, h\<lparr>cells := (cells h)(next_ref h := c), next_ref := Suc (next_ref h)\<rparr>)"

definition set_cell :: "ref \<Rightarrow> 'b cell \<Rightarrow> 'b heap \<Rightarrow> 'b heap" where
  "set_cell r c h = h\<lparr>cells := (cells h)(r := c)\<rparr>"

definition set_body :: "ref \<Rightarrow> 'b \<Rightarrow> 'b heap \<Rightarrow> 'b heap" where
  "set_body r b h = set_cell r ((cells h r)\<lparr>body := b\<rparr>) h"

definition is_removed :: "'b heap \<Rightarrow> ref \<Rightarrow> bool" where
  "is_removed h r \<longleftrightarrow> removed_at (cells h r) \<noteq> None"

text \<open>\<open>Remove\<close>: the new cell and whether it was changed.\<close>

definition elem_remove :: "ticket option \<Rightarrow> 'b cell \<Rightarrow> ('b cell \<times> bool) option" where
  "elem_remove removed c =
     (case removed of
        None \<Rightarrow> Some (c, False)
      | Some t \<Rightarrow> do {
          later \<leftarrow> ticket_after t (created_at c);
          if \<not> later then Some (c, False)
          else case removed_at c of
            None \<Rightarrow> Some (c\<lparr>removed_at := Some t\<rparr>, True)
          | Some u \<Rightarrow> do {
              b \<leftarrow> ticket_after t u;
              Some (if b then (c\<lparr>removed_at := Some t\<rparr>, True) else (c, False)) } })"

definition heap_remove_elem :: "ref \<Rightarrow> ticket option \<Rightarrow> 'b heap \<Rightarrow> ('b heap \<times> bool) option" where
  "heap_remove_elem r t h = do { (c, b) \<leftarrow> elem_remove t (cells h r); Some (set_cell r c h, b) }"

definition set_moved_at :: "ref \<Rightarrow> ticket option \<Rightarrow> 'b heap \<Rightarrow> 'b heap" where
  "set_moved_at r t h = set_cell r ((cells h r)\<lparr>moved_at := t\<rparr>) h"

definition set_removed_at :: "ref \<Rightarrow> ticket option \<Rightarrow> 'b heap \<Rightarrow> 'b heap" where
  "set_removed_at r t h = set_cell r ((cells h r)\<lparr>removed_at := t\<rparr>) h"

lemma alloc_simps [simp]:
  "fst (alloc c h) = next_ref h" "cells (snd (alloc c h)) = (cells h)(next_ref h := c)"
  "next_ref (snd (alloc c h)) = Suc (next_ref h)"
  by (simp_all add: alloc_def)

lemma set_cell_simps [simp]:
  "cells (set_cell r c h) = (cells h)(r := c)" "next_ref (set_cell r c h) = next_ref h"
  by (simp_all add: set_cell_def)

section \<open>Removal\<close>

text \<open>The tickets of a cell have actors, so comparing with them does not panic.\<close>

definition cell_actors :: "'b cell \<Rightarrow> bool" where
  "cell_actors c \<longleftrightarrow> actorID (created_at c) \<noteq> None \<and>
     (\<forall>t. moved_at c = Some t \<longrightarrow> actorID t \<noteq> None) \<and> (\<forall>t. removed_at c = Some t \<longrightarrow> actorID t \<noteq> None)"

lemma ticket_after_actors:
  "actorID t \<noteq> None \<Longrightarrow> actorID u \<noteq> None \<Longrightarrow> ticket_after t u = Some (u < t)"
  by (simp add: ticket_after_order)

text \<open>The removal time a cell has once \<open>t\<close> has been seen.\<close>

definition later_removal :: "'b cell \<Rightarrow> ticket \<Rightarrow> ticket option" where
  "later_removal c t =
     (if t \<le> created_at c then removed_at c
      else case removed_at c of None \<Rightarrow> Some t | Some u \<Rightarrow> Some (max t u))"

lemma elem_remove_eq:
  assumes "cell_actors c" "actorID t \<noteq> None"
  shows "elem_remove (Some t) c =
    Some (c\<lparr>removed_at := later_removal c t\<rparr>, later_removal c t \<noteq> removed_at c)"
  using assms
  by (cases c) (auto simp: elem_remove_def cell_actors_def ticket_after_actors later_removal_def
      max_def not_le split: option.splits)

lemma elem_remove_frame:
  "elem_remove t c = Some (c', b) \<Longrightarrow> c' = c\<lparr>removed_at := removed_at c'\<rparr> \<and>
     (removed_at c \<noteq> None \<longrightarrow> removed_at c' \<noteq> None) \<and> (b \<longrightarrow> removed_at c' \<noteq> None) \<and> (\<not> b \<longrightarrow> c' = c)"
  by (cases c) (auto simp: elem_remove_def bind_eq_Some_conv split: option.splits if_splits)

fun remove_all :: "ticket list \<Rightarrow> 'b cell \<Rightarrow> 'b cell option" where
  "remove_all [] c = Some c"
| "remove_all (t # ts) c = do { (c, b) \<leftarrow> elem_remove (Some t) c; remove_all ts c }"

lemma later_removal_commute:
  "later_removal (c\<lparr>removed_at := later_removal c t\<rparr>) u =
     later_removal (c\<lparr>removed_at := later_removal c u\<rparr>) t"
  by (auto simp: later_removal_def max.commute max.left_commute split: option.splits)

lemma cell_actors_removed:
  "cell_actors c \<Longrightarrow> actorID t \<noteq> None \<Longrightarrow> cell_actors (c\<lparr>removed_at := later_removal c t\<rparr>)"
  by (auto simp: cell_actors_def later_removal_def max_def split: option.splits if_splits)

lemma remove_all_fold:
  "cell_actors c \<Longrightarrow> \<forall>t\<in>set ts. actorID t \<noteq> None \<Longrightarrow>
     remove_all ts c = Some (fold (\<lambda>t c. c\<lparr>removed_at := later_removal c t\<rparr>) ts c)"
  by (induction ts arbitrary: c) (simp_all add: elem_remove_eq cell_actors_removed)

text \<open>A heap for the examples: the cell \<open>r\<close> was created at time \<open>r\<close>; cell 0 is a list's dummy.\<close>

definition sample_ticket :: "64 word \<Rightarrow> ticket" where
  "sample_ticket n = Ticket n 0 (Some initial_actor_id)"

definition sample_heap :: "unit heap" where
  "sample_heap = \<lparr>cells = (\<lambda>r. if r = 0
     then (new_cell initial_ticket ())\<lparr>removed_at := Some initial_ticket\<rparr>
     else new_cell (sample_ticket (of_nat r)) ()), next_ref = 5\<rparr>"

lemma sample_times:
  "actorID (sample_ticket n) \<noteq> None" "sample_ticket m < sample_ticket n \<longleftrightarrow> m < n"
  "sample_ticket m = sample_ticket n \<longleftrightarrow> m = n"
  by (auto simp: sample_ticket_def less_ticket_def)

lemma sample_keys:
  "(ticket_key (sample_ticket m) = ticket_key (sample_ticket n)) = (m = n)"
  "initial_ticket = sample_ticket 0"
  by (auto simp: ticket_key_eq sample_ticket_def wf_ticket_def wf_actor_def initial_actor_id_def
      initial_ticket_def)

text \<open>Removals of an element commute: whatever the order in which replicas see them none
  panics, the element ends with the same removal time, and it is removed exactly when one of
  them is later than its creation.\<close>
theorem element_removal_converges:
  assumes "cell_actors c" "\<forall>t\<in>set ts. actorID t \<noteq> None" "mset ts = mset us" "removed_at c = None"
  shows "remove_all ts c = remove_all us c \<and>
    (\<exists>d. remove_all ts c = Some d \<and> (removed_at d = None \<longleftrightarrow> (\<forall>t\<in>set ts. t \<le> created_at c)))"
proof -
  have us: "\<forall>t\<in>set us. actorID t \<noteq> None" using assms(2,3) by (metis set_mset_mset)
  let ?f = "\<lambda>t (c :: 'a cell). c\<lparr>removed_at := later_removal c t\<rparr>"
  have "fold ?f ts = fold ?f us"
  proof (rule fold_multiset_equiv [OF _ assms(3)])
    show "?f t \<circ> ?f u = ?f u \<circ> ?f t" for t u
      by (rule ext, unfold comp_def, subst later_removal_commute) simp
  qed
  then have eq: "remove_all ts c = remove_all us c"
    by (simp add: remove_all_fold [OF assms(1)] assms(2) us)
  have none: "removed_at (fold ?f ts c) = None \<longleftrightarrow>
      removed_at c = None \<and> (\<forall>t\<in>set ts. t \<le> created_at c)" for c :: "'a cell"
    by (induction ts arbitrary: c) (auto simp: later_removal_def split: option.splits)
  show ?thesis unfolding eq [symmetric] remove_all_fold [OF assms(1,2)] using none [of c] assms(4) by simp
qed

theorem element_removal_converges_witness:
  "\<exists>d. remove_all [Ticket 2 0 (Some []), Ticket 5 0 (Some [])]
       (new_cell (Ticket 1 0 (Some [])) ()) = Some d \<and> removed_at d \<noteq> None"
  using element_removal_converges [of "new_cell (Ticket 1 0 (Some [])) ()"
      "[Ticket 2 0 (Some []), Ticket 5 0 (Some [])]" "[Ticket 2 0 (Some []), Ticket 5 0 (Some [])]"]
  by (auto simp: cell_actors_def new_cell_def less_eq_ticket_def less_ticket_def)

end
