(* ===== verification/Rga_Order.thy ===== *)
theory Rga_Order
  imports Prelude
begin

text \<open>
  The order that the replicated growable array gives its elements, on plain lists: a new element
  goes after its predecessor, past the elements that were positioned later.  Both list
  components refine it (\<open>findNextBeforeExecutedAt\<close> of
  \<open>src/pkg/document/json/rga_tree_list.go\<close> and the loop of \<open>findNodeWithSplit\<close> of
  \<open>src/pkg/document/json/rga_tree_split.go\<close>); concurrent insertions commute.
\<close>

fun place :: "('a \<Rightarrow> 't::linorder) \<Rightarrow> 'a \<Rightarrow> 't \<Rightarrow> 'a list \<Rightarrow> 'a list" where
  "place pos x t [] = [x]"
| "place pos x t (y # ys) = (if t < pos y then y # place pos x t ys else x # y # ys)"

fun place_after :: "('a \<Rightarrow> 't::linorder) \<Rightarrow> 'a \<Rightarrow> 'a \<Rightarrow> 't \<Rightarrow> 'a list \<Rightarrow> 'a list" where
  "place_after pos p x t [] = []"
| "place_after pos p x t (y # ys) =
     (if y = p then y # place pos x t ys else y # place_after pos p x t ys)"

lemma set_place [simp]: "set (place pos x t ys) = insert x (set ys)"
  by (induction ys) auto

lemma set_place_after: "p \<in> set ys \<Longrightarrow> set (place_after pos p x t ys) = insert x (set ys)"
  by (induction ys) auto

lemma place_after_notin: "p \<notin> set ys \<Longrightarrow> place_after pos p x t ys = ys"
  by (induction ys) auto

lemma place_commute:
  "pos x \<noteq> pos z \<Longrightarrow> place pos z (pos z) (place pos x (pos x) ys) = place pos x (pos x) (place pos z (pos z) ys)"
  by (induction ys) auto

lemma place_place_after:
  assumes "pos x \<noteq> pos z" "q \<noteq> x"
  shows "place_after pos q z (pos z) (place pos x (pos x) (q # ys)) =
      place pos x (pos x) (place_after pos q z (pos z) (q # ys))"
    and "q \<in> set ys \<Longrightarrow> place_after pos q z (pos z) (place pos x (pos x) ys) =
      place pos x (pos x) (place_after pos q z (pos z) ys)"
proof -
  show "place_after pos q z (pos z) (place pos x (pos x) (q # ys)) =
      place pos x (pos x) (place_after pos q z (pos z) (q # ys))" for ys
    using assms place_commute [of pos x z ys] by auto
  then show "q \<in> set ys \<Longrightarrow> place_after pos q z (pos z) (place pos x (pos x) ys) =
      place pos x (pos x) (place_after pos q z (pos z) ys)"
    by (induction ys) (use assms place_commute [of pos x z] in auto)
qed

text \<open>Two concurrent insertions: neither is after the other's element.\<close>

lemma place_after_commute:
  assumes "pos x \<noteq> pos z" "p \<noteq> z" "q \<noteq> x" "p \<in> set ys" "q \<in> set ys"
  shows "place_after pos q z (pos z) (place_after pos p x (pos x) ys) =
    place_after pos p x (pos x) (place_after pos q z (pos z) ys)"
  using assms(4,5)
proof (induction ys)
  case (Cons y ys)
  consider "y = p" "y = q" | "y = p" "y \<noteq> q" | "y \<noteq> p" "y = q" | "y \<noteq> p" "y \<noteq> q" by blast
  then show ?case
  proof cases
    case 1
    then show ?thesis using place_commute [of pos x z ys] assms(1) by simp
  next
    case 2
    then show ?thesis using place_place_after(2) [of pos x z q ys] assms Cons.prems by simp
  next
    case 3
    then show ?thesis using place_place_after(2) [of pos z x p ys] assms Cons.prems by simp
  next
    case 4
    then show ?thesis using Cons by simp
  qed
qed simp

text \<open>The position depends on the positions of the elements that are there only.\<close>

lemma place_cong:
  "(\<And>y. y \<in> set ys \<Longrightarrow> pos y = pos' y) \<Longrightarrow> place pos x t ys = place pos' x t ys"
  by (induction ys) auto

lemma place_after_cong:
  "(\<And>y. y \<in> set ys \<Longrightarrow> pos y = pos' y) \<Longrightarrow> place_after pos p x t ys = place_after pos' p x t ys"
  by (induction ys) (auto intro: place_cong)

lemma map_place:
  "map f (place (\<lambda>y. pos (f y)) x t ys) = place pos (f x) t (map f ys)"
  by (induction ys) auto

lemma map_place_after:
  "inj_on f (insert p (set ys)) \<Longrightarrow>
     map f (place_after (\<lambda>y. pos (f y)) p x t ys) = place_after pos (f p) (f x) t (map f ys)"
  by (induction ys) (auto simp: map_place inj_on_def)

end
