(* ===== verification/Rga_Tree_List.thy ===== *)
theory Rga_Tree_List
  imports Cells Splay Rga_Order "HOL-Library.AList"
begin

text \<open>
  The replicated list of \<open>src/pkg/document/json/rga_tree_list.go\<close>.  A node is a number; the
  doubly linked chain from \<open>dummyHead\<close> is the list of its nodes, \<open>prev\<close> and \<open>next\<close> being the
  neighbours in it; \<open>indexNode\<close>s live in the splay tree of theory \<open>Splay\<close>, whose lengths are
  read from the heap of elements.  \<open>None\<close> is a nil dereference or the \<open>Fatalf\<close> of an unknown
  creation time.
\<close>

section \<open>State\<close>

type_synonym rga_node = nat

record rga_list =
  rl_elem :: "rga_node \<Rightarrow> ref"
  rl_next_node :: rga_node
  rl_order :: "rga_node list"
  rl_last :: rga_node
  rl_size :: int
  rl_index :: "rga_node splay_tree"
  rl_by_created :: "(string \<times> rga_node) list"

definition dummy_head :: rga_node where
  "dummy_head = 0"

definition rga_cell :: "'b heap \<Rightarrow> rga_list \<Rightarrow> rga_node \<Rightarrow> 'b cell" where
  "rga_cell h l n = cells h (rl_elem l n)"

definition positioned_at :: "'b cell \<Rightarrow> ticket" where
  "positioned_at c = (case moved_at c of Some t \<Rightarrow> t | None \<Rightarrow> created_at c)"

definition rga_len :: "'b heap \<Rightarrow> rga_list \<Rightarrow> rga_node \<Rightarrow> int" where
  "rga_len h l n = (if removed_at (rga_cell h l n) \<noteq> None then 0 else 1)"

definition rga_lookup :: "rga_list \<Rightarrow> ticket \<Rightarrow> rga_node option" where
  "rga_lookup l t = map_of (rl_by_created l) (ticket_key t)"

section \<open>Operations\<close>

definition new_rga_tree_list :: "'b \<Rightarrow> 'b heap \<Rightarrow> 'b heap \<times> rga_list" where
  "new_rga_tree_list dummy_body h =
     (let (r, h1) = alloc ((new_cell initial_ticket dummy_body)\<lparr>removed_at := Some initial_ticket\<rparr>) h;
          l = \<lparr>rl_elem = (\<lambda>_. r), rl_next_node = 1, rl_order = [dummy_head], rl_last = dummy_head,
               rl_size = 0, rl_index = Null,
               rl_by_created = [(ticket_key initial_ticket, dummy_head)]\<rparr>
      in (h1, l\<lparr>rl_index := new_splay_node (rga_len h1 l) dummy_head\<rparr>))"

text \<open>The loop of \<open>findNextBeforeExecutedAt\<close>, over the nodes after the current one.\<close>

fun skip_later :: "'b heap \<Rightarrow> rga_list \<Rightarrow> ticket \<Rightarrow> rga_node \<Rightarrow> rga_node list \<Rightarrow> rga_node option" where
  "skip_later h l t n [] = Some n"
| "skip_later h l t n (m # ms) = do {
     b \<leftarrow> ticket_after (positioned_at (rga_cell h l m)) t;
     if b then skip_later h l t m ms else Some n }"

definition find_next_before_executed_at :: "'b heap \<Rightarrow> rga_list \<Rightarrow> ticket \<Rightarrow> ticket \<Rightarrow> rga_node option" where
  "find_next_before_executed_at h l created executed = do {
     n \<leftarrow> rga_lookup l created;
     skip_later h l executed n (following (rl_order l) n) }"

definition rga_insert_after_node :: "'b heap \<Rightarrow> rga_list \<Rightarrow> rga_node \<Rightarrow> ref \<Rightarrow> rga_list" where
  "rga_insert_after_node h l p r =
     (let n = rl_next_node l;
          l1 = l\<lparr>rl_elem := (rl_elem l)(n := r), rl_next_node := Suc n,
                 rl_order := link_after p n (rl_order l),
                 rl_last := (if p = rl_last l then n else rl_last l)\<rparr>
      in l1\<lparr>rl_index := splay_insert_after (rga_len h l1) p n (rl_index l1),
            rl_by_created := AList.update (ticket_key (created_at (cells h r))) n (rl_by_created l1),
            rl_size := rl_size l1 + 1\<rparr>)"

text \<open>\<open>insertAfter\<close>, \<open>InsertAfter\<close> and \<open>Add\<close>.\<close>

definition rga_insert_at :: "'b heap \<Rightarrow> rga_list \<Rightarrow> ticket \<Rightarrow> ref \<Rightarrow> ticket \<Rightarrow> rga_list option" where
  "rga_insert_at h l prev_created r executed = do {
     p \<leftarrow> find_next_before_executed_at h l prev_created executed;
     Some (rga_insert_after_node h l p r) }"

definition rga_insert_after :: "'b heap \<Rightarrow> rga_list \<Rightarrow> ticket \<Rightarrow> ref \<Rightarrow> rga_list option" where
  "rga_insert_after h l prev_created r = rga_insert_at h l prev_created r (created_at (cells h r))"

definition rga_last_created_at :: "'b heap \<Rightarrow> rga_list \<Rightarrow> ticket" where
  "rga_last_created_at h l = created_at (rga_cell h l (rl_last l))"

definition rga_add :: "'b heap \<Rightarrow> rga_list \<Rightarrow> ref \<Rightarrow> rga_list option" where
  "rga_add h l r = rga_insert_at h l (rga_last_created_at h l) r (created_at (cells h r))"

definition rga_nodes :: "rga_list \<Rightarrow> rga_node list" where
  "rga_nodes l = following (rl_order l) dummy_head"

fun first_live :: "'b heap \<Rightarrow> rga_list \<Rightarrow> rga_node list \<Rightarrow> rga_node option" where
  "first_live h l [] = None"
| "first_live h l (n # ns) = (if removed_at (rga_cell h l n) = None then Some n else first_live h l ns)"

definition rga_get :: "'b heap \<Rightarrow> rga_list \<Rightarrow> int \<Rightarrow> rga_node option" where
  "rga_get h l idx = do {
     (found, offset) \<leftarrow> splay_find (rga_len h l) (rl_index l) idx;
     n \<leftarrow> found;
     if idx = 0 \<and> n = dummy_head then first_live h l (following (rl_order l) n)
     else if offset > 0 then first_live h l (following (rl_order l) n)
     else Some n }"

definition rga_delete_by_created_at :: "'b heap \<Rightarrow> rga_list \<Rightarrow> ticket \<Rightarrow> ticket option \<Rightarrow>
    ('b heap \<times> rga_list \<times> rga_node) option" where
  "rga_delete_by_created_at h l created deleted = do {
     n \<leftarrow> rga_lookup l created;
     (h1, changed) \<leftarrow> heap_remove_elem (rl_elem l n) deleted h;
     Some (h1,
       if changed
       then l\<lparr>rl_index := splay (rga_len h1 l) n (rl_index l), rl_size := rl_size l - 1\<rparr>
       else l, n) }"

definition rga_delete :: "'b heap \<Rightarrow> rga_list \<Rightarrow> int \<Rightarrow> ticket option \<Rightarrow>
    ('b heap \<times> rga_list \<times> rga_node) option" where
  "rga_delete h l idx deleted = do {
     target \<leftarrow> rga_get h l idx;
     rga_delete_by_created_at h l (created_at (rga_cell h l target)) deleted }"

definition rga_release :: "'b heap \<Rightarrow> rga_list \<Rightarrow> rga_node \<Rightarrow> rga_list option" where
  "rga_release h l n = do {
     prev \<leftarrow> pred_of (rl_order l) n;
     Some (l\<lparr>rl_last := (if rl_last l = n then prev else rl_last l),
             rl_order := remove1 n (rl_order l),
             rl_index := splay_delete (rga_len h l) n (rl_index l),
             rl_by_created := AList.delete (ticket_key (created_at (rga_cell h l n))) (rl_by_created l),
             rl_size := (if removed_at (rga_cell h l n) = None then rl_size l - 1 else rl_size l)\<rparr>) }"

definition rga_move_after :: "'b heap \<Rightarrow> rga_list \<Rightarrow> ticket \<Rightarrow> ticket \<Rightarrow> ticket \<Rightarrow>
    ('b heap \<times> rga_list) option" where
  "rga_move_after h l prev_created created executed = do {
     prev \<leftarrow> rga_lookup l prev_created;
     n \<leftarrow> rga_lookup l created;
     later \<leftarrow> (case moved_at (rga_cell h l n) of
                None \<Rightarrow> Some True | Some t \<Rightarrow> ticket_after executed t);
     if later then do {
       l1 \<leftarrow> rga_release h l n;
       l2 \<leftarrow> rga_insert_at h l1 (created_at (rga_cell h l prev)) (rl_elem l n) executed;
       Some (set_moved_at (rl_elem l n) (Some executed) h, l2) }
     else Some (h, l) }"

text \<open>The loop of \<open>FindPrevCreatedAt\<close>, over the nodes before the current one, nearest first.\<close>

fun last_live :: "'b heap \<Rightarrow> rga_list \<Rightarrow> rga_node list \<Rightarrow> rga_node option" where
  "last_live h l [] = None"
| "last_live h l (n # ns) =
     (if n = dummy_head \<or> removed_at (rga_cell h l n) = None then Some n else last_live h l ns)"

definition rga_find_prev_created_at :: "'b heap \<Rightarrow> rga_list \<Rightarrow> ticket \<Rightarrow> ticket option" where
  "rga_find_prev_created_at h l created = do {
     n \<leftarrow> rga_lookup l created;
     m \<leftarrow> last_live h l (rev (takeWhile (\<lambda>m. m \<noteq> n) (rl_order l)));
     Some (created_at (rga_cell h l m)) }"

definition rga_purge :: "'b heap \<Rightarrow> rga_list \<Rightarrow> ref \<Rightarrow> rga_list option" where
  "rga_purge h l r = do {
     n \<leftarrow> rga_lookup l (created_at (cells h r));
     rga_release h l n }"

text \<open>\<open>Marshal\<close>: the comma after an element is left out when it is the last node of the chain,
  removed or not.\<close>

fun rga_marshal_nodes :: "(ref \<Rightarrow> string option) \<Rightarrow> 'b heap \<Rightarrow> rga_list \<Rightarrow> rga_node list \<Rightarrow> string option" where
  "rga_marshal_nodes show_elem h l [] = Some []"
| "rga_marshal_nodes show_elem h l (n # ns) = do {
     s \<leftarrow> (if removed_at (rga_cell h l n) = None
          then do { s \<leftarrow> show_elem (rl_elem l n); Some (s @ (if n \<noteq> rl_last l then '','' else [])) }
          else Some []);
     ss \<leftarrow> rga_marshal_nodes show_elem h l ns;
     Some (s @ ss) }"

definition rga_marshal :: "(ref \<Rightarrow> string option) \<Rightarrow> 'b heap \<Rightarrow> rga_list \<Rightarrow> string option" where
  "rga_marshal show_elem h l = do {
     s \<leftarrow> rga_marshal_nodes show_elem h l (rga_nodes l);
     Some (''['' @ s @ '']'') }"

definition rga_annotated_string :: "(ref \<Rightarrow> string) \<Rightarrow> 'b heap \<Rightarrow> rga_list \<Rightarrow> string" where
  "rga_annotated_string show_elem h l =
     splay_annotated_string (rga_len h l) (\<lambda>n. show_elem (rl_elem l n)) (rl_index l)"

section \<open>Invariant\<close>

definition rga_key :: "'b heap \<Rightarrow> rga_list \<Rightarrow> rga_node \<Rightarrow> string" where
  "rga_key h l n = ticket_key (created_at (rga_cell h l n))"

definition rga_inv :: "'b heap \<Rightarrow> rga_list \<Rightarrow> bool" where
  "rga_inv h l \<longleftrightarrow>
     distinct (rl_order l) \<and> rl_order l \<noteq> [] \<and> hd (rl_order l) = dummy_head \<and>
     (\<forall>n\<in>set (rl_order l). n < rl_next_node l) \<and> rl_last l = last (rl_order l) \<and>
     splay_inv (rga_len h l) (rl_index l) \<and> splay_inorder (rl_index l) = rl_order l \<and>
     distinct (map fst (rl_by_created l)) \<and>
     (\<forall>k n. map_of (rl_by_created l) k = Some n \<longleftrightarrow> n \<in> set (rl_order l) \<and> k = rga_key h l n) \<and>
     removed_at (rga_cell h l dummy_head) \<noteq> None"

text \<open>The tickets that place the elements have actors.\<close>

definition rga_actors :: "'b heap \<Rightarrow> rga_list \<Rightarrow> bool" where
  "rga_actors h l \<longleftrightarrow> (\<forall>n\<in>set (rl_order l). actorID (positioned_at (rga_cell h l n)) \<noteq> None)"

text \<open>The elements of the chain, the dummy's included, and the live ones.\<close>

definition rga_refs :: "rga_list \<Rightarrow> ref list" where
  "rga_refs l = map (rl_elem l) (rl_order l)"

definition rga_live :: "'b heap \<Rightarrow> rga_list \<Rightarrow> rga_node list" where
  "rga_live h l = filter (\<lambda>n. removed_at (rga_cell h l n) = None) (rl_order l)"

lemma rga_len_alt:
  "rga_len h l = (\<lambda>n. if removed_at (cells h (rl_elem l n)) \<noteq> None then 0 else 1)"
  by (simp add: rga_len_def rga_cell_def fun_eq_iff)

lemma rga_same_elem:
  assumes "rl_elem l' = rl_elem l"
  shows "rga_cell h l' = rga_cell h l" "rga_key h l' = rga_key h l" "rga_len h l' = rga_len h l"
  using assms by (simp_all add: rga_cell_def rga_key_def rga_len_def fun_eq_iff)

lemma rga_inv_cons: "rga_inv h l \<Longrightarrow> \<exists>ns. rl_order l = dummy_head # ns \<and> dummy_head \<notin> set ns"
  by (cases "rl_order l") (auto simp: rga_inv_def)

lemma rga_keys_inj:
  "rga_inv h l \<Longrightarrow> n \<in> set (rl_order l) \<Longrightarrow> m \<in> set (rl_order l) \<Longrightarrow> rga_key h l n = rga_key h l m \<Longrightarrow> n = m"
  unfolding rga_inv_def by (metis option.inject)

lemma rga_elem_inj: "rga_inv h l \<Longrightarrow> inj_on (rl_elem l) (set (rl_order l))"
  by (rule inj_onI) (auto intro!: rga_keys_inj simp: rga_key_def rga_cell_def)

lemma rga_lookup_in: "rga_inv h l \<Longrightarrow> rga_lookup l t = Some n \<Longrightarrow> n \<in> set (rl_order l) \<and> rga_key h l n = ticket_key t"
  by (auto simp: rga_inv_def rga_lookup_def)

lemma rga_lookup_self: "rga_inv h l \<Longrightarrow> n \<in> set (rl_order l) \<Longrightarrow>
    rga_lookup l (created_at (rga_cell h l n)) = Some n"
  by (auto simp: rga_inv_def rga_lookup_def rga_key_def)

lemma new_rga_tree_list_inv: "rga_inv (fst (new_rga_tree_list b h)) (snd (new_rga_tree_list b h))"
  by (auto simp: new_rga_tree_list_def rga_inv_def Let_def alloc_def new_splay_node_def rga_key_def
      rga_cell_def new_cell_def dummy_head_def split: if_splits)

section \<open>Insertion\<close>

lemma skip_later_place:
  assumes "\<forall>m\<in>set ms. actorID (positioned_at (rga_cell h l m)) \<noteq> None" "actorID t \<noteq> None"
    "distinct (n # ms)"
  shows "\<exists>q\<in>set (n # ms). skip_later h l t n ms = Some q \<and>
    link_after q x (n # ms) = n # place (\<lambda>m. positioned_at (rga_cell h l m)) x t ms"
  using assms
proof (induction ms arbitrary: n)
  case (Cons m ms)
  have after: "ticket_after (positioned_at (rga_cell h l m)) t = Some (t < positioned_at (rga_cell h l m))"
    using Cons.prems by (simp add: ticket_after_actors)
  show ?case
  proof (cases "t < positioned_at (rga_cell h l m)")
    case True
    obtain q where "q \<in> set (m # ms)" "skip_later h l t m ms = Some q"
      "link_after q x (m # ms) = m # place (\<lambda>m. positioned_at (rga_cell h l m)) x t ms"
      using Cons.IH [of m] Cons.prems by auto
    then show ?thesis using True after Cons.prems(3) by (intro bexI [of _ q]) auto
  qed (use after in auto)
qed simp

lemma find_next_correct:
  assumes "rga_inv h l" "rga_actors h l" "rga_lookup l prev = Some p" "actorID t \<noteq> None"
  obtains q where "find_next_before_executed_at h l prev t = Some q" "q \<in> set (rl_order l)"
    "link_after q x (rl_order l) = place_after (\<lambda>m. positioned_at (rga_cell h l m)) p x t (rl_order l)"
proof -
  have p: "p \<in> set (rl_order l)" using rga_lookup_in [OF assms(1,3)] by simp
  have d: "distinct (rl_order l)" using assms(1) by (simp add: rga_inv_def)
  obtain as bs where split: "rl_order l = as @ p # bs" "p \<notin> set as"
    using split_at_mem [OF p] by blast
  obtain q where q: "q \<in> set (p # bs)" "skip_later h l t p bs = Some q"
    "link_after q x (p # bs) = p # place (\<lambda>m. positioned_at (rga_cell h l m)) x t bs"
    using skip_later_place [of bs h l t p x] assms(2,4) d split by (auto simp: rga_actors_def)
  have "link_after q x (as @ ys) = as @ link_after q x ys" if "q \<notin> set as" for ys
    using that by (induction as) auto
  moreover have "q \<notin> set as" using q(1) d split by auto
  moreover have "place_after pos p x t (as @ ys) = as @ place_after pos p x t ys" for ys
    and pos :: "rga_node \<Rightarrow> ticket"
    using split(2) by (induction as) auto
  ultimately show ?thesis
    using that [of q] q assms(3) split
    by (simp add: find_next_before_executed_at_def following_mid)
qed

lemma rga_insert_after_node_inv:
  assumes "rga_inv h l" "p \<in> set (rl_order l)"
    "map_of (rl_by_created l) (ticket_key (created_at (cells h r))) = None"
  shows "rga_inv h (rga_insert_after_node h l p r)"
    "rl_order (rga_insert_after_node h l p r) = link_after p (rl_next_node l) (rl_order l)"
    "rl_elem (rga_insert_after_node h l p r) = (rl_elem l)(rl_next_node l := r)"
    "rl_size (rga_insert_after_node h l p r) = rl_size l + 1"
proof -
  let ?n = "rl_next_node l" and ?l = "rga_insert_after_node h l p r"
  show order: "rl_order ?l = link_after p ?n (rl_order l)"
    and elem: "rl_elem ?l = (rl_elem l)(?n := r)" and "rl_size ?l = rl_size l + 1"
    by (simp_all add: rga_insert_after_node_def Let_def)
  have new: "?n \<notin> set (rl_order l)" and inv: "distinct (rl_order l)" "hd (rl_order l) = dummy_head"
    "rl_order l \<noteq> []" "splay_inv (rga_len h l) (rl_index l)" "splay_inorder (rl_index l) = rl_order l"
    using assms(1) by (auto simp: rga_inv_def)
  have cell: "rga_cell h ?l m = rga_cell h l m" if "m \<noteq> ?n" for m
    using that by (simp add: rga_cell_def elem)
  then have len: "\<And>m. m \<noteq> ?n \<Longrightarrow> rga_len h l m = rga_len h ?l m" by (simp add: rga_len_def)
  have index: "rl_index ?l = splay_insert_after (rga_len h ?l) p ?n (rl_index l)"
    by (simp add: rga_insert_after_node_def Let_def rga_len_alt)
  have tree: "splay_inv (rga_len h ?l) (rl_index ?l)" "splay_inorder (rl_index ?l) = rl_order ?l"
    unfolding index order
    using splay.insert_new [OF inv(4), of "rga_len h ?l" p ?n] len assms(2) new inv(5) by metis+
  have last: "rl_last ?l = last (rl_order ?l)"
  proof -
    have "last (link_after p ?n xs) = (if p = last xs then ?n else last xs)"
      if "distinct xs" "xs \<noteq> []" "p \<in> set xs" for xs
      using that
    proof (induction xs)
      case (Cons y ys)
      then show ?case by (cases ys) auto
    qed simp
    then show ?thesis
      using assms(1,2) by (auto simp: order rga_inv_def) (simp_all add: rga_insert_after_node_def Let_def)
  qed
  have byc: "rl_by_created ?l = AList.update (ticket_key (created_at (cells h r))) ?n (rl_by_created l)"
    by (simp add: rga_insert_after_node_def Let_def)
  have maps: "map_of (rl_by_created ?l) k = Some m \<longleftrightarrow> m \<in> set (rl_order ?l) \<and> k = rga_key h ?l m" for k m
  proof (cases "m = ?n")
    case True
    have "map_of (rl_by_created l) k \<noteq> Some ?n" using assms(1) new by (auto simp: rga_inv_def)
    then show ?thesis
      using True assms(2) by (auto simp: byc update_conv' order set_link_after rga_key_def rga_cell_def elem)
  next
    case False
    have "map_of (rl_by_created l) k = Some m \<longleftrightarrow> m \<in> set (rl_order l) \<and> k = rga_key h l m"
      using assms(1) by (simp add: rga_inv_def)
    then show ?thesis
      using False assms(2,3) cell [OF False]
      by (auto simp: byc update_conv' order set_link_after rga_key_def)
  qed
  have "dummy_head \<noteq> ?n" using new inv(2,3) by (metis hd_in_set)
  then show "rga_inv h ?l"
    using assms(1,2) tree last maps cell [of dummy_head] new inv
    by (auto simp: rga_inv_def order set_link_after distinct_link_after hd_link_after byc
        distinct_update less_Suc_eq) (auto simp: rga_insert_after_node_def Let_def less_Suc_eq)
qed

abbreviation rga_pos :: "'b heap \<Rightarrow> ref \<Rightarrow> ticket" where
  "rga_pos h r \<equiv> positioned_at (cells h r)"

text \<open>\<open>insertAfter\<close> on the sequence of elements.\<close>

lemma rga_insert_at_correct:
  assumes "rga_inv h l" "rga_actors h l" "rga_lookup l prev = Some p" "actorID t \<noteq> None"
    "map_of (rl_by_created l) (ticket_key (created_at (cells h r))) = None"
  obtains l' where "rga_insert_at h l prev r t = Some l'" "rga_inv h l'"
    "rga_refs l' = place_after (rga_pos h) (rl_elem l p) r t (rga_refs l)"
    "\<And>k. map_of (rl_by_created l') k =
      (if k = ticket_key (created_at (cells h r)) then Some (rl_next_node l) else map_of (rl_by_created l) k)"
    "rl_elem l' = (rl_elem l)(rl_next_node l := r)" "rl_size l' = rl_size l + 1"
    "set (rl_order l') = insert (rl_next_node l) (set (rl_order l))"
proof -
  let ?n = "rl_next_node l"
  have p: "p \<in> set (rl_order l)" using rga_lookup_in [OF assms(1,3)] by simp
  have new: "?n \<notin> set (rl_order l)" using assms(1) by (auto simp: rga_inv_def)
  obtain q where q: "find_next_before_executed_at h l prev t = Some q" "q \<in> set (rl_order l)"
    "link_after q ?n (rl_order l) =
      place_after (\<lambda>m. positioned_at (rga_cell h l m)) p ?n t (rl_order l)"
    by (rule find_next_correct [OF assms(1-4)])
  note ins = rga_insert_after_node_inv [OF assms(1) q(2) assms(5)]
  let ?l = "rga_insert_after_node h l q r"
  let ?f = "(rl_elem l)(?n := r)"
  have pn: "p \<noteq> ?n" using p new by blast
  have "rga_refs ?l = map ?f (place_after (\<lambda>m. positioned_at (cells h (?f m))) p ?n t (rl_order l))"
    unfolding rga_refs_def ins(2,3) q(3)
    by (rule arg_cong [where f = "map ?f"], rule place_after_cong) (use new in \<open>auto simp: rga_cell_def\<close>)
  also have "\<dots> = place_after (rga_pos h) (?f p) (?f ?n) t (map ?f (rl_order l))"
    using rga_elem_inj [OF assms(1)] p new by (intro map_place_after) (auto simp: inj_on_def)
  also have "map ?f (rl_order l) = rga_refs l" using new by (simp add: rga_refs_def)
  finally have refs: "rga_refs ?l = place_after (rga_pos h) (rl_elem l p) r t (rga_refs l)"
    using pn by simp
  show ?thesis
  proof (rule that [of ?l])
    show "rga_insert_at h l prev r t = Some ?l" using q(1) by (simp add: rga_insert_at_def)
    show "map_of (rl_by_created ?l) k =
        (if k = ticket_key (created_at (cells h r)) then Some ?n else map_of (rl_by_created l) k)" for k
      by (simp add: rga_insert_after_node_def Let_def update_conv')
    show "set (rl_order ?l) = insert ?n (set (rl_order l))" using q(2) ins(2) by (simp add: set_link_after)
  qed (use ins refs in simp_all)
qed

lemma rga_actors_refs: "rga_actors h l \<longleftrightarrow> (\<forall>r\<in>set (rga_refs l). actorID (rga_pos h r) \<noteq> None)"
  by (auto simp: rga_actors_def rga_refs_def rga_cell_def)

text \<open>An element that is not in the list yet.\<close>

definition rga_fresh :: "'b heap \<Rightarrow> rga_list \<Rightarrow> ref \<Rightarrow> bool" where
  "rga_fresh h l r \<longleftrightarrow> map_of (rl_by_created l) (ticket_key (created_at (cells h r))) = None \<and>
     moved_at (cells h r) = None \<and> actorID (created_at (cells h r)) \<noteq> None"

lemma rga_insert_after_correct:
  assumes "rga_inv h l" "rga_actors h l" "rga_lookup l prev = Some p" "rga_fresh h l r"
  obtains l' where "rga_insert_after h l prev r = Some l'" "rga_inv h l'" "rga_actors h l'"
    "rga_refs l' = place_after (rga_pos h) (rl_elem l p) r (rga_pos h r) (rga_refs l)"
    "\<And>k. map_of (rl_by_created l') k =
      (if k = ticket_key (created_at (cells h r)) then Some (rl_next_node l) else map_of (rl_by_created l) k)"
    "rl_elem l' = (rl_elem l)(rl_next_node l := r)" "rl_size l' = rl_size l + 1"
proof -
  have pos: "rga_pos h r = created_at (cells h r)" and act: "actorID (created_at (cells h r)) \<noteq> None"
    and none: "map_of (rl_by_created l) (ticket_key (created_at (cells h r))) = None"
    using assms(4) by (simp_all add: rga_fresh_def positioned_at_def)
  have mem: "rl_elem l p \<in> set (rga_refs l)" using rga_lookup_in [OF assms(1,3)] by (simp add: rga_refs_def)
  show ?thesis
    by (rule rga_insert_at_correct [OF assms(1-3) act none], rule that)
       (use assms(2) pos act mem in \<open>auto simp: rga_insert_after_def rga_actors_refs set_place_after\<close>)
qed

section \<open>Removal and release\<close>

lemma rga_inv_heap_cong:
  assumes "rga_inv h l"
    "\<And>n. n \<in> set (rl_order l) \<Longrightarrow> created_at (rga_cell h' l n) = created_at (rga_cell h l n)"
    "\<And>n. n \<in> set (rl_order l) \<Longrightarrow> removed_at (rga_cell h' l n) = removed_at (rga_cell h l n)"
  shows "rga_inv h' l"
proof -
  have "splay_inv (rga_len h' l) (rl_index l)"
    by (rule splay.inv_cong [of "rga_len h l"]) (use assms in \<open>auto simp: rga_inv_def rga_len_def\<close>)
  moreover have "dummy_head \<in> set (rl_order l)" using rga_inv_cons [OF assms(1)] by auto
  ultimately show ?thesis using assms by (auto simp: rga_inv_def rga_key_def)
qed

text \<open>The removal time of an element changes, and its index node is splayed.\<close>

lemma rga_inv_removed:
  assumes "rga_inv h l" "n \<in> set (rl_order l)" "removed_at c \<noteq> None"
    "created_at c = created_at (rga_cell h l n)"
  defines "h' \<equiv> set_cell (rl_elem l n) c h"
  shows "rga_inv h' (l\<lparr>rl_index := splay (rga_len h' l) n (rl_index l), rl_size := s\<rparr>)"
proof -
  have same: "rga_cell h' l m = (if m = n then c else rga_cell h l m)" if "m \<in> set (rl_order l)" for m
    using rga_elem_inj [OF assms(1)] assms(2) that by (auto simp: h'_def rga_cell_def inj_on_def)
  have inv: "splay_inv (rga_len h l) (rl_index l)" "splay_inorder (rl_index l) = rl_order l"
    using assms(1) by (simp_all add: rga_inv_def)
  have agree: "rga_len h l m = rga_len h' l m" if "m \<in> set (rl_order l)" "m \<noteq> n" for m
    using same [OF that(1)] that(2) by (simp add: rga_len_def)
  have "splay_inv (rga_len h' l) (splay (rga_len h' l) n (rl_index l)) \<and>
      splay_inorder (splay (rga_len h' l) n (rl_index l)) = rl_order l"
    using splay.touch_changed [OF inv(1), of n "rga_len h' l"] agree assms(2) inv(2) by metis
  moreover have "dummy_head \<in> set (rl_order l)" using rga_inv_cons [OF assms(1)] by auto
  moreover have "rga_len h' (l\<lparr>rl_index := t, rl_size := s\<rparr>) = rga_len h' l" for t s
    by (simp add: rga_len_alt)
  moreover have "rga_cell h' (l\<lparr>rl_index := t, rl_size := s\<rparr>) = rga_cell h' l" for t s
    by (simp add: rga_cell_def fun_eq_iff)
  moreover have "rga_key h' l m = rga_key h l m" if "m \<in> set (rl_order l)" for m
    using same [OF that] assms(4) by (simp add: rga_key_def)
  ultimately show ?thesis
    using assms(1,3) same by (auto simp: rga_inv_def rga_key_def)
qed

lemma rga_delete_by_created_at_correct:
  assumes "rga_inv h l" "rga_lookup l created = Some n" "cell_actors (rga_cell h l n)" "actorID t \<noteq> None"
  defines "c \<equiv> (rga_cell h l n)\<lparr>removed_at := later_removal (rga_cell h l n) t\<rparr>"
  obtains l' where "rga_delete_by_created_at h l created (Some t) = Some (set_cell (rl_elem l n) c h, l', n)"
    "rga_inv (set_cell (rl_elem l n) c h) l'" "rl_order l' = rl_order l" "rl_elem l' = rl_elem l"
    "rl_size l' = rl_size l - (if later_removal (rga_cell h l n) t \<noteq> removed_at (rga_cell h l n) then 1 else 0)"
proof -
  let ?h = "set_cell (rl_elem l n) c h"
  have n: "n \<in> set (rl_order l)" using rga_lookup_in [OF assms(1,2)] by simp
  have rem: "heap_remove_elem (rl_elem l n) (Some t) h =
      Some (?h, later_removal (rga_cell h l n) t \<noteq> removed_at (rga_cell h l n))"
    using elem_remove_eq [OF assms(3,4)] by (simp add: heap_remove_elem_def rga_cell_def c_def)
  show ?thesis
  proof (cases "later_removal (rga_cell h l n) t = removed_at (rga_cell h l n)")
    case True
    then have "c = rga_cell h l n" by (simp add: c_def)
    then have "?h = h" by (simp add: set_cell_def rga_cell_def)
    then show ?thesis using that [of l] assms(1,2) rem True by (simp add: rga_delete_by_created_at_def)
  next
    case False
    then have "removed_at c \<noteq> None"
      by (auto simp: c_def later_removal_def split: if_splits option.splits)
    then have "rga_inv ?h (l\<lparr>rl_index := splay (rga_len ?h l) n (rl_index l), rl_size := rl_size l - 1\<rparr>)"
      by (intro rga_inv_removed [OF assms(1) n]) (simp_all add: c_def)
    then show ?thesis
      using that [of "l\<lparr>rl_index := splay (rga_len ?h l) n (rl_index l), rl_size := rl_size l - 1\<rparr>"]
        assms(2) rem False by (simp add: rga_delete_by_created_at_def)
  qed
qed

lemma last_remove1:
  "distinct (as @ n # bs) \<Longrightarrow> as \<noteq> [] \<Longrightarrow>
     last (remove1 n (as @ n # bs)) = (if bs = [] then last as else last bs)"
  by (simp add: remove1_append)

lemma rga_release_correct:
  assumes "rga_inv h l" "n \<in> set (rl_order l)" "n \<noteq> dummy_head"
  obtains l' where "rga_release h l n = Some l'" "rga_inv h l'" "rl_order l' = remove1 n (rl_order l)"
    "rl_elem l' = rl_elem l"
    "map_of (rl_by_created l') = (map_of (rl_by_created l))(rga_key h l n := None)"
    "rl_size l' = rl_size l - (if removed_at (rga_cell h l n) = None then 1 else 0)"
    "rl_next_node l' = rl_next_node l"
proof -
  obtain as bs where split: "rl_order l = as @ n # bs" "n \<notin> set as"
    using split_at_mem [OF assms(2)] by blast
  have inv: "distinct (rl_order l)" "hd (rl_order l) = dummy_head"
    "splay_inv (rga_len h l) (rl_index l)" "splay_inorder (rl_index l) = rl_order l"
    "rl_last l = last (rl_order l)" using assms(1) by (simp_all add: rga_inv_def)
  have as: "as \<noteq> []" using split inv(2) assms(3) by (cases as) auto
  have pred: "pred_of (rl_order l) n = Some (last as)" using split as by (simp add: pred_of_mid)
  let ?l = "l\<lparr>rl_last := (if rl_last l = n then last as else rl_last l),
    rl_order := remove1 n (rl_order l), rl_index := splay_delete (rga_len h l) n (rl_index l),
    rl_by_created := AList.delete (rga_key h l n) (rl_by_created l),
    rl_size := (if removed_at (rga_cell h l n) = None then rl_size l - 1 else rl_size l)\<rparr>"
  have rel: "rga_release h l n = Some ?l"
    using pred by (simp add: rga_release_def rga_key_def)
  have cell: "rga_cell h ?l = rga_cell h l" by (simp add: rga_cell_def fun_eq_iff)
  have len: "rga_len h ?l = rga_len h l" by (simp add: rga_len_alt)
  have tree: "splay_inv (rga_len h l) (splay_delete (rga_len h l) n (rl_index l))"
    "splay_inorder (splay_delete (rga_len h l) n (rl_index l)) = remove1 n (rl_order l)"
    using splay.remove_inv [OF inv(3)] assms(2) inv(4) by simp_all
  have order: "remove1 n (rl_order l) = as @ bs" using split by (simp add: remove1_append)
  have "last (rl_order l) \<noteq> n" if "bs \<noteq> []"
    using that split inv(1) last_in_set [OF that] by auto
  then have last: "rl_last ?l = last (as @ bs)" using as split inv(5) by (cases "bs = []") auto
  have maps: "map_of (rl_by_created ?l) k = Some m \<longleftrightarrow> m \<in> set (as @ bs) \<and> k = rga_key h l m" for k m
  proof -
    have old: "map_of (rl_by_created l) k = Some m \<longleftrightarrow> m \<in> set (rl_order l) \<and> k = rga_key h l m"
      using assms(1) by (simp add: rga_inv_def)
    have "m \<in> set (as @ bs) \<longleftrightarrow> m \<in> set (rl_order l) \<and> m \<noteq> n" using split inv(1) by auto
    moreover have "k = rga_key h l n \<Longrightarrow> m \<in> set (rl_order l) \<Longrightarrow> k = rga_key h l m \<Longrightarrow> m = n"
      using rga_keys_inj [OF assms(1)] assms(2) by metis
    ultimately show ?thesis using old by (auto simp: delete_conv')
  qed
  show ?thesis
  proof (rule that [OF rel])
    have key: "rga_key h ?l = rga_key h l" by (rule rga_same_elem) simp
    have order2: "rl_order ?l = as @ bs" by (simp add: order)
    have "distinct (as @ bs)" "as @ bs \<noteq> []" "hd (as @ bs) = dummy_head"
      using inv(1,2) split as by (auto simp: hd_append)
    moreover have "\<forall>m\<in>set (as @ bs). m < rl_next_node l"
      using assms(1) split by (auto simp: rga_inv_def)
    moreover have "distinct (map fst (rl_by_created ?l))"
      using assms(1) by (simp add: rga_inv_def distinct_delete)
    moreover have "removed_at (rga_cell h l dummy_head) \<noteq> None" using assms(1) by (simp add: rga_inv_def)
    ultimately show "rga_inv h ?l"
      unfolding rga_inv_def cell len key order2 using tree last maps order by simp
  qed (simp_all add: delete_conv')
qed

lemma dummy_key: "rga_inv h l \<Longrightarrow> dummy_head \<in> set (rl_order l)"
  using rga_inv_cons by fastforce

section \<open>Moving\<close>

text \<open>\<open>MoveAfter\<close> of an element with a later ticket: it leaves its place and is placed after the
  predecessor, as if it had been inserted at the time of the move.\<close>

lemma rga_move_after_correct:
  assumes "rga_inv h l" "rga_actors h l" "rga_lookup l prev = Some p" "rga_lookup l created = Some n"
    "n \<noteq> dummy_head" "p \<noteq> n" "actorID t \<noteq> None"
    "\<forall>u. moved_at (rga_cell h l n) = Some u \<longrightarrow> u < t"
  obtains l' where "rga_move_after h l prev created t = Some (set_moved_at (rl_elem l n) (Some t) h, l')"
    "rga_inv (set_moved_at (rl_elem l n) (Some t) h) l'"
    "rga_refs l' = place_after (rga_pos h) (rl_elem l p) (rl_elem l n) t (remove1 (rl_elem l n) (rga_refs l))"
    "rl_size l' = rl_size l + (if removed_at (rga_cell h l n) = None then 0 else 1)"
proof -
  let ?r = "rl_elem l n" and ?h = "set_moved_at (rl_elem l n) (Some t) h"
  have n: "n \<in> set (rl_order l)" and p: "p \<in> set (rl_order l)"
    using rga_lookup_in assms(1,3,4) by blast+
  obtain l1 where l1: "rga_release h l n = Some l1" "rga_inv h l1" "rl_order l1 = remove1 n (rl_order l)"
    "rl_elem l1 = rl_elem l" "map_of (rl_by_created l1) = (map_of (rl_by_created l))(rga_key h l n := None)"
    "rl_size l1 = rl_size l - (if removed_at (rga_cell h l n) = None then 1 else 0)"
    by (rule rga_release_correct [OF assms(1) n assms(5)]) blast
  have d: "distinct (rl_order l)" using assms(1) by (simp add: rga_inv_def)
  have actors: "rga_actors h l1"
    using assms(2) set_remove1_subset l1(3,4) by (fastforce simp: rga_actors_def rga_cell_def)
  have "rga_key h l p \<noteq> rga_key h l n" using rga_keys_inj [OF assms(1) p n] assms(6) by blast
  then have look: "rga_lookup l1 (created_at (rga_cell h l p)) = Some p"
    using rga_lookup_self [OF assms(1) p] l1(5) by (simp add: rga_lookup_def rga_key_def)
  have none: "map_of (rl_by_created l1) (ticket_key (created_at (cells h ?r))) = None"
    using l1(5) by (simp add: rga_key_def rga_cell_def)
  obtain l2 where l2: "rga_insert_at h l1 (created_at (rga_cell h l p)) ?r t = Some l2" "rga_inv h l2"
    "rga_refs l2 = place_after (rga_pos h) (rl_elem l1 p) ?r t (rga_refs l1)" "rl_size l2 = rl_size l1 + 1"
    by (rule rga_insert_at_correct [OF l1(2) actors look assms(7) none]) blast
  have map_rem: "map (rl_elem l) (remove1 n xs) = remove1 ?r (map (rl_elem l) xs)"
    if "inj_on (rl_elem l) (insert n (set xs))" for xs
    using that by (induction xs) (auto simp: inj_on_def)
  then have refs: "rga_refs l1 = remove1 ?r (rga_refs l)"
    using map_rem [of "rl_order l"] rga_elem_inj [OF assms(1)] n
    by (simp only: rga_refs_def l1(3,4) insert_absorb)
  have later: "(case moved_at (rga_cell h l n) of None \<Rightarrow> Some True | Some u \<Rightarrow> ticket_after t u) = Some True"
  proof (cases "moved_at (rga_cell h l n)")
    case (Some u)
    then have "actorID u \<noteq> None" using assms(2) n by (auto simp: rga_actors_def positioned_at_def)
    then show ?thesis using Some assms(7,8) by (simp add: ticket_after_actors)
  qed simp
  show ?thesis
  proof (rule that)
    show "rga_move_after h l prev created t = Some (?h, l2)"
      using assms(3,4) later l1(1) l2(1) by (simp add: rga_move_after_def)
    show "rga_inv ?h l2"
      by (rule rga_inv_heap_cong [OF l2(2)]) (simp_all add: set_moved_at_def rga_cell_def)
  qed (use l1(4,6) l2(3,4) refs in auto)
qed

section \<open>Convergence\<close>

text \<open>C8: Two concurrent insertions, each after an element that both replicas have, never panic
  and give the same sequence of elements in either order.\<close>
theorem rga_insertions_converge:
  assumes "rga_inv h l" "rga_actors h l" "rga_lookup l prev1 = Some p1" "rga_lookup l prev2 = Some p2"
    "rga_fresh h l r1" "rga_fresh h l r2"
    "ticket_key (created_at (cells h r1)) \<noteq> ticket_key (created_at (cells h r2))"
  shows "\<exists>a b. Option.bind (rga_insert_after h l prev1 r1) (\<lambda>l1. rga_insert_after h l1 prev2 r2) = Some a \<and>
    Option.bind (rga_insert_after h l prev2 r2) (\<lambda>l2. rga_insert_after h l2 prev1 r1) = Some b \<and>
    rga_refs a = rga_refs b \<and> rga_inv h a \<and> rga_inv h b \<and> rl_size a = rl_size b"
proof -
  let ?k1 = "ticket_key (created_at (cells h r1))" and ?k2 = "ticket_key (created_at (cells h r2))"
  obtain l1 where l1: "rga_insert_after h l prev1 r1 = Some l1" "rga_inv h l1" "rga_actors h l1"
    "rga_refs l1 = place_after (rga_pos h) (rl_elem l p1) r1 (rga_pos h r1) (rga_refs l)"
    "\<And>k. map_of (rl_by_created l1) k = (if k = ?k1 then Some (rl_next_node l) else map_of (rl_by_created l) k)"
    "rl_elem l1 = (rl_elem l)(rl_next_node l := r1)" "rl_size l1 = rl_size l + 1"
    by (rule rga_insert_after_correct [OF assms(1,2,3,5)]) blast
  obtain l2 where l2: "rga_insert_after h l prev2 r2 = Some l2" "rga_inv h l2" "rga_actors h l2"
    "rga_refs l2 = place_after (rga_pos h) (rl_elem l p2) r2 (rga_pos h r2) (rga_refs l)"
    "\<And>k. map_of (rl_by_created l2) k = (if k = ?k2 then Some (rl_next_node l) else map_of (rl_by_created l) k)"
    "rl_elem l2 = (rl_elem l)(rl_next_node l := r2)" "rl_size l2 = rl_size l + 1"
    by (rule rga_insert_after_correct [OF assms(1,2,4,6)]) blast
  have p: "p1 \<in> set (rl_order l)" "p2 \<in> set (rl_order l)" using rga_lookup_in assms(1,3,4) by blast+
  have new: "rl_next_node l \<notin> set (rl_order l)" using assms(1) by (auto simp: rga_inv_def)
  then have pn: "p1 \<noteq> rl_next_node l" "p2 \<noteq> rl_next_node l" using p by auto
  have fresh: "rga_fresh h l1 r2" "rga_fresh h l2 r1"
    using assms(5,6,7) l1(5) l2(5) by (auto simp: rga_fresh_def)
  have none: "map_of (rl_by_created l) ?k1 = None" "map_of (rl_by_created l) ?k2 = None"
    using assms(5,6) by (simp_all add: rga_fresh_def)
  have look: "rga_lookup l1 prev2 = Some p2" "rga_lookup l2 prev1 = Some p1"
    using assms(3,4) l1(5) l2(5) none by (auto simp: rga_lookup_def)
  obtain a where a: "rga_insert_after h l1 prev2 r2 = Some a" "rga_inv h a" "rl_size a = rl_size l1 + 1"
    "rga_refs a = place_after (rga_pos h) (rl_elem l1 p2) r2 (rga_pos h r2) (rga_refs l1)"
    by (rule rga_insert_after_correct [OF l1(2,3) look(1) fresh(1)]) blast
  obtain b where b: "rga_insert_after h l2 prev1 r1 = Some b" "rga_inv h b" "rl_size b = rl_size l2 + 1"
    "rga_refs b = place_after (rga_pos h) (rl_elem l2 p1) r1 (rga_pos h r1) (rga_refs l2)"
    by (rule rga_insert_after_correct [OF l2(2,3) look(2) fresh(2)]) blast
  have notin: "r \<notin> set (rga_refs l)" if "rga_fresh h l r" for r
  proof
    assume "r \<in> set (rga_refs l)"
    then obtain n where "n \<in> set (rl_order l)" "rl_elem l n = r" by (auto simp: rga_refs_def)
    then show False using rga_lookup_self [OF assms(1), of n] that
      by (simp add: rga_fresh_def rga_lookup_def rga_cell_def)
  qed
  have mem: "rl_elem l p1 \<in> set (rga_refs l)" "rl_elem l p2 \<in> set (rga_refs l)"
    using p by (simp_all add: rga_refs_def)
  have "rga_pos h r1 \<noteq> rga_pos h r2"
    using assms(5-7) by (auto simp: rga_fresh_def positioned_at_def)
  then have "rga_refs a = rga_refs b"
    using a(4) b(4) l1(4,6) l2(4,6) pn mem notin assms(5,6)
      place_after_commute [of "rga_pos h" r1 r2 "rl_elem l p1" "rl_elem l p2" "rga_refs l"] by auto
  then show ?thesis using l1(1,7) l2(1,7) a b by simp
qed

section \<open>Access by index\<close>

abbreviation live_of :: "'b heap \<Rightarrow> rga_list \<Rightarrow> rga_node \<Rightarrow> bool" where
  "live_of h l n \<equiv> removed_at (rga_cell h l n) = None"

lemma first_live_filter:
  "first_live h l ns = (case filter (live_of h l) ns of [] \<Rightarrow> None | n # _ \<Rightarrow> Some n)"
  by (induction ns) auto

lemma rga_len_nonneg: "0 \<le> rga_len h l n"
  by (simp add: rga_len_def)

lemma total_live: "total (rga_len h l) ns = int (length (filter (live_of h l) ns))"
  by (induction ns) (auto simp: rga_len_def)

text \<open>The node whose end reaches \<open>i\<close> is the \<open>i\<close>-th live one.\<close>

lemma seq_find_live:
  assumes "1 \<le> i"
  shows "case seq_find (rga_len h l) ns i of
      None \<Rightarrow> length (filter (live_of h l) ns) < nat i
    | Some (n, off) \<Rightarrow> off = 1 \<and> (\<exists>m as bs. n = Some m \<and> ns = as @ m # bs \<and> live_of h l m \<and>
        int (length (filter (live_of h l) as)) = i - 1)"
  using assms
proof (induction ns arbitrary: i)
  case (Cons n ns)
  consider (dead) "\<not> live_of h l n" | (here) "live_of h l n" "i = 1" | (later) "live_of h l n" "1 < i"
    using Cons.prems by linarith
  then show ?case
  proof cases
    case dead
    then show ?thesis
      using Cons.IH [OF Cons.prems] Cons.prems
      by (fastforce simp: rga_len_def split: option.splits intro: exI [of _ "n # as" for as])
  next
    case here
    have "\<exists>as bs. n # ns = as @ n # bs \<and> int (length (filter (live_of h l) as)) = i - 1"
      using here by (intro exI [of _ "[]"] exI [of _ ns]) simp
    then show ?thesis using here by (simp add: rga_len_def)
  next
    case later
    then have "1 \<le> i - 1" by simp
    from Cons.IH [OF this] later show ?thesis
      by (fastforce simp: rga_len_def split: option.splits intro: exI [of _ "n # as" for as])
  qed
qed simp

lemma rga_get_correct:
  assumes "rga_inv h l" "0 \<le> i"
  shows "rga_get h l i = (if nat i < length (rga_live h l) then Some (rga_live h l ! nat i) else None)"
proof -
  obtain ns where order: "rl_order l = dummy_head # ns" "dummy_head \<notin> set ns"
    using rga_inv_cons [OF assms(1)] by blast
  have dead: "\<not> live_of h l dummy_head" using assms(1) by (simp add: rga_inv_def)
  have inv: "splay_inv (rga_len h l) (rl_index l)" "splay_inorder (rl_index l) = rl_order l"
    "distinct (rl_order l)" using assms(1) by (simp_all add: rga_inv_def)
  have ne: "splay_inorder (rl_index l) \<noteq> []" using inv(2) order by simp
  have find: "splay_find (rga_len h l) (rl_index l) i = seq_find (rga_len h l) (rl_order l) i"
    using splay.find [OF rga_len_nonneg inv(1) ne] inv(2) by simp
  have live: "rga_live h l = filter (live_of h l) ns" using order dead by (simp add: rga_live_def)
  have foll: "following (rl_order l) dummy_head = ns" using following_mid [of dummy_head "[]" ns] order by simp
  show ?thesis
  proof (cases "i = 0")
    case True
    then have "rga_get h l i = first_live h l ns"
      using find order dead foll by (simp add: rga_get_def rga_len_def)
    then show ?thesis using True live by (simp add: first_live_filter split: list.splits)
  next
    case False
    then have i: "1 \<le> i" using assms(2) by simp
    have len0: "rga_len h l dummy_head = 0" using dead by (simp add: rga_len_def)
    show ?thesis
    proof (cases "seq_find (rga_len h l) ns i")
      case None
      then show ?thesis
        using seq_find_live [OF i, of h l ns] find order len0 False assms(2) live
        by (simp add: rga_get_def)
    next
      case (Some res)
      then obtain m as bs where m: "seq_find (rga_len h l) ns i = Some (Some m, 1)" "ns = as @ m # bs"
        "live_of h l m" "int (length (filter (live_of h l) as)) = i - 1"
        using seq_find_live [OF i, of h l ns] by (cases res) auto
      have "rga_get h l i = first_live h l (following (rl_order l) m)"
        using m(1) find order len0 False i by (simp add: rga_get_def)
      also have "following (rl_order l) m = bs"
        using following_mid [of m "dummy_head # as" bs] inv(3) order m(2) by auto
      finally have get: "rga_get h l i = first_live h l bs" .
      have "nat i = Suc (length (filter (live_of h l) as))" using m(4) i by linarith
      then show ?thesis
        using get m(2,3) live by (simp add: first_live_filter nth_append split: list.splits)
    qed
  qed
qed

section \<open>Properties\<close>

text \<open>\<open>Get\<close> of a non-negative index is the element at that position among the live ones; it
  ends abruptly exactly when there are not that many.\<close>
theorem rga_get_live:
  assumes "rga_inv h l" "0 \<le> i"
  shows "rga_get h l i = (if nat i < length (rga_live h l) then Some (rga_live h l ! nat i) else None)"
  by (rule rga_get_correct [OF assms])

text \<open>\<open>DeleteByCreatedAt\<close> of an element the list has never panics, keeps the invariant and the
  order of the nodes, and gives the element the later removal time; the element leaves the live
  ones when the deletion is later than its creation.\<close>
theorem rga_delete_tombstone:
  assumes "rga_inv h l" "rga_lookup l created = Some n" "cell_actors (rga_cell h l n)" "actorID t \<noteq> None"
    "created_at (rga_cell h l n) < t"
  shows "\<exists>h' l'. rga_delete_by_created_at h l created (Some t) = Some (h', l', n) \<and> rga_inv h' l' \<and>
    rl_order l' = rl_order l \<and> removed_at (rga_cell h' l' n) = later_removal (rga_cell h l n) t \<and>
    rga_live h' l' = remove1 n (rga_live h l)"
proof -
  let ?c = "(rga_cell h l n)\<lparr>removed_at := later_removal (rga_cell h l n) t\<rparr>"
  let ?h = "set_cell (rl_elem l n) ?c h"
  obtain l' where l': "rga_delete_by_created_at h l created (Some t) = Some (?h, l', n)" "rga_inv ?h l'"
    "rl_order l' = rl_order l" "rl_elem l' = rl_elem l"
    by (rule rga_delete_by_created_at_correct [OF assms(1-4)]) blast
  have n: "n \<in> set (rl_order l)" using rga_lookup_in [OF assms(1,2)] by simp
  have d: "distinct (rl_order l)" using assms(1) by (simp add: rga_inv_def)
  have same: "rga_cell ?h l' m = (if m = n then ?c else rga_cell h l m)" if "m \<in> set (rl_order l)" for m
    using rga_elem_inj [OF assms(1)] n that l'(4) by (auto simp: rga_cell_def inj_on_def)
  have "later_removal (rga_cell h l n) t \<noteq> None"
    using assms(5) by (auto simp: later_removal_def split: option.splits)
  then have "rga_live ?h l' = filter (\<lambda>m. m \<noteq> n) (rga_live h l)"
    unfolding rga_live_def l'(3) filter_filter by (intro filter_cong) (auto simp: same)
  also have "\<dots> = remove1 n (rga_live h l)"
    using d by (simp add: rga_live_def distinct_remove1_removeAll removeAll_filter_not_eq neq_commute)
  finally show ?thesis using l' same [OF n] by auto
qed

text \<open>C29: \<open>MoveAfter\<close> with a ticket later than the element's last move never panics; the element,
  live or removed, leaves its place and is placed after the predecessor as an insertion at the
  time of the move would be, and that time is recorded in it.  (The length goes up by one when
  the element had been removed.)\<close>
theorem rga_move_repositions:
  assumes "rga_inv h l" "rga_actors h l" "rga_lookup l prev = Some p" "rga_lookup l created = Some n"
    "n \<noteq> dummy_head" "p \<noteq> n" "actorID t \<noteq> None"
    "\<forall>u. moved_at (rga_cell h l n) = Some u \<longrightarrow> u < t"
  shows "\<exists>h' l'. rga_move_after h l prev created t = Some (h', l') \<and> rga_inv h' l' \<and>
    moved_at (cells h' (rl_elem l n)) = Some t \<and>
    rga_refs l' = place_after (rga_pos h) (rl_elem l p) (rl_elem l n) t
      (remove1 (rl_elem l n) (rga_refs l)) \<and>
    rl_size l' = rl_size l + (if removed_at (rga_cell h l n) = None then 0 else 1)"
  by (rule rga_move_after_correct [OF assms]) (auto simp: set_moved_at_def)

text \<open>C37: The length counts a second deletion of the same element: of two deletions of a live
  element, the second one later, the list loses one live element and its length goes down by
  two, while in the other order it goes down by one.\<close>
theorem rga_double_delete_miscounts:
  assumes "rga_inv h l" "rga_lookup l created = Some n" "cell_actors (rga_cell h l n)"
    "removed_at (rga_cell h l n) = None" "actorID t \<noteq> None" "actorID u \<noteq> None"
    "created_at (rga_cell h l n) < t" "t < u"
  shows "\<exists>h1 l1 h2 l2 h3 l3 h4 l4.
    rga_delete_by_created_at h l created (Some t) = Some (h1, l1, n) \<and>
    rga_delete_by_created_at h1 l1 created (Some u) = Some (h2, l2, n) \<and>
    rga_delete_by_created_at h l created (Some u) = Some (h3, l3, n) \<and>
    rga_delete_by_created_at h3 l3 created (Some t) = Some (h4, l4, n) \<and>
    rga_cell h2 l2 n = rga_cell h4 l4 n \<and>
    rl_size l2 = rl_size l - 2 \<and> rl_size l4 = rl_size l - 1"
proof -
  let ?c = "rga_cell h l n"
  let ?ct = "?c\<lparr>removed_at := Some t\<rparr>" and ?cu = "?c\<lparr>removed_at := Some u\<rparr>"
  let ?ht = "set_cell (rl_elem l n) ?ct h" and ?hu = "set_cell (rl_elem l n) ?cu h"
  have lt: "\<not> t \<le> created_at ?c" "\<not> u \<le> created_at ?c" "max u t = u" "max t u = u"
    using assms(7,8) by auto
  have rem: "later_removal ?c t = Some t" "later_removal ?c u = Some u" "later_removal ?ct u = Some u"
    "later_removal ?cu t = Some u"
    using lt assms(4) by (auto simp: later_removal_def)
  have look: "rga_lookup l' created = Some n" if "rga_inv h' l'" "rl_order l' = rl_order l"
    "rl_elem l' = rl_elem l" "created_at (cells h' (rl_elem l n)) = created_at ?c" for h' :: "'a heap" and l'
    using that rga_lookup_in [OF assms(1,2)]
    by (auto simp: rga_lookup_def rga_inv_def rga_key_def rga_cell_def)
  have act: "cell_actors ?ct" "cell_actors ?cu" using assms(3,5,6) by (auto simp: cell_actors_def)
  obtain l1 where l1: "rga_delete_by_created_at h l created (Some t) = Some (?ht, l1, n)"
    "rga_inv ?ht l1" "rl_order l1 = rl_order l" "rl_elem l1 = rl_elem l" "rl_size l1 = rl_size l - 1"
    by (rule rga_delete_by_created_at_correct [OF assms(1,2,3,5)]) (auto simp: rem assms(4))
  obtain l3 where l3: "rga_delete_by_created_at h l created (Some u) = Some (?hu, l3, n)"
    "rga_inv ?hu l3" "rl_order l3 = rl_order l" "rl_elem l3 = rl_elem l" "rl_size l3 = rl_size l - 1"
    by (rule rga_delete_by_created_at_correct [OF assms(1,2,3,6)]) (auto simp: rem assms(4))
  have c1: "rga_cell ?ht l1 n = ?ct" and c3: "rga_cell ?hu l3 n = ?cu"
    using l1(4) l3(4) by (simp_all add: rga_cell_def)
  have a1: "cell_actors (rga_cell ?ht l1 n)" and a3: "cell_actors (rga_cell ?hu l3 n)"
    using act c1 c3 by simp_all
  have k1: "rga_lookup l1 created = Some n" and k3: "rga_lookup l3 created = Some n"
    by (rule look [OF l1(2-4)], simp) (rule look [OF l3(2-4)], simp)
  obtain l2 where l2: "rga_delete_by_created_at ?ht l1 created (Some u) =
      Some (set_cell (rl_elem l1 n) ((rga_cell ?ht l1 n)\<lparr>removed_at := later_removal (rga_cell ?ht l1 n) u\<rparr>) ?ht,
        l2, n)" "rl_elem l2 = rl_elem l1"
    "rl_size l2 = rl_size l1 -
      (if later_removal (rga_cell ?ht l1 n) u \<noteq> removed_at (rga_cell ?ht l1 n) then 1 else 0)"
    by (rule rga_delete_by_created_at_correct [OF l1(2) k1 a1 assms(6)]) blast
  note l2 = l2 [unfolded c1 rem]
  obtain l4 where l4: "rga_delete_by_created_at ?hu l3 created (Some t) =
      Some (set_cell (rl_elem l3 n) ((rga_cell ?hu l3 n)\<lparr>removed_at := later_removal (rga_cell ?hu l3 n) t\<rparr>) ?hu,
        l4, n)" "rl_elem l4 = rl_elem l3"
    "rl_size l4 = rl_size l3 -
      (if later_removal (rga_cell ?hu l3 n) t \<noteq> removed_at (rga_cell ?hu l3 n) then 1 else 0)"
    by (rule rga_delete_by_created_at_correct [OF l3(2) k3 a3 assms(5)]) blast
  note l4 = l4 [unfolded c3 rem]
  let ?h2 = "set_cell (rl_elem l1 n) (?ct\<lparr>removed_at := Some u\<rparr>) ?ht"
  let ?h4 = "set_cell (rl_elem l3 n) (?cu\<lparr>removed_at := Some u\<rparr>) ?hu"
  have "rga_cell ?h2 l2 n = rga_cell ?h4 l4 n"
    using l2(2) l4(2) by (simp add: rga_cell_def)
  moreover have "rl_size l2 = rl_size l - 2" "rl_size l4 = rl_size l - 1"
    using l2(3) l4(3) l1(5) l3(5) assms(8) by simp_all
  ultimately show ?thesis using l1(1) l2(1) l3(1) l4(1) by blast
qed

text \<open>A list with two elements, for the examples.\<close>

definition sample_list :: rga_list where
  "sample_list = \<lparr>rl_elem = (\<lambda>n. n), rl_next_node = 3, rl_order = [0, 1, 2], rl_last = 2, rl_size = 2,
     rl_index = Splay_Node (Splay_Node Null 0 0 Null) 1 2 (Splay_Node Null 2 1 Null),
     rl_by_created = [(ticket_key initial_ticket, 0), (ticket_key (sample_ticket 1), 1),
       (ticket_key (sample_ticket 2), 2)]\<rparr>"

lemma sample_list_ok:
  "rga_inv sample_heap sample_list" "rga_actors sample_heap sample_list"
  "rga_lookup sample_list (sample_ticket 0) = Some 0" "rga_lookup sample_list (sample_ticket 1) = Some 1"
  "rga_lookup sample_list (sample_ticket 2) = Some 2"
  "rga_fresh sample_heap sample_list 3" "rga_fresh sample_heap sample_list 4"
  "cell_actors (rga_cell sample_heap sample_list 1)"
  by (auto simp: rga_inv_def rga_actors_def sample_list_def sample_heap_def sample_keys rga_lookup_def
      rga_fresh_def rga_cell_def rga_key_def new_cell_def dummy_head_def rga_len_def positioned_at_def
      cell_actors_def) (auto simp: sample_ticket_def)

lemma sample_first:
  "created_at (rga_cell sample_heap sample_list 1) = sample_ticket 1"
  "removed_at (rga_cell sample_heap sample_list 1) = None"
  "moved_at (rga_cell sample_heap sample_list 1) = None"
  by (auto simp: rga_cell_def sample_heap_def sample_list_def new_cell_def)

theorem rga_insertions_converge_witness:
  "\<exists>a b. Option.bind (rga_insert_after sample_heap sample_list (sample_ticket 0) 3)
      (\<lambda>l1. rga_insert_after sample_heap l1 (sample_ticket 1) 4) = Some a \<and>
    Option.bind (rga_insert_after sample_heap sample_list (sample_ticket 1) 4)
      (\<lambda>l2. rga_insert_after sample_heap l2 (sample_ticket 0) 3) = Some b \<and>
    rga_refs a = rga_refs b \<and> rga_inv sample_heap a \<and> rga_inv sample_heap b \<and> rl_size a = rl_size b"
  by (rule rga_insertions_converge [OF sample_list_ok(1,2,3,4,6,7)])
     (simp add: sample_heap_def new_cell_def sample_keys)

theorem rga_get_live_witness: "rga_get sample_heap sample_list 1 = Some 2"
  using rga_get_live [OF sample_list_ok(1), of 1]
  by (simp add: rga_live_def sample_list_def sample_heap_def rga_cell_def new_cell_def)

theorem rga_delete_tombstone_witness:
  "\<exists>h' l'. rga_delete_by_created_at sample_heap sample_list (sample_ticket 1) (Some (sample_ticket 9)) =
      Some (h', l', 1) \<and> rga_inv h' l' \<and> rl_order l' = rl_order sample_list \<and>
    removed_at (rga_cell h' l' 1) = later_removal (rga_cell sample_heap sample_list 1) (sample_ticket 9) \<and>
    rga_live h' l' = remove1 1 (rga_live sample_heap sample_list)"
  by (rule rga_delete_tombstone [OF sample_list_ok(1,4,8)]) (simp_all add: sample_first sample_times del: One_nat_def)

theorem rga_move_repositions_witness:
  "\<exists>h' l'. rga_move_after sample_heap sample_list (sample_ticket 2) (sample_ticket 1) (sample_ticket 9) =
      Some (h', l') \<and> rga_inv h' l' \<and> moved_at (cells h' (rl_elem sample_list 1)) = Some (sample_ticket 9) \<and>
    rga_refs l' = [0, 2, 1]"
proof -
  have "place_after (rga_pos sample_heap) (rl_elem sample_list 2) (rl_elem sample_list 1) (sample_ticket 9)
      (remove1 (rl_elem sample_list 1) (rga_refs sample_list)) = [0, 2, 1]"
    by (simp add: rga_refs_def sample_list_def)
  then show ?thesis
    using rga_move_repositions [OF sample_list_ok(1,2,5,4), of "sample_ticket 9"]
    by (auto simp: sample_first sample_times dummy_head_def simp del: One_nat_def)
qed

theorem rga_double_delete_miscounts_witness:
  "\<exists>h1 l1 h2 l2 h3 l3 h4 l4.
    rga_delete_by_created_at sample_heap sample_list (sample_ticket 1) (Some (sample_ticket 8)) = Some (h1, l1, 1) \<and>
    rga_delete_by_created_at h1 l1 (sample_ticket 1) (Some (sample_ticket 9)) = Some (h2, l2, 1) \<and>
    rga_delete_by_created_at sample_heap sample_list (sample_ticket 1) (Some (sample_ticket 9)) = Some (h3, l3, 1) \<and>
    rga_delete_by_created_at h3 l3 (sample_ticket 1) (Some (sample_ticket 8)) = Some (h4, l4, 1) \<and>
    rga_cell h2 l2 1 = rga_cell h4 l4 1 \<and>
    rl_size l2 = rl_size sample_list - 2 \<and> rl_size l4 = rl_size sample_list - 1"
  by (rule rga_double_delete_miscounts [OF sample_list_ok(1,4,8)]) (simp_all add: sample_first sample_times del: One_nat_def)

end
