(* ===== verification/Rht_Pq_Map.thy ===== *)
theory Rht_Pq_Map
  imports Cells Priority_Queue Rht
begin

text \<open>
  The members of a JSON object: \<open>src/pkg/document/json/rht_pq_map.go\<close>.  Every key has a priority
  queue of nodes, the latest creation on top; nodes are compared by pointer when they are
  released, so each allocation gives them a number.  Elements live in the heap of theory
  \<open>Cells\<close>.  Go maps are association lists, as in theory \<open>Rht\<close>.  \<open>None\<close> is a panic (\<open>Peek\<close> of an
  empty queue, a comparison with a nil ticket) or a \<open>Fatalf\<close>.  The order of the queue is \<open>After\<close>
  of the creation times, which is defined when those have actors (\<open>pq_node_less_after\<close>).
\<close>

section \<open>Definitions\<close>

record pq_node =
  pqn_id :: nat
  pqn_key :: string
  pqn_elem :: ref

record pq_map =
  pm_next :: nat
  pm_queues :: "(string \<times> pq_node internal_queue) list"
  pm_by_created :: "(string \<times> pq_node) list"

definition pqn_created :: "'b heap \<Rightarrow> pq_node \<Rightarrow> ticket" where
  "pqn_created h n = created_at (cells h (pqn_elem n))"

definition pqn_is_removed :: "'b heap \<Rightarrow> pq_node \<Rightarrow> bool" where
  "pqn_is_removed h n \<longleftrightarrow> removed_at (cells h (pqn_elem n)) \<noteq> None"

definition pq_node_less :: "'b heap \<Rightarrow> pq_node \<Rightarrow> pq_node \<Rightarrow> bool" where
  "pq_node_less h a b \<longleftrightarrow> pqn_created h b < pqn_created h a"

definition new_pq_map :: pq_map where
  "new_pq_map = \<lparr>pm_next = 0, pm_queues = [], pm_by_created = []\<rparr>"

definition pm_get :: "'b heap \<Rightarrow> pq_map \<Rightarrow> string \<Rightarrow> ref option" where
  "pm_get h m k =
     (case map_of (pm_queues m) k of
        None \<Rightarrow> None
      | Some q \<Rightarrow>
          case pq_peek q of
            None \<Rightarrow> None
          | Some n \<Rightarrow> if pqn_is_removed h n then None else Some (pqn_elem n))"

definition pm_has :: "'b heap \<Rightarrow> pq_map \<Rightarrow> string \<Rightarrow> bool option" where
  "pm_has h m k =
     (case map_of (pm_queues m) k of
        None \<Rightarrow> Some False
      | Some q \<Rightarrow> do { n \<leftarrow> pq_peek q; Some (\<not> pqn_is_removed h n) })"

definition pm_set_internal :: "'b heap \<Rightarrow> pq_map \<Rightarrow> string \<Rightarrow> ref \<Rightarrow> pq_map" where
  "pm_set_internal h m k v =
     (let q = (case map_of (pm_queues m) k of None \<Rightarrow> new_priority_queue | Some q \<Rightarrow> q);
          n = \<lparr>pqn_id = pm_next m, pqn_key = k, pqn_elem = v\<rparr>
      in \<lparr>pm_next = Suc (pm_next m),
          pm_queues = AList.update k (pq_push (pq_node_less h) q n) (pm_queues m),
          pm_by_created = AList.update (ticket_key (created_at (cells h v))) n (pm_by_created m)\<rparr>)"

definition pm_set :: "'b heap \<Rightarrow> pq_map \<Rightarrow> string \<Rightarrow> ref \<Rightarrow> ('b heap \<times> pq_map \<times> ref option) option" where
  "pm_set h m k v = do {
     (h, removed) \<leftarrow>
       (case map_of (pm_queues m) k of
          None \<Rightarrow> Some (h, None)
        | Some q \<Rightarrow>
            case pq_peek q of
              None \<Rightarrow> Some (h, None)
            | Some n \<Rightarrow>
                if pqn_is_removed h n then Some (h, None)
                else do {
                  (h, changed) \<leftarrow> heap_remove_elem (pqn_elem n) (Some (created_at (cells h v))) h;
                  Some (h, if changed then Some (pqn_elem n) else None) });
     Some (h, pm_set_internal h m k v, removed) }"

definition pm_delete :: "'b heap \<Rightarrow> pq_map \<Rightarrow> string \<Rightarrow> ticket option \<Rightarrow> ('b heap \<times> ref option) option" where
  "pm_delete h m k deleted =
     (case map_of (pm_queues m) k of
        None \<Rightarrow> Some (h, None)
      | Some q \<Rightarrow> do {
          n \<leftarrow> pq_peek q;
          (h, changed) \<leftarrow> heap_remove_elem (pqn_elem n) deleted h;
          Some (h, if changed then Some (pqn_elem n) else None) })"

definition pm_delete_by_created_at :: "'b heap \<Rightarrow> pq_map \<Rightarrow> ticket \<Rightarrow> ticket option \<Rightarrow>
    ('b heap \<times> ref option) option" where
  "pm_delete_by_created_at h m created deleted =
     (case map_of (pm_by_created m) (ticket_key created) of
        None \<Rightarrow> Some (h, None)
      | Some n \<Rightarrow> do {
          (h, changed) \<leftarrow> heap_remove_elem (pqn_elem n) deleted h;
          Some (h, if changed then Some (pqn_elem n) else None) })"

definition pm_tops :: "'b heap \<Rightarrow> pq_map \<Rightarrow> pq_node list" where
  "pm_tops h m = filter (\<lambda>n. \<not> pqn_is_removed h n)
     (List.map_filter (\<lambda>(k, q). pq_peek q) (pm_queues m))"

definition pm_elements :: "'b heap \<Rightarrow> pq_map \<Rightarrow> (string \<times> ref) list" where
  "pm_elements h m = fold (\<lambda>n e. AList.update (pqn_key n) (pqn_elem n) e) (pm_tops h m) []"

definition pm_nodes :: "pq_map \<Rightarrow> pq_node list" where
  "pm_nodes m = concat (map (\<lambda>(k, q). pq_values q) (pm_queues m))"

definition pm_purge :: "'b heap \<Rightarrow> pq_map \<Rightarrow> ref \<Rightarrow> pq_map option" where
  "pm_purge h m elem = do {
     n \<leftarrow> map_of (pm_by_created m) (ticket_key (created_at (cells h elem)));
     q \<leftarrow> map_of (pm_queues m) (pqn_key n);
     q' \<leftarrow> pq_release (pq_node_less h) q n;
     Some (m\<lparr>pm_queues := AList.update (pqn_key n) q' (pm_queues m),
             pm_by_created := AList.delete (ticket_key (pqn_created h n)) (pm_by_created m)\<rparr>) }"

fun show_members :: "(ref \<Rightarrow> string option) \<Rightarrow> (string \<times> ref) list \<Rightarrow> string list option" where
  "show_members show_elem [] = Some []"
| "show_members show_elem ((k, r) # es) = do {
     s \<leftarrow> show_elem r;
     ss \<leftarrow> show_members show_elem es;
     Some ((quoted k @ '':'' @ s) # ss) }"

definition pm_marshal :: "(ref \<Rightarrow> string option) \<Rightarrow> 'b heap \<Rightarrow> pq_map \<Rightarrow> string option" where
  "pm_marshal show_elem h m =
     (let members = pm_elements h m;
          keys = sort (map fst members)
      in do {
        ss \<leftarrow> show_members show_elem (map (\<lambda>k. (k, the (map_of members k))) keys);
        Some (''{'' @ join_with '','' ss @ ''}'') })"

section \<open>The order of the queues\<close>

interpretation pq_node_order: strict_weak_order "pq_node_less h" for h :: "'b heap"
  by unfold_locales (auto simp: pq_node_less_def)

lemma pq_node_less_after:
  "actorID (pqn_created h a) \<noteq> None \<Longrightarrow> actorID (pqn_created h b) \<noteq> None \<Longrightarrow>
     ticket_after (pqn_created h a) (pqn_created h b) = Some (pq_node_less h a b)"
  by (simp add: ticket_after_actors pq_node_less_def)

section \<open>Invariant\<close>

definition pm_queue :: "pq_map \<Rightarrow> string \<Rightarrow> pq_node internal_queue" where
  "pm_queue m k = (case map_of (pm_queues m) k of None \<Rightarrow> [] | Some q \<Rightarrow> q)"

text \<open>The nodes of a key.\<close>

definition pm_bag :: "pq_map \<Rightarrow> string \<Rightarrow> pq_node multiset" where
  "pm_bag m k = mset (pq_values (pm_queue m k))"

definition pm_inv :: "'b heap \<Rightarrow> pq_map \<Rightarrow> bool" where
  "pm_inv h m \<longleftrightarrow> distinct (map fst (pm_queues m)) \<and>
     (\<forall>k. is_heap (pq_node_less h) (pm_queue m k) \<and> positions_ok (pm_queue m k)) \<and>
     (\<forall>k n. n \<in># pm_bag m k \<longrightarrow> pqn_key n = k) \<and>
     (\<forall>k n. count (pm_bag m k) n \<le> 1) \<and>
     (\<forall>c n. map_of (pm_by_created m) c = Some n \<longleftrightarrow>
        n \<in># pm_bag m (pqn_key n) \<and> c = ticket_key (pqn_created h n)) \<and>
     (\<forall>k n. n \<in># pm_bag m k \<longrightarrow> cell_actors (cells h (pqn_elem n)) \<and> pqn_id n < pm_next m)"

text \<open>The node on top: the one that was created last.\<close>

definition latest :: "'b heap \<Rightarrow> pq_node multiset \<Rightarrow> pq_node \<Rightarrow> bool" where
  "latest h N n \<longleftrightarrow> n \<in># N \<and> (\<forall>x. x \<in># N \<longrightarrow> pqn_created h x \<le> pqn_created h n)"

lemma pm_queue_empty: "pm_queue m k = [] \<longleftrightarrow> pm_bag m k = {#}"
  by (simp add: pm_bag_def pq_values_def)

lemma pm_peek:
  assumes "pm_inv h m"
  shows "pq_peek (pm_queue m k) =
    (if pm_bag m k = {#} then None else Some (pq_value (pm_queue m k ! 0)))"
    "pm_bag m k \<noteq> {#} \<Longrightarrow> latest h (pm_bag m k) (pq_value (pm_queue m k ! 0))"
proof -
  have h: "is_heap (pq_node_less h) (pm_queue m k)" using assms by (simp add: pm_inv_def)
  show "pq_peek (pm_queue m k) =
    (if pm_bag m k = {#} then None else Some (pq_value (pm_queue m k ! 0)))"
    by (simp add: pq_peek_def queue_peek_def pm_queue_empty [symmetric])
  assume ne: "pm_bag m k \<noteq> {#}"
  then have q: "pm_queue m k \<noteq> []" by (simp add: pm_queue_empty)
  have "pq_value (pm_queue m k ! 0) \<in># pm_bag m k"
    using q by (simp add: pm_bag_def pq_values_def)
  then show "latest h (pm_bag m k) (pq_value (pm_queue m k ! 0))"
    using pq_node_order.peek_maximum(2) [OF h q]
    by (auto simp: latest_def pm_bag_def pq_node_less_def not_less)
qed

lemma pm_get_queue: "pm_get h m k =
    (case pq_peek (pm_queue m k) of
       None \<Rightarrow> None | Some n \<Rightarrow> if pqn_is_removed h n then None else Some (pqn_elem n))"
  by (auto simp: pm_get_def pm_queue_def pq_peek_def queue_peek_def split: option.splits)

lemma pm_inv_node:
  "pm_inv h m \<Longrightarrow> n \<in># pm_bag m k \<Longrightarrow>
     pqn_key n = k \<and> cell_actors (cells h (pqn_elem n)) \<and> pqn_id n < pm_next m"
  unfolding pm_inv_def by blast

lemma keys_unique:
  "pm_inv h m \<Longrightarrow> n \<in># pm_bag m k \<Longrightarrow> n' \<in># pm_bag m k' \<Longrightarrow>
     ticket_key (pqn_created h n) = ticket_key (pqn_created h n') \<Longrightarrow> n = n'"
  unfolding pm_inv_def by (metis option.inject)

lemma latest_unique:
  assumes "pm_inv h m" "latest h (pm_bag m k) n" "latest h (pm_bag m k) n'"
  shows "n = n'"
  using assms keys_unique [OF assms(1)] unfolding latest_def by (metis order_antisym)

text \<open>\<open>Get\<close> returns the element of the key that was created last, unless it is removed.\<close>

lemma pm_get_latest:
  assumes "pm_inv h m" "latest h (pm_bag m k) n"
  shows "pm_get h m k = (if pqn_is_removed h n then None else Some (pqn_elem n))"
proof -
  have "pm_bag m k \<noteq> {#}" using assms(2) by (auto simp: latest_def)
  then show ?thesis using pm_peek [OF assms(1), of k] latest_unique [OF assms(1) assms(2)]
    by (simp add: pm_get_queue)
qed

lemma pm_get_none: "pm_bag m k = {#} \<Longrightarrow> pm_get h m k = None"
  by (simp add: pm_get_queue pq_peek_def queue_peek_def pm_queue_empty)

lemma new_pm_inv: "pm_inv h new_pq_map"
  by (simp add: pm_inv_def new_pq_map_def pm_queue_def pm_bag_def pq_values_def is_heap_def
      heap_upto_def positions_ok_def)

section \<open>Writing\<close>

text \<open>The invariant reads creation times and actors only.\<close>

lemma pm_inv_heap_cong:
  assumes "pm_inv h m" "\<And>r. created_at (cells h' r) = created_at (cells h r)"
    "\<And>r. cell_actors (cells h r) \<Longrightarrow> cell_actors (cells h' r)"
  shows "pm_inv h' m"
proof -
  have c: "pqn_created h' = pqn_created h" using assms(2) by (simp add: pqn_created_def fun_eq_iff)
  then have lt: "pq_node_less h' = pq_node_less h" by (simp add: pq_node_less_def fun_eq_iff)
  have "\<forall>k n. n \<in># pm_bag m k \<longrightarrow> cell_actors (cells h' (pqn_elem n)) \<and> pqn_id n < pm_next m"
    using pm_inv_node [OF assms(1)] assms(3) by blast
  then show ?thesis using assms(1) unfolding pm_inv_def c lt by (elim conjE) (intro conjI; assumption)
qed

definition pm_fresh :: "'b heap \<Rightarrow> pq_map \<Rightarrow> ref \<Rightarrow> bool" where
  "pm_fresh h m v \<longleftrightarrow> cell_actors (cells h v) \<and>
     map_of (pm_by_created m) (ticket_key (created_at (cells h v))) = None"

lemma pm_set_internal_correct:
  fixes k k' c :: string
  assumes "pm_inv h m" "pm_fresh h m v"
  defines "m' \<equiv> pm_set_internal h m k v" and "n \<equiv> \<lparr>pqn_id = pm_next m, pqn_key = k, pqn_elem = v\<rparr>"
  shows "pm_inv h m'" "pm_bag m' k' = (if k' = k then add_mset n (pm_bag m k) else pm_bag m k')"
    "map_of (pm_by_created m') c =
      (if c = ticket_key (created_at (cells h v)) then Some n else map_of (pm_by_created m) c)"
proof -
  let ?lt = "pq_node_less h" and ?c = "ticket_key (created_at (cells h v))"
  have heap: "is_heap ?lt (pm_queue m k')" "positions_ok (pm_queue m k')" for k'
    using assms(1) by (simp_all add: pm_inv_def)
  have q: "pm_queue m' k' = (if k' = k then pq_push ?lt (pm_queue m k) n else pm_queue m k')" for k'
    by (auto simp: m'_def n_def pm_set_internal_def pm_queue_def Let_def update_conv'
        new_priority_queue_def split: option.splits)
  have push: "is_heap ?lt (pq_push ?lt (pm_queue m k) n)" "positions_ok (pq_push ?lt (pm_queue m k) n)"
    "mset (pq_values (pq_push ?lt (pm_queue m k) n)) = add_mset n (pm_bag m k)"
    using pq_node_order.pq_push_correct [OF heap(1) [of k], of n] heap(2) [of k]
    by (simp_all add: pm_bag_def pq_values_def)
  show bag: "pm_bag m' k' = (if k' = k then add_mset n (pm_bag m k) else pm_bag m k')" for k'
    using push(3) by (simp add: pm_bag_def q)
  show byc: "map_of (pm_by_created m') c = (if c = ?c then Some n else map_of (pm_by_created m) c)" for c
    by (simp add: m'_def n_def pm_set_internal_def Let_def update_conv')
  have cn: "ticket_key (pqn_created h n) = ?c" "pqn_key n = k" by (simp_all add: n_def pqn_created_def)
  have fresh: "map_of (pm_by_created m) ?c = None" using assms(2) by (simp add: pm_fresh_def)
  have new: "n \<notin># pm_bag m k'" for k'
    using pm_inv_node [OF assms(1), of n k'] by (auto simp: n_def)
  have "map_of (pm_by_created m') c = Some x \<longleftrightarrow>
      x \<in># pm_bag m' (pqn_key x) \<and> c = ticket_key (pqn_created h x)" for c x
  proof (cases "x = n")
    case True
    have "map_of (pm_by_created m) c \<noteq> Some n" using assms(1) new by (auto simp: pm_inv_def)
    then show ?thesis using True cn by (simp add: byc bag)
  next
    case False
    have old: "map_of (pm_by_created m) c = Some x \<longleftrightarrow>
        x \<in># pm_bag m (pqn_key x) \<and> c = ticket_key (pqn_created h x)"
      using assms(1) by (simp add: pm_inv_def)
    have bx: "x \<in># pm_bag m' (pqn_key x) \<longleftrightarrow> x \<in># pm_bag m (pqn_key x)"
      using False by (simp add: bag)
    show ?thesis
    proof (cases "c = ?c")
      case True
      then have "\<not> (x \<in># pm_bag m (pqn_key x) \<and> c = ticket_key (pqn_created h x))"
        using old fresh by simp
      then show ?thesis using True False unfolding byc bx by simp
    next
      case False
      then show ?thesis using old unfolding byc bx by simp
    qed
  qed
  moreover have "count (pm_bag m' k') x \<le> 1" for k' x
    using assms(1) new [of k] by (auto simp: bag pm_inv_def not_in_iff)
  moreover have "distinct (map fst (pm_queues m'))"
    using assms(1) by (simp add: m'_def pm_set_internal_def Let_def pm_inv_def distinct_update)
  moreover have "is_heap ?lt (pm_queue m' k')" "positions_ok (pm_queue m' k')" for k'
    using heap push(1,2) by (simp_all add: q)
  moreover have "pqn_key x = k' \<and> cell_actors (cells h (pqn_elem x)) \<and> pqn_id x < pm_next m'"
    if mem: "x \<in># pm_bag m' k'" for k' x
  proof -
    have nxt: "pm_next m' = Suc (pm_next m)" by (simp add: m'_def pm_set_internal_def Let_def)
    consider "x = n" "k' = k" | "x \<in># pm_bag m k'" using mem by (auto simp: bag split: if_splits)
    then show ?thesis
    proof cases
      case 1
      then show ?thesis using assms(2) nxt by (simp add: n_def pm_fresh_def)
    next
      case 2
      then show ?thesis using pm_inv_node [OF assms(1), of x k'] nxt by simp
    qed
  qed
  ultimately show "pm_inv h m'" unfolding pm_inv_def by (intro conjI allI impI) simp_all
qed

text \<open>\<open>Set\<close>: the top of the key, when it is live and older, is removed at the new creation time.\<close>

definition overwritten :: "'b heap \<Rightarrow> pq_map \<Rightarrow> string \<Rightarrow> ref \<Rightarrow> ref \<Rightarrow> bool" where
  "overwritten h m k v r \<longleftrightarrow> pm_get h m k = Some r \<and> created_at (cells h r) < created_at (cells h v)"

lemma pm_set_correct:
  assumes "pm_inv h m" "pm_fresh h m v"
  obtains h' m' where
    "pm_set h m k v = Some (h', m', case pm_get h m k of None \<Rightarrow> None
       | Some r \<Rightarrow> if overwritten h m k v r then Some r else None)"
    "\<And>r. cells h' r = (if overwritten h m k v r
       then (cells h r)\<lparr>removed_at := Some (created_at (cells h v))\<rparr> else cells h r)"
    "pm_inv h' m'" "m' = pm_set_internal h m k v"
proof -
  let ?t = "created_at (cells h v)" and ?m = "pm_set_internal h m k v"
  have act: "actorID ?t \<noteq> None" using assms(2) by (simp add: pm_fresh_def cell_actors_def)
  have inv: "pm_inv h ?m" by (rule pm_set_internal_correct [OF assms])
  show ?thesis
  proof (cases "pm_get h m k")
    case None
    then have "pm_set h m k v = Some (h, ?m, None)"
      by (auto simp: pm_set_def pm_get_def split: option.splits if_splits)
    then show ?thesis using that [of h ?m] None inv by (simp add: overwritten_def)
  next
    case (Some r)
    then obtain n q where n: "map_of (pm_queues m) k = Some q" "pq_peek q = Some n" "pqn_elem n = r"
      "\<not> pqn_is_removed h n"
      by (auto simp: pm_get_def split: option.splits if_splits)
    have "n \<in># pm_bag m k"
      using n(1,2) by (auto simp: pm_bag_def pm_queue_def pq_peek_def queue_peek_def pq_values_def
          split: if_splits)
    then have actr: "cell_actors (cells h r)" using assms(1) n(3) by (auto simp: pm_inv_def)
    have live: "removed_at (cells h r) = None" using n(3,4) by (simp add: pqn_is_removed_def)
    let ?h = "set_cell r ((cells h r)\<lparr>removed_at := later_removal (cells h r) ?t\<rparr>) h"
    have rem: "later_removal (cells h r) ?t = (if created_at (cells h r) < ?t then Some ?t else None)"
      using live by (auto simp: later_removal_def)
    have set: "pm_set h m k v = Some (?h, pm_set_internal ?h m k v,
        if created_at (cells h r) < ?t then Some r else None)"
      using n actr act live rem
      by (simp add: pm_set_def heap_remove_elem_def elem_remove_eq)
    have created: "\<And>x. created_at (cells ?h x) = created_at (cells h x)" by simp
    have "pq_node_less ?h = pq_node_less h"
      using created by (simp add: pq_node_less_def pqn_created_def fun_eq_iff)
    then have same: "pm_set_internal ?h m k v = ?m"
      by (simp add: pm_set_internal_def Let_def)
    have "pm_inv ?h ?m"
      by (rule pm_inv_heap_cong [OF inv created]) (use actr act cell_actors_removed in auto)
    moreover have "overwritten h m k v x \<longleftrightarrow> x = r \<and> created_at (cells h r) < ?t" for x
      using Some by (auto simp: overwritten_def)
    ultimately show ?thesis
      using that [of ?h ?m] set same Some live rem by (auto simp: cell.surjective)
  qed
qed

text \<open>What \<open>Get\<close> shows after a write: the new element if it is the latest of its key.\<close>

lemma latest_exists:
  assumes "pm_inv h m" "pm_bag m k \<noteq> {#}"
  obtains n where "latest h (pm_bag m k) n"
  using pm_peek(2) [OF assms] that by blast

lemma pm_get_set:
  assumes "pm_inv h m" "pm_fresh h m v" "removed_at (cells h v) = None"
    "pm_set h m k v = Some (h', m', removed)"
  shows "pm_get h' m' k' =
    (if k' = k \<and> (\<forall>n. n \<in># pm_bag m k \<longrightarrow> pqn_created h n < created_at (cells h v))
     then Some v else pm_get h m k')"
proof -
  let ?n = "\<lparr>pqn_id = pm_next m, pqn_key = k, pqn_elem = v\<rparr>"
  obtain cs: "\<And>r. cells h' r = (if overwritten h m k v r
       then (cells h r)\<lparr>removed_at := Some (created_at (cells h v))\<rparr> else cells h r)"
    and inv: "pm_inv h' m'" and m': "m' = pm_set_internal h m k v"
    by (rule pm_set_correct [OF assms(1,2), of k]) (use assms(4) in auto)
  have bag: "pm_bag m' x = (if x = k then add_mset ?n (pm_bag m k) else pm_bag m x)" for x
    unfolding m' by (rule pm_set_internal_correct(2) [OF assms(1,2)])
  have created: "pqn_created h' n = pqn_created h n" for n by (simp add: pqn_created_def cs)
  have v: "\<not> overwritten h m k v v" by (simp add: overwritten_def)
  have cn: "pqn_created h ?n = created_at (cells h v)" by (simp add: pqn_created_def)
  have ne: "pqn_created h n \<noteq> created_at (cells h v)" if "n \<in># pm_bag m x" for n x
  proof
    assume "pqn_created h n = created_at (cells h v)"
    moreover have "map_of (pm_by_created m) (ticket_key (pqn_created h n)) = Some n"
      using assms(1) that by (auto simp: pm_inv_def)
    ultimately show False using assms(2) by (simp add: pm_fresh_def)
  qed
  have dead_same: "pqn_is_removed h' n = pqn_is_removed h n"
    if "latest h (pm_bag m x) n" "x \<noteq> k \<or> created_at (cells h v) < pqn_created h n" for n x
  proof -
    have "\<not> overwritten h m k v (pqn_elem n)"
    proof
      assume o: "overwritten h m k v (pqn_elem n)"
      then have lt: "pqn_created h n < created_at (cells h v)" and g: "pm_get h m k = Some (pqn_elem n)"
        by (auto simp: overwritten_def pqn_created_def)
      then obtain n' where n': "latest h (pm_bag m k) n'" "pqn_elem n' = pqn_elem n"
        using latest_exists [OF assms(1), of k] pm_get_none [of m k h] pm_get_latest [OF assms(1), of k]
        by (metis option.distinct(1) option.inject)
      then have "n' = n"
        using keys_unique [OF assms(1), of n' k n x] that(1) by (auto simp: latest_def pqn_created_def)
      then have "x = k"
        using n'(1) that(1) pm_inv_node [OF assms(1), of n] by (auto simp: latest_def)
      then show False using that(2) lt by auto
    qed
    then show ?thesis by (simp add: pqn_is_removed_def cs)
  qed
  show ?thesis
  proof (cases "pm_bag m' k' = {#}")
    case True
    then have "k' \<noteq> k" "pm_bag m k' = {#}" using bag [of k'] by (auto split: if_splits)
    then show ?thesis using True by (simp add: pm_get_none)
  next
    case False
    then obtain top where top: "latest h' (pm_bag m' k') top" by (rule latest_exists [OF inv])
    note get' = pm_get_latest [OF inv top]
    show ?thesis
    proof (cases "k' = k \<and> (\<forall>n. n \<in># pm_bag m k \<longrightarrow> pqn_created h n < created_at (cells h v))")
      case True
      then have "latest h' (pm_bag m' k') ?n"
        by (auto simp: latest_def bag created cn intro: less_imp_le)
      then have "top = ?n" using latest_unique [OF inv top] by simp
      then show ?thesis using get' True v assms(3) by (simp add: pqn_is_removed_def cs)
    next
      case no: False
      have "latest h (pm_bag m k') top \<and> (k' \<noteq> k \<or> created_at (cells h v) < pqn_created h top)"
      proof (cases "k' = k")
        case True
        with no obtain x where x: "x \<in># pm_bag m k" "created_at (cells h v) < pqn_created h x"
          using ne by (metis linorder_less_linear)
        then have "pqn_created h x \<le> pqn_created h top"
          using top True by (auto simp: latest_def bag created)
        moreover from this x(2) have "top \<noteq> ?n" using cn by (metis not_le)
        ultimately show ?thesis using top True x(2) by (auto simp: latest_def bag created cn)
      next
        case False
        then show ?thesis using top by (auto simp: latest_def bag created)
      qed
      then show ?thesis
        using get' no pm_get_latest [OF assms(1), of k' top] dead_same [of k' top] by auto
    qed
  qed
qed

text \<open>One write, as the next one sees it: an element that is not in the map yet is untouched.\<close>

lemma pm_set_step:
  assumes "pm_inv h m" "pm_fresh h m v" "removed_at (cells h v) = None"
  obtains h' m' rm where "pm_set h m k v = Some (h', m', rm)" "pm_inv h' m'"
    "\<And>r. created_at (cells h' r) = created_at (cells h r)"
    "\<And>k' c. (\<exists>n. n \<in># pm_bag m' k' \<and> pqn_created h' n = c) \<longleftrightarrow>
       (\<exists>n. n \<in># pm_bag m k' \<and> pqn_created h n = c) \<or> k' = k \<and> c = created_at (cells h v)"
    "\<And>w. pm_fresh h m w \<Longrightarrow> cells h' w = cells h w"
    "\<And>w. pm_fresh h m w \<Longrightarrow> ticket_key (created_at (cells h w)) \<noteq> ticket_key (created_at (cells h v)) \<Longrightarrow>
       pm_fresh h' m' w"
    "\<And>k'. pm_get h' m' k' =
       (if k' = k \<and> (\<forall>n. n \<in># pm_bag m k \<longrightarrow> pqn_created h n < created_at (cells h v))
        then Some v else pm_get h m k')"
proof -
  obtain h' m' rm where set: "pm_set h m k v = Some (h', m', rm)"
    and cs: "\<And>r. cells h' r = (if overwritten h m k v r
       then (cells h r)\<lparr>removed_at := Some (created_at (cells h v))\<rparr> else cells h r)"
    and inv: "pm_inv h' m'" and m': "m' = pm_set_internal h m k v"
    by (rule pm_set_correct [OF assms(1,2), of k]) auto
  have created: "\<And>r. created_at (cells h' r) = created_at (cells h r)" by (simp add: cs)
  have same: "cells h' w = cells h w" if w: "pm_fresh h m w" for w
  proof -
    have "\<not> overwritten h m k v w"
    proof
      assume "overwritten h m k v w"
      then obtain n where n: "latest h (pm_bag m k) n" "pqn_elem n = w"
        using latest_exists [OF assms(1), of k] pm_get_none [of m k h] pm_get_latest [OF assms(1), of k]
        unfolding overwritten_def by (metis option.distinct(1) option.inject)
      then have "map_of (pm_by_created m) (ticket_key (pqn_created h n)) = Some n"
        using assms(1) by (auto simp: pm_inv_def latest_def)
      then show False using w n(2) by (simp add: pm_fresh_def pqn_created_def)
    qed
    then show ?thesis by (simp add: cs)
  qed
  have "(\<exists>n. n \<in># pm_bag m' k' \<and> pqn_created h' n = c) \<longleftrightarrow>
      (\<exists>n. n \<in># pm_bag m k' \<and> pqn_created h n = c) \<or> k' = k \<and> c = created_at (cells h v)" for k' c
    using pm_set_internal_correct(2) [OF assms(1,2), of k k'] created
    by (auto simp: m' pqn_created_def)
  moreover have "pm_fresh h' m' w" if "pm_fresh h m w"
    "ticket_key (created_at (cells h w)) \<noteq> ticket_key (created_at (cells h v))" for w
    using that same [OF that(1)] pm_set_internal_correct(3) [OF assms(1,2), of k]
    by (simp add: pm_fresh_def m')
  ultimately show ?thesis using that set inv created same pm_get_set [OF assms(1,2,3) set] by blast
qed

lemma pm_set_fresh:
  assumes "pm_inv h m" "pm_fresh h m v" "removed_at (cells h v) = None"
  obtains h' m' rm x where "pm_set h m k v = Some (h', m', rm)" "pm_inv h' m'"
    "\<And>r. cells h' r = (if overwritten h m k v r
       then (cells h r)\<lparr>removed_at := Some (created_at (cells h v))\<rparr> else cells h r)"
    "\<And>w. pm_fresh h m w \<Longrightarrow> cells h' w = cells h w"
    "\<And>w. pm_fresh h m w \<Longrightarrow> ticket_key (created_at (cells h w)) \<noteq> ticket_key (created_at (cells h v)) \<Longrightarrow>
       pm_fresh h' m' w"
    "pm_bag m' k = add_mset x (pm_bag m k)" "pqn_elem x = v"
    "pm_get h' m' k =
       (if \<forall>n. n \<in># pm_bag m k \<longrightarrow> pqn_created h n < created_at (cells h v) then Some v else pm_get h m k)"
proof -
  obtain h' m' rm where set: "pm_set h m k v = Some (h', m', rm)" "pm_inv h' m'"
    and keep: "\<And>w. pm_fresh h m w \<Longrightarrow> cells h' w = cells h w"
      "\<And>w. pm_fresh h m w \<Longrightarrow> ticket_key (created_at (cells h w)) \<noteq> ticket_key (created_at (cells h v)) \<Longrightarrow>
         pm_fresh h' m' w"
    and got: "pm_get h' m' k =
       (if k = k \<and> (\<forall>n. n \<in># pm_bag m k \<longrightarrow> pqn_created h n < created_at (cells h v)) then Some v else pm_get h m k)"
    by (rule pm_set_step [OF assms, of k]) blast
  have cs: "\<And>r. cells h' r = (if overwritten h m k v r
       then (cells h r)\<lparr>removed_at := Some (created_at (cells h v))\<rparr> else cells h r)"
    and m': "m' = pm_set_internal h m k v"
    by (rule pm_set_correct [OF assms(1,2), of k], use set in auto)+
  have "pm_bag m' k = add_mset \<lparr>pqn_id = pm_next m, pqn_key = k, pqn_elem = v\<rparr> (pm_bag m k)"
    unfolding m' using pm_set_internal_correct(2) [OF assms(1,2), of k k] by simp
  then show ?thesis using that [OF set cs keep] got by simp
qed

section \<open>Purging\<close>

lemma pm_purge_correct:
  assumes "pm_inv h m" "n \<in># pm_bag m k"
  obtains m' where "pm_purge h m (pqn_elem n) = Some m'" "pm_inv h m'"
    "\<And>k'. pm_bag m' k' = (if k' = k then pm_bag m k - {#n#} else pm_bag m k')"
proof -
  let ?lt = "pq_node_less h" and ?c = "ticket_key (pqn_created h n)"
  have key: "pqn_key n = k" using pm_inv_node [OF assms] by simp
  have heap: "is_heap ?lt (pm_queue m k')" "positions_ok (pm_queue m k')" for k'
    using assms(1) by (simp_all add: pm_inv_def)
  have by_n: "map_of (pm_by_created m) ?c = Some n"
    using assms key by (simp add: pm_inv_def)
  have "n \<in> set (pq_values (pm_queue m k))" using assms(2) by (simp add: pm_bag_def)
  then obtain q' where q': "pq_release ?lt (pm_queue m k) n = Some q'" "is_heap ?lt q'" "positions_ok q'"
    "pm_bag m k = add_mset n (mset (pq_values q'))"
    using pq_node_order.pq_release_correct [OF heap(1) [of k]] heap(2) [of k]
    by (metis mset_map pm_bag_def pq_values_def)
  have found: "map_of (pm_queues m) k = Some (pm_queue m k)"
    using assms(2) by (cases "map_of (pm_queues m) k") (simp_all add: pm_bag_def pm_queue_def pq_values_def)
  define m' where "m' = m\<lparr>pm_queues := AList.update k q' (pm_queues m),
    pm_by_created := AList.delete ?c (pm_by_created m)\<rparr>"
  have purge: "pm_purge h m (pqn_elem n) = Some m'"
    using by_n found q'(1) key by (simp add: pm_purge_def m'_def pqn_created_def)
  have q: "pm_queue m' k' = (if k' = k then q' else pm_queue m k')" for k'
    by (simp add: m'_def pm_queue_def update_conv')
  have bag: "pm_bag m' k' = (if k' = k then pm_bag m k - {#n#} else pm_bag m k')" for k'
    using q'(4) by (simp add: pm_bag_def q)
  have "count (pm_bag m k) n \<le> 1" using assms(1) by (simp add: pm_inv_def)
  moreover have "0 < count (pm_bag m k) n" using assms(2) by simp
  ultimately have once: "count (pm_bag m k) n = 1" by linarith
  have sub: "x \<in># pm_bag m' k' \<longleftrightarrow> x \<in># pm_bag m k' \<and> x \<noteq> n" for x k'
  proof (cases "x = n")
    case True
    have "n \<notin># pm_bag m k'" if "k' \<noteq> k" using that pm_inv_node [OF assms(1), of n k'] key by auto
    then show ?thesis using True once by (auto simp: bag not_in_iff)
  next
    case False
    then show ?thesis by (auto simp: bag in_diff_count)
  qed
  have old: "map_of (pm_by_created m) c = Some x \<longleftrightarrow>
      x \<in># pm_bag m (pqn_key x) \<and> c = ticket_key (pqn_created h x)" for c x
    using assms(1) by (simp add: pm_inv_def)
  have byc: "map_of (pm_by_created m') c = (if c = ?c then None else map_of (pm_by_created m) c)" for c
    by (simp add: m'_def delete_conv')
  have maps: "map_of (pm_by_created m') c = Some x \<longleftrightarrow>
      x \<in># pm_bag m' (pqn_key x) \<and> c = ticket_key (pqn_created h x)" for c x
  proof (cases "c = ?c")
    case True
    then show ?thesis using old [of c x] by_n unfolding byc sub by auto
  next
    case False
    then show ?thesis using old [of c x] unfolding byc sub by auto
  qed
  have "pm_inv h m'"
    unfolding pm_inv_def
  proof (intro conjI allI impI)
    show "distinct (map fst (pm_queues m'))"
      using assms(1) by (simp add: m'_def pm_inv_def distinct_update)
    show "is_heap ?lt (pm_queue m' k')" "positions_ok (pm_queue m' k')" for k'
      using heap q'(2,3) by (simp_all add: q)
    show "count (pm_bag m' k') x \<le> 1" for k' x
    proof -
      have "count (pm_bag m k') x \<le> 1" using assms(1) by (simp add: pm_inv_def)
      moreover have "count (pm_bag m' k') x \<le> count (pm_bag m k') x" by (simp add: bag)
      ultimately show ?thesis by simp
    qed
    show "pqn_key x = k'" "cell_actors (cells h (pqn_elem x))" "pqn_id x < pm_next m'"
      if "x \<in># pm_bag m' k'" for k' x
      using that pm_inv_node [OF assms(1), of x k'] unfolding sub by (simp_all add: m'_def)
  qed (fact maps)
  then show ?thesis using that purge bag by blast
qed

text \<open>Deleting and purging the latest element of a key: what is left shows the second latest, if that
  one is live.\<close>

lemma delete_and_purge_latest:
  assumes inv: "pm_inv h m" and bag: "pm_bag m k = add_mset n (add_mset x N)"
    and live: "removed_at (cells h (pqn_elem n)) = None"
    and order: "\<And>y. y \<in># N \<Longrightarrow> pqn_created h y < pqn_created h x" "pqn_created h x < pqn_created h n"
      "pqn_created h n < t" "actorID t \<noteq> None"
  obtains h' m' where "pm_delete_by_created_at h m (pqn_created h n) (Some t) = Some (h', Some (pqn_elem n))"
    "pm_get h' m k = None" "pm_purge h' m (pqn_elem n) = Some m'"
    "pm_get h' m' k = (if pqn_is_removed h x then None else Some (pqn_elem x))"
proof -
  let ?e = "pqn_elem n"
  define h' where "h' = set_cell ?e ((cells h ?e)\<lparr>removed_at := Some t\<rparr>) h"
  have n: "n \<in># pm_bag m k" by (simp add: bag)
  note node = pm_inv_node [OF inv n]
  have created: "created_at (cells h' r) = created_at (cells h r)" for r by (simp add: h'_def)
  then have pc: "pqn_created h' y = pqn_created h y" for y by (simp add: pqn_created_def)
  have "later_removal (cells h ?e) t = Some t" using live order(3) by (simp add: later_removal_def pqn_created_def not_le)
  then have "heap_remove_elem ?e (Some t) h = Some (h', True)"
    using node order(4) live by (simp add: heap_remove_elem_def elem_remove_eq h'_def)
  moreover have "map_of (pm_by_created m) (ticket_key (pqn_created h n)) = Some n"
    using inv n node by (simp add: pm_inv_def)
  ultimately have del: "pm_delete_by_created_at h m (pqn_created h n) (Some t) = Some (h', Some ?e)"
    by (simp add: pm_delete_by_created_at_def)
  have inv': "pm_inv h' m"
    by (rule pm_inv_heap_cong [OF inv created]) (use order(4) in \<open>auto simp: h'_def cell_actors_def\<close>)
  have "latest h' (pm_bag m k) n"
    using order(1,2) by (auto simp: latest_def bag pc intro: less_imp_le order.strict_trans)
  then have none: "pm_get h' m k = None"
    using pm_get_latest [OF inv'] by (simp add: pqn_is_removed_def h'_def)
  obtain m' where m': "pm_purge h' m ?e = Some m'" "pm_inv h' m'" "pm_bag m' k = add_mset x N"
    using pm_purge_correct [OF inv' n] bag by (metis add_mset_remove_trivial)
  have "latest h' (pm_bag m' k) x" using order(1) by (auto simp: latest_def m'(3) pc intro: less_imp_le)
  moreover have "pqn_elem x \<noteq> ?e" using order(2) by (auto simp: pqn_created_def)
  ultimately have "pm_get h' m' k = (if pqn_is_removed h x then None else Some (pqn_elem x))"
    using pm_get_latest [OF m'(2)] by (simp add: pqn_is_removed_def h'_def)
  then show ?thesis using that del none m'(1) by blast
qed

section \<open>Properties\<close>

text \<open>What a key shows is the element of the latest creation time written to it: \<open>Set\<close> of a
  new live element never panics, shows that element exactly if no element of the key was created
  later, leaves every other key alone and keeps the invariant.\<close>
theorem object_set_shows_latest:
  assumes "pm_inv h m" "pm_fresh h m v" "removed_at (cells h v) = None"
  shows "\<exists>h' m' removed. pm_set h m k v = Some (h', m', removed) \<and> pm_inv h' m' \<and>
    pm_get h' m' k' =
      (if k' = k \<and> (\<forall>n. n \<in># pm_bag m k \<longrightarrow> pqn_created h n < created_at (cells h v))
       then Some v else pm_get h m k')"
  by (rule pm_set_step [OF assms, of k]) blast

text \<open>C9: Concurrent writes converge: two new elements written in either order, to the same key or
  to different ones, leave every key with the same shown element.\<close>
theorem object_sets_converge:
  assumes "pm_inv h m" "pm_fresh h m v" "pm_fresh h m w" "removed_at (cells h v) = None"
    "removed_at (cells h w) = None"
    "ticket_key (created_at (cells h v)) \<noteq> ticket_key (created_at (cells h w))"
  shows "\<exists>h1 m1 r1 h2 m2 r2 h3 m3 r3 h4 m4 r4.
    pm_set h m k1 v = Some (h1, m1, r1) \<and> pm_set h1 m1 k2 w = Some (h2, m2, r2) \<and>
    pm_set h m k2 w = Some (h3, m3, r3) \<and> pm_set h3 m3 k1 v = Some (h4, m4, r4) \<and>
    pm_get h2 m2 k = pm_get h4 m4 k"
proof -
  let ?cv = "created_at (cells h v)" and ?cw = "created_at (cells h w)"
  let ?later = "\<lambda>k c. \<forall>n. n \<in># pm_bag m k \<longrightarrow> pqn_created h n < c"
  obtain h1 m1 r1 where s1: "pm_set h m k1 v = Some (h1, m1, r1)" "pm_inv h1 m1"
    and b1: "\<And>k' c. (\<exists>n. n \<in># pm_bag m1 k' \<and> pqn_created h1 n = c) \<longleftrightarrow>
       (\<exists>n. n \<in># pm_bag m k' \<and> pqn_created h n = c) \<or> k' = k1 \<and> c = ?cv"
    and same1: "\<And>x. pm_fresh h m x \<Longrightarrow> cells h1 x = cells h x"
    and fresh1: "\<And>x. pm_fresh h m x \<Longrightarrow> ticket_key (created_at (cells h x)) \<noteq> ticket_key ?cv \<Longrightarrow>
       pm_fresh h1 m1 x"
    and g1: "\<And>k'. pm_get h1 m1 k' = (if k' = k1 \<and> ?later k1 ?cv then Some v else pm_get h m k')"
    by (rule pm_set_step [OF assms(1,2,4), of k1], rule that) blast+
  have f1: "pm_fresh h1 m1 w" "cells h1 w = cells h w"
    using fresh1 [OF assms(3)] same1 [OF assms(3)] assms(6) by simp_all
  obtain h3 m3 r3 where s3: "pm_set h m k2 w = Some (h3, m3, r3)" "pm_inv h3 m3"
    and b3: "\<And>k' c. (\<exists>n. n \<in># pm_bag m3 k' \<and> pqn_created h3 n = c) \<longleftrightarrow>
       (\<exists>n. n \<in># pm_bag m k' \<and> pqn_created h n = c) \<or> k' = k2 \<and> c = ?cw"
    and same3: "\<And>x. pm_fresh h m x \<Longrightarrow> cells h3 x = cells h x"
    and fresh3: "\<And>x. pm_fresh h m x \<Longrightarrow> ticket_key (created_at (cells h x)) \<noteq> ticket_key ?cw \<Longrightarrow>
       pm_fresh h3 m3 x"
    and g3: "\<And>k'. pm_get h3 m3 k' = (if k' = k2 \<and> ?later k2 ?cw then Some w else pm_get h m k')"
    by (rule pm_set_step [OF assms(1,3,5), of k2], rule that) blast+
  have f3: "pm_fresh h3 m3 v" "cells h3 v = cells h v"
    using fresh3 [OF assms(2)] same3 [OF assms(2)] assms(6) by simp_all
  have live: "removed_at (cells h1 w) = None" "removed_at (cells h3 v) = None"
    using f1(2) f3(2) assms(4,5) by simp_all
  obtain h2 m2 r2 where s2: "pm_set h1 m1 k2 w = Some (h2, m2, r2)"
    and g2: "\<And>k'. pm_get h2 m2 k' = (if k' = k2 \<and>
        (\<forall>n. n \<in># pm_bag m1 k2 \<longrightarrow> pqn_created h1 n < created_at (cells h1 w)) then Some w else pm_get h1 m1 k')"
    by (rule pm_set_step [OF s1(2) f1(1) live(1), of k2], rule that) blast+
  obtain h4 m4 r4 where s4: "pm_set h3 m3 k1 v = Some (h4, m4, r4)"
    and g4: "\<And>k'. pm_get h4 m4 k' = (if k' = k1 \<and>
        (\<forall>n. n \<in># pm_bag m3 k1 \<longrightarrow> pqn_created h3 n < created_at (cells h3 v)) then Some v else pm_get h3 m3 k')"
    by (rule pm_set_step [OF s3(2) f3(1) live(2), of k1], rule that) blast+
  have l1: "(\<forall>n. n \<in># pm_bag m1 k2 \<longrightarrow> pqn_created h1 n < created_at (cells h1 w)) \<longleftrightarrow>
      ?later k2 ?cw \<and> (k1 = k2 \<longrightarrow> ?cv < ?cw)"
    using b1 [of k2] f1(2) by metis
  have l3: "(\<forall>n. n \<in># pm_bag m3 k1 \<longrightarrow> pqn_created h3 n < created_at (cells h3 v)) \<longleftrightarrow>
      ?later k1 ?cv \<and> (k1 = k2 \<longrightarrow> ?cw < ?cv)"
    using b3 [of k1] f3(2) by metis
  define later where "later = ?later"
  have mono: "later k c \<Longrightarrow> c < d \<Longrightarrow> later k d" for k c d
    unfolding later_def by (meson order.strict_trans)
  have e2: "pm_get h2 m2 k = (if k = k2 \<and> later k2 ?cw \<and> (k1 = k2 \<longrightarrow> ?cv < ?cw) then Some w
      else if k = k1 \<and> later k1 ?cv then Some v else pm_get h m k)"
    unfolding g2 l1 g1 later_def by (rule refl)
  have e4: "pm_get h4 m4 k = (if k = k1 \<and> later k1 ?cv \<and> (k1 = k2 \<longrightarrow> ?cw < ?cv) then Some v
      else if k = k2 \<and> later k2 ?cw then Some w else pm_get h m k)"
    unfolding g4 l3 g3 later_def by (rule refl)
  have "?cv \<noteq> ?cw" using assms(6) by metis
  then consider "?cv < ?cw" "\<not> ?cw < ?cv" "later k1 ?cv \<longrightarrow> later k1 ?cw"
    | "?cw < ?cv" "\<not> ?cv < ?cw" "later k1 ?cw \<longrightarrow> later k1 ?cv"
    using mono by (cases rule: linorder_cases [of ?cv ?cw]) fastforce+
  then have "pm_get h2 m2 k = pm_get h4 m4 k"
    unfolding e2 e4 by cases (cases "k1 = k2"; cases "k = k1"; simp)+
  then show ?thesis using s1(1) s2 s3(1) s4 by blast
qed

text \<open>C38: Purging is where replicas part.  Two new live elements are written to one key, \<open>v\<close> older and
  \<open>w\<close> newer, both later than what the key has, and the newer is then deleted and purged.  The replica
  that wrote \<open>v\<close> first and the one that wrote \<open>w\<close> first both show \<open>w\<close> before the deletion and nothing
  after it; but after the purge the first still shows nothing, because writing \<open>w\<close> had removed \<open>v\<close>,
  and the second shows \<open>v\<close> again, which was never removed there.\<close>
theorem object_purge_resurrects:
  assumes "pm_inv h m" "pm_fresh h m v" "pm_fresh h m w" "removed_at (cells h v) = None"
    "removed_at (cells h w) = None"
    "ticket_key (created_at (cells h v)) \<noteq> ticket_key (created_at (cells h w))"
    and order: "\<forall>n. n \<in># pm_bag m k \<longrightarrow> pqn_created h n < created_at (cells h v)"
      "created_at (cells h v) < created_at (cells h w)" "created_at (cells h w) < t" "actorID t \<noteq> None"
  shows "\<exists>h1 m1 r1 h2 m2 r2 h5 m5 h3 m3 r3 h4 m4 r4 h6 m6.
    pm_set h m k v = Some (h1, m1, r1) \<and> pm_set h1 m1 k w = Some (h2, m2, r2) \<and> pm_get h2 m2 k = Some w \<and>
    pm_delete_by_created_at h2 m2 (created_at (cells h w)) (Some t) = Some (h5, Some w) \<and> pm_get h5 m2 k = None \<and>
    pm_purge h5 m2 w = Some m5 \<and> pm_get h5 m5 k = None \<and>
    pm_set h m k w = Some (h3, m3, r3) \<and> pm_set h3 m3 k v = Some (h4, m4, r4) \<and> pm_get h4 m4 k = Some w \<and>
    pm_delete_by_created_at h4 m4 (created_at (cells h w)) (Some t) = Some (h6, Some w) \<and> pm_get h6 m4 k = None \<and>
    pm_purge h6 m4 w = Some m6 \<and> pm_get h6 m6 k = Some v"
proof -
  let ?cv = "created_at (cells h v)" and ?cw = "created_at (cells h w)"
  have before_w: "\<forall>n. n \<in># pm_bag m k \<longrightarrow> pqn_created h n < ?cw" using order(1,2) by fastforce
  obtain h1 m1 r1 x1 where s1: "pm_set h m k v = Some (h1, m1, r1)" "pm_inv h1 m1"
    and c1: "\<And>r. cells h1 r = (if overwritten h m k v r then (cells h r)\<lparr>removed_at := Some ?cv\<rparr> else cells h r)"
    and k1: "\<And>x. pm_fresh h m x \<Longrightarrow> cells h1 x = cells h x"
      "\<And>x. pm_fresh h m x \<Longrightarrow> ticket_key (created_at (cells h x)) \<noteq> ticket_key ?cv \<Longrightarrow> pm_fresh h1 m1 x"
    and b1: "pm_bag m1 k = add_mset x1 (pm_bag m k)" "pqn_elem x1 = v" and g1: "pm_get h1 m1 k = Some v"
    by (rule pm_set_fresh [OF assms(1,2,4), of k]) (rule that, use order(1) in auto)
  have w1: "pm_fresh h1 m1 w" "cells h1 w = cells h w" "cells h1 v = cells h v"
    using k1 assms(2,3,6) by simp_all
  have l1: "removed_at (cells h1 w) = None" using w1(2) assms(5) by simp
  obtain h2 m2 r2 x2 where s2: "pm_set h1 m1 k w = Some (h2, m2, r2)" "pm_inv h2 m2"
    and c2: "\<And>r. cells h2 r = (if overwritten h1 m1 k w r then (cells h1 r)\<lparr>removed_at := Some ?cw\<rparr> else cells h1 r)"
    and b2: "pm_bag m2 k = add_mset x2 (pm_bag m1 k)" "pqn_elem x2 = w"
    and g2: "pm_get h2 m2 k = (if \<forall>n. n \<in># pm_bag m1 k \<longrightarrow> pqn_created h1 n < ?cw then Some w else pm_get h1 m1 k)"
    by (rule pm_set_fresh [OF s1(2) w1(1) l1, of k]) (rule that, use w1(2) in auto)
  obtain h3 m3 r3 x3 where s3: "pm_set h m k w = Some (h3, m3, r3)" "pm_inv h3 m3"
    and c3: "\<And>r. cells h3 r = (if overwritten h m k w r then (cells h r)\<lparr>removed_at := Some ?cw\<rparr> else cells h r)"
    and k3: "\<And>x. pm_fresh h m x \<Longrightarrow> cells h3 x = cells h x"
      "\<And>x. pm_fresh h m x \<Longrightarrow> ticket_key (created_at (cells h x)) \<noteq> ticket_key ?cw \<Longrightarrow> pm_fresh h3 m3 x"
    and b3: "pm_bag m3 k = add_mset x3 (pm_bag m k)" "pqn_elem x3 = w" and g3: "pm_get h3 m3 k = Some w"
    by (rule pm_set_fresh [OF assms(1,3,5), of k]) (rule that, use before_w in auto)
  have v3: "pm_fresh h3 m3 v" "cells h3 v = cells h v" "cells h3 w = cells h w"
    using k3 assms(2,3,6) by simp_all
  have l3: "removed_at (cells h3 v) = None" using v3(2) assms(4) by simp
  obtain h4 m4 r4 x4 where s4: "pm_set h3 m3 k v = Some (h4, m4, r4)" "pm_inv h4 m4"
    and c4: "\<And>r. cells h4 r = (if overwritten h3 m3 k v r then (cells h3 r)\<lparr>removed_at := Some ?cv\<rparr> else cells h3 r)"
    and b4: "pm_bag m4 k = add_mset x4 (pm_bag m3 k)" "pqn_elem x4 = v"
    and g4: "pm_get h4 m4 k = (if \<forall>n. n \<in># pm_bag m3 k \<longrightarrow> pqn_created h3 n < ?cv then Some v else pm_get h3 m3 k)"
    by (rule pm_set_fresh [OF s3(2) v3(1) l3, of k]) (rule that, use v3(2) in auto)
  have same: "created_at (cells h1 r) = created_at (cells h r)" "created_at (cells h2 r) = created_at (cells h r)"
    "created_at (cells h3 r) = created_at (cells h r)" "created_at (cells h4 r) = created_at (cells h r)" for r
    by (simp_all add: c1 c2 c3 c4)
  then have pc: "pqn_created h1 n = pqn_created h n" "pqn_created h2 n = pqn_created h n"
    "pqn_created h3 n = pqn_created h n" "pqn_created h4 n = pqn_created h n" for n
    by (simp_all add: pqn_created_def)
  have xc: "pqn_created h x1 = ?cv" "pqn_created h x2 = ?cw" "pqn_created h x3 = ?cw" "pqn_created h x4 = ?cv"
    by (simp_all add: pqn_created_def b1 b2 b3 b4)
  have "overwritten h1 m1 k w v" "\<not> overwritten h1 m1 k w w" "\<not> overwritten h3 m3 k v r" for r
    using g1 g3 order(2) by (auto simp: overwritten_def same)
  then have cells: "removed_at (cells h2 v) = Some ?cw" "removed_at (cells h2 w) = None"
    "removed_at (cells h4 v) = None" "removed_at (cells h4 w) = None"
    using w1 v3 assms(4,5) by (simp_all add: c2 c4)
  have gets: "pm_get h2 m2 k = Some w" "pm_get h4 m4 k = Some w"
    using g2 g4 before_w order(2) by (auto simp: b1 b3 pc xc g3)
  obtain h5 m5 where 5: "pm_delete_by_created_at h2 m2 ?cw (Some t) = Some (h5, Some w)" "pm_get h5 m2 k = None"
    "pm_purge h5 m2 w = Some m5" "pm_get h5 m5 k = None"
    by (rule delete_and_purge_latest [OF s2(2) b2(1) [unfolded b1(1)], of t])
      (use order cells(1,2) in \<open>auto simp: pc xc b1(2) b2(2) pqn_is_removed_def\<close>)
  have bag4: "pm_bag m4 k = add_mset x3 (add_mset x4 (pm_bag m k))" by (simp add: b4(1) b3(1) add_mset_commute)
  obtain h6 m6 where 6: "pm_delete_by_created_at h4 m4 ?cw (Some t) = Some (h6, Some w)" "pm_get h6 m4 k = None"
    "pm_purge h6 m4 w = Some m6" "pm_get h6 m6 k = Some v"
    by (rule delete_and_purge_latest [OF s4(2) bag4, of t])
      (use order cells(3,4) in \<open>auto simp: pc xc b3(2) b4(2) pqn_is_removed_def\<close>)
  show ?thesis using s1(1) s2(1) gets 5 s3(1) s4(1) 6 by blast
qed

lemma sample_fresh:
  "r \<noteq> 0 \<Longrightarrow> pm_fresh sample_heap new_pq_map r"
  "r \<noteq> 0 \<Longrightarrow> removed_at (cells sample_heap r) = None"
  by (simp_all add: pm_fresh_def sample_heap_def new_cell_def cell_actors_def sample_times new_pq_map_def
      pm_bag_def pm_queue_def pq_values_def)

theorem object_set_shows_latest_witness:
  "\<exists>h' m' removed. pm_set sample_heap new_pq_map ''k'' 1 = Some (h', m', removed) \<and> pm_inv h' m' \<and>
     pm_get h' m' ''k'' = Some 1"
  using object_set_shows_latest [OF new_pm_inv sample_fresh(1) sample_fresh(2), of 1 "''k''" "''k''"]
  by (simp add: pm_bag_def pm_queue_def new_pq_map_def pq_values_def)

theorem object_purge_resurrects_witness:
  "\<exists>h1 m1 r1 h2 m2 r2 h5 m5 h3 m3 r3 h4 m4 r4 h6 m6.
    pm_set sample_heap new_pq_map ''k'' 1 = Some (h1, m1, r1) \<and> pm_set h1 m1 ''k'' 2 = Some (h2, m2, r2) \<and>
    pm_get h2 m2 ''k'' = Some 2 \<and>
    pm_delete_by_created_at h2 m2 (sample_ticket 2) (Some (sample_ticket 4)) = Some (h5, Some 2) \<and>
    pm_get h5 m2 ''k'' = None \<and> pm_purge h5 m2 2 = Some m5 \<and> pm_get h5 m5 ''k'' = None \<and>
    pm_set sample_heap new_pq_map ''k'' 2 = Some (h3, m3, r3) \<and> pm_set h3 m3 ''k'' 1 = Some (h4, m4, r4) \<and>
    pm_get h4 m4 ''k'' = Some 2 \<and>
    pm_delete_by_created_at h4 m4 (sample_ticket 2) (Some (sample_ticket 4)) = Some (h6, Some 2) \<and>
    pm_get h6 m4 ''k'' = None \<and> pm_purge h6 m4 2 = Some m6 \<and> pm_get h6 m6 ''k'' = Some 1"
proof -
  have c: "created_at (cells sample_heap 1) = sample_ticket 1" "created_at (cells sample_heap 2) = sample_ticket 2"
    by (simp_all add: sample_heap_def new_cell_def)
  have f: "pm_fresh sample_heap new_pq_map 1" "pm_fresh sample_heap new_pq_map 2"
    "removed_at (cells sample_heap 1) = None" "removed_at (cells sample_heap 2) = None"
    by (rule sample_fresh, simp)+
  show ?thesis
    by (rule object_purge_resurrects [OF new_pm_inv f, of "''k''" "sample_ticket 4", unfolded c])
      (simp_all add: sample_keys sample_times pm_bag_def pm_queue_def new_pq_map_def pq_values_def)
qed

theorem object_sets_converge_witness:
  "\<exists>h1 m1 r1 h2 m2 r2 h3 m3 r3 h4 m4 r4.
    pm_set sample_heap new_pq_map ''k'' 1 = Some (h1, m1, r1) \<and> pm_set h1 m1 ''k'' 2 = Some (h2, m2, r2) \<and>
    pm_set sample_heap new_pq_map ''k'' 2 = Some (h3, m3, r3) \<and> pm_set h3 m3 ''k'' 1 = Some (h4, m4, r4) \<and>
    pm_get h2 m2 ''k'' = pm_get h4 m4 ''k''"
  by (rule object_sets_converge [OF new_pm_inv])
    (simp_all add: sample_fresh, simp add: sample_heap_def new_cell_def sample_keys)

end
