(* ===== verification/Rga_Tree_Split.thy ===== *)
theory Rga_Tree_Split
  imports Cells Splay Llrb Rga_Order "HOL-Library.AList"
begin

text \<open>
  The block list of the text elements: \<open>src/pkg/document/json/rga_tree_split.go\<close>.  A node is a
  number and \<open>rs_nodes\<close> is its store; the doubly linked chain from \<open>initialHead\<close> (node 0) is the
  list \<open>rs_order\<close>, \<open>prev\<close> and \<open>next\<close> being the neighbours in it; \<open>insPrev\<close> and \<open>insNext\<close> are fields of
  the nodes.  \<open>treeByIndex\<close> is the splay tree of theory \<open>Splay\<close>, \<open>treeByID\<close> the red-black tree of
  theory \<open>Llrb\<close> over the order of node ids, \<open>removedNodeMap\<close> an association list.  The
  interface \<open>RGATreeSplitValue\<close> is the record \<open>value_ops\<close>, an argument of the operations; the two
  implementations are in theory \<open>Text_Elements\<close>.  \<open>None\<close> is a panic: the two that the code raises
  itself, a nil dereference, a slice out of range or a comparison of tickets without actor.
\<close>

section \<open>Node ids and positions\<close>

datatype node_id = Node_Id (id_created: ticket) (id_offset: int)

instantiation node_id :: linorder
begin

definition less_node_id :: "node_id \<Rightarrow> node_id \<Rightarrow> bool" where
  "a < b \<longleftrightarrow> id_created a < id_created b \<or> id_created a = id_created b \<and> id_offset a < id_offset b"

definition less_eq_node_id :: "node_id \<Rightarrow> node_id \<Rightarrow> bool" where
  "a \<le> b \<longleftrightarrow> a = b \<or> a < (b :: node_id)"

instance
proof
  fix x y z :: node_id
  show "x < y \<longleftrightarrow> x \<le> y \<and> \<not> y \<le> x" "x \<le> x" "x \<le> y \<Longrightarrow> y \<le> x \<Longrightarrow> x = y"
    by (auto simp: less_node_id_def less_eq_node_id_def)
  show "x \<le> y \<Longrightarrow> y \<le> z \<Longrightarrow> x \<le> z"
    by (auto simp: less_node_id_def less_eq_node_id_def)
  show "x \<le> y \<or> y \<le> x"
    by (cases x; cases y) (auto simp: less_node_id_def less_eq_node_id_def)
qed

end

definition node_id_compare :: "node_id \<Rightarrow> node_id \<Rightarrow> int option" where
  "node_id_compare a b = do {
     c \<leftarrow> ticket_compare (id_created a) (id_created b);
     if c \<noteq> 0 then Some c
     else if id_offset a > id_offset b then Some 1
     else if id_offset a < id_offset b then Some (-1)
     else Some 0 }"

definition node_id_equal :: "node_id \<Rightarrow> node_id \<Rightarrow> bool option" where
  "node_id_equal a b = do { c \<leftarrow> node_id_compare a b; Some (c = 0) }"

definition node_id_split :: "node_id \<Rightarrow> int \<Rightarrow> node_id" where
  "node_id_split i offset = Node_Id (id_created i) (id_offset i + offset)"

definition has_same_created_at :: "node_id \<Rightarrow> node_id \<Rightarrow> bool option" where
  "has_same_created_at a b = do { c \<leftarrow> ticket_compare (id_created a) (id_created b); Some (c = 0) }"

definition node_id_annotated :: "node_id \<Rightarrow> string" where
  "node_id_annotated i = annotated_string (id_created i) @ '':'' @ dec_int (id_offset i)"

definition node_id_key :: "node_id \<Rightarrow> string" where
  "node_id_key i = ticket_key (id_created i) @ '':'' @ dec_int (id_offset i)"

datatype node_pos = Node_Pos (pos_id: node_id) (pos_relative: int)

definition absolute_id :: "node_pos \<Rightarrow> node_id" where
  "absolute_id p = Node_Id (id_created (pos_id p)) (id_offset (pos_id p) + pos_relative p)"

definition node_pos_annotated :: "node_pos \<Rightarrow> string" where
  "node_pos_annotated p = node_id_annotated (pos_id p) @ '':'' @ dec_int (pos_relative p)"

definition node_pos_compare :: "node_pos \<Rightarrow> node_pos \<Rightarrow> int" where
  "node_pos_compare p q =
     (if pos_relative p > pos_relative q then 1 else if pos_relative p < pos_relative q then -1 else 0)"

record selection =
  sel_from :: node_pos
  sel_to :: node_pos
  sel_updated_at :: ticket

section \<open>Nodes\<close>

record 'v value_ops =
  val_split :: "int \<Rightarrow> 'v \<Rightarrow> ('v \<times> 'v) option"
  val_len :: "'v \<Rightarrow> int"
  val_copy :: "'v \<Rightarrow> 'v option"
  val_string :: "'v \<Rightarrow> string"
  val_annotated :: "'v \<Rightarrow> string"

record 'v rs_node =
  sn_id :: node_id
  sn_value :: 'v
  sn_removed :: "ticket option"
  sn_ins_prev :: "nat option"
  sn_ins_next :: "nat option"

definition new_split_node :: "node_id \<Rightarrow> 'v \<Rightarrow> 'v rs_node" where
  "new_split_node i v = \<lparr>sn_id = i, sn_value = v, sn_removed = None, sn_ins_prev = None, sn_ins_next = None\<rparr>"

definition content_len :: "'v value_ops \<Rightarrow> 'v rs_node \<Rightarrow> int" where
  "content_len ops n = val_len ops (sn_value n)"

definition split_node_len :: "'v value_ops \<Rightarrow> 'v rs_node \<Rightarrow> int" where
  "split_node_len ops n = (if sn_removed n \<noteq> None then 0 else content_len ops n)"

definition split_node_copy :: "'v value_ops \<Rightarrow> 'v rs_node \<Rightarrow> 'v rs_node option" where
  "split_node_copy ops n = do {
     v \<leftarrow> val_copy ops (sn_value n);
     Some ((new_split_node (sn_id n) v)\<lparr>sn_removed := sn_removed n\<rparr>) }"

text \<open>\<open>split\<close>: the shortened node and the new one.\<close>

definition split_node_split :: "'v value_ops \<Rightarrow> int \<Rightarrow> 'v rs_node \<Rightarrow> ('v rs_node \<times> 'v rs_node) option" where
  "split_node_split ops offset n = do {
     (a, b) \<leftarrow> val_split ops offset (sn_value n);
     Some (n\<lparr>sn_value := a\<rparr>, new_split_node (node_id_split (sn_id n) offset) b) }"

definition split_node_annotated :: "'v value_ops \<Rightarrow> 'v rs_node \<Rightarrow> string" where
  "split_node_annotated ops n = node_id_annotated (sn_id n) @ '' '' @ val_annotated ops (sn_value n)"

definition split_node_remove :: "ticket \<Rightarrow> ticket \<Rightarrow> 'v rs_node \<Rightarrow> ('v rs_node \<times> bool) option" where
  "split_node_remove removed latest n = do {
     b \<leftarrow> ticket_after (id_created (sn_id n)) latest;
     if b then Some (n, False)
     else case sn_removed n of
       None \<Rightarrow> Some (n\<lparr>sn_removed := Some removed\<rparr>, True)
     | Some u \<Rightarrow> do {
         b \<leftarrow> ticket_after removed u;
         Some (if b then (n\<lparr>sn_removed := Some removed\<rparr>, True) else (n, False)) } }"

section \<open>The list\<close>

record 'v split_list =
  rs_nodes :: "nat \<Rightarrow> 'v rs_node"
  rs_next_node :: nat
  rs_order :: "nat list"
  rs_index :: "nat splay_tree"
  rs_by_id :: "(node_id, nat) llrb"
  rs_removed :: "(string \<times> nat) list"

definition initial_head :: nat where
  "initial_head = 0"

definition rs_len :: "'v value_ops \<Rightarrow> 'v split_list \<Rightarrow> nat \<Rightarrow> int" where
  "rs_len ops s n = split_node_len ops (rs_nodes s n)"

definition set_node :: "nat \<Rightarrow> 'v rs_node \<Rightarrow> 'v split_list \<Rightarrow> 'v split_list" where
  "set_node n nd s = s\<lparr>rs_nodes := (rs_nodes s)(n := nd)\<rparr>"

definition new_rga_tree_split :: "'v value_ops \<Rightarrow> 'v rs_node \<Rightarrow> 'v split_list option" where
  "new_rga_tree_split ops head = do {
     t \<leftarrow> tree_put new_tree (sn_id head) initial_head;
     Some \<lparr>rs_nodes = (\<lambda>_. head), rs_next_node = 1, rs_order = [initial_head],
           rs_index = new_splay_node (\<lambda>_. split_node_len ops head) initial_head,
           rs_by_id = t, rs_removed = []\<rparr> }"

definition ins_prev_id :: "'v split_list \<Rightarrow> nat \<Rightarrow> node_id option" where
  "ins_prev_id s n = map_option (\<lambda>p. sn_id (rs_nodes s p)) (sn_ins_prev (rs_nodes s n))"

definition set_ins_prev :: "nat \<Rightarrow> nat \<Rightarrow> 'v split_list \<Rightarrow> 'v split_list" where
  "set_ins_prev n p s =
     (let s1 = set_node n ((rs_nodes s n)\<lparr>sn_ins_prev := Some p\<rparr>) s
      in set_node p ((rs_nodes s1 p)\<lparr>sn_ins_next := Some n\<rparr>) s1)"

definition rs_insert_after :: "'v value_ops \<Rightarrow> nat \<Rightarrow> 'v rs_node \<Rightarrow> 'v split_list \<Rightarrow>
    ('v split_list \<times> nat) option" where
  "rs_insert_after ops p nd s =
     (let n = rs_next_node s;
          s1 = s\<lparr>rs_nodes := (rs_nodes s)(n := nd), rs_next_node := Suc n,
                 rs_order := link_after p n (rs_order s)\<rparr>
      in do {
        t \<leftarrow> tree_put (rs_by_id s1) (sn_id nd) n;
        Some (s1\<lparr>rs_by_id := t, rs_index := splay_insert_after (rs_len ops s1) p n (rs_index s1)\<rparr>, n) })"

subsection \<open>Searches\<close>

definition find_node_pos :: "'v value_ops \<Rightarrow> 'v split_list \<Rightarrow> int \<Rightarrow> node_pos option" where
  "find_node_pos ops s index = do {
     (found, offset) \<leftarrow> splay_find (rs_len ops s) (rs_index s) index;
     n \<leftarrow> found;
     Some (Node_Pos (sn_id (rs_nodes s n)) offset) }"

definition create_range :: "'v value_ops \<Rightarrow> 'v split_list \<Rightarrow> int \<Rightarrow> int \<Rightarrow> (node_pos \<times> node_pos) option" where
  "create_range ops s from to = do {
     p \<leftarrow> find_node_pos ops s from;
     if from = to then Some (p, p)
     else do { q \<leftarrow> find_node_pos ops s to; Some (p, q) } }"

text \<open>\<open>findFloorNode\<close>: the inner \<open>None\<close> is a nil node.\<close>

definition find_floor_node :: "'v split_list \<Rightarrow> node_id \<Rightarrow> nat option option" where
  "find_floor_node s i =
     (case tree_floor (rs_by_id s) i of
        No_Floor \<Rightarrow> Some None
      | Past_Root \<Rightarrow> None
      | Floor found n \<Rightarrow> do {
          e \<leftarrow> node_id_equal found i;
          c \<leftarrow> has_same_created_at found i;
          Some (if \<not> e \<and> \<not> c then None else Some n) })"

definition find_node :: "'v split_list \<Rightarrow> node_id option \<Rightarrow> nat option option" where
  "find_node s i = (case i of None \<Rightarrow> Some None | Some i \<Rightarrow> find_floor_node s i)"

definition find_floor_node_prefer_to_left :: "'v split_list \<Rightarrow> node_id \<Rightarrow> nat option" where
  "find_floor_node_prefer_to_left s i = do {
     found \<leftarrow> find_floor_node s i;
     n \<leftarrow> found;
     if id_offset i > 0 \<and> id_offset (sn_id (rs_nodes s n)) = id_offset i
     then case sn_ins_prev (rs_nodes s n) of None \<Rightarrow> Some n | Some p \<Rightarrow> Some p
     else Some n }"

subsection \<open>Splitting\<close>

definition split_node :: "'v value_ops \<Rightarrow> nat \<Rightarrow> int \<Rightarrow> 'v split_list \<Rightarrow> ('v split_list \<times> nat option) option" where
  "split_node ops n offset s =
     (let nd = rs_nodes s n in
      if offset > content_len ops nd then None
      else if offset = 0 then Some (s, Some n)
      else if offset = content_len ops nd then Some (s, succ_of (rs_order s) n)
      else do {
        (nd', new) \<leftarrow> split_node_split ops offset nd;
        (s, m) \<leftarrow> rs_insert_after ops n new (set_node n nd' s);
        let s = (case sn_ins_next (rs_nodes s n) of None \<Rightarrow> s | Some x \<Rightarrow> set_ins_prev x m s);
        Some (set_ins_prev m n s, Some m) })"

text \<open>The loop of \<open>findNodeWithSplit\<close>, over the nodes after the current one.\<close>

fun skip_after :: "'v split_list \<Rightarrow> ticket \<Rightarrow> nat \<Rightarrow> nat list \<Rightarrow> nat option" where
  "skip_after s t n [] = Some n"
| "skip_after s t n (m # ms) = do {
     b \<leftarrow> ticket_after (id_created (sn_id (rs_nodes s m))) t;
     if b then skip_after s t m ms else Some n }"

definition find_node_with_split :: "'v value_ops \<Rightarrow> node_pos \<Rightarrow> ticket \<Rightarrow> 'v split_list \<Rightarrow>
    ('v split_list \<times> nat \<times> nat option) option" where
  "find_node_with_split ops p t s = do {
     let i = absolute_id p;
     n \<leftarrow> find_floor_node_prefer_to_left s i;
     let relative = id_offset i - id_offset (sn_id (rs_nodes s n));
     (s, _) \<leftarrow> split_node ops n relative s;
     n \<leftarrow> skip_after s t n (following (rs_order s) n);
     Some (s, n, succ_of (rs_order s) n) }"

subsection \<open>Editing\<close>

definition find_between :: "'v split_list \<Rightarrow> nat option \<Rightarrow> nat option \<Rightarrow> nat list" where
  "find_between s from to =
     (case from of
        None \<Rightarrow> []
      | Some f \<Rightarrow> takeWhile (\<lambda>n. Some n \<noteq> to) (suffix_from f (rs_order s)))"

definition actor_hex :: "ticket \<Rightarrow> string" where
  "actor_hex t = actor_id_string (actorID t)"

definition latest_created_at :: "(string \<times> ticket) list option \<Rightarrow> string \<Rightarrow> ticket" where
  "latest_created_at latest hex =
     (case latest of
        None \<Rightarrow> max_ticket
      | Some m \<Rightarrow> (case map_of m hex of Some c \<Rightarrow> c | None \<Rightarrow> initial_ticket))"

definition later_created :: "(string \<times> ticket) list \<Rightarrow> ticket \<Rightarrow> (string \<times> ticket) list option" where
  "later_created m created =
     (case map_of m (actor_hex created) of
        None \<Rightarrow> Some (AList.update (actor_hex created) created m)
      | Some c \<Rightarrow> do {
          b \<leftarrow> ticket_after created c;
          Some (if b then AList.update (actor_hex created) created m else m) })"

fun delete_nodes :: "'v value_ops \<Rightarrow> (string \<times> ticket) list option \<Rightarrow> ticket \<Rightarrow> nat list \<Rightarrow> 'v split_list \<Rightarrow>
    (string \<times> ticket) list \<Rightarrow> (string \<times> nat) list \<Rightarrow>
    ('v split_list \<times> (string \<times> ticket) list \<times> (string \<times> nat) list) option" where
  "delete_nodes ops latest t [] s created removed = Some (s, created, removed)"
| "delete_nodes ops latest t (n # ns) s created removed = do {
     let c = id_created (sn_id (rs_nodes s n));
     (nd, changed) \<leftarrow> split_node_remove t (latest_created_at latest (actor_hex c)) (rs_nodes s n);
     if changed then do {
       let s1 = set_node n nd s;
       let s2 = s1\<lparr>rs_index := splay (rs_len ops s1) n (rs_index s1)\<rparr>;
       created \<leftarrow> later_created created c;
       delete_nodes ops latest t ns s2 created (AList.update (node_id_key (sn_id nd)) n removed) }
     else delete_nodes ops latest t ns s created removed }"

definition rs_edit :: "'v value_ops \<Rightarrow> node_pos \<Rightarrow> node_pos \<Rightarrow> (string \<times> ticket) list option \<Rightarrow> 'v \<Rightarrow>
    ticket \<Rightarrow> 'v split_list \<Rightarrow> ('v split_list \<times> node_pos \<times> (string \<times> ticket) list) option" where
  "rs_edit ops from to latest content t s = do {
     (s, to_left, to_right) \<leftarrow> find_node_with_split ops to t s;
     (s, from_left, from_right) \<leftarrow> find_node_with_split ops from t s;
     let nodes_to_delete = find_between s from_right to_right;
     (s, created, removed) \<leftarrow> delete_nodes ops latest t nodes_to_delete s [] [];
     let caret = Node_Pos (sn_id (rs_nodes s (case to_right of None \<Rightarrow> to_left | Some n \<Rightarrow> n))) 0;
     (s, caret) \<leftarrow>
       (if val_len ops content > 0
        then do {
          (s, n) \<leftarrow> rs_insert_after ops from_left (new_split_node (Node_Id t 0) content) s;
          Some (s, Node_Pos (sn_id (rs_nodes s n)) (content_len ops (rs_nodes s n))) }
        else Some (s, caret));
     let s = s\<lparr>rs_removed := fold (\<lambda>(k, n) m. AList.update k n m) removed (rs_removed s)\<rparr>;
     Some (s, caret, created) }"

subsection \<open>Output\<close>

definition rs_chain :: "'v split_list \<Rightarrow> nat list" where
  "rs_chain s = following (rs_order s) initial_head"

definition rs_marshal :: "'v value_ops \<Rightarrow> 'v split_list \<Rightarrow> string" where
  "rs_marshal ops s =
     concat (map (\<lambda>n. val_string ops (sn_value (rs_nodes s n)))
       (filter (\<lambda>n. sn_removed (rs_nodes s n) = None) (rs_chain s)))"

definition rs_annotated_string :: "'v value_ops \<Rightarrow> 'v split_list \<Rightarrow> string" where
  "rs_annotated_string ops s =
     concat (map (\<lambda>n. if sn_removed (rs_nodes s n) \<noteq> None
        then ''{'' @ split_node_annotated ops (rs_nodes s n) @ ''}''
        else ''['' @ split_node_annotated ops (rs_nodes s n) @ '']'') (rs_order s))"

subsection \<open>Cleaning up\<close>

definition removed_nodes_len :: "'v split_list \<Rightarrow> nat" where
  "removed_nodes_len s = length (rs_removed s)"

definition ins_unlink :: "nat \<Rightarrow> 'v split_list \<Rightarrow> 'v split_list" where
  "ins_unlink n s =
     (let nd = rs_nodes s n;
          s = (case sn_ins_prev nd of None \<Rightarrow> s
               | Some p \<Rightarrow> set_node p ((rs_nodes s p)\<lparr>sn_ins_next := sn_ins_next nd\<rparr>) s);
          s = (case sn_ins_next nd of None \<Rightarrow> s
               | Some x \<Rightarrow> set_node x ((rs_nodes s x)\<lparr>sn_ins_prev := sn_ins_prev nd\<rparr>) s)
      in set_node n ((rs_nodes s n)\<lparr>sn_ins_prev := None, sn_ins_next := None\<rparr>) s)"

definition split_purge :: "nat \<Rightarrow> 'v split_list \<Rightarrow> 'v split_list option" where
  "split_purge n s = do {
     _ \<leftarrow> pred_of (rs_order s) n;
     Some (ins_unlink n (s\<lparr>rs_order := remove1 n (rs_order s)\<rparr>)) }"

fun cleanup_entries :: "'v value_ops \<Rightarrow> ticket \<Rightarrow> (string \<times> nat) list \<Rightarrow> 'v split_list \<Rightarrow> int \<Rightarrow>
    ('v split_list \<times> int) option" where
  "cleanup_entries ops t [] s cnt = Some (s, cnt)"
| "cleanup_entries ops t ((_, n) # es) s cnt = do {
     due \<leftarrow> (case sn_removed (rs_nodes s n) of
               None \<Rightarrow> Some False
             | Some u \<Rightarrow> do { c \<leftarrow> ticket_compare t u; Some (c \<ge> 0) });
     if due then do {
       let s = s\<lparr>rs_index := splay_delete (rs_len ops s) n (rs_index s)\<rparr>;
       s \<leftarrow> split_purge n s;
       by_id \<leftarrow> tree_remove (rs_by_id s) (sn_id (rs_nodes s n));
       let s = s\<lparr>rs_by_id := by_id,
                 rs_removed := AList.delete (node_id_key (sn_id (rs_nodes s n))) (rs_removed s)\<rparr>;
       cleanup_entries ops t es s (cnt + 1) }
     else cleanup_entries ops t es s cnt }"

definition cleanup_removed_nodes :: "'v value_ops \<Rightarrow> ticket \<Rightarrow> 'v split_list \<Rightarrow> ('v split_list \<times> int) option" where
  "cleanup_removed_nodes ops t s = cleanup_entries ops t (rs_removed s) s 0"

end
