(* ===== verification/Rga_Split_Facts.thy ===== *)
theory Rga_Split_Facts
  imports Rga_Tree_Split
begin

text \<open>
  The invariant of the block list, that the operations keep it, and what an edit does to the text.
  The text of a value is its list of units; the locale \<open>split_value\<close> is what the list relies on:
  lengths count units and a split cuts them, faithfully where the cut is allowed.
\<close>

section \<open>Invariant\<close>

abbreviation nid :: "'v split_list \<Rightarrow> nat \<Rightarrow> node_id" where
  "nid s n \<equiv> sn_id (rs_nodes s n)"

abbreviation ncreated :: "'v split_list \<Rightarrow> nat \<Rightarrow> ticket" where
  "ncreated s n \<equiv> id_created (nid s n)"

abbreviation noffset :: "'v split_list \<Rightarrow> nat \<Rightarrow> int" where
  "noffset s n \<equiv> id_offset (nid s n)"

abbreviation clen :: "'v value_ops \<Rightarrow> 'v split_list \<Rightarrow> nat \<Rightarrow> int" where
  "clen ops s n \<equiv> content_len ops (rs_nodes s n)"

text \<open>The neighbour in insertion order: the block of the same creation with the next smaller id.\<close>

definition block_before :: "(nat \<Rightarrow> node_id) \<Rightarrow> nat set \<Rightarrow> nat \<Rightarrow> nat \<Rightarrow> bool" where
  "block_before f N p n \<longleftrightarrow> p \<in> N \<and> n \<in> N \<and> id_created (f p) = id_created (f n) \<and> f p < f n \<and>
     (\<forall>m\<in>N. \<not> (f p < f m \<and> f m < f n))"

definition ins_ok :: "'v split_list \<Rightarrow> bool" where
  "ins_ok s \<longleftrightarrow> (\<forall>n\<in>set (rs_order s). \<forall>p.
     (sn_ins_prev (rs_nodes s n) = Some p \<longleftrightarrow> block_before (nid s) (set (rs_order s)) p n) \<and>
     (sn_ins_next (rs_nodes s n) = Some p \<longleftrightarrow> block_before (nid s) (set (rs_order s)) n p))"

definition order_ok :: "'v split_list \<Rightarrow> bool" where
  "order_ok s \<longleftrightarrow> distinct (rs_order s) \<and> rs_order s \<noteq> [] \<and> hd (rs_order s) = initial_head \<and>
     (\<forall>n\<in>set (rs_order s). n < rs_next_node s)"

definition trees_ok :: "'v value_ops \<Rightarrow> 'v split_list \<Rightarrow> bool" where
  "trees_ok ops s \<longleftrightarrow> splay_inv (rs_len ops s) (rs_index s) \<and> splay_inorder (rs_index s) = rs_order s \<and>
     llrb_inv (rs_by_id s) \<and>
     (\<forall>i n. llrb_map (rs_by_id s) i = Some n \<longleftrightarrow> n \<in> set (rs_order s) \<and> nid s n = i)"

definition node_ok :: "('v \<Rightarrow> bool) \<Rightarrow> 'v rs_node \<Rightarrow> bool" where
  "node_ok ok n \<longleftrightarrow> ok (sn_value n) \<and> actorID (id_created (sn_id n)) \<noteq> None \<and>
     wf_ticket (id_created (sn_id n)) \<and> 0 \<le> id_offset (sn_id n) \<and>
     (\<forall>t. sn_removed n = Some t \<longrightarrow> actorID t \<noteq> None)"

definition blocks_ok :: "('v \<Rightarrow> bool) \<Rightarrow> 'v value_ops \<Rightarrow> 'v split_list \<Rightarrow> bool" where
  "blocks_ok ok ops s \<longleftrightarrow> (\<forall>n\<in>set (rs_order s). node_ok ok (rs_nodes s n)) \<and>
     nid s initial_head = Node_Id initial_ticket 0 \<and> clen ops s initial_head = 0 \<and>
     sn_removed (rs_nodes s initial_head) = None \<and>
     (\<forall>n\<in>set (rs_order s). n \<noteq> initial_head \<longrightarrow> 0 < clen ops s n) \<and>
     (\<forall>n\<in>set (rs_order s). \<forall>m\<in>set (rs_order s). ncreated s n = ncreated s m \<longrightarrow>
        noffset s n < noffset s m \<longrightarrow> noffset s n + clen ops s n \<le> noffset s m)"

definition removed_ok :: "'v split_list \<Rightarrow> bool" where
  "removed_ok s \<longleftrightarrow> distinct (map fst (rs_removed s)) \<and>
     (\<forall>(k, n)\<in>set (rs_removed s). n \<in> set (rs_order s) \<and> sn_removed (rs_nodes s n) \<noteq> None \<and>
        k = node_id_key (nid s n))"

definition rs_inv :: "('v \<Rightarrow> bool) \<Rightarrow> 'v value_ops \<Rightarrow> 'v split_list \<Rightarrow> bool" where
  "rs_inv ok ops s \<longleftrightarrow> order_ok s \<and> trees_ok ops s \<and> blocks_ok ok ops s \<and> ins_ok s \<and> removed_ok s"

lemma rs_invD:
  assumes "rs_inv ok ops s"
  shows "order_ok s" "trees_ok ops s" "blocks_ok ok ops s" "ins_ok s" "removed_ok s"
  using assms by (simp_all add: rs_inv_def)

lemma order_okD:
  assumes "order_ok s"
  shows "distinct (rs_order s)" "rs_order s \<noteq> []" "hd (rs_order s) = initial_head"
    "initial_head \<in> set (rs_order s)" "rs_next_node s \<notin> set (rs_order s)"
    "n \<in> set (rs_order s) \<Longrightarrow> n < rs_next_node s"
  using assms by (auto simp: order_ok_def) (metis hd_in_set)

lemma head_split:
  assumes "order_ok s" "rs_order s = as @ x # bs"
  shows "x = initial_head \<longleftrightarrow> as = []" "x \<notin> set as" "x \<notin> set bs" "set as \<inter> set bs = {}"
    "distinct as" "distinct bs"
  using order_okD(1,3) [OF assms(1)] assms(2) by (cases as; auto)+

lemma trees_okD:
  assumes "trees_ok ops s"
  shows "splay_inv (rs_len ops s) (rs_index s)" "splay_inorder (rs_index s) = rs_order s"
    "llrb_inv (rs_by_id s)" "llrb_map (rs_by_id s) i = Some n \<longleftrightarrow> n \<in> set (rs_order s) \<and> nid s n = i"
  using assms by (simp_all add: trees_ok_def)

lemma nid_inj:
  "trees_ok ops s \<Longrightarrow> n \<in> set (rs_order s) \<Longrightarrow> m \<in> set (rs_order s) \<Longrightarrow> nid s n = nid s m \<Longrightarrow> n = m"
  unfolding trees_ok_def by (metis option.inject)

lemma blocks_okD:
  assumes "blocks_ok ok ops s" "n \<in> set (rs_order s)"
  shows "ok (sn_value (rs_nodes s n))" "actorID (ncreated s n) \<noteq> None" "wf_ticket (ncreated s n)"
    "0 \<le> noffset s n" "sn_removed (rs_nodes s n) = Some t \<Longrightarrow> actorID t \<noteq> None"
    "n \<noteq> initial_head \<Longrightarrow> 0 < clen ops s n" "0 \<le> clen ops s n"
    "m \<in> set (rs_order s) \<Longrightarrow> ncreated s n = ncreated s m \<Longrightarrow> noffset s n < noffset s m \<Longrightarrow>
       noffset s n + clen ops s n \<le> noffset s m"
  using assms unfolding blocks_ok_def node_ok_def by (auto 0 3 simp: less_le)

lemma blocks_ok_head:
  assumes "blocks_ok ok ops s"
  shows "nid s initial_head = Node_Id initial_ticket 0" "clen ops s initial_head = 0"
    "sn_removed (rs_nodes s initial_head) = None"
  using assms by (simp_all add: blocks_ok_def)

lemma node_id_eqI: "id_created a = id_created b \<Longrightarrow> id_offset a = id_offset b \<Longrightarrow> a = b"
  by (cases a; cases b) simp

lemma node_id_between:
  assumes "a \<le> b" "b \<le> c" "id_created a = id_created c"
  shows "id_created b = id_created a" "id_offset a \<le> id_offset b" "id_offset b \<le> id_offset c"
proof -
  have "id_created a \<le> id_created b" "id_created b \<le> id_created c"
    using assms(1,2) unfolding less_eq_node_id_def less_node_id_def by auto
  then show c: "id_created b = id_created a" using assms(3) by simp
  show "id_offset a \<le> id_offset b"
    using assms(1) unfolding less_eq_node_id_def less_node_id_def c by auto
  show "id_offset b \<le> id_offset c"
    using assms(2) unfolding less_eq_node_id_def less_node_id_def c assms(3) by auto
qed

lemma node_id_less_same: "id_created a = id_created b \<Longrightarrow> a < b \<longleftrightarrow> id_offset a < id_offset b"
  by (simp add: less_node_id_def)

lemma node_id_compare_actors:
  "actorID (id_created a) \<noteq> None \<Longrightarrow> actorID (id_created b) \<noteq> None \<Longrightarrow>
     node_id_compare a b = Some (if a = b then 0 else if a < b then -1 else 1)"
  by (cases a; cases b) (auto simp: node_id_compare_def ticket_compare_eq less_node_id_def)

lemma has_same_created_actors:
  "actorID (id_created a) \<noteq> None \<Longrightarrow> actorID (id_created b) \<noteq> None \<Longrightarrow>
     has_same_created_at a b = Some (id_created a = id_created b)"
  by (auto simp: has_same_created_at_def ticket_compare_eq)

section \<open>Searching by id\<close>

text \<open>The block that holds a point of a creation, to the left of a boundary.\<close>

lemma find_floor_correct:
  assumes "rs_inv ok ops s" "x \<in> set (rs_order s)" "0 \<le> k" "k \<le> clen ops s x"
    "k = 0 \<Longrightarrow> x = initial_head"
  shows "find_floor_node_prefer_to_left s (Node_Id (ncreated s x) (noffset s x + k)) = Some x"
proof -
  let ?i = "Node_Id (ncreated s x) (noffset s x + k)"
  note o = rs_invD(1) [OF assms(1)] and t = rs_invD(2) [OF assms(1)] and b = rs_invD(3) [OF assms(1)]
    and ins = rs_invD(4) [OF assms(1)]
  have xi: "nid s x \<le> ?i" using assms(3) by (cases "nid s x") (auto simp: less_eq_node_id_def less_node_id_def)
  have "llrb_map (rs_by_id s) (nid s x) = Some x" using trees_okD(4) [OF t] assms(2) by simp
  then have "\<exists>j\<in>dom (llrb_map (rs_by_id s)). j \<le> ?i" using xi by blast
  from tree_floor_correct [OF trees_okD(3) [OF t] this] obtain j y where
    fl: "tree_floor (rs_by_id s) ?i = Floor j y" "llrb_map (rs_by_id s) j = Some y" "j \<le> ?i"
    and top: "\<And>j'. j' \<in> dom (llrb_map (rs_by_id s)) \<Longrightarrow> j' \<le> ?i \<Longrightarrow> j' \<le> j" by blast
  have y: "y \<in> set (rs_order s)" "nid s y = j" using fl(2) trees_okD(4) [OF t] by simp_all
  have below: "m \<in> set (rs_order s) \<Longrightarrow> nid s m \<le> ?i \<Longrightarrow> nid s m \<le> nid s y" for m
    using top trees_okD(4) [OF t, of "nid s m" m] y(2) by blast
  have xy: "nid s x \<le> nid s y" using below [OF assms(2) xi] .
  have same: "ncreated s y = ncreated s x"
    and off: "noffset s x \<le> noffset s y" "noffset s y \<le> noffset s x + k"
    using node_id_between [OF xy, of ?i] fl(3) y(2) by simp_all
  have act: "actorID (ncreated s x) \<noteq> None" by (rule blocks_okD(2) [OF b assms(2)])
  have floor: "find_floor_node s ?i = Some (Some y)"
  proof -
    have "has_same_created_at j ?i = Some True" and "\<exists>e. node_id_equal j ?i = Some e"
      using act same y(2) by (simp_all add: has_same_created_actors node_id_equal_def node_id_compare_actors)
    then show ?thesis using fl(1) by (auto simp: find_floor_node_def)
  qed
  show ?thesis
  proof (cases "y = x")
    case True
    have "sn_ins_prev (rs_nodes s x) = None" if "k = 0"
    proof (rule ccontr)
      assume "sn_ins_prev (rs_nodes s x) \<noteq> None"
      then obtain p where "block_before (nid s) (set (rs_order s)) p x"
        using ins assms(2) by (auto simp: ins_ok_def)
      then have "p \<in> set (rs_order s)" "ncreated s p = ncreated s x" "noffset s p < noffset s x"
        by (auto simp: block_before_def less_node_id_def)
      then show False
        using blocks_okD(4) [OF b, of p] blocks_ok_head(1) [OF b] assms(5) [OF that] by simp
    qed
    then show ?thesis
      using floor True by (auto simp: find_floor_node_prefer_to_left_def)
  next
    case False
    then have "noffset s x \<noteq> noffset s y" using nid_inj [OF t assms(2) y(1)] same by (metis node_id_eqI)
    then have gap: "noffset s x < noffset s y" "noffset s x + clen ops s x \<le> noffset s y"
      using off(1) blocks_okD(8) [OF b assms(2) y(1) same [symmetric]] by simp_all
    then have k: "k = clen ops s x" "noffset s y = noffset s x + k" using off(2) assms(4) by simp_all
    have "block_before (nid s) (set (rs_order s)) x y"
      unfolding block_before_def
    proof (intro conjI ballI notI; (elim conjE)?)
      show "nid s x < nid s y" using gap(1) same by (simp add: less_node_id_def)
      fix m assume m: "m \<in> set (rs_order s)" "nid s x < nid s m" "nid s m < nid s y"
      then have "ncreated s x = ncreated s m" "noffset s x < noffset s m" "noffset s m < noffset s y"
        using same by (auto simp: less_node_id_def)
      then show False using blocks_okD(8) [OF b assms(2) m(1)] k by simp
    qed (use assms(2) y(1) same in simp_all)
    then have "sn_ins_prev (rs_nodes s y) = Some x" using ins y(1) by (auto simp: ins_ok_def)
    moreover have "0 < noffset s y" using gap(1) blocks_okD(4) [OF b assms(2)] by simp
    ultimately show ?thesis
      using floor k(2) by (auto simp: find_floor_node_prefer_to_left_def)
  qed
qed

section \<open>Neighbours in insertion order\<close>

lemma block_before_unique:
  "block_before f N p n \<Longrightarrow> block_before f N p' n \<Longrightarrow> inj_on f N \<Longrightarrow> p = p'"
  "block_before f N p n \<Longrightarrow> block_before f N p n' \<Longrightarrow> inj_on f N \<Longrightarrow> n = n'"
  unfolding block_before_def inj_on_def by (metis linorder_neqE)+

lemma block_before_cong:
  "(\<And>n. n \<in> N \<Longrightarrow> f n = g n) \<Longrightarrow> block_before f N p n \<longleftrightarrow> block_before g N p n"
  by (auto simp: block_before_def)

lemma block_before_split:
  assumes "m \<notin> N" "n \<in> N" "id_created (f m) = id_created (f n)" "f n < f m" "inj_on f N"
    "\<And>q. q \<in> N \<Longrightarrow> f n < f q \<Longrightarrow> f m < f q"
  shows "block_before f (insert m N) p q \<longleftrightarrow>
    (if q = m then p = n else if p = m then block_before f N n q else p \<noteq> n \<and> block_before f N p q)"
proof -
  have below: "f q < f m \<longleftrightarrow> f q < f n \<or> q = n" and above: "f m < f q \<longleftrightarrow> f n < f q" if "q \<in> N" for q
    using assms(2,4,5) assms(6) [OF that] that by (metis inj_onD linorder_neqE order.asym order.strict_trans)+
  have mn: "m \<noteq> n" using assms(1,2) by blast
  have "block_before f (insert m N) p m \<longleftrightarrow> p = n"
    using assms(1-4) below mn unfolding block_before_def by (auto dest: order.asym)
  moreover have "block_before f (insert m N) m q \<longleftrightarrow> block_before f N n q" if "q \<noteq> m"
    using assms(1-4) that above mn unfolding block_before_def by (auto dest: order.asym)
  moreover have "block_before f (insert m N) p q \<longleftrightarrow> p \<noteq> n \<and> block_before f N p q" if "q \<noteq> m" "p \<noteq> m"
    using assms(1-4) that below above mn unfolding block_before_def by (auto dest: order.asym)
  ultimately show ?thesis by simp
qed

lemma block_before_fresh:
  assumes "m \<notin> N" "\<And>q. q \<in> N \<Longrightarrow> id_created (f q) \<noteq> id_created (f m)"
  shows "block_before f (insert m N) p q \<longleftrightarrow> block_before f N p q"
proof -
  have "\<not> (f p < f m \<and> f m < f q)" if "p \<in> N" "q \<in> N" "id_created (f p) = id_created (f q)"
    using node_id_between(1) [OF less_imp_le less_imp_le that(3)] assms(2) [OF that(1)] by metis
  moreover have "id_created (f m) \<noteq> id_created (f q)" if "q \<in> N" for q using assms(2) [OF that] by simp
  ultimately show ?thesis using assms unfolding block_before_def by auto
qed

lemma block_before_remove:
  assumes "inj_on f N" "n \<in> N"
  shows "block_before f (N - {n}) p q \<longleftrightarrow>
    p \<noteq> n \<and> q \<noteq> n \<and> (block_before f N p q \<or> block_before f N p n \<and> block_before f N n q)"
proof (cases "f p < f n \<and> f n < f q \<and> p \<in> N \<and> q \<in> N \<and> id_created (f p) = id_created (f q)")
  case True
  have "id_created (f n) = id_created (f p)" using True node_id_between(1) [of "f p" "f n" "f q"] by auto
  moreover have "f m < f n \<or> f n < f m \<or> m = n" if "m \<in> N" for m
    using assms that by (metis inj_onD linorder_neqE)
  ultimately show ?thesis
    using True assms(2) unfolding block_before_def by (auto intro: order.strict_trans)
next
  case False
  then show ?thesis using assms(2) unfolding block_before_def by (auto intro: order.strict_trans)
qed

section \<open>Insertion into the chain\<close>

lemma rs_len_set_node [simp]:
  "rs_len ops (set_node n nd s) m = (if m = n then split_node_len ops nd else rs_len ops s m)"
  by (simp add: rs_len_def set_node_def)

lemma set_node_simps [simp]:
  "rs_nodes (set_node n nd s) = (rs_nodes s)(n := nd)" "rs_order (set_node n nd s) = rs_order s"
  "rs_next_node (set_node n nd s) = rs_next_node s" "rs_index (set_node n nd s) = rs_index s"
  "rs_by_id (set_node n nd s) = rs_by_id s" "rs_removed (set_node n nd s) = rs_removed s"
  by (simp_all add: set_node_def)

lemma trees_ok_cong:
  assumes "trees_ok ops s" "rs_order s' = rs_order s" "rs_index s' = rs_index s" "rs_by_id s' = rs_by_id s"
    "\<And>n. n \<in> set (rs_order s) \<Longrightarrow> nid s' n = nid s n \<and> rs_len ops s' n = rs_len ops s n"
  shows "trees_ok ops s'"
  using assms(1) splay.inv_cong [of "rs_len ops s" "rs_index s" "rs_len ops s'"] assms(2-5)
  by (auto simp: trees_ok_def)

lemma order_ok_link:
  assumes "order_ok s" "p \<in> set (rs_order s)" "rs_order s' = link_after p (rs_next_node s) (rs_order s)"
    "rs_next_node s' = Suc (rs_next_node s)"
  shows "order_ok s'"
  using order_okD [OF assms(1)] assms(2-)
  by (auto simp: order_ok_def distinct_link_after hd_link_after set_link_after less_Suc_eq)

text \<open>The length of the node before the new one may have changed since the index was in order.\<close>

lemma rs_insert_after_trees:
  assumes "order_ok s" "trees_ok ops s0" "p \<in> set (rs_order s)"
    "rs_order s0 = rs_order s" "rs_index s0 = rs_index s" "rs_by_id s0 = rs_by_id s"
    "\<And>n. n \<in> set (rs_order s) \<Longrightarrow> nid s n = nid s0 n"
    "\<And>n. n \<in> set (rs_order s) \<Longrightarrow> n \<noteq> p \<Longrightarrow> rs_len ops s n = rs_len ops s0 n"
    "\<And>n. n \<in> set (rs_order s) \<Longrightarrow> nid s n \<noteq> sn_id nd"
  obtains s' where "rs_insert_after ops p nd s = Some (s', rs_next_node s)" "order_ok s'" "trees_ok ops s'"
    "rs_nodes s' = (rs_nodes s)(rs_next_node s := nd)"
    "rs_order s' = link_after p (rs_next_node s) (rs_order s)"
    "set (rs_order s') = insert (rs_next_node s) (set (rs_order s))"
    "rs_next_node s' = Suc (rs_next_node s)" "rs_removed s' = rs_removed s"
proof -
  let ?n = "rs_next_node s"
  define s1 where "s1 = s\<lparr>rs_nodes := (rs_nodes s)(?n := nd), rs_next_node := Suc ?n,
      rs_order := link_after p ?n (rs_order s)\<rparr>"
  have new: "?n \<notin> set (rs_order s)" by (rule order_okD(5) [OF assms(1)])
  obtain t where t: "tree_put (rs_by_id s) (sn_id nd) ?n = Some t" "llrb_inv t"
    "llrb_map t = (llrb_map (rs_by_id s))(sn_id nd \<mapsto> ?n)"
    using tree_put_correct [OF trees_okD(3) [OF assms(2)], of "sn_id nd" ?n] assms(6) by auto
  define s' where "s' = s1\<lparr>rs_by_id := t, rs_index := splay_insert_after (rs_len ops s1) p ?n (rs_index s)\<rparr>"
  have len: "rs_len ops s' = rs_len ops s1" by (simp add: s'_def rs_len_def fun_eq_iff)
  have old: "rs_len ops s0 y = rs_len ops s1 y" if "y \<in> set (rs_order s)" "y \<noteq> p" for y
    using assms(8) [OF that] that(1) new by (auto simp: s1_def rs_len_def)
  have but: "splay_inv_but (rs_len ops s1) p (rs_index s)"
    using splay.inv_change [OF trees_okD(1) [OF assms(2)], of p "rs_len ops s1"] old
      trees_okD(2) [OF assms(2)] assms(4,5) by auto
  have seq: "splay_inorder (rs_index s) = rs_order s" using trees_okD(2) [OF assms(2)] assms(4,5) by simp
  have mem: "set (rs_order s') = insert ?n (set (rs_order s))"
    using assms(3) by (simp add: s'_def s1_def set_link_after)
  have "trees_ok ops s'"
    unfolding trees_ok_def len
  proof (intro conjI allI)
    show "splay_inv (rs_len ops s1) (rs_index s')" "splay_inorder (rs_index s') = rs_order s'"
      using splay.inv_insert_after [OF but, of ?n] splay.sq_insert_after [OF but, of ?n] assms(3) new seq
      by (simp_all add: s'_def s1_def)
    show "llrb_inv (rs_by_id s')" using t(2) by (simp add: s'_def)
    show "llrb_map (rs_by_id s') i = Some n \<longleftrightarrow> n \<in> set (rs_order s') \<and> nid s' n = i" for i n
      unfolding mem using trees_okD(4) [OF assms(2), of i n] assms(4,6,7,9) new t(3)
      by (auto simp: s'_def s1_def)
  qed
  moreover have "order_ok s'" by (rule order_ok_link [OF assms(1,3)]) (simp_all add: s'_def s1_def)
  moreover have "rs_insert_after ops p nd s = Some (s', ?n)"
    using t(1) by (simp add: rs_insert_after_def s'_def s1_def Let_def)
  ultimately show ?thesis
    using that mem by (simp add: s'_def s1_def)
qed

section \<open>The text\<close>

definition node_units :: "('v \<Rightarrow> 'u list) \<Rightarrow> 'v rs_node \<Rightarrow> 'u list" where
  "node_units units n = (if sn_removed n \<noteq> None then [] else units (sn_value n))"

definition chain_units :: "('v \<Rightarrow> 'u list) \<Rightarrow> 'v split_list \<Rightarrow> nat list \<Rightarrow> 'u list" where
  "chain_units units s ns = concat (map (\<lambda>n. node_units units (rs_nodes s n)) ns)"

text \<open>The text as the document shows it.\<close>

definition rs_units :: "('v \<Rightarrow> 'u list) \<Rightarrow> 'v split_list \<Rightarrow> 'u list" where
  "rs_units units s = chain_units units s (rs_order s)"

lemma chain_units_simps [simp]:
  "chain_units units s [] = []"
  "chain_units units s (n # ns) = node_units units (rs_nodes s n) @ chain_units units s ns"
  "chain_units units s (ns @ ms) = chain_units units s ns @ chain_units units s ms"
  by (simp_all add: chain_units_def)

lemma chain_units_cong:
  "(\<And>n. n \<in> set ns \<Longrightarrow> node_units units (rs_nodes s n) = node_units units (rs_nodes s' n)) \<Longrightarrow>
     chain_units units s ns = chain_units units s' ns"
  by (induction ns) simp_all

section \<open>Splitting keeps the invariant\<close>

lemma set_ins_prev_simps [simp]:
  "rs_order (set_ins_prev n p s) = rs_order s" "rs_next_node (set_ins_prev n p s) = rs_next_node s"
  "rs_index (set_ins_prev n p s) = rs_index s" "rs_by_id (set_ins_prev n p s) = rs_by_id s"
  "rs_removed (set_ins_prev n p s) = rs_removed s"
  "sn_id (rs_nodes (set_ins_prev n p s) q) = sn_id (rs_nodes s q)"
  "sn_value (rs_nodes (set_ins_prev n p s) q) = sn_value (rs_nodes s q)"
  "sn_removed (rs_nodes (set_ins_prev n p s) q) = sn_removed (rs_nodes s q)"
  "sn_ins_prev (rs_nodes (set_ins_prev n p s) q) = (if q = n then Some p else sn_ins_prev (rs_nodes s q))"
  "sn_ins_next (rs_nodes (set_ins_prev n p s) q) = (if q = p then Some n else sn_ins_next (rs_nodes s q))"
  by (simp_all add: set_ins_prev_def Let_def)

lemma same_value_len:
  "sn_value (rs_nodes s' n) = sn_value (rs_nodes s n) \<Longrightarrow> clen ops s' n = clen ops s n"
  "sn_value (rs_nodes s' n) = sn_value (rs_nodes s n) \<Longrightarrow> sn_removed (rs_nodes s' n) = sn_removed (rs_nodes s n) \<Longrightarrow>
     rs_len ops s' n = rs_len ops s n \<and> node_units units (rs_nodes s' n) = node_units units (rs_nodes s n)"
  by (simp_all add: content_len_def rs_len_def split_node_len_def node_units_def)

lemma ins_ok_split:
  assumes "ins_ok s" "inj_on (nid s) (set (rs_order s))" "x \<in> set (rs_order s)" "m \<notin> set (rs_order s)"
    "set (rs_order s') = insert m (set (rs_order s))"
    "\<And>n. n \<in> set (rs_order s) \<Longrightarrow> nid s' n = nid s n" "ncreated s' m = ncreated s x" "nid s x < nid s' m"
    "\<And>q. q \<in> set (rs_order s) \<Longrightarrow> nid s x < nid s q \<Longrightarrow> nid s' m < nid s q"
    "\<And>q. sn_ins_prev (rs_nodes s' q) = (if q = m then Some x
       else if sn_ins_next (rs_nodes s x) = Some q then Some m else sn_ins_prev (rs_nodes s q))"
    "\<And>q. sn_ins_next (rs_nodes s' q) = (if q = x then Some m
       else if q = m then sn_ins_next (rs_nodes s x) else sn_ins_next (rs_nodes s q))"
  shows "ins_ok s'"
proof -
  let ?N = "set (rs_order s)" and ?f = "nid s'"
  have inj: "inj_on ?f ?N" using assms(2,6) by (simp add: inj_on_def)
  have cong: "block_before ?f ?N p q \<longleftrightarrow> block_before (nid s) ?N p q" for p q
    by (rule block_before_cong) (rule assms(6))
  have split: "block_before ?f (insert m ?N) p q \<longleftrightarrow>
      (if q = m then p = x else if p = m then block_before ?f ?N x q else p \<noteq> x \<and> block_before ?f ?N p q)" for p q
    by (rule block_before_split [OF assms(4,3) _ _ inj]) (use assms(3,6-9) in simp_all)
  have prev: "sn_ins_prev (rs_nodes s q) = Some p \<longleftrightarrow> block_before ?f ?N p q"
    and "next": "sn_ins_next (rs_nodes s q) = Some p \<longleftrightarrow> block_before ?f ?N q p" if "q \<in> ?N" for p q
    using assms(1) that unfolding ins_ok_def cong by blast+
  have out: "\<not> block_before ?f ?N m q" "\<not> block_before ?f ?N q m" for q
    using assms(4) by (auto simp: block_before_def)
  have xm: "x \<noteq> m" using assms(3,4) by blast
  show ?thesis
    unfolding ins_ok_def assms(5) split
  proof (intro ballI allI conjI)
    fix q p assume q: "q \<in> insert m ?N"
    show "sn_ins_prev (rs_nodes s' q) = Some p \<longleftrightarrow>
      (if q = m then p = x else if p = m then block_before ?f ?N x q else p \<noteq> x \<and> block_before ?f ?N p q)"
    proof (cases "q = m")
      case False
      then have qN: "q \<in> ?N" using q by simp
      show ?thesis
        using False "next" [OF assms(3), of q] prev [OF qN, of p] out(1) [of q]
          block_before_unique(1) [OF _ _ inj, of x q p] by (auto simp: assms(10))
    qed (auto simp: assms(10))
    show "sn_ins_next (rs_nodes s' q) = Some p \<longleftrightarrow>
      (if p = m then q = x else if q = m then block_before ?f ?N x p else q \<noteq> x \<and> block_before ?f ?N q p)"
    proof (cases "q = x \<or> q = m")
      case True
      then show ?thesis using xm "next" [OF assms(3), of p] out(2) [of x] by (auto simp: assms(11))
    next
      case False
      then have qN: "q \<in> ?N" using q by simp
      show ?thesis using False "next" [OF qN, of p] out(2) [of q] by (auto simp: assms(11))
    qed
  qed
qed

lemma blocks_ok_split:
  assumes "blocks_ok ok ops s" "inj_on (nid s) (set (rs_order s))" "x \<in> set (rs_order s)"
    "m \<notin> set (rs_order s)" "initial_head \<in> set (rs_order s)"
    "set (rs_order s') = insert m (set (rs_order s))"
    "\<And>n. n \<in> set (rs_order s) \<Longrightarrow> nid s' n = nid s n \<and> sn_removed (rs_nodes s' n) = sn_removed (rs_nodes s n)"
    "\<And>n. n \<in> set (rs_order s) \<Longrightarrow> n \<noteq> x \<Longrightarrow> sn_value (rs_nodes s' n) = sn_value (rs_nodes s n)"
    "nid s' m = node_id_split (nid s x) k" "sn_removed (rs_nodes s' m) = None"
    "ok (sn_value (rs_nodes s' x))" "ok (sn_value (rs_nodes s' m))"
    "clen ops s' x = k" "clen ops s' m = clen ops s x - k" "0 < k" "k < clen ops s x"
  shows "blocks_ok ok ops s'"
proof -
  note D = blocks_okD [OF assms(1)]
  have xh: "x \<noteq> initial_head" using assms(15,16) blocks_ok_head(2) [OF assms(1)] by auto
  have len: "clen ops s' n = clen ops s n" if "n \<in> set (rs_order s)" "n \<noteq> x" for n
    using assms(8) [OF that] by (rule same_value_len)
  have off: "noffset s' n = noffset s n" "ncreated s' n = ncreated s n" if "n \<in> set (rs_order s)" for n
    using assms(7) [OF that] by simp_all
  have m: "noffset s' m = noffset s x + k" "ncreated s' m = ncreated s x"
    using assms(9) by (simp_all add: node_id_split_def)
  have sep: "noffset s n + clen ops s n \<le> noffset s x \<or> n = x \<or> noffset s x + clen ops s x \<le> noffset s n"
    if "n \<in> set (rs_order s)" "ncreated s n = ncreated s x" for n
    using D(8) [OF that(1) assms(3)] D(8) [OF assms(3) that(1)] that inj_onD [OF assms(2) _ that(1) assms(3)]
      node_id_eqI by fastforce
  show ?thesis
    unfolding blocks_ok_def assms(6)
  proof (intro conjI ballI impI)
    show "node_ok ok (rs_nodes s' n)" if "n \<in> insert m (set (rs_order s))" for n
      using that assms(3,4,7-12,15) D(1-5) m by (cases "n = m"; cases "n = x") (auto simp: node_ok_def node_id_split_def)
    show "nid s' initial_head = Node_Id initial_ticket 0" "clen ops s' initial_head = 0"
      "sn_removed (rs_nodes s' initial_head) = None"
      using blocks_ok_head [OF assms(1)] assms(5,7) len xh by auto
    show "0 < clen ops s' n" if "n \<in> insert m (set (rs_order s))" "n \<noteq> initial_head" for n
      using that assms(3,13-16) len D(6) by (cases "n = m"; cases "n = x") auto
    fix n q assume nq: "n \<in> insert m (set (rs_order s))" "q \<in> insert m (set (rs_order s))"
      and same: "ncreated s' n = ncreated s' q" and lt: "noffset s' n < noffset s' q"
    consider "n = m" "q = m" | "n = m" "q \<in> set (rs_order s)" | "n \<in> set (rs_order s)" "n \<noteq> x" "q = m"
      | "n = x" "q = m" | "n = x" "q \<in> set (rs_order s)" | "n \<in> set (rs_order s)" "n \<noteq> x" "q \<in> set (rs_order s)"
      using nq by blast
    then show "noffset s' n + clen ops s' n \<le> noffset s' q"
    proof cases
      case 2
      then show ?thesis using sep [of q] same lt m off [of q] assms(14,15,16) D(7) [of q] by auto
    next
      case 3
      then show ?thesis using sep [of n] same lt m off [of n] len [of n] assms(15,16) by auto
    next
      case 5
      then show ?thesis using D(8) [OF assms(3), of q] same lt off [of q] off [OF assms(3)] assms(13,16) by simp
    next
      case 6
      then show ?thesis using D(8) [of n q] same lt off [of n] off [of q] len [of n] by simp
    qed (use lt m off [OF assms(3)] assms(13) in simp_all)
  qed
qed

lemma removed_ok_mono:
  assumes "removed_ok s" "set (rs_order s) \<subseteq> set (rs_order s')" "rs_removed s' = rs_removed s"
    "\<And>n. n \<in> set (rs_order s) \<Longrightarrow> nid s' n = nid s n"
    "\<And>n. n \<in> set (rs_order s) \<Longrightarrow> sn_removed (rs_nodes s n) \<noteq> None \<Longrightarrow> sn_removed (rs_nodes s' n) \<noteq> None"
  shows "removed_ok s'"
  using assms unfolding removed_ok_def by fastforce

section \<open>Deletion\<close>

definition mark_deleted :: "(string \<times> ticket) list option \<Rightarrow> ticket \<Rightarrow> 'v rs_node \<Rightarrow> 'v rs_node" where
  "mark_deleted latest t n =
     (if id_created (sn_id n) \<le> latest_created_at latest (actor_hex (id_created (sn_id n)))
      then n\<lparr>sn_removed := Some (case sn_removed n of None \<Rightarrow> t | Some u \<Rightarrow> max t u)\<rparr> else n)"

definition latest_ok :: "(string \<times> ticket) list option \<Rightarrow> bool" where
  "latest_ok latest \<longleftrightarrow> (\<forall>m. latest = Some m \<longrightarrow> (\<forall>(k, c)\<in>set m. actorID c \<noteq> None))"

lemma latest_created_at_actor: "latest_ok latest \<Longrightarrow> actorID (latest_created_at latest hex) \<noteq> None"
  by (auto simp: latest_created_at_def latest_ok_def max_ticket_def initial_ticket_def split: option.splits
      dest!: map_of_SomeD)

lemma mark_deleted_simps [simp]:
  "sn_id (mark_deleted latest t n) = sn_id n" "sn_value (mark_deleted latest t n) = sn_value n"
  "sn_ins_prev (mark_deleted latest t n) = sn_ins_prev n" "sn_ins_next (mark_deleted latest t n) = sn_ins_next n"
  "mark_deleted latest t (mark_deleted latest t n) = mark_deleted latest t n"
  by (simp_all add: mark_deleted_def max.left_idem split: option.splits)

lemma mark_deleted_removed:
  "sn_removed n \<noteq> None \<Longrightarrow> sn_removed (mark_deleted latest t n) \<noteq> None"
  "sn_removed (mark_deleted latest t n) = Some u \<Longrightarrow> u = t \<or> sn_removed n = Some u"
  "sn_removed (mark_deleted latest t n) = None \<longleftrightarrow> sn_removed n = None \<and>
     \<not> id_created (sn_id n) \<le> latest_created_at latest (actor_hex (id_created (sn_id n)))"
  by (auto simp: mark_deleted_def max_def split: option.splits if_splits)

lemma split_node_remove_eq:
  assumes "node_ok ok n" "actorID t \<noteq> None" "latest_ok latest"
  shows "split_node_remove t (latest_created_at latest (actor_hex (id_created (sn_id n)))) n =
    Some (mark_deleted latest t n, mark_deleted latest t n \<noteq> n)"
proof -
  have a: "actorID (id_created (sn_id n)) \<noteq> None" "\<And>u. sn_removed n = Some u \<Longrightarrow> actorID u \<noteq> None"
    using assms(1) by (simp_all add: node_ok_def)
  show ?thesis
  proof (cases "sn_removed n")
    case None
    then show ?thesis
      using a(1) latest_created_at_actor [OF assms(3)]
      by (cases n) (auto simp: split_node_remove_def mark_deleted_def ticket_after_actors)
  next
    case (Some u)
    then show ?thesis
      using a(1) a(2) [OF Some] assms(2) latest_created_at_actor [OF assms(3)]
      by (cases n) (auto simp: split_node_remove_def mark_deleted_def ticket_after_actors max_def)
  qed
qed

lemma node_ok_marked: "node_ok ok n \<Longrightarrow> actorID t \<noteq> None \<Longrightarrow> node_ok ok (mark_deleted latest t n)"
  by (auto simp: node_ok_def dest: mark_deleted_removed(2))

lemma set_alist_update: "set (AList.update k v xs) \<subseteq> insert (k, v) (set xs)"
  by (induction xs) auto

lemma later_created_total:
  assumes "\<forall>(k, c)\<in>set m. actorID c \<noteq> None" "actorID c \<noteq> None"
  shows "\<exists>m'. later_created m c = Some m' \<and> (\<forall>(k, c)\<in>set m'. actorID c \<noteq> None)"
proof -
  have "\<forall>(k, d)\<in>set (AList.update (actor_hex c) c m). actorID d \<noteq> None"
    using assms set_alist_update [of "actor_hex c" c m] by auto
  moreover have "actorID d \<noteq> None" if "map_of m (actor_hex c) = Some d" for d
    using assms(1) map_of_SomeD [OF that] by auto
  ultimately show ?thesis using assms
    by (auto simp: later_created_def ticket_after_actors split: option.splits)
qed

text \<open>What a step of the deletion keeps.\<close>

lemma rs_inv_deleted:
  assumes inv: "rs_inv ok ops s" and n: "n \<in> set (rs_order s)" "n \<noteq> initial_head" and t: "actorID t \<noteq> None"
    and s1: "s1 = set_node n (mark_deleted latest t (rs_nodes s n)) s"
  shows "rs_inv ok ops (s1\<lparr>rs_index := splay (rs_len ops s1) n (rs_index s1)\<rparr>)"
proof -
  let ?s = "s1\<lparr>rs_index := splay (rs_len ops s1) n (rs_index s1)\<rparr>"
  have nodes: "rs_nodes ?s = (rs_nodes s)(n := mark_deleted latest t (rs_nodes s n))" "rs_order ?s = rs_order s"
    "rs_by_id ?s = rs_by_id s" "rs_removed ?s = rs_removed s" "rs_next_node ?s = rs_next_node s"
    by (simp_all add: s1)
  have same: "nid ?s m = nid s m" "sn_value (rs_nodes ?s m) = sn_value (rs_nodes s m)"
    "sn_ins_prev (rs_nodes ?s m) = sn_ins_prev (rs_nodes s m)"
    "sn_ins_next (rs_nodes ?s m) = sn_ins_next (rs_nodes s m)" for m
    unfolding nodes(1) by simp_all
  have len: "rs_len ops ?s = rs_len ops s1" by (simp add: fun_eq_iff rs_len_def)
  have tr: "splay_inv (rs_len ops s) (rs_index s)" "splay_inorder (rs_index s) = rs_order s"
    using trees_okD [OF rs_invD(2) [OF inv]] by simp_all
  have other: "rs_len ops s y = rs_len ops s1 y" if "y \<noteq> n" for y using that by (simp add: s1)
  have index: "rs_index ?s = splay (rs_len ops s1) n (rs_index s)" by (simp add: s1)
  have "trees_ok ops ?s"
    unfolding trees_ok_def len nodes(2,3) same index
  proof (intro conjI allI)
    show "splay_inv (rs_len ops s1) (splay (rs_len ops s1) n (rs_index s))"
      "splay_inorder (splay (rs_len ops s1) n (rs_index s)) = rs_order s"
      using splay.touch_changed [OF tr(1), of n "rs_len ops s1"] other tr(2) n(1) by metis+
  qed (rule trees_okD(3,4) [OF rs_invD(2) [OF inv]])+
  moreover have "blocks_ok ok ops ?s"
    using rs_invD(3) [OF inv] node_ok_marked [OF _ t] n(2)
    unfolding blocks_ok_def nodes content_len_def same by auto
  moreover have "ins_ok ?s"
    using rs_invD(4) [OF inv] unfolding ins_ok_def nodes(2) same by simp
  moreover have "removed_ok ?s"
    by (rule removed_ok_mono [OF rs_invD(5) [OF inv]])
      (use mark_deleted_removed(1) [of "rs_nodes s n" latest t] in \<open>auto simp: nodes same\<close>)
  moreover have "order_ok ?s" using rs_invD(1) [OF inv] by (simp add: order_ok_def nodes)
  ultimately show ?thesis by (simp add: rs_inv_def)
qed

text \<open>The entries of the nodes that were marked.\<close>

definition entries_ok :: "'v split_list \<Rightarrow> (string \<times> nat) list \<Rightarrow> bool" where
  "entries_ok s es \<longleftrightarrow> (\<forall>(k, n)\<in>set es. n \<in> set (rs_order s) \<and> sn_removed (rs_nodes s n) \<noteq> None \<and>
     k = node_id_key (nid s n))"

lemma entries_ok_mono:
  assumes "entries_ok s es" "set (rs_order s) \<subseteq> set (rs_order s')"
    "\<And>n. n \<in> set (rs_order s) \<Longrightarrow> rs_nodes s' n = rs_nodes s n"
  shows "entries_ok s' es"
  using assms unfolding entries_ok_def by fastforce

lemma rs_inv_set_removed:
  "rs_inv ok ops s \<Longrightarrow> removed_ok (s\<lparr>rs_removed := m\<rparr>) \<Longrightarrow> rs_inv ok ops (s\<lparr>rs_removed := m\<rparr>)"
proof -
  have "rs_len ops (s\<lparr>rs_removed := m\<rparr>) = rs_len ops s" by (simp add: fun_eq_iff rs_len_def)
  then have "order_ok (s\<lparr>rs_removed := m\<rparr>) = order_ok s" "trees_ok ops (s\<lparr>rs_removed := m\<rparr>) = trees_ok ops s"
    "blocks_ok ok ops (s\<lparr>rs_removed := m\<rparr>) = blocks_ok ok ops s" "ins_ok (s\<lparr>rs_removed := m\<rparr>) = ins_ok s"
    by (simp_all add: order_ok_def trees_ok_def blocks_ok_def ins_ok_def)
  then show "rs_inv ok ops s \<Longrightarrow> removed_ok (s\<lparr>rs_removed := m\<rparr>) \<Longrightarrow> rs_inv ok ops (s\<lparr>rs_removed := m\<rparr>)"
    unfolding rs_inv_def by blast
qed

lemma update_all_entries:
  assumes "distinct (map fst m)" "entries_ok s m" "entries_ok s es"
  shows "distinct (map fst (fold (\<lambda>(k, n) m. AList.update k n m) es m)) \<and>
    entries_ok s (fold (\<lambda>(k, n) m. AList.update k n m) es m)"
  using assms
proof (induction es arbitrary: m)
  case (Cons e es)
  obtain k n where e: "e = (k, n)" by (cases e)
  have "entries_ok s (AList.update k n m)"
  proof -
    have "\<forall>(k, n)\<in>insert (k, n) (set m). n \<in> set (rs_order s) \<and> sn_removed (rs_nodes s n) \<noteq> None \<and>
        k = node_id_key (nid s n)"
      using Cons.prems(2,3) by (simp add: e entries_ok_def)
    then show ?thesis unfolding entries_ok_def using set_alist_update [of k n m] by blast
  qed
  moreover have "entries_ok s es" using Cons.prems(3) by (simp add: entries_ok_def)
  ultimately show ?case using Cons.IH Cons.prems(1) by (simp add: e distinct_update)
qed simp

lemma delete_nodes_correct:
  assumes "rs_inv ok ops s" "set ns \<subseteq> set (rs_order s)" "initial_head \<notin> set ns" "actorID t \<noteq> None"
    "latest_ok latest" "\<forall>(k, c)\<in>set created. actorID c \<noteq> None" "entries_ok s removed"
  shows "\<exists>s' created' removed'. delete_nodes ops latest t ns s created removed = Some (s', created', removed') \<and>
    rs_inv ok ops s' \<and> rs_order s' = rs_order s \<and> rs_next_node s' = rs_next_node s \<and> rs_removed s' = rs_removed s \<and>
    rs_nodes s' = (\<lambda>n. if n \<in> set ns then mark_deleted latest t (rs_nodes s n) else rs_nodes s n) \<and>
    entries_ok s' removed' \<and> (\<forall>(k, c)\<in>set created'. actorID c \<noteq> None)"
  using assms
proof (induction ns arbitrary: s created removed)
  case (Cons n ns)
  let ?nd = "mark_deleted latest t (rs_nodes s n)"
  have n: "n \<in> set (rs_order s)" "n \<noteq> initial_head" using Cons.prems(2,3) by auto
  have ok: "node_ok ok (rs_nodes s n)" using rs_invD(3) [OF Cons.prems(1)] n(1) by (simp add: blocks_ok_def)
  note rem = split_node_remove_eq [OF ok Cons.prems(4,5)]
  show ?case
  proof (cases "?nd = rs_nodes s n")
    case True
    have "(\<lambda>m. if m \<in> set ns then mark_deleted latest t (rs_nodes s m) else rs_nodes s m) =
        (\<lambda>m. if m \<in> set (n # ns) then mark_deleted latest t (rs_nodes s m) else rs_nodes s m)"
      using True by auto
    then show ?thesis
      using Cons.IH [OF Cons.prems(1) _ _ Cons.prems(4,5,6,7)] Cons.prems(2,3) rem True by (simp add: Let_def)
  next
    case False
    define s1 where "s1 = set_node n ?nd s"
    define s2 where "s2 = s1\<lparr>rs_index := splay (rs_len ops s1) n (rs_index s1)\<rparr>"
    have inv: "rs_inv ok ops s2"
      unfolding s2_def by (rule rs_inv_deleted [OF Cons.prems(1) n Cons.prems(4) s1_def])
    have s2: "rs_nodes s2 = (rs_nodes s)(n := ?nd)" "rs_order s2 = rs_order s" "rs_next_node s2 = rs_next_node s"
      "rs_removed s2 = rs_removed s" by (simp_all add: s2_def s1_def)
    obtain cr where cr: "later_created created (ncreated s n) = Some cr" "\<forall>(k, c)\<in>set cr. actorID c \<noteq> None"
      using later_created_total [OF Cons.prems(6)] ok unfolding node_ok_def by blast
    have "sn_removed ?nd \<noteq> None" using False by (auto simp: mark_deleted_def split: if_splits)
    then have es: "entries_ok s2 (AList.update (node_id_key (nid s n)) n removed)"
      using Cons.prems(7) n(1) set_alist_update [of "node_id_key (nid s n)" n removed]
      by (auto simp: entries_ok_def s2)
    have "(\<lambda>m. if m \<in> set ns then mark_deleted latest t (rs_nodes s2 m) else rs_nodes s2 m) =
        (\<lambda>m. if m \<in> set (n # ns) then mark_deleted latest t (rs_nodes s m) else rs_nodes s m)"
      by (auto simp: s2)
    then show ?thesis
      using Cons.IH [OF inv _ _ Cons.prems(4,5) cr(2) es] Cons.prems(2,3) rem False cr(1) s2
      by (simp add: Let_def s2_def s1_def)
  qed
qed simp

section \<open>Cleaning up\<close>

lemma ins_unlink_simps [simp]:
  "rs_order (ins_unlink n s) = rs_order s" "rs_next_node (ins_unlink n s) = rs_next_node s"
  "rs_index (ins_unlink n s) = rs_index s" "rs_by_id (ins_unlink n s) = rs_by_id s"
  "rs_removed (ins_unlink n s) = rs_removed s"
  "sn_id (rs_nodes (ins_unlink n s) q) = sn_id (rs_nodes s q)"
  "sn_value (rs_nodes (ins_unlink n s) q) = sn_value (rs_nodes s q)"
  "sn_removed (rs_nodes (ins_unlink n s) q) = sn_removed (rs_nodes s q)"
  "q \<noteq> n \<Longrightarrow> sn_ins_prev (rs_nodes (ins_unlink n s) q) =
     (if sn_ins_next (rs_nodes s n) = Some q then sn_ins_prev (rs_nodes s n) else sn_ins_prev (rs_nodes s q))"
  "q \<noteq> n \<Longrightarrow> sn_ins_next (rs_nodes (ins_unlink n s) q) =
     (if sn_ins_prev (rs_nodes s n) = Some q then sn_ins_next (rs_nodes s n) else sn_ins_next (rs_nodes s q))"
  by (simp_all add: ins_unlink_def Let_def split: option.splits)

lemma ins_ok_unlink:
  assumes "ins_ok s" "inj_on (nid s) (set (rs_order s))" "n \<in> set (rs_order s)"
    "set (rs_order s') = set (rs_order s) - {n}"
    "\<And>q. nid s' q = nid s q"
    "\<And>q. q \<noteq> n \<Longrightarrow> sn_ins_prev (rs_nodes s' q) =
       (if sn_ins_next (rs_nodes s n) = Some q then sn_ins_prev (rs_nodes s n) else sn_ins_prev (rs_nodes s q))"
    "\<And>q. q \<noteq> n \<Longrightarrow> sn_ins_next (rs_nodes s' q) =
       (if sn_ins_prev (rs_nodes s n) = Some q then sn_ins_next (rs_nodes s n) else sn_ins_next (rs_nodes s q))"
  shows "ins_ok s'"
proof -
  let ?N = "set (rs_order s)" and ?f = "nid s"
  have prev: "sn_ins_prev (rs_nodes s q) = Some p \<longleftrightarrow> block_before ?f ?N p q"
    and "next": "sn_ins_next (rs_nodes s q) = Some p \<longleftrightarrow> block_before ?f ?N q p" if "q \<in> ?N" for p q
    using assms(1) that unfolding ins_ok_def by blast+
  have irr: "\<not> block_before ?f ?N p p" for p by (simp add: block_before_def)
  note uq = block_before_unique [OF _ _ assms(2)]
  show ?thesis
    unfolding ins_ok_def assms(4,5) block_before_remove [OF assms(2,3)]
  proof (intro ballI allI conjI)
    fix q p assume "q \<in> ?N - {n}"
    then have q: "q \<in> ?N" "q \<noteq> n" by simp_all
    show "sn_ins_prev (rs_nodes s' q) = Some p \<longleftrightarrow>
      p \<noteq> n \<and> q \<noteq> n \<and> (block_before ?f ?N p q \<or> block_before ?f ?N p n \<and> block_before ?f ?N n q)"
    proof (cases "block_before ?f ?N n q")
      case True
      then show ?thesis
        using q prev [OF assms(3), of p] "next" [OF assms(3), of q] uq(1) [OF True, of p] irr
        by (auto simp: assms(6))
    qed (use q prev [OF q(1), of p] "next" [OF assms(3), of q] in \<open>auto simp: assms(6)\<close>)
    show "sn_ins_next (rs_nodes s' q) = Some p \<longleftrightarrow>
      q \<noteq> n \<and> p \<noteq> n \<and> (block_before ?f ?N q p \<or> block_before ?f ?N q n \<and> block_before ?f ?N n p)"
    proof (cases "block_before ?f ?N q n")
      case True
      then show ?thesis
        using q prev [OF assms(3), of q] "next" [OF assms(3), of p] uq(2) [OF True, of p] irr
        by (auto simp: assms(7))
    qed (use q prev [OF assms(3), of q] "next" [OF q(1), of p] in \<open>auto simp: assms(7)\<close>)
  qed
qed

text \<open>Taking out one removed node.\<close>

definition purge_step :: "'v value_ops \<Rightarrow> nat \<Rightarrow> 'v split_list \<Rightarrow> 'v split_list option" where
  "purge_step ops n s = do {
     let s = s\<lparr>rs_index := splay_delete (rs_len ops s) n (rs_index s)\<rparr>;
     s \<leftarrow> split_purge n s;
     by_id \<leftarrow> tree_remove (rs_by_id s) (sn_id (rs_nodes s n));
     Some (s\<lparr>rs_by_id := by_id,
             rs_removed := AList.delete (node_id_key (sn_id (rs_nodes s n))) (rs_removed s)\<rparr>) }"

lemma purge_step_correct:
  assumes inv: "rs_inv ok ops s" and n: "n \<in> set (rs_order s)" "sn_removed (rs_nodes s n) \<noteq> None"
  obtains s' where "purge_step ops n s = Some s'" "rs_inv ok ops s'" "rs_order s' = remove1 n (rs_order s)"
    "rs_removed s' = AList.delete (node_id_key (nid s n)) (rs_removed s)"
    "\<And>q. nid s' q = nid s q \<and> sn_removed (rs_nodes s' q) = sn_removed (rs_nodes s q) \<and>
       sn_value (rs_nodes s' q) = sn_value (rs_nodes s q)"
proof -
  note o = rs_invD(1) [OF inv] and t = rs_invD(2) [OF inv] and b = rs_invD(3) [OF inv]
  have nh: "n \<noteq> initial_head" using n(2) blocks_ok_head(3) [OF b] by auto
  obtain as bs where x: "rs_order s = as @ n # bs" "n \<notin> set as" using split_at_mem [OF n(1)] by blast
  have as: "as \<noteq> []" using head_split(1) [OF o x(1)] nh by simp
  have d: "distinct (rs_order s)" by (rule order_okD(1) [OF o])
  define s1 where "s1 = s\<lparr>rs_index := splay_delete (rs_len ops s) n (rs_index s)\<rparr>"
  define s2 where "s2 = ins_unlink n (s1\<lparr>rs_order := remove1 n (rs_order s)\<rparr>)"
  have s2: "split_purge n s1 = Some s2"
    using x as by (simp add: split_purge_def s2_def s1_def pred_of_mid)
  have nodes: "nid s2 q = nid s q" "sn_value (rs_nodes s2 q) = sn_value (rs_nodes s q)"
    "sn_removed (rs_nodes s2 q) = sn_removed (rs_nodes s q)" for q by (simp_all add: s2_def s1_def)
  have "nid s n \<in> dom (llrb_map (rs_by_id s))" using trees_okD(4) [OF t, of "nid s n" n] n(1) by auto
  then obtain m where m: "tree_remove (rs_by_id s) (nid s n) = Some m" "llrb_inv m"
    "llrb_map m = (llrb_map (rs_by_id s))(nid s n := None)"
    using tree_remove_correct [OF trees_okD(3) [OF t]] by blast
  define s' where "s' = s2\<lparr>rs_by_id := m, rs_removed := AList.delete (node_id_key (nid s n)) (rs_removed s)\<rparr>"
  have step: "purge_step ops n s = Some s'"
    using s2 m(1) by (simp add: purge_step_def s1_def [symmetric] nodes Let_def)
      (simp add: s'_def s2_def s1_def)
  have s': "rs_order s' = remove1 n (rs_order s)" "rs_by_id s' = m" "rs_next_node s' = rs_next_node s"
    "rs_index s' = splay_delete (rs_len ops s) n (rs_index s)"
    "rs_removed s' = AList.delete (node_id_key (nid s n)) (rs_removed s)" "rs_nodes s' = rs_nodes s2"
    by (simp_all add: s'_def s2_def s1_def)
  have mem: "set (rs_order s') = set (rs_order s) - {n}" using d by (simp add: s')
  have hd: "hd (rs_order s') = hd (rs_order s)" "rs_order s' \<noteq> []" "initial_head \<in> set (rs_order s')"
    using as x order_okD(4) [OF o] nh unfolding mem by (auto simp: s' remove1_append)
  have len: "rs_len ops s' = rs_len ops s"
    by (simp add: fun_eq_iff rs_len_def split_node_len_def content_len_def s'(6) nodes)
  have "order_ok s'" using o d hd by (auto simp: order_ok_def s')
  moreover have "trees_ok ops s'"
    unfolding trees_ok_def len s'(2,4)
  proof (intro conjI allI)
    show "splay_inv (rs_len ops s) (splay_delete (rs_len ops s) n (rs_index s))"
      "splay_inorder (splay_delete (rs_len ops s) n (rs_index s)) = rs_order s'"
      using splay.remove_inv [OF trees_okD(1) [OF t], of n] trees_okD(2) [OF t] n(1) s'(1) by simp_all
    show "llrb_map m i = Some q \<longleftrightarrow> q \<in> set (rs_order s') \<and> nid s' q = i" for i q
      using trees_okD(4) [OF t, of i q] trees_okD(4) [OF t, of i n] n(1) nid_inj [OF t _ n(1), of q]
      unfolding mem m(3) s'(6) nodes by auto
  qed (rule m(2))
  moreover have "blocks_ok ok ops s'"
  proof -
    have same: "node_ok ok (rs_nodes s' q) = node_ok ok (rs_nodes s q)" "clen ops s' q = clen ops s q"
      "nid s' q = nid s q" "sn_removed (rs_nodes s' q) = sn_removed (rs_nodes s q)" for q
      by (simp_all add: node_ok_def content_len_def s'(6) nodes)
    show ?thesis
      using b unfolding blocks_ok_def mem same by (elim conjE, intro conjI) blast+
  qed
  moreover have "ins_ok s'"
    by (rule ins_ok_unlink [OF rs_invD(4) [OF inv] inj_onI n(1) mem])
      (use nid_inj [OF t] in \<open>auto simp: s'(6) nodes s2_def s1_def\<close>)
  moreover have "removed_ok s'"
  proof -
    have "distinct (map fst (rs_removed s'))"
      using rs_invD(5) [OF inv] by (simp add: s' removed_ok_def distinct_delete)
    moreover have "(k, q) \<in> set (rs_removed s) \<and> k \<noteq> node_id_key (nid s n)" if "(k, q) \<in> set (rs_removed s')" for k q
      using that by (auto simp: s' AList.delete_eq)
    ultimately show ?thesis
      using rs_invD(5) [OF inv] unfolding removed_ok_def mem s'(6) nodes by fastforce
  qed
  ultimately have "rs_inv ok ops s'" by (simp add: rs_inv_def)
  then show ?thesis using that [OF step] s' nodes by simp
qed

lemma cleanup_entries_step:
  "cleanup_entries ops t ((k, n) # es) s c = do {
     due \<leftarrow> (case sn_removed (rs_nodes s n) of
               None \<Rightarrow> Some False | Some u \<Rightarrow> do { c \<leftarrow> ticket_compare t u; Some (c \<ge> 0) });
     if due then do { s \<leftarrow> purge_step ops n s; cleanup_entries ops t es s (c + 1) }
     else cleanup_entries ops t es s c }"
proof -
  have "bind (purge_step ops n s) (\<lambda>s. cleanup_entries ops t es s (c + 1)) =
      do {
        let s = s\<lparr>rs_index := splay_delete (rs_len ops s) n (rs_index s)\<rparr>;
        s \<leftarrow> split_purge n s;
        by_id \<leftarrow> tree_remove (rs_by_id s) (sn_id (rs_nodes s n));
        let s = s\<lparr>rs_by_id := by_id,
                  rs_removed := AList.delete (node_id_key (sn_id (rs_nodes s n))) (rs_removed s)\<rparr>;
        cleanup_entries ops t es s (c + 1) }"
    by (simp add: purge_step_def Let_def bind_assoc split: bind_split)
  then show ?thesis by (auto simp: Let_def split: option.splits bind_split)
qed

text \<open>The entries that are due at \<open>t\<close>.\<close>

definition due_entry :: "'v split_list \<Rightarrow> ticket \<Rightarrow> string \<times> nat \<Rightarrow> bool" where
  "due_entry s t e \<longleftrightarrow> (\<exists>u. sn_removed (rs_nodes s (snd e)) = Some u \<and> u \<le> t)"

lemma cleanup_entries_correct:
  assumes "rs_inv ok ops s" "set es \<subseteq> set (rs_removed s)" "distinct (map fst es)" "actorID t \<noteq> None"
  shows "\<exists>s'. cleanup_entries ops t es s c = Some (s', c + int (length (filter (due_entry s t) es))) \<and>
    rs_inv ok ops s' \<and> rs_order s' = filter (\<lambda>n. n \<notin> snd ` set (filter (due_entry s t) es)) (rs_order s) \<and>
    (\<forall>n. nid s' n = nid s n \<and> sn_removed (rs_nodes s' n) = sn_removed (rs_nodes s n) \<and>
       sn_value (rs_nodes s' n) = sn_value (rs_nodes s n)) \<and>
    rs_removed s' = filter (\<lambda>e. fst e \<notin> fst ` set (filter (due_entry s t) es)) (rs_removed s)"
  using assms
proof (induction es arbitrary: s c)
  case (Cons e es)
  obtain k n where e: "e = (k, n)" by (cases e)
  have n: "n \<in> set (rs_order s)" "sn_removed (rs_nodes s n) \<noteq> None" "k = node_id_key (nid s n)"
    using rs_invD(5) [OF Cons.prems(1)] Cons.prems(2) by (auto simp: removed_ok_def e)
  then obtain u where u: "sn_removed (rs_nodes s n) = Some u" by blast
  have "actorID u \<noteq> None" using blocks_okD(5) [OF rs_invD(3) [OF Cons.prems(1)] n(1) u] .
  then have due: "(case sn_removed (rs_nodes s n) of None \<Rightarrow> Some False
      | Some u \<Rightarrow> do { c \<leftarrow> ticket_compare t u; Some (c \<ge> 0) }) = Some (u \<le> t)"
    using Cons.prems(4) u by (auto simp: ticket_compare_eq)
  show ?case
  proof (cases "u \<le> t")
    case False
    then have "\<not> due_entry s t e" by (simp add: due_entry_def e u)
    then show ?thesis
      using Cons.IH [of s c] Cons.prems False due u
      by (simp add: e cleanup_entries_step del: cleanup_entries.simps)
  next
    case True
    have is_due: "due_entry s t e" using True by (simp add: due_entry_def e u)
    obtain s1 where s1: "purge_step ops n s = Some s1" "rs_inv ok ops s1"
      "rs_order s1 = remove1 n (rs_order s)" "rs_removed s1 = AList.delete k (rs_removed s)"
      and same: "\<And>q. nid s1 q = nid s q \<and> sn_removed (rs_nodes s1 q) = sn_removed (rs_nodes s q) \<and>
        sn_value (rs_nodes s1 q) = sn_value (rs_nodes s q)"
      by (rule purge_step_correct [OF Cons.prems(1) n(1,2)]) (use n(3) that in blast)
    have eq: "due_entry s1 t = due_entry s t" using same by (simp add: fun_eq_iff due_entry_def)
    have "k \<notin> fst ` set es" using Cons.prems(3) by (simp add: e)
    then have sub: "set es \<subseteq> set (rs_removed s1)"
      using Cons.prems(2) by (force simp: s1(4) e AList.delete_eq)
    have d: "distinct (rs_order s)" by (rule order_okD(1) [OF rs_invD(1) [OF Cons.prems(1)]])
    have step: "cleanup_entries ops t (e # es) s c = cleanup_entries ops t es s1 (c + 1)"
      using True due u s1(1) by (simp add: e cleanup_entries_step del: cleanup_entries.simps)
    obtain s' where s': "cleanup_entries ops t es s1 (c + 1) =
        Some (s', c + 1 + int (length (filter (due_entry s t) es)))" "rs_inv ok ops s'"
      "rs_order s' = filter (\<lambda>n. n \<notin> snd ` set (filter (due_entry s t) es)) (rs_order s1)"
      "\<forall>n. nid s' n = nid s1 n \<and> sn_removed (rs_nodes s' n) = sn_removed (rs_nodes s1 n) \<and>
         sn_value (rs_nodes s' n) = sn_value (rs_nodes s1 n)"
      "rs_removed s' = filter (\<lambda>e. fst e \<notin> fst ` set (filter (due_entry s t) es)) (rs_removed s1)"
      using Cons.IH [OF s1(2) sub _ Cons.prems(4), of "c + 1"] Cons.prems(3) unfolding eq by auto
    have "rs_order s' = filter (\<lambda>n. n \<notin> snd ` set (filter (due_entry s t) (e # es))) (rs_order s)"
      using is_due d by (simp add: s'(3) s1(3) e distinct_remove1_removeAll removeAll_filter_not_eq)
        (rule filter_cong, auto)
    moreover have "rs_removed s' = filter (\<lambda>x. fst x \<notin> fst ` set (filter (due_entry s t) (e # es))) (rs_removed s)"
    proof -
      have "fst ` set (filter (due_entry s t) (e # es)) = insert k (fst ` set (filter (due_entry s t) es))"
        using is_due by (simp add: e)
      moreover have "rs_removed s' =
          filter (\<lambda>e. fst e \<notin> fst ` set (filter (due_entry s t) es)) (filter (\<lambda>e. k \<noteq> fst e) (rs_removed s))"
        unfolding s'(5) s1(4) AList.delete_eq by (simp add: case_prod_unfold)
      ultimately show ?thesis by (simp only: filter_filter) (rule filter_cong, auto)
    qed
    ultimately show ?thesis using step s'(1,2,4) same is_due by simp
  qed
qed simp

section \<open>Cuts and positions\<close>

section \<open>Resolving positions\<close>

definition first_of :: "'a list \<Rightarrow> 'a option" where
  "first_of xs = (case xs of [] \<Rightarrow> None | x # _ \<Rightarrow> Some x)"

lemma succ_of_first: "x \<notin> set as \<Longrightarrow> succ_of (as @ x # bs) x = first_of bs"
  by (simp add: succ_of_mid first_of_def)

lemma seq_find_point:
  assumes "\<And>x. 0 \<le> len x" "0 \<le> i" "i \<le> total len xs" "xs \<noteq> []"
  obtains as x bs where "xs = as @ x # bs" "seq_find len xs i = Some (Some x, i - total len as)"
    "0 \<le> i - total len as" "i - total len as \<le> len x" "as \<noteq> [] \<longrightarrow> total len as < i"
proof -
  have "\<exists>as x bs. xs = as @ x # bs \<and> seq_find len xs i = Some (Some x, i - total len as) \<and>
    0 \<le> i - total len as \<and> i - total len as \<le> len x \<and> (as \<noteq> [] \<longrightarrow> total len as < i)"
    using assms(2-)
  proof (induction xs arbitrary: i)
    case (Cons y ys)
    show ?case
    proof (cases "i \<le> len y")
      case True
      then show ?thesis using Cons.prems by (intro exI [of _ "[]"] exI [of _ y] exI [of _ ys]) simp
    next
      case False
      then have "ys \<noteq> []" using Cons.prems by auto
      then obtain as x bs where "ys = as @ x # bs" "seq_find len ys (i - len y) = Some (Some x, i - len y - total len as)"
        "0 \<le> i - len y - total len as" "i - len y - total len as \<le> len x" "as \<noteq> [] \<longrightarrow> total len as < i - len y"
        using Cons.IH [of "i - len y"] Cons.prems False by auto
      then show ?thesis
        using False by (intro exI [of _ "y # as"] exI [of _ x] exI [of _ bs]) (auto simp: algebra_simps)
    qed
  qed simp
  then show ?thesis using that by blast
qed

text \<open>A position as \<open>findNodePos\<close> makes it: \<open>k\<close> units into the live node \<open>x\<close>.\<close>

definition point :: "'v value_ops \<Rightarrow> 'v split_list \<Rightarrow> nat list \<Rightarrow> nat \<Rightarrow> nat list \<Rightarrow> int \<Rightarrow> bool" where
  "point ops s as x bs k \<longleftrightarrow> rs_order s = as @ x # bs \<and> 0 \<le> k \<and> k \<le> clen ops s x \<and>
     (k = 0 \<longrightarrow> x = initial_head) \<and> sn_removed (rs_nodes s x) = None"

text \<open>Two positions of one chain, the first not after the second.\<close>

lemma prefix_of_points:
  assumes "as @ x # bs = cs @ y # ds" "distinct (as @ x # bs)" "\<not> (\<exists>us. as = cs @ y # us)"
  shows "\<exists>fs. cs @ [y] = as @ x # fs \<and> (fs = [] \<longleftrightarrow> x = y) \<and> bs = fs @ ds"
proof -
  obtain us where "as = cs @ us \<and> us @ x # bs = y # ds \<or> as @ us = cs \<and> x # bs = us @ y # ds"
    using assms(1) by (auto simp: append_eq_append_conv2)
  then show ?thesis
  proof (elim disjE conjE)
    assume "as = cs @ us" "us @ x # bs = y # ds"
    then have "us = []" using assms(3) by (cases us) auto
    then show ?thesis using \<open>as = cs @ us\<close> \<open>us @ x # bs = y # ds\<close> by simp
  next
    assume u: "as @ us = cs" "x # bs = us @ y # ds"
    show ?thesis
    proof (cases us)
      case Nil
      then show ?thesis using u by (intro exI [of _ "[]"]) simp
    next
      case (Cons z zs)
      then have "bs = (zs @ [y]) @ ds" "cs @ [y] = as @ x # (zs @ [y])" "x = z" using u by auto
      moreover have "x \<noteq> y" using assms(2) \<open>bs = (zs @ [y]) @ ds\<close> by auto
      ultimately show ?thesis by (intro exI [of _ "zs @ [y]"]) simp
    qed
  qed
qed

lemma find_between_segment:
  assumes "rs_order s = as @ x # fs @ bs" "distinct (rs_order s)"
  shows "find_between s (first_of (fs @ bs)) (first_of bs) = fs"
proof (cases "fs @ bs")
  case Nil
  then show ?thesis by (simp add: find_between_def first_of_def)
next
  case (Cons z zs)
  have "suffix_from z (rs_order s) = fs @ bs"
    using suffix_from_mid [of z "as @ [x]" zs] assms Cons by auto
  moreover have "takeWhile (\<lambda>n. Some n \<noteq> first_of bs) (fs @ bs) = fs"
  proof -
    have "takeWhile (\<lambda>n. Some n \<noteq> first_of bs) bs = []" by (cases bs) (simp_all add: first_of_def)
    moreover have "\<forall>n\<in>set fs. Some n \<noteq> first_of bs"
      using assms by (cases bs) (auto simp: first_of_def)
    ultimately show ?thesis by simp
  qed
  ultimately show ?thesis using Cons by (simp add: find_between_def first_of_def)
qed

text \<open>What the list relies on.  A cut is allowed before every unit but those of \<open>glued\<close>.\<close>

locale split_value =
  fixes ops :: "'v value_ops" and units :: "'v \<Rightarrow> 'u list" and glued :: "'u \<Rightarrow> bool" and ok :: "'v \<Rightarrow> bool"
  assumes len_nonneg: "0 \<le> val_len ops v"
    and len: "ok v \<Longrightarrow> val_len ops v = int (length (units v))"
    and split: "ok v \<Longrightarrow> 0 < k \<Longrightarrow> k < int (length (units v)) \<Longrightarrow>
      \<exists>a b. val_split ops k v = Some (a, b) \<and> ok a \<and> ok b \<and>
        length (units a) = nat k \<and> length (units b) = length (units v) - nat k \<and>
        (\<not> glued (units v ! nat k) \<longrightarrow> units a = take (nat k) (units v) \<and> units b = drop (nat k) (units v))"
    and copy: "ok v \<Longrightarrow> \<exists>w. val_copy ops v = Some w \<and> ok w \<and> units w = units v"
begin

lemma clen_units: "blocks_ok ok ops s \<Longrightarrow> n \<in> set (rs_order s) \<Longrightarrow>
    clen ops s n = int (length (units (sn_value (rs_nodes s n))))"
  by (simp add: content_len_def len blocks_okD(1))

lemma rs_len_units: "blocks_ok ok ops s \<Longrightarrow> n \<in> set (rs_order s) \<Longrightarrow>
    rs_len ops s n = int (length (node_units units (rs_nodes s n)))"
  by (simp add: rs_len_def split_node_len_def clen_units node_units_def)

lemma total_units: "blocks_ok ok ops s \<Longrightarrow> set ns \<subseteq> set (rs_order s) \<Longrightarrow>
    total (rs_len ops s) ns = int (length (chain_units units s ns))"
  by (induction ns) (simp_all add: rs_len_units)

text \<open>What a split at \<open>k\<close> of the node \<open>x\<close> leaves: the rest of the chain untouched, the text of \<open>x\<close>
  shortened to \<open>k\<close> units, and the rest of it, live, in \<open>ms\<close>.\<close>

definition split_at :: "nat \<Rightarrow> int \<Rightarrow> 'v split_list \<Rightarrow> 'v split_list \<Rightarrow> nat list \<Rightarrow> bool" where
  "split_at x k s s' ms \<longleftrightarrow>
     (\<forall>n\<in>set (rs_order s). nid s' n = nid s n \<and> sn_removed (rs_nodes s' n) = sn_removed (rs_nodes s n) \<and>
        (n \<noteq> x \<longrightarrow> sn_value (rs_nodes s' n) = sn_value (rs_nodes s n))) \<and>
     (\<forall>m\<in>set ms. m \<notin> set (rs_order s) \<and> ncreated s' m = ncreated s x \<and> sn_removed (rs_nodes s' m) = None) \<and>
     clen ops s' x = k \<and>
     (sn_removed (rs_nodes s x) = None \<longrightarrow>
        length (chain_units units s' ms) = nat (clen ops s x - k) \<and>
        (k < clen ops s x \<longrightarrow> \<not> glued (units (sn_value (rs_nodes s x)) ! nat k) \<longrightarrow>
           units (sn_value (rs_nodes s' x)) = take (nat k) (units (sn_value (rs_nodes s x))) \<and>
           chain_units units s' ms = drop (nat k) (units (sn_value (rs_nodes s x)))) \<and>
        (k = clen ops s x \<longrightarrow> ms = [] \<and> s' = s))"

lemma split_node_correct:
  assumes inv: "rs_inv ok ops s" and x: "rs_order s = as @ x # bs" and k: "0 < k" "k < clen ops s x"
  obtains s' m where "split_node ops x k s = Some (s', Some m)" "rs_inv ok ops s'" "split_at x k s s' [m]"
    "rs_order s' = as @ x # m # bs"
proof -
  let ?N = "set (rs_order s)" and ?m = "rs_next_node s" and ?v = "sn_value (rs_nodes s x)"
  note o = rs_invD(1) [OF inv] and t = rs_invD(2) [OF inv] and b = rs_invD(3) [OF inv]
  have xN: "x \<in> ?N" using x by simp
  have xas: "x \<notin> set as" using head_split(2) [OF o x] .
  have inj: "inj_on (nid s) ?N" by (rule inj_onI) (rule nid_inj [OF t])
  have new: "?m \<notin> ?N" by (rule order_okD(5) [OF o])
  have cl: "clen ops s x = int (length (units ?v))" by (rule clen_units [OF b xN])
  obtain a c where sp: "val_split ops k ?v = Some (a, c)" "ok a" "ok c" "length (units a) = nat k"
    "length (units c) = length (units ?v) - nat k"
    "\<not> glued (units ?v ! nat k) \<longrightarrow> units a = take (nat k) (units ?v) \<and> units c = drop (nat k) (units ?v)"
    using split [OF blocks_okD(1) [OF b xN], of k] k cl by auto
  define nd where "nd = new_split_node (node_id_split (nid s x) k) c"
  define s1 where "s1 = set_node x ((rs_nodes s x)\<lparr>sn_value := a\<rparr>) s"
  have s1: "rs_order s1 = rs_order s" "rs_index s1 = rs_index s" "rs_by_id s1 = rs_by_id s"
    "rs_next_node s1 = rs_next_node s" "rs_removed s1 = rs_removed s" by (simp_all add: s1_def)
  have o1: "order_ok s1" using o s1 by (simp add: order_ok_def)
  have fresh: "nid s n \<noteq> node_id_split (nid s x) k" if "n \<in> ?N" for n
    using blocks_okD(8) [OF b xN that] k by (auto simp: node_id_split_def)
  obtain s2 where s2: "rs_insert_after ops x nd s1 = Some (s2, ?m)" "order_ok s2" "trees_ok ops s2"
    "rs_nodes s2 = (rs_nodes s1)(?m := nd)" "rs_order s2 = link_after x ?m (rs_order s)"
    "set (rs_order s2) = insert ?m ?N" "rs_next_node s2 = Suc ?m" "rs_removed s2 = rs_removed s"
  proof (rule rs_insert_after_trees [OF o1 t, of x nd])
    show "x \<in> set (rs_order s1)" using xN s1(1) by simp
    show "nid s1 n = nid s n" for n by (simp add: s1_def)
    show "rs_len ops s1 n = rs_len ops s n" if "n \<noteq> x" for n using that by (simp add: s1_def)
    show "nid s1 n \<noteq> sn_id nd" if "n \<in> set (rs_order s1)" for n
      using fresh [of n] that by (auto simp: s1_def nd_def new_split_node_def)
  qed (use that s1 in simp_all)
  define s3 where "s3 = (case sn_ins_next (rs_nodes s x) of None \<Rightarrow> s2 | Some y \<Rightarrow> set_ins_prev y ?m s2)"
  define s' where "s' = set_ins_prev ?m x s3"
  have same: "rs_order s' = rs_order s2" "rs_index s' = rs_index s2" "rs_by_id s' = rs_by_id s2"
    "rs_next_node s' = rs_next_node s2" "rs_removed s' = rs_removed s2"
    "nid s' q = nid s2 q" "sn_value (rs_nodes s' q) = sn_value (rs_nodes s2 q)"
    "sn_removed (rs_nodes s' q) = sn_removed (rs_nodes s2 q)" for q
    by (simp_all add: s'_def s3_def split: option.splits)
  have order: "rs_order s' = as @ x # ?m # bs" using xas by (simp add: same s2(5) x link_after_mid)
  have "rs_nodes s2 q = (if q = ?m then nd else if q = x then (rs_nodes s x)\<lparr>sn_value := a\<rparr> else rs_nodes s q)" for q
    by (simp add: s2(4) s1_def)
  note f = same this
  have xm: "x \<noteq> ?m" using xN new by blast
  have m: "nid s' ?m = node_id_split (nid s x) k" "sn_removed (rs_nodes s' ?m) = None"
    "sn_value (rs_nodes s' ?m) = c" by (simp_all add: f nd_def new_split_node_def)
  have xv: "sn_value (rs_nodes s' x) = a" using xm by (simp add: f)
  have old: "nid s' n = nid s n \<and> sn_removed (rs_nodes s' n) = sn_removed (rs_nodes s n)" if "n \<in> ?N" for n
    using that new by (auto simp: f)
  have oldv: "sn_value (rs_nodes s' n) = sn_value (rs_nodes s n)" if "n \<in> ?N" "n \<noteq> x" for n
    using that new by (auto simp: f)
  have lens: "clen ops s' x = k" "clen ops s' ?m = clen ops s x - k"
    using k sp cl by (simp_all add: content_len_def m(3) xv len)
  have trees: "trees_ok ops s'"
    by (rule trees_ok_cong [OF s2(3)]) (simp_all add: same rs_len_def split_node_len_def content_len_def)
  have ord: "order_ok s'" using s2(2) by (simp add: order_ok_def same)
  have blocks: "blocks_ok ok ops s'"
    by (rule blocks_ok_split [OF b inj xN new order_okD(4) [OF o], of _ k])
      (use s2(6) old oldv m xv sp(2,3) lens k in \<open>simp_all add: same(1)\<close>)
  have "ins_ok s'"
  proof (rule ins_ok_split [OF rs_invD(4) [OF inv] inj xN new])
    show "set (rs_order s') = insert ?m ?N" by (simp add: same(1) s2(6))
    show "nid s x < nid s' ?m" "ncreated s' ?m = ncreated s x"
      using k by (simp_all add: m node_id_split_def less_node_id_def)
    show "nid s' ?m < nid s q" if "q \<in> ?N" "nid s x < nid s q" for q
      using blocks_okD(8) [OF b xN that(1)] that(2) k by (auto simp: m node_id_split_def less_node_id_def)
    show "sn_ins_prev (rs_nodes s' q) = (if q = ?m then Some x
       else if sn_ins_next (rs_nodes s x) = Some q then Some ?m else sn_ins_prev (rs_nodes s q))" for q
      using new xN f(9) [of q] by (auto simp: s'_def s3_def nd_def new_split_node_def split: option.splits)
    show "sn_ins_next (rs_nodes s' q) = (if q = x then Some ?m
       else if q = ?m then sn_ins_next (rs_nodes s x) else sn_ins_next (rs_nodes s q))" for q
      using new xN f(9) [of q] by (auto simp: s'_def s3_def nd_def new_split_node_def split: option.splits)
  qed (use old in simp_all)
  moreover have "removed_ok s'"
    by (rule removed_ok_mono [OF rs_invD(5) [OF inv]]) (use old s2(6,8) in \<open>auto simp: same\<close>)
  ultimately have "rs_inv ok ops s'" using ord trees blocks by (simp add: rs_inv_def)
  moreover have "split_node ops x k s = Some (s', Some ?m)"
    using k sp(1) s2(1) f(9) [of x] xm
    by (simp add: split_node_def split_node_split_def s'_def s3_def s1_def nd_def Let_def)
  moreover have "split_at x k s s' [?m]"
    using old oldv new m xv lens sp k cl
    by (auto simp: split_at_def node_id_split_def node_units_def nat_diff_distrib)
  ultimately show ?thesis using that order by blast
qed

lemma insert_content_correct:
  assumes inv: "rs_inv ok ops s" and x: "rs_order s = as @ x # bs" and v: "ok v" "0 < val_len ops v"
    and t: "actorID t \<noteq> None" "wf_ticket t" "\<And>n. n \<in> set (rs_order s) \<Longrightarrow> ncreated s n \<noteq> t"
  obtains s' where "rs_insert_after ops x (new_split_node (Node_Id t 0) v) s = Some (s', rs_next_node s)"
    "rs_inv ok ops s'" "rs_order s' = as @ x # rs_next_node s # bs"
    "rs_nodes s' = (rs_nodes s)(rs_next_node s := new_split_node (Node_Id t 0) v)"
    "rs_removed s' = rs_removed s" "rs_next_node s \<notin> set (rs_order s)"
proof -
  let ?N = "set (rs_order s)" and ?m = "rs_next_node s" and ?nd = "new_split_node (Node_Id t 0) v"
  note o = rs_invD(1) [OF inv] and tr = rs_invD(2) [OF inv] and b = rs_invD(3) [OF inv]
  have new: "?m \<notin> ?N" by (rule order_okD(5) [OF o])
  have ne: "nid s n \<noteq> sn_id ?nd" if "n \<in> ?N" for n using t(3) [OF that] by (auto simp: new_split_node_def)
  obtain s' where s': "rs_insert_after ops x ?nd s = Some (s', ?m)" "order_ok s'" "trees_ok ops s'"
    "rs_nodes s' = (rs_nodes s)(?m := ?nd)" "rs_order s' = link_after x ?m (rs_order s)"
    "set (rs_order s') = insert ?m ?N" "rs_removed s' = rs_removed s"
    by (rule rs_insert_after_trees [OF o tr, of x ?nd]) (use ne x that in simp_all)
  have old: "rs_nodes s' n = rs_nodes s n" if "n \<in> ?N" for n using that new by (auto simp: s'(4))
  have m: "ncreated s' ?m = t" "rs_nodes s' ?m = ?nd" by (simp_all add: s'(4) new_split_node_def)
  have "blocks_ok ok ops s'"
    unfolding blocks_ok_def s'(6)
  proof (intro conjI ballI impI)
    show "node_ok ok (rs_nodes s' n)" if "n \<in> insert ?m ?N" for n
      using that b old [of n] v t(1,2) by (auto simp: s'(4) node_ok_def blocks_ok_def new_split_node_def)
    have h: "rs_nodes s' initial_head = rs_nodes s initial_head" by (rule old [OF order_okD(4) [OF o]])
    show "nid s' initial_head = Node_Id initial_ticket 0" "clen ops s' initial_head = 0"
      "sn_removed (rs_nodes s' initial_head) = None" unfolding h by (rule blocks_ok_head [OF b])+
    show "0 < clen ops s' n" if "n \<in> insert ?m ?N" "n \<noteq> initial_head" for n
      using that old [of n] blocks_okD(6) [OF b, of n] m(2) v(2)
      by (auto simp: content_len_def new_split_node_def)
    show "noffset s' n + clen ops s' n \<le> noffset s' q"
      if nq: "n \<in> insert ?m ?N" "q \<in> insert ?m ?N" "ncreated s' n = ncreated s' q" "noffset s' n < noffset s' q" for n q
    proof -
      have "n \<noteq> ?m \<and> q \<noteq> ?m" using nq old t(3) m(1) by (metis insertE less_irrefl)
      then have "n \<in> ?N" "q \<in> ?N" using nq(1,2) by simp_all
      then show ?thesis using blocks_okD(8) [OF b, of n q] nq(3,4) by (simp add: old)
    qed
  qed
  moreover have "ins_ok s'"
  proof -
    have diff: "ncreated s' q \<noteq> ncreated s' ?m" if "q \<in> ?N" for q using t(3) [OF that] old [OF that] m(1) by simp
    have bb: "block_before (nid s') (insert ?m ?N) p q \<longleftrightarrow> block_before (nid s) ?N p q" for p q
      unfolding block_before_fresh [of ?m ?N "nid s'", OF new diff, simplified]
      by (rule block_before_cong) (simp add: old)
    have "\<not> block_before (nid s) ?N p ?m" "\<not> block_before (nid s) ?N ?m p" for p
      using new by (auto simp: block_before_def)
    then show ?thesis
      using rs_invD(4) [OF inv] old m(2) unfolding ins_ok_def s'(6) bb by (auto simp: new_split_node_def)
  qed
  moreover have "removed_ok s'"
    by (rule removed_ok_mono [OF rs_invD(5) [OF inv]]) (use s'(6,7) old in auto)
  ultimately have "rs_inv ok ops s'" using s'(2,3) by (simp add: rs_inv_def)
  moreover have "rs_order s' = as @ x # ?m # bs"
    using head_split(2) [OF o x] by (simp add: s'(5) x link_after_mid)
  ultimately show ?thesis using that s'(1,4,7) new by blast
qed

lemma find_node_pos_correct:
  assumes inv: "rs_inv ok ops s" and i: "0 \<le> i" "i \<le> int (length (rs_units units s))"
  obtains as x bs k where "find_node_pos ops s i = Some (Node_Pos (nid s x) k)" "point ops s as x bs k"
    "i = int (length (chain_units units s as)) + k"
proof -
  note o = rs_invD(1) [OF inv] and t = rs_invD(2) [OF inv] and b = rs_invD(3) [OF inv]
  have nn: "0 \<le> rs_len ops s n" for n by (simp add: rs_len_def split_node_len_def content_len_def len_nonneg)
  have tot: "total (rs_len ops s) ns = int (length (chain_units units s ns))" if "set ns \<subseteq> set (rs_order s)" for ns
    by (rule total_units [OF b that])
  obtain as x bs where x: "rs_order s = as @ x # bs"
    "seq_find (rs_len ops s) (rs_order s) i = Some (Some x, i - total (rs_len ops s) as)"
    "0 \<le> i - total (rs_len ops s) as" "i - total (rs_len ops s) as \<le> rs_len ops s x"
    "as \<noteq> [] \<longrightarrow> total (rs_len ops s) as < i"
  proof (rule seq_find_point [of "rs_len ops s" i "rs_order s"])
    show "i \<le> total (rs_len ops s) (rs_order s)"
      using i(2) by (simp add: tot rs_units_def)
  qed (use nn i(1) order_okD(2) [OF o] that in blast)+
  let ?k = "i - total (rs_len ops s) as"
  have "splay_find (rs_len ops s) (rs_index s) i = Some (Some x, ?k)"
    using splay.find [OF nn trees_okD(1) [OF t]] trees_okD(2) [OF t] order_okD(2) [OF o] x(2) by simp
  then have "find_node_pos ops s i = Some (Node_Pos (nid s x) ?k)" by (simp add: find_node_pos_def)
  moreover have "point ops s as x bs ?k"
  proof -
    have h: "as = [] \<longleftrightarrow> x = initial_head" using head_split(1) [OF o x(1)] by simp
    have live: "sn_removed (rs_nodes s x) = None"
    proof (cases "as = []")
      case True
      then show ?thesis using h blocks_ok_head(3) [OF b] by simp
    next
      case False
      then have "0 < rs_len ops s x" using x(4,5) by simp
      then show ?thesis by (auto simp: rs_len_def split_node_len_def split: if_splits)
    qed
    then have "rs_len ops s x = clen ops s x" by (simp add: rs_len_def split_node_len_def)
    then show ?thesis using x h live by (auto simp: point_def)
  qed
  moreover have "i = int (length (chain_units units s as)) + ?k" 
  proof -
    have "set as \<subseteq> set (rs_order s)" using x(1) by auto
    then show ?thesis by (simp add: tot)
  qed
  ultimately show ?thesis using that by blast
qed

text \<open>A position in a chain without later nodes: the cut is right behind the node.\<close>

lemma find_node_with_split_late:
  assumes inv: "rs_inv ok ops s" and pt: "point ops s as x bs k"
    and late: "actorID t \<noteq> None" "\<And>n. n \<in> set (rs_order s) \<Longrightarrow> ncreated s n < t"
  obtains s' ms where "find_node_with_split ops (Node_Pos (nid s x) k) t s = Some (s', x, first_of (ms @ bs))"
    "rs_inv ok ops s'" "split_at x k s s' ms" "rs_order s' = as @ x # ms @ bs"
    "\<And>n. n \<in> set (rs_order s') \<Longrightarrow> ncreated s' n < t"
proof -
  note o = rs_invD(1) [OF inv] and b = rs_invD(3) [OF inv]
  have x: "rs_order s = as @ x # bs" and k: "0 \<le> k" "k \<le> clen ops s x" "k = 0 \<Longrightarrow> x = initial_head"
    using pt by (simp_all add: point_def)
  have xN: "x \<in> set (rs_order s)" using x by simp
  have floor: "find_floor_node_prefer_to_left s (Node_Id (ncreated s x) (noffset s x + k)) = Some x"
    by (rule find_floor_correct [OF inv xN k])
  have skip: "skip_after s' t y ns = Some y"
    if "\<And>n. n \<in> set ns \<Longrightarrow> ncreated s' n < t \<and> actorID (ncreated s' n) \<noteq> None" for s' :: "'v split_list" and y ns
    using that [of "hd ns"] late(1) by (cases ns) (auto simp: ticket_after_actors)
  have xas: "x \<notin> set as" by (rule head_split(2) [OF o x])
  show ?thesis
  proof (cases "k = clen ops s x")
    case True
    have "\<exists>r. split_node ops x k s = Some (s, r)" using True by (auto simp: split_node_def Let_def)
    moreover have "skip_after s t x bs = Some x"
      by (rule skip) (use late(2) blocks_okD(2) [OF b] x in auto)
    then have "skip_after s t x (following (rs_order s) x) = Some x" using x xas by (simp add: following_mid)
    ultimately have "find_node_with_split ops (Node_Pos (nid s x) k) t s = Some (s, x, first_of ([] @ bs))"
      using floor xas by (auto simp: find_node_with_split_def absolute_id_def Let_def x succ_of_first)
    moreover have "split_at x k s s []" using True by (simp add: split_at_def)
    ultimately show ?thesis using that [of s "[]"] inv x late(2) by simp
  next
    case False
    then have lt: "k < clen ops s x" and pos: "0 < k"
      using k blocks_ok_head(2) [OF b] by (auto simp: less_le)
    obtain s' m where s': "split_node ops x k s = Some (s', Some m)" "rs_inv ok ops s'" "split_at x k s s' [m]"
      "rs_order s' = as @ x # m # bs"
      by (rule split_node_correct [OF inv x pos lt])
    have cr: "ncreated s' n < t" if n: "n \<in> set (rs_order s')" for n
      using n late(2) [of n] late(2) [OF xN] s'(3) x unfolding s'(4) split_at_def by auto
    have "skip_after s' t x (m # bs) = Some x"
      by (rule skip) (use cr blocks_okD(2) [OF rs_invD(3) [OF s'(2)]] s'(4) in auto)
    then have "skip_after s' t x (following (rs_order s') x) = Some x"
      using s'(4) xas by (simp add: following_mid)
    then have "find_node_with_split ops (Node_Pos (nid s x) k) t s = Some (s', x, first_of ([m] @ bs))"
      using floor xas s'(1) by (simp add: find_node_with_split_def absolute_id_def Let_def s'(4) succ_of_first)
    then show ?thesis using that [of s' "[m]"] s' cr by simp
  qed
qed

definition cuttable :: "int \<Rightarrow> 'u list \<Rightarrow> bool" where
  "cuttable i us \<longleftrightarrow> (i < int (length us) \<longrightarrow> \<not> glued (us ! nat i))"

lemma split_at_chain:
  assumes inv: "rs_inv ok ops s" and inv': "rs_inv ok ops s'" and pt: "point ops s as x bs k" and i: "i = int (length (chain_units units s as)) + k"
    and sp: "split_at x k s s' ms" "rs_order s' = as @ x # ms @ bs"
  shows "\<And>n. n \<in> set (rs_order s) \<Longrightarrow> n \<noteq> x \<Longrightarrow> node_units units (rs_nodes s' n) = node_units units (rs_nodes s n)"
    "length (chain_units units s' (as @ [x])) = nat i" "i \<le> int (length (rs_units units s))"
    "length (chain_units units s' (ms @ bs)) = length (rs_units units s) - nat i"
    "cuttable i (rs_units units s) \<Longrightarrow> chain_units units s' (as @ [x]) = take (nat i) (rs_units units s) \<and>
       chain_units units s' (ms @ bs) = drop (nat i) (rs_units units s)"
proof -
  note o = rs_invD(1) [OF inv] and b = rs_invD(3) [OF inv]
  have x: "rs_order s = as @ x # bs" and k: "0 \<le> k" "k \<le> clen ops s x" and live: "sn_removed (rs_nodes s x) = None"
    using pt by (simp_all add: point_def)
  have xN: "x \<in> set (rs_order s)" using x by simp
  let ?A = "chain_units units s as" and ?X = "units (sn_value (rs_nodes s x))" and ?B = "chain_units units s bs"
  have U: "rs_units units s = ?A @ ?X @ ?B" by (simp add: rs_units_def x node_units_def live)
  have cx: "clen ops s x = int (length ?X)" by (rule clen_units [OF b xN])
  show same: "node_units units (rs_nodes s' n) = node_units units (rs_nodes s n)" if "n \<in> set (rs_order s)" "n \<noteq> x" for n
    using sp(1) that by (auto simp: split_at_def node_units_def)
  have A: "chain_units units s' as = ?A" and B: "chain_units units s' bs = ?B"
    using same x head_split(2,3) [OF o x] by (auto intro!: chain_units_cong)
  have x': "sn_removed (rs_nodes s' x) = None" using sp(1) xN live by (simp add: split_at_def)
  have lx: "length (units (sn_value (rs_nodes s' x))) = nat k"
  proof -
    have "clen ops s' x = k" using sp(1) by (simp add: split_at_def)
    then show ?thesis using sp(2) clen_units [OF rs_invD(3) [OF inv'], of x] by simp
  qed
  show "length (chain_units units s' (as @ [x])) = nat i"
    using k(1) i by (simp add: A node_units_def x' lx nat_add_distrib)
  show "i \<le> int (length (rs_units units s))" using i k cx by (simp add: U)
  show "length (chain_units units s' (ms @ bs)) = length (rs_units units s) - nat i"
    using sp(1) live k i cx by (simp add: split_at_def B U nat_add_distrib nat_diff_distrib)
  assume cut: "cuttable i (rs_units units s)"
  have ni: "nat i = length ?A + nat k" using i k(1) by (simp add: nat_add_distrib)
  have X: "units (sn_value (rs_nodes s' x)) = take (nat k) ?X" and M: "chain_units units s' ms = drop (nat k) ?X"
  proof -
    have "\<not> glued (?X ! nat k)" if lt: "k < clen ops s x"
    proof -
      have "nat k < length ?X" using lt k(1) cx by simp
      then have "rs_units units s ! nat i = ?X ! nat k" by (simp add: U ni nth_append)
      moreover have "i < int (length (rs_units units s))" using lt i cx by (simp add: U)
      ultimately show ?thesis using cut by (simp add: cuttable_def)
    qed
    then show "units (sn_value (rs_nodes s' x)) = take (nat k) ?X" "chain_units units s' ms = drop (nat k) ?X"
      using sp(1) live k(2) cx by (auto simp: split_at_def less_le)
  qed
  show "chain_units units s' (as @ [x]) = take (nat i) (rs_units units s) \<and>
       chain_units units s' (ms @ bs) = drop (nat i) (rs_units units s)"
    using k cx by (simp add: A B X M U ni node_units_def x')
qed

lemma point_after_split:
  assumes inv: "rs_inv ok ops s" and p: "point ops s as x bs k" and q: "point ops s cs y ds l"
    and le: "int (length (chain_units units s as)) + k \<le> int (length (chain_units units s cs)) + l"
    and sp: "split_at y l s s' ms" "rs_order s' = cs @ y # ms @ ds"
  obtains fs where "point ops s' as x (fs @ ms @ ds) k" "cs @ [y] = as @ x # fs" "nid s' x = nid s x"
    "length (chain_units units s' as) = length (chain_units units s as)"
proof -
  note o = rs_invD(1) [OF inv] and b = rs_invD(3) [OF inv]
  have x: "rs_order s = as @ x # bs" and k: "0 \<le> k" "k \<le> clen ops s x" "k = 0 \<longrightarrow> x = initial_head"
    and y: "rs_order s = cs @ y # ds" and l: "0 \<le> l" "l \<le> clen ops s y"
    and live: "sn_removed (rs_nodes s x) = None" "sn_removed (rs_nodes s y) = None"
    using p q by (simp_all add: point_def)
  have yN: "y \<in> set (rs_order s)" using y by simp
  have xN: "x \<in> set (rs_order s)" using x by simp
  have "\<not> (\<exists>us. as = cs @ y # us)"
  proof
    assume "\<exists>us. as = cs @ y # us"
    then obtain us where us: "as = cs @ y # us" by blast
    then have "0 < k" using k head_split(1) [OF o x] by (auto simp: less_le)
    then show False
      using le l us clen_units [OF b yN] by (simp add: node_units_def live)
  qed
  then obtain fs where fs: "cs @ [y] = as @ x # fs" "fs = [] \<longleftrightarrow> x = y" "bs = fs @ ds"
    using prefix_of_points [of as x bs cs y ds] x y order_okD(1) [OF o] by metis
  have same: "sn_value (rs_nodes s' n) = sn_value (rs_nodes s n) \<and> sn_removed (rs_nodes s' n) = sn_removed (rs_nodes s n)"
    if "n \<in> set (rs_order s)" "n \<noteq> y" for n
    using sp(1) that by (simp add: split_at_def)
  have "y \<notin> set as"
  proof
    assume "y \<in> set as"
    then have "x \<noteq> y" using head_split(2) [OF o x] by blast
    then have "fs \<noteq> []" "last fs = y" using fs(1,2) by (metis, metis last.simps last_appendR last_snoc list.discI)
    then have "y \<in> set fs" by auto
    then show False using \<open>y \<in> set as\<close> head_split(4) [OF o x] fs(3) by auto
  qed
  have A: "chain_units units s' as = chain_units units s as"
  proof (rule chain_units_cong)
    fix n assume "n \<in> set as"
    then have "n \<in> set (rs_order s)" "n \<noteq> y" using x \<open>y \<notin> set as\<close> by auto
    then show "node_units units (rs_nodes s' n) = node_units units (rs_nodes s n)"
      using same by (simp add: node_units_def)
  qed
  have "k \<le> clen ops s' x"
  proof (cases "x = y")
    case True
    then have "cs = as" using fs(1,2) by simp
    then show ?thesis using le sp(1) True by (simp add: split_at_def)
  next
    case False
    then show ?thesis using same [OF xN] k(2) by (simp add: content_len_def)
  qed
  moreover have "rs_order s' = as @ x # fs @ ms @ ds" using sp(2) fs(1) by (metis append.assoc append_Cons append_Nil)
  moreover have "sn_removed (rs_nodes s' x) = None" "nid s' x = nid s x"
    using sp(1) xN live by (simp_all add: split_at_def)
  ultimately have "point ops s' as x (fs @ ms @ ds) k" using k by (simp add: point_def)
  then show ?thesis using that fs(1) A \<open>nid s' x = nid s x\<close> by simp
qed

lemma rs_edit_correct:
  assumes inv: "rs_inv ok ops s" and ij: "0 \<le> i" "i \<le> j" "j \<le> int (length (rs_units units s))"
    and v: "ok v" and t: "actorID t \<noteq> None" "wf_ticket t" "\<And>n. n \<in> set (rs_order s) \<Longrightarrow> ncreated s n < t"
  obtains p q s' caret created where "create_range ops s i j = Some (p, q)"
    "rs_edit ops p q None v t s = Some (s', caret, created)" "rs_inv ok ops s'"
    "\<And>n. n \<in> set (rs_order s') \<Longrightarrow> ncreated s' n \<le> t"
    "int (length (rs_units units s')) = int (length (rs_units units s)) - (j - i) + int (length (units v))"
    "cuttable i (rs_units units s) \<Longrightarrow> cuttable j (rs_units units s) \<Longrightarrow>
       rs_units units s' = take (nat i) (rs_units units s) @ units v @ drop (nat j) (rs_units units s)"
proof -
  let ?U = "rs_units units s"
  have i': "i \<le> int (length ?U)" and j': "0 \<le> j" using ij by simp_all
  obtain as x bs k where fp: "find_node_pos ops s i = Some (Node_Pos (nid s x) k)"
    and px: "point ops s as x bs k" and ik: "i = int (length (chain_units units s as)) + k"
    by (rule find_node_pos_correct [OF inv ij(1) i'])
  obtain cs y ds l where fq: "i \<noteq> j \<Longrightarrow> find_node_pos ops s j = Some (Node_Pos (nid s y) l)"
    "i = j \<Longrightarrow> Node_Pos (nid s y) l = Node_Pos (nid s x) k"
    and py: "point ops s cs y ds l" and jl: "j = int (length (chain_units units s cs)) + l"
  proof (cases "i = j")
    case True
    show ?thesis by (rule that [of x k as bs]) (use True px ik in blast)+
  next
    case False
    show ?thesis
      by (rule find_node_pos_correct [OF inv j' ij(3)], rule that) (use False in blast)+
  qed
  have range: "create_range ops s i j = Some (Node_Pos (nid s x) k, Node_Pos (nid s y) l)"
    using fp fq by (auto simp: create_range_def)
  obtain s1 ms where r1: "find_node_with_split ops (Node_Pos (nid s y) l) t s = Some (s1, y, first_of (ms @ ds))"
    and inv1: "rs_inv ok ops s1" and sp1: "split_at y l s s1 ms" and o1: "rs_order s1 = cs @ y # ms @ ds"
    and late1: "\<And>n. n \<in> set (rs_order s1) \<Longrightarrow> ncreated s1 n < t"
    by (rule find_node_with_split_late [OF inv py t(1)]) (use t(3) that in blast)+
  note c1 = split_at_chain [OF inv inv1 py jl sp1 o1]
  let ?R = "ms @ ds"
  obtain fs where p1: "point ops s1 as x (fs @ ?R) k" and fs: "cs @ [y] = as @ x # fs"
    and nx: "nid s1 x = nid s x" and la: "length (chain_units units s1 as) = length (chain_units units s as)"
    using point_after_split [OF inv px py _ sp1 o1] ik jl ij(2) by metis
  have ik1: "i = int (length (chain_units units s1 as)) + k" using ik la by simp
  obtain s2 ks where r2: "find_node_with_split ops (Node_Pos (nid s1 x) k) t s1 = Some (s2, x, first_of (ks @ fs @ ?R))"
    and inv2: "rs_inv ok ops s2" and sp2: "split_at x k s1 s2 ks" and o2: "rs_order s2 = as @ x # ks @ fs @ ?R"
    and late2: "\<And>n. n \<in> set (rs_order s2) \<Longrightarrow> ncreated s2 n < t"
    by (rule find_node_with_split_late [OF inv1 p1 t(1)]) (use late1 that in blast)+
  note c2 = split_at_chain [OF inv1 inv2 p1 ik1 sp2 o2]
  let ?D = "ks @ fs"
  have o2': "rs_order s2 = as @ x # ?D @ ?R" using o2 by simp
  note d2 = head_split [OF rs_invD(1) [OF inv2] o2']
  have U1: "rs_units units s1 = chain_units units s1 (cs @ [y]) @ chain_units units s1 ?R"
    by (simp add: rs_units_def o1)
  have R2: "chain_units units s2 ?R = chain_units units s1 ?R"
  proof (rule chain_units_cong)
    fix n assume n: "n \<in> set ?R"
    then have "n \<noteq> x" "n \<in> set (rs_order s1)" using d2(3) o1 by auto
    then show "node_units units (rs_nodes s2 n) = node_units units (rs_nodes s1 n)" by (intro c2(1))
  qed
  have between: "find_between s2 (first_of (?D @ ?R)) (first_of ?R) = ?D"
    by (rule find_between_segment [OF o2' order_okD(1) [OF rs_invD(1) [OF inv2]]])
  have D: "set ?D \<subseteq> set (rs_order s2)" "initial_head \<notin> set ?D"
  proof -
    show "set ?D \<subseteq> set (rs_order s2)" using o2 by auto
    have "initial_head \<in> set (as @ [x])"
      using order_okD(3) [OF rs_invD(1) [OF inv2]] o2' by (cases as) auto
    then show "initial_head \<notin> set ?D" using d2(3,4) by auto
  qed
  obtain s3 created removed where del: "delete_nodes ops None t ?D s2 [] [] = Some (s3, created, removed)"
    and inv3: "rs_inv ok ops s3" and s3: "rs_order s3 = rs_order s2" "rs_removed s3 = rs_removed s2"
    "rs_nodes s3 = (\<lambda>n. if n \<in> set ?D then mark_deleted None t (rs_nodes s2 n) else rs_nodes s2 n)"
    and es: "entries_ok s3 removed"
    using delete_nodes_correct [OF inv2 D t(1), of None "[]" "[]"] by (auto simp: latest_ok_def entries_ok_def)
  have keep: "nid s3 n = nid s2 n" for n by (simp add: s3(3))
  have gone: "chain_units units s3 ?D = []"
  proof -
    have "sn_removed (rs_nodes s3 n) \<noteq> None" if "n \<in> set ?D" for n
      using that max_ticket_greatest [OF blocks_okD(3) [OF rs_invD(3) [OF inv2], of n]] D(1)
      by (auto simp: s3(3) mark_deleted_removed(3) latest_created_at_def)
    then show ?thesis by (simp add: chain_units_def node_units_def)
  qed
  have rest: "chain_units units s3 ns = chain_units units s2 ns" if "set ns \<inter> set ?D = {}" for ns
    by (rule chain_units_cong) (use that in \<open>auto simp: s3(3)\<close>)
  have seg: "chain_units units s3 (as @ [x]) = chain_units units s2 (as @ [x])"
    "chain_units units s3 ?R = chain_units units s1 ?R"
    using rest [of "as @ [x]"] rest [of ?R] d2(3-6) R2 by auto
  obtain s4 caret where ins: "(if val_len ops v > 0
        then do {
          (s, n) \<leftarrow> rs_insert_after ops x (new_split_node (Node_Id t 0) v) s3;
          Some (s, Node_Pos (nid s n) (clen ops s n)) }
        else Some (s3, Node_Pos (nid s3 (case first_of ?R of None \<Rightarrow> y | Some n \<Rightarrow> n)) 0)) = Some (s4, caret)"
    and inv4: "rs_inv ok ops s4" and r4: "rs_removed s4 = rs_removed s3"
    and u4: "rs_units units s4 = chain_units units s3 (as @ [x]) @ units v @ chain_units units s3 ?R"
    and t4: "\<And>n. n \<in> set (rs_order s4) \<Longrightarrow> ncreated s4 n \<le> t"
    and e4: "entries_ok s4 removed"
  proof (cases "val_len ops v > 0")
    case True
    obtain s4 where s4: "rs_insert_after ops x (new_split_node (Node_Id t 0) v) s3 = Some (s4, rs_next_node s3)"
      "rs_inv ok ops s4" "rs_order s4 = as @ x # rs_next_node s3 # ?D @ ?R"
      "rs_nodes s4 = (rs_nodes s3)(rs_next_node s3 := new_split_node (Node_Id t 0) v)"
      "rs_removed s4 = rs_removed s3" "rs_next_node s3 \<notin> set (rs_order s3)"
      by (rule insert_content_correct [OF inv3 _ v True t(1,2), of as x "?D @ ?R"])
        (use s3(1) o2' late2 keep in \<open>auto dest: less_imp_neq\<close>)
    have new: "chain_units units s4 ns = chain_units units s3 ns" if "set ns \<subseteq> set (rs_order s3)" for ns
      by (rule chain_units_cong) (use that s4(4,6) in auto)
    have "rs_units units s4 = chain_units units s3 (as @ [x]) @ units v @ chain_units units s3 ?D @ chain_units units s3 ?R"
    proof -
      have "node_units units (rs_nodes s4 (rs_next_node s3)) = units v"
        by (simp add: s4(4) new_split_node_def node_units_def)
      then have "rs_units units s4 =
          chain_units units s4 (as @ [x]) @ units v @ chain_units units s4 ?D @ chain_units units s4 ?R"
        by (simp add: rs_units_def s4(3))
      moreover have "set (as @ [x]) \<subseteq> set (rs_order s3)" "set ?D \<subseteq> set (rs_order s3)" "set ?R \<subseteq> set (rs_order s3)"
        using s3(1) o2' by auto
      ultimately show ?thesis by (simp only: new)
    qed
    moreover have "ncreated s4 n \<le> t" if "n \<in> set (rs_order s4)" for n
      using that late2 [of n] keep [of n] o2' by (auto simp: s4(3,4) new_split_node_def intro: less_imp_le)
    moreover have "entries_ok s4 removed"
    proof (rule entries_ok_mono [OF es])
      show "set (rs_order s3) \<subseteq> set (rs_order s4)" using s3(1) o2' s4(3) by auto
      show "rs_nodes s4 n = rs_nodes s3 n" if "n \<in> set (rs_order s3)" for n using that s4(4,6) by auto
    qed
    ultimately show ?thesis
      by (intro that [of s4]) (use s4(1,2,5) True gone in \<open>simp_all add: content_len_def\<close>)
  next
    case False
    then have "units v = []" using len [OF v] by simp
    moreover have "rs_units units s3 = chain_units units s3 (as @ [x]) @ chain_units units s3 ?D @ chain_units units s3 ?R"
      by (simp add: rs_units_def s3(1) o2')
    ultimately show ?thesis
      by (intro that [of s3]) (use False inv3 late2 keep es gone in \<open>simp_all add: s3(1) less_imp_le\<close>)
  qed
  define s' where "s' = s4\<lparr>rs_removed := fold (\<lambda>(k, n) m. AList.update k n m) removed (rs_removed s4)\<rparr>"
  have edit: "rs_edit ops (Node_Pos (nid s x) k) (Node_Pos (nid s y) l) None v t s = Some (s', caret, created)"
    using r1 r2 between del ins nx by (simp add: rs_edit_def Let_def s'_def)
  have s': "rs_nodes s' = rs_nodes s4" "rs_order s' = rs_order s4" by (simp_all add: s'_def)
  have "removed_ok s'"
  proof -
    have "distinct (map fst (rs_removed s4))" "entries_ok s4 (rs_removed s4)"
      using rs_invD(5) [OF inv4] by (simp_all add: removed_ok_def entries_ok_def)
    then show ?thesis
      using update_all_entries [of "rs_removed s4" s4 removed] e4
      by (simp add: removed_ok_def entries_ok_def s'_def)
  qed
  then have inv': "rs_inv ok ops s'"
    using inv4 unfolding s'_def by (simp only: rs_inv_set_removed)
  have u': "rs_units units s' = chain_units units s2 (as @ [x]) @ units v @ chain_units units s1 ?R"
    using u4 seg by (simp add: rs_units_def chain_units_def s')
  have "int (length (rs_units units s')) = int (length ?U) - (j - i) + int (length (units v))"
    using c2(2) c1(3,4) ij by (simp add: u')
  moreover have "rs_units units s' = take (nat i) ?U @ units v @ drop (nat j) ?U"
    if "cuttable i ?U" "cuttable j ?U"
  proof -
    have "rs_units units s1 = ?U" using c1(5) [OF that(2)] U1 by simp
    then show ?thesis using c2(5) that(1) c1(5) [OF that(2)] by (simp add: u')
  qed
  ultimately show ?thesis
    using that [OF range edit inv'] t4 s' by simp
qed

end

end
