(* ===== verification/Utf16.thy ===== *)
theory Utf16
  imports Prelude
begin

text \<open>
  The text of the text elements.  A Go string that holds valid UTF-8 is its list of runes (code
  points); \<open>Len\<close> and \<open>Split\<close> of \<open>src/pkg/document/json/text.go\<close> and \<open>rich_text.go\<close> count and
  cut in UTF-16 units, with \<open>Encode\<close> and \<open>Decode\<close> of Go's \<open>unicode/utf16\<close>, written out here.
  The facts: decoding undoes encoding, and a cut of the units keeps their number everywhere and
  their value everywhere but inside a surrogate pair.
\<close>

type_synonym rune = nat

definition replacement :: rune where
  "replacement = 0xFFFD"

definition is_high :: "nat \<Rightarrow> bool" where
  "is_high u \<longleftrightarrow> 0xD800 \<le> u \<and> u < 0xDC00"

definition is_low :: "nat \<Rightarrow> bool" where
  "is_low u \<longleftrightarrow> 0xDC00 \<le> u \<and> u < 0xE000"

definition valid_rune :: "rune \<Rightarrow> bool" where
  "valid_rune r \<longleftrightarrow> r < 0xD800 \<or> 0xE000 \<le> r \<and> r < 0x110000"

definition encode_rune :: "rune \<Rightarrow> nat list" where
  "encode_rune r =
     (if r < 0xD800 \<or> 0xE000 \<le> r \<and> r < 0x10000 then [r]
      else if 0x10000 \<le> r \<and> r < 0x110000
      then [0xD800 + (r - 0x10000) div 0x400, 0xDC00 + (r - 0x10000) mod 0x400]
      else [replacement])"

definition utf16_encode :: "rune list \<Rightarrow> nat list" where
  "utf16_encode rs = concat (map encode_rune rs)"

fun utf16_decode :: "nat list \<Rightarrow> rune list" where
  "utf16_decode [] = []"
| "utf16_decode [u] = [if is_high u \<or> is_low u then replacement else u]"
| "utf16_decode (u # v # us) =
     (if \<not> is_high u \<and> \<not> is_low u then u # utf16_decode (v # us)
      else if is_high u \<and> is_low v
      then (0x10000 + (u - 0xD800) * 0x400 + (v - 0xDC00)) # utf16_decode us
      else replacement # utf16_decode (v # us))"

lemma utf16_encode_simps [simp]:
  "utf16_encode [] = []" "utf16_encode (r # rs) = encode_rune r @ utf16_encode rs"
  "utf16_encode (rs @ ss) = utf16_encode rs @ utf16_encode ss"
  by (simp_all add: utf16_encode_def)

lemma encode_rune_ne [simp]: "encode_rune r \<noteq> []"
  by (simp add: encode_rune_def)

lemma encode_rune_cases:
  obtains (unit) u where "encode_rune r = [u]" "\<not> is_high u" "\<not> is_low u" "valid_rune r \<longrightarrow> u = r"
  | (pair) u v where "encode_rune r = [u, v]" "is_high u" "is_low v"
      "r = 0x10000 + (u - 0xD800) * 0x400 + (v - 0xDC00)"
proof (cases "0x10000 \<le> r \<and> r < 0x110000")
  case True
  have "r - 0x10000 < 0x400 * 0x400" using True by (simp add: less_diff_conv2)
  then have "(r - 0x10000) div 0x400 < 0x400" by (rule less_mult_imp_div_less)
  moreover have "(r - 0x10000) mod 0x400 < 0x400" by simp
  moreover have "(r - 0x10000) div 0x400 * 0x400 + (r - 0x10000) mod 0x400 = r - 0x10000"
    by (rule div_mult_mod_eq)
  ultimately show ?thesis
    using True by (intro pair [of "0xD800 + (r - 0x10000) div 0x400" "0xDC00 + (r - 0x10000) mod 0x400"])
      (simp_all add: encode_rune_def is_high_def is_low_def)
next
  case False
  then show ?thesis
    by (intro unit [of "hd (encode_rune r)"])
      (auto simp: encode_rune_def is_high_def is_low_def valid_rune_def replacement_def)
qed

lemma decode_unit:
  "\<not> is_high u \<Longrightarrow> \<not> is_low u \<Longrightarrow> utf16_decode (u # us) = u # utf16_decode us"
  by (cases us) simp_all

lemma decode_encode_append:
  "\<forall>r\<in>set rs. valid_rune r \<Longrightarrow> utf16_decode (utf16_encode rs @ us) = rs @ utf16_decode us"
proof (induction rs)
  case (Cons r rs)
  then have "valid_rune r" by simp
  then show ?case
    using Cons by (cases r rule: encode_rune_cases) (simp_all add: decode_unit)
qed simp

text \<open>Encoding what was decoded from any units gives as many units.\<close>

lemma encode_decode_pair:
  assumes "is_high u" "is_low v"
  shows "encode_rune (0x10000 + (u - 0xD800) * 0x400 + (v - 0xDC00)) = [u, v]"
proof -
  define a b where "a = u - 0xD800" and "b = v - 0xDC00"
  then have ab: "u = 0xD800 + a" "a < 0x400" "v = 0xDC00 + b" "b < 0x400"
    using assms by (auto simp: is_high_def is_low_def)
  then have "a * 0x400 + b < 0x100000" by simp
  then show ?thesis using ab by (simp add: encode_rune_def)
qed

lemma encode_small: "u < 0x10000 \<Longrightarrow> length (encode_rune u) = 1"
  by (simp add: encode_rune_def)

lemma length_encode_decode:
  "\<forall>u\<in>set us. u < 0x10000 \<Longrightarrow> length (utf16_encode (utf16_decode us)) = length us"
  by (induction us rule: utf16_decode.induct)
    (simp_all add: encode_small encode_decode_pair replacement_def)

lemma encode_rune_small: "u \<in> set (encode_rune r) \<Longrightarrow> u < 0x10000"
  by (cases r rule: encode_rune_cases)
    (auto simp: is_high_def is_low_def encode_rune_def replacement_def split: if_splits)

lemma encode_units_small: "u \<in> set (utf16_encode rs) \<Longrightarrow> u < 0x10000"
  by (induction rs) (auto dest: encode_rune_small)

text \<open>The bytes of a string of runes, as \<open>string(runes)\<close> makes them.\<close>

definition utf8_rune :: "rune \<Rightarrow> nat list" where
  "utf8_rune r =
     (if r < 0x80 then [r]
      else if r < 0x800 then [0xC0 + r div 64, 0x80 + r mod 64]
      else if \<not> valid_rune r then [0xEF, 0xBF, 0xBD]
      else if r < 0x10000 then [0xE0 + r div 4096, 0x80 + r div 64 mod 64, 0x80 + r mod 64]
      else [0xF0 + r div 262144, 0x80 + r div 4096 mod 64, 0x80 + r div 64 mod 64, 0x80 + r mod 64])"

definition utf8_encode :: "rune list \<Rightarrow> string" where
  "utf8_encode rs = map char_of (concat (map utf8_rune rs))"

lemma utf8_encode_simps [simp]:
  "utf8_encode [] = []" "utf8_encode (rs @ ss) = utf8_encode rs @ utf8_encode ss"
  by (simp_all add: utf8_encode_def)

text \<open>A cut between two runes.\<close>

definition cut_between :: "nat \<Rightarrow> rune list \<Rightarrow> bool" where
  "cut_between k rs \<longleftrightarrow> k < length (utf16_encode rs) \<longrightarrow> \<not> is_low (utf16_encode rs ! k)"

lemma cut_runes:
  "cut_between k rs \<Longrightarrow> \<exists>as bs. rs = as @ bs \<and> take k (utf16_encode rs) = utf16_encode as \<and>
     drop k (utf16_encode rs) = utf16_encode bs"
proof (induction rs arbitrary: k)
  case (Cons r rs)
  show ?case
  proof (cases "k < length (encode_rune r)")
    case True
    then have "k = 0"
      using Cons.prems by (cases r rule: encode_rune_cases) (auto simp: cut_between_def less_Suc_eq)
    then show ?thesis by (intro exI [of _ "[]"] exI [of _ "r # rs"]) simp
  next
    case False
    have "cut_between (k - length (encode_rune r)) rs"
      using Cons.prems False by (auto simp: cut_between_def nth_append)
    from Cons.IH [OF this] obtain as bs where "rs = as @ bs"
      "take (k - length (encode_rune r)) (utf16_encode rs) = utf16_encode as"
      "drop (k - length (encode_rune r)) (utf16_encode rs) = utf16_encode bs" by blast
    then show ?thesis using False by (intro exI [of _ "r # as"] exI [of _ bs]) simp
  qed
qed simp

lemma cut_units:
  assumes "\<forall>r\<in>set rs. valid_rune r" "cut_between k rs"
  shows "utf16_encode (utf16_decode (take k (utf16_encode rs))) = take k (utf16_encode rs)"
    "utf16_encode (utf16_decode (drop k (utf16_encode rs))) = drop k (utf16_encode rs)"
proof -
  obtain as bs where "rs = as @ bs" "take k (utf16_encode rs) = utf16_encode as"
    "drop k (utf16_encode rs) = utf16_encode bs" using cut_runes [OF assms(2)] by blast
  then show "utf16_encode (utf16_decode (take k (utf16_encode rs))) = take k (utf16_encode rs)"
    "utf16_encode (utf16_decode (drop k (utf16_encode rs))) = drop k (utf16_encode rs)"
    using decode_encode_append [of as "[]"] decode_encode_append [of bs "[]"] assms(1) by auto
qed

lemma valid_decoded: "\<forall>u\<in>set us. u < 0x10000 \<Longrightarrow> r \<in> set (utf16_decode us) \<Longrightarrow> valid_rune r"
proof (induction us rule: utf16_decode.induct)
  case (3 u v us)
  have "u - 0xD800 \<le> 0x3FF" "v - 0xDC00 \<le> 0x3FF" if "is_high u" "is_low v"
    using that by (auto simp: is_high_def is_low_def)
  then have "valid_rune (0x10000 + (u - 0xD800) * 0x400 + (v - 0xDC00))" if "is_high u" "is_low v"
    using that mult_le_mono1 [of "u - 0xD800" "0x3FF" "0x400"] by (simp add: valid_rune_def)
  then show ?case
    using 3 by (auto simp: valid_rune_def replacement_def is_high_def is_low_def split: if_splits)
qed (auto simp: valid_rune_def replacement_def is_high_def is_low_def)

end
