(* ===== verification/Text_Elements.thy ===== *)
theory Text_Elements
  imports Rga_Split_Facts Utf16 Rht
begin

text \<open>
  The text elements: \<open>src/pkg/document/json/text.go\<close> and \<open>rich_text.go\<close>.  Both are a block list
  (theory \<open>Rga_Tree_Split\<close>) of their values and the selections of the actors; their tickets are
  fields of the cell that holds them (theory \<open>Cells\<close>).  The content of a value is its list of
  runes.  The attributes of a rich text value belong to that value alone (\<open>Split\<close> and \<open>DeepCopy\<close>
  copy them), so they are part of it.  The debug logging of the operations is left out.
\<close>

section \<open>Values\<close>

definition utf16_len :: "rune list \<Rightarrow> int" where
  "utf16_len v = int (length (utf16_encode v))"

text \<open>\<open>utf16.Encode\<close>, slicing at the offset (out of range panics) and \<open>utf16.Decode\<close>.\<close>

definition split_runes :: "int \<Rightarrow> rune list \<Rightarrow> (rune list \<times> rune list) option" where
  "split_runes offset v =
     (let encoded = utf16_encode v in
      if offset < 0 \<or> int (length encoded) < offset then None
      else Some (utf16_decode (take (nat offset) encoded), utf16_decode (drop (nat offset) encoded)))"

definition text_ops :: "rune list value_ops" where
  "text_ops = \<lparr>val_split = split_runes, val_len = utf16_len, val_copy = Some,
     val_string = utf8_encode, val_annotated = utf8_encode\<rparr>"

record rich_value =
  rv_attrs :: rht
  rv_text :: "rune list"

definition rich_string :: "rich_value \<Rightarrow> string" where
  "rich_string v = ''{'' @ quoted ''attrs'' @ '':'' @ rht_marshal (rv_attrs v) @ '','' @ quoted ''val'' @ '':'' @
     quoted (utf8_encode (rv_text v)) @ ''}''"

definition rich_annotated :: "rich_value \<Rightarrow> string" where
  "rich_annotated v = rht_marshal (rv_attrs v) @ '' '' @ quoted (utf8_encode (rv_text v))"

definition rich_split :: "int \<Rightarrow> rich_value \<Rightarrow> (rich_value \<times> rich_value) option" where
  "rich_split offset v = do {
     (a, b) \<leftarrow> split_runes offset (rv_text v);
     attrs \<leftarrow> rht_deep_copy (rv_attrs v);
     Some (v\<lparr>rv_text := a\<rparr>, \<lparr>rv_attrs = attrs, rv_text = b\<rparr>) }"

definition rich_copy :: "rich_value \<Rightarrow> rich_value option" where
  "rich_copy v = do { attrs \<leftarrow> rht_deep_copy (rv_attrs v); Some (v\<lparr>rv_attrs := attrs\<rparr>) }"

definition rich_ops :: "rich_value value_ops" where
  "rich_ops = \<lparr>val_split = rich_split, val_len = (\<lambda>v. utf16_len (rv_text v)), val_copy = rich_copy,
     val_string = rich_string, val_annotated = rich_annotated\<rparr>"

section \<open>Text\<close>

definition initial_node_id :: node_id where
  "initial_node_id = Node_Id initial_ticket 0"

definition initial_text_node :: "rune list rs_node" where
  "initial_text_node = new_split_node initial_node_id []"

record 'v text_body =
  tx_split :: "'v split_list"
  tx_selections :: "(string \<times> selection) list"

definition new_text :: "'v split_list \<Rightarrow> 'v text_body" where
  "new_text s = \<lparr>tx_split = s, tx_selections = []\<rparr>"

definition text_marshal :: "rune list text_body \<Rightarrow> string" where
  "text_marshal t = quoted (rs_marshal text_ops (tx_split t))"

text \<open>The loop of \<open>DeepCopy\<close>, which both elements share: \<open>SetInsPrev\<close> of a nil node is a nil
  dereference.\<close>

fun copy_nodes :: "'v value_ops \<Rightarrow> 'v split_list \<Rightarrow> nat list \<Rightarrow> nat \<Rightarrow> 'v split_list \<Rightarrow> 'v split_list option" where
  "copy_nodes ops src [] current s = Some s"
| "copy_nodes ops src (n # ns) current s = do {
     nd \<leftarrow> split_node_copy ops (rs_nodes src n);
     (s, m) \<leftarrow> rs_insert_after ops current nd s;
     s \<leftarrow> (case ins_prev_id src n of
            None \<Rightarrow> Some s
          | Some i \<Rightarrow> do { found \<leftarrow> find_node s (Some i); p \<leftarrow> found; Some (set_ins_prev m p s) });
     copy_nodes ops src ns m s }"

definition split_deep_copy :: "'v value_ops \<Rightarrow> 'v rs_node \<Rightarrow> 'v split_list \<Rightarrow> 'v split_list option" where
  "split_deep_copy ops head src = do {
     s \<leftarrow> new_rga_tree_split ops head;
     copy_nodes ops src (rs_chain src) initial_head s }"

definition text_deep_copy :: "rune list text_body \<Rightarrow> rune list text_body option" where
  "text_deep_copy t = do {
     s \<leftarrow> split_deep_copy text_ops initial_text_node (tx_split t);
     Some (new_text s) }"

definition text_create_range :: "rune list text_body \<Rightarrow> int \<Rightarrow> int \<Rightarrow> (node_pos \<times> node_pos) option" where
  "text_create_range t from to = create_range text_ops (tx_split t) from to"

definition text_edit :: "node_pos \<Rightarrow> node_pos \<Rightarrow> (string \<times> ticket) list option \<Rightarrow> rune list \<Rightarrow> ticket \<Rightarrow>
    rune list text_body \<Rightarrow> (rune list text_body \<times> node_pos \<times> (string \<times> ticket) list) option" where
  "text_edit from to latest content executed t = do {
     (s, caret, created) \<leftarrow> rs_edit text_ops from to latest content executed (tx_split t);
     Some (t\<lparr>tx_split := s\<rparr>, caret, created) }"

definition text_select :: "node_pos \<Rightarrow> node_pos \<Rightarrow> ticket \<Rightarrow> 'v text_body \<Rightarrow> 'v text_body option" where
  "text_select from to executed t =
     (let sel = \<lparr>sel_from = from, sel_to = to, sel_updated_at = executed\<rparr> in
      case map_of (tx_selections t) (actor_hex executed) of
        None \<Rightarrow> Some (t\<lparr>tx_selections := AList.update (actor_hex executed) sel (tx_selections t)\<rparr>)
      | Some prev \<Rightarrow> do {
          b \<leftarrow> ticket_after executed (sel_updated_at prev);
          Some (if b then t\<lparr>tx_selections := AList.update (actor_hex executed) sel (tx_selections t)\<rparr> else t) })"

definition text_nodes :: "'v text_body \<Rightarrow> nat list" where
  "text_nodes t = rs_chain (tx_split t)"

definition text_annotated_string :: "rune list text_body \<Rightarrow> string" where
  "text_annotated_string t = rs_annotated_string text_ops (tx_split t)"

definition text_removed_nodes_len :: "'v text_body \<Rightarrow> nat" where
  "text_removed_nodes_len t = removed_nodes_len (tx_split t)"

definition text_cleanup :: "ticket \<Rightarrow> rune list text_body \<Rightarrow> (rune list text_body \<times> int) option" where
  "text_cleanup ticket t = do {
     (s, n) \<leftarrow> cleanup_removed_nodes text_ops ticket (tx_split t);
     Some (t\<lparr>tx_split := s\<rparr>, n) }"

section \<open>Rich text\<close>

definition initial_rich_text_node :: "rich_value rs_node" where
  "initial_rich_text_node = new_split_node initial_node_id \<lparr>rv_attrs = new_rht, rv_text = []\<rparr>"

definition rich_create_range :: "rich_value text_body \<Rightarrow> int \<Rightarrow> int \<Rightarrow> (node_pos \<times> node_pos) option" where
  "rich_create_range t from to = create_range rich_ops (tx_split t) from to"

definition attr_writes :: "(string \<times> string) list \<Rightarrow> ticket \<Rightarrow> (string \<times> string \<times> ticket) list" where
  "attr_writes attributes executed = map (\<lambda>(k, v). (k, v, executed)) attributes"

definition rich_edit :: "node_pos \<Rightarrow> node_pos \<Rightarrow> (string \<times> ticket) list option \<Rightarrow> rune list \<Rightarrow>
    (string \<times> string) list \<Rightarrow> ticket \<Rightarrow> rich_value text_body \<Rightarrow>
    (rich_value text_body \<times> node_pos \<times> (string \<times> ticket) list) option" where
  "rich_edit from to latest content attributes executed t = do {
     attrs \<leftarrow> rht_set_all new_rht (attr_writes attributes executed);
     (s, caret, created) \<leftarrow>
       rs_edit rich_ops from to latest \<lparr>rv_attrs = attrs, rv_text = content\<rparr> executed (tx_split t);
     Some (t\<lparr>tx_split := s\<rparr>, caret, created) }"

text \<open>\<open>NewInitialRichText\<close>: a rich text starts with a line break of its own creation time.\<close>

definition new_initial_rich_text :: "rich_value split_list \<Rightarrow> ticket \<Rightarrow> rich_value text_body option" where
  "new_initial_rich_text s created = do {
     let t = new_text s;
     (from, to) \<leftarrow> rich_create_range t 0 0;
     (t, _, _) \<leftarrow> rich_edit from to None [10] [] created t;
     Some t }"

definition rich_marshal :: "ticket \<Rightarrow> rich_value text_body \<Rightarrow> string option" where
  "rich_marshal created t =
     (let s = tx_split t;
          own = (\<lambda>n. ticket_compare (id_created (sn_id (rs_nodes s n))) created)
      in if \<exists>n\<in>set (rs_chain s). own n = None then None
         else Some (''['' @ join_with '','' (map (\<lambda>n. rich_string (sn_value (rs_nodes s n)))
           (filter (\<lambda>n. own n \<noteq> Some 0 \<and> sn_removed (rs_nodes s n) = None) (rs_chain s))) @ '']''))"

definition rich_deep_copy :: "rich_value text_body \<Rightarrow> rich_value text_body option" where
  "rich_deep_copy t = do {
     s \<leftarrow> split_deep_copy rich_ops initial_rich_text_node (tx_split t);
     Some (new_text s) }"

fun style_nodes :: "(string \<times> string \<times> ticket) list \<Rightarrow> nat list \<Rightarrow> rich_value split_list \<Rightarrow>
    rich_value split_list option" where
  "style_nodes writes [] s = Some s"
| "style_nodes writes (n # ns) s = do {
     let nd = rs_nodes s n;
     attrs \<leftarrow> rht_set_all (rv_attrs (sn_value nd)) writes;
     style_nodes writes ns (set_node n (nd\<lparr>sn_value := (sn_value nd)\<lparr>rv_attrs := attrs\<rparr>\<rparr>) s) }"

definition rich_set_style :: "node_pos \<Rightarrow> node_pos \<Rightarrow> (string \<times> string) list \<Rightarrow> ticket \<Rightarrow>
    rich_value text_body \<Rightarrow> rich_value text_body option" where
  "rich_set_style from to attributes executed t = do {
     (s, _, to_right) \<leftarrow> find_node_with_split rich_ops to executed (tx_split t);
     (s, _, from_right) \<leftarrow> find_node_with_split rich_ops from executed s;
     s \<leftarrow> style_nodes (attr_writes attributes executed) (find_between s from_right to_right) s;
     Some (t\<lparr>tx_split := s\<rparr>) }"

definition rich_select :: "node_pos \<Rightarrow> node_pos \<Rightarrow> ticket \<Rightarrow> rich_value text_body \<Rightarrow> rich_value text_body option" where
  "rich_select from to executed t = do {
     later \<leftarrow> (case map_of (tx_selections t) (actor_hex executed) of
                 None \<Rightarrow> Some True | Some prev \<Rightarrow> ticket_after executed (sel_updated_at prev));
     Some (if later
       then t\<lparr>tx_selections := AList.update (actor_hex executed)
              \<lparr>sel_from = from, sel_to = to, sel_updated_at = executed\<rparr> (tx_selections t)\<rparr>
       else t) }"

definition rich_annotated_string :: "rich_value text_body \<Rightarrow> string" where
  "rich_annotated_string t = rs_annotated_string rich_ops (tx_split t)"

definition rich_cleanup :: "ticket \<Rightarrow> rich_value text_body \<Rightarrow> (rich_value text_body \<times> int) option" where
  "rich_cleanup ticket t = do {
     (s, n) \<leftarrow> cleanup_removed_nodes rich_ops ticket (tx_split t);
     Some (t\<lparr>tx_split := s\<rparr>, n) }"

section \<open>The values as the block list sees them\<close>

definition runes_ok :: "rune list \<Rightarrow> bool" where
  "runes_ok v \<longleftrightarrow> (\<forall>r\<in>set v. valid_rune r)"

lemma split_runes_correct:
  assumes "runes_ok v" "0 < k" "k < utf16_len v"
  shows "\<exists>a b. split_runes k v = Some (a, b) \<and> runes_ok a \<and> runes_ok b \<and>
    length (utf16_encode a) = nat k \<and> length (utf16_encode b) = length (utf16_encode v) - nat k \<and>
    (\<not> is_low (utf16_encode v ! nat k) \<longrightarrow>
       utf16_encode a = take (nat k) (utf16_encode v) \<and> utf16_encode b = drop (nat k) (utf16_encode v))"
proof -
  let ?U = "utf16_encode v"
  have small: "\<forall>u\<in>set (take (nat k) ?U). u < 0x10000" "\<forall>u\<in>set (drop (nat k) ?U). u < 0x10000"
    by (auto dest: in_set_takeD in_set_dropD encode_units_small)
  have "cut_between (nat k) v" if "\<not> is_low (?U ! nat k)" using that by (simp add: cut_between_def)
  then show ?thesis
    using assms cut_units [of v "nat k"] length_encode_decode [OF small(1)] length_encode_decode [OF small(2)]
      valid_decoded [OF small(1)] valid_decoded [OF small(2)]
    by (auto simp: split_runes_def Let_def utf16_len_def runes_ok_def)
qed

interpretation plain: split_value text_ops utf16_encode is_low runes_ok
  by unfold_locales (use split_runes_correct in \<open>auto simp: text_ops_def utf16_len_def\<close>)

text \<open>A rich text shows units with attributes.\<close>

definition rich_units :: "rich_value \<Rightarrow> (nat \<times> (string \<rightharpoonup> string)) list" where
  "rich_units v = map (\<lambda>u. (u, rht_shown (rv_attrs v))) (utf16_encode (rv_text v))"

definition rich_glued :: "nat \<times> (string \<rightharpoonup> string) \<Rightarrow> bool" where
  "rich_glued u \<longleftrightarrow> is_low (fst u)"

definition attrs_ok :: "rht \<Rightarrow> bool" where
  "attrs_ok r \<longleftrightarrow> rht_inv r \<and> rht_actors r \<and> (\<forall>k n. rht_lookup r k = Some n \<longrightarrow> rn_removed_at n = None)"

definition rich_ok :: "rich_value \<Rightarrow> bool" where
  "rich_ok v \<longleftrightarrow> runes_ok (rv_text v) \<and> attrs_ok (rv_attrs v)"

lemma attrs_copy:
  assumes "attrs_ok r"
  shows "\<exists>c. rht_deep_copy r = Some c \<and> attrs_ok c \<and> rht_shown c = rht_shown r"
proof -
  obtain c where c: "rht_deep_copy r = Some c" "rht_inv c" "rht_actors c"
    "\<forall>k. rht_lookup c k = map_option (\<lambda>n. n\<lparr>rn_removed_at := None\<rparr>) (rht_lookup r k)"
    using rht_deep_copy_correct assms unfolding attrs_ok_def by blast
  have "rht_shown c = rht_shown r"
    using assms c(4) by (auto simp: fun_eq_iff rht_shown_def rht_node_is_removed_def attrs_ok_def split: option.splits)
  moreover have "attrs_ok c" using c by (auto simp: attrs_ok_def)
  ultimately show ?thesis using c(1) by blast
qed

interpretation rich: split_value rich_ops rich_units rich_glued rich_ok
proof unfold_locales
  show "0 \<le> val_len rich_ops v" for v by (simp add: rich_ops_def utf16_len_def)
  show "val_len rich_ops v = int (length (rich_units v))" for v
    by (simp add: rich_ops_def utf16_len_def rich_units_def)
  show "\<exists>w. val_copy rich_ops v = Some w \<and> rich_ok w \<and> rich_units w = rich_units v" if "rich_ok v" for v
    using that attrs_copy [of "rv_attrs v"] by (auto simp: rich_ops_def rich_copy_def rich_ok_def rich_units_def)
  fix v :: rich_value and k :: int
  assume v: "rich_ok v" "0 < k" "k < int (length (rich_units v))"
  obtain a b where ab: "split_runes k (rv_text v) = Some (a, b)" "runes_ok a" "runes_ok b"
    "length (utf16_encode a) = nat k" "length (utf16_encode b) = length (utf16_encode (rv_text v)) - nat k"
    "\<not> is_low (utf16_encode (rv_text v) ! nat k) \<longrightarrow> utf16_encode a = take (nat k) (utf16_encode (rv_text v)) \<and>
       utf16_encode b = drop (nat k) (utf16_encode (rv_text v))"
    using split_runes_correct [of "rv_text v" k] v by (auto simp: rich_ok_def rich_units_def utf16_len_def)
  obtain c where c: "rht_deep_copy (rv_attrs v) = Some c" "attrs_ok c" "rht_shown c = rht_shown (rv_attrs v)"
    using attrs_copy v(1) by (auto simp: rich_ok_def)
  have "rich_units v ! nat k = (utf16_encode (rv_text v) ! nat k, rht_shown (rv_attrs v))"
    using v by (simp add: rich_units_def nat_less_iff)
  then show "\<exists>a b. val_split rich_ops k v = Some (a, b) \<and> rich_ok a \<and> rich_ok b \<and>
      length (rich_units a) = nat k \<and> length (rich_units b) = length (rich_units v) - nat k \<and>
      (\<not> rich_glued (rich_units v ! nat k) \<longrightarrow>
         rich_units a = take (nat k) (rich_units v) \<and> rich_units b = drop (nat k) (rich_units v))"
    using ab c v(1) by (auto simp: rich_ops_def rich_split_def rich_ok_def rich_units_def rich_glued_def
        take_map drop_map)
qed

text \<open>The attributes of a new value.\<close>

lemma fold_fresh_writes:
  "distinct (map fst attrs) \<Longrightarrow>
     fold apply_write (attr_writes attrs t) m k =
       (case map_of attrs k of None \<Rightarrow> m k | Some v \<Rightarrow> later_write (m k) k v t)"
proof (induction attrs arbitrary: m)
  case (Cons a attrs)
  obtain k' v where a: "a = (k', v)" by (cases a)
  define m' where "m' = m(k' := later_write (m k') k' v t)"
  have none: "map_of attrs k' = None" using Cons.prems a by (simp add: map_of_eq_None_iff)
  have step: "fold apply_write (attr_writes (a # attrs) t) m = fold apply_write (attr_writes attrs t) m'"
    by (simp add: a attr_writes_def apply_write_def m'_def)
  have "m' k = (if k = k' then later_write (m k') k' v t else m k)" by (simp add: m'_def)
  then show ?case
    unfolding step using Cons.IH [of m'] Cons.prems none by (auto simp: a split: option.split)
qed (simp add: attr_writes_def)

lemma fresh_attrs:
  assumes "distinct (map fst attrs)" "actorID t \<noteq> None"
  shows "\<exists>r. rht_set_all new_rht (attr_writes attrs t) = Some r \<and> attrs_ok r \<and> rht_shown r = map_of attrs"
proof -
  have "\<forall>(k, v, u)\<in>set (attr_writes attrs t). actorID u \<noteq> None" using assms(2) by (auto simp: attr_writes_def)
  moreover have "rht_actors new_rht" by (simp add: rht_actors_def new_rht_def)
  ultimately obtain r where r: "rht_set_all new_rht (attr_writes attrs t) = Some r" "rht_inv r" "rht_actors r"
    "rht_lookup r = fold apply_write (attr_writes attrs t) (rht_lookup new_rht)"
    using rht_set_all_lookup [OF new_rht_inv] by blast
  have "rht_lookup r k = (case map_of attrs k of None \<Rightarrow> None | Some v \<Rightarrow> Some (new_rht_node k v t))" for k
    unfolding r(4) fold_fresh_writes [OF assms(1)]
    by (simp add: rht_lookup_def new_rht_def later_write_def split: option.split)
  then show ?thesis
    using r(1-3) by (auto simp: attrs_ok_def rht_shown_def fun_eq_iff new_rht_node_def rht_node_is_removed_def
        split: option.splits)
qed

section \<open>Properties\<close>

text \<open>What a text shows, in UTF-16 units, and its invariant.\<close>

definition text_units :: "rune list text_body \<Rightarrow> nat list" where
  "text_units t = rs_units utf16_encode (tx_split t)"

definition text_ok :: "rune list text_body \<Rightarrow> bool" where
  "text_ok t \<longleftrightarrow> rs_inv runes_ok text_ops (tx_split t)"

text \<open>The ticket is later than the creation of every block, as a new ticket of the clock is.\<close>

definition newer_ticket :: "ticket \<Rightarrow> 'v text_body \<Rightarrow> bool" where
  "newer_ticket t x \<longleftrightarrow> actorID t \<noteq> None \<and> wf_ticket t \<and>
     (\<forall>n\<in>set (rs_order (tx_split x)). id_created (sn_id (rs_nodes (tx_split x) n)) < t)"

text \<open>An offset that is not inside a surrogate pair.\<close>

definition whole_units :: "int \<Rightarrow> nat list \<Rightarrow> bool" where
  "whole_units i us \<longleftrightarrow> i < int (length us) \<longrightarrow> \<not> is_low (us ! nat i)"

text \<open>C4: A local edit of a text is a splice of what it shows: resolving the offsets and editing never
  panics, replaces exactly the units between them by the content (or, where an offset is inside a
  surrogate pair, as many units), and keeps the invariant.\<close>
theorem text_edit_splices:
  assumes "text_ok x" "0 \<le> i" "i \<le> j" "j \<le> int (length (text_units x))" "runes_ok content" "newer_ticket t x"
  shows "\<exists>p q x' caret created. text_create_range x i j = Some (p, q) \<and>
    text_edit p q None content t x = Some (x', caret, created) \<and> text_ok x' \<and>
    int (length (text_units x')) = int (length (text_units x)) - (j - i) + utf16_len content \<and>
    (whole_units i (text_units x) \<and> whole_units j (text_units x) \<longrightarrow>
       text_units x' = take (nat i) (text_units x) @ utf16_encode content @ drop (nat j) (text_units x))"
proof -
  have t: "actorID t \<noteq> None" "wf_ticket t" "\<And>n. n \<in> set (rs_order (tx_split x)) \<Longrightarrow> ncreated (tx_split x) n < t"
    using assms(6) by (auto simp: newer_ticket_def)
  have le: "j \<le> int (length (rs_units utf16_encode (tx_split x)))" using assms(4) by (simp add: text_units_def)
  obtain p q s' caret created where e: "create_range text_ops (tx_split x) i j = Some (p, q)"
    "rs_edit text_ops p q None content t (tx_split x) = Some (s', caret, created)" "rs_inv runes_ok text_ops s'"
    "int (length (rs_units utf16_encode s')) =
       int (length (rs_units utf16_encode (tx_split x))) - (j - i) + int (length (utf16_encode content))"
    "plain.cuttable i (rs_units utf16_encode (tx_split x)) \<Longrightarrow> plain.cuttable j (rs_units utf16_encode (tx_split x)) \<Longrightarrow>
       rs_units utf16_encode s' =
         take (nat i) (rs_units utf16_encode (tx_split x)) @ utf16_encode content @
         drop (nat j) (rs_units utf16_encode (tx_split x))"
    by (rule plain.rs_edit_correct [OF assms(1)[unfolded text_ok_def] assms(2,3) le assms(5) t(1,2)])
      (use t(3) that in blast)+
  show ?thesis
    by (intro exI [of _ p] exI [of _ q] exI [of _ "x\<lparr>tx_split := s'\<rparr>"] exI [of _ caret] exI [of _ created])
      (use e in \<open>simp add: text_create_range_def text_edit_def text_ok_def text_units_def utf16_len_def
        whole_units_def plain.cuttable_def\<close>)
qed

text \<open>The blocks that are due at \<open>t\<close>: they are in the map of removed nodes and were removed at \<open>t\<close> or
  before.\<close>

definition due_blocks :: "'v split_list \<Rightarrow> ticket \<Rightarrow> nat set" where
  "due_blocks s t = snd ` set (filter (due_entry s t) (rs_removed s))"

text \<open>C21: Garbage collection of a text takes out exactly the removed blocks that are due and returns
  their number: they are gone from the list, from the index tree, from the tree by id and from the
  map of removed nodes; the other blocks stay where they are, with their ids, values and times of
  removal, and can be found in both trees; and what the text shows never changes.\<close>
theorem text_cleanup_keeps_text:
  assumes "text_ok x" "actorID t \<noteq> None"
  shows "\<exists>x' n. text_cleanup t x = Some (x', n) \<and> text_ok x' \<and> text_units x' = text_units x \<and>
    n = int (length (filter (due_entry (tx_split x) t) (rs_removed (tx_split x)))) \<and>
    int (text_removed_nodes_len x') = int (text_removed_nodes_len x) - n \<and>
    rs_removed (tx_split x') = filter (\<lambda>e. \<not> due_entry (tx_split x) t e) (rs_removed (tx_split x)) \<and>
    rs_order (tx_split x') = filter (\<lambda>b. b \<notin> due_blocks (tx_split x) t) (rs_order (tx_split x)) \<and>
    splay_inorder (rs_index (tx_split x')) = rs_order (tx_split x') \<and>
    (\<forall>i b. llrb_map (rs_by_id (tx_split x')) i = Some b \<longleftrightarrow>
       b \<in> set (rs_order (tx_split x')) \<and> sn_id (rs_nodes (tx_split x) b) = i) \<and>
    (\<forall>b. sn_id (rs_nodes (tx_split x') b) = sn_id (rs_nodes (tx_split x) b) \<and>
       sn_removed (rs_nodes (tx_split x') b) = sn_removed (rs_nodes (tx_split x) b) \<and>
       sn_value (rs_nodes (tx_split x') b) = sn_value (rs_nodes (tx_split x) b))"
proof -
  let ?s = "tx_split x"
  let ?due = "filter (due_entry ?s t) (rs_removed ?s)"
  have inv: "rs_inv runes_ok text_ops ?s" using assms(1) by (simp add: text_ok_def)
  have d: "distinct (map fst (rs_removed ?s))" using rs_invD(5) [OF inv] by (simp add: removed_ok_def)
  obtain s' where s': "cleanup_removed_nodes text_ops t ?s = Some (s', int (length ?due))" "rs_inv runes_ok text_ops s'"
    "rs_order s' = filter (\<lambda>n. n \<notin> snd ` set ?due) (rs_order ?s)"
    "\<And>n. nid s' n = nid ?s n \<and> sn_removed (rs_nodes s' n) = sn_removed (rs_nodes ?s n) \<and>
       sn_value (rs_nodes s' n) = sn_value (rs_nodes ?s n)"
    "rs_removed s' = filter (\<lambda>e. fst e \<notin> fst ` set ?due) (rs_removed ?s)"
    using cleanup_entries_correct [OF inv order_refl d assms(2), of 0] by (auto simp: cleanup_removed_nodes_def)
  have "rs_units utf16_encode s' = rs_units utf16_encode ?s"
  proof -
    have same: "node_units utf16_encode (rs_nodes s' n) = node_units utf16_encode (rs_nodes ?s n)" for n
      using s'(4) by (simp add: node_units_def)
    have gone: "node_units utf16_encode (rs_nodes ?s n) = []" if "n \<in> snd ` set ?due" for n
      using that by (auto simp: node_units_def due_entry_def)
    have "concat (map f (filter P xs)) = concat (map f xs)" if "\<And>x. \<not> P x \<Longrightarrow> f x = []"
      for f :: "nat \<Rightarrow> nat list" and P xs
      using that by (induction xs) auto
    from this [of "\<lambda>n. n \<notin> snd ` set ?due" "\<lambda>n. node_units utf16_encode (rs_nodes ?s n)"] show ?thesis
      using gone by (simp only: rs_units_def chain_units_def same s'(3) not_not)
  qed
  moreover have rest: "rs_removed s' = filter (\<lambda>e. \<not> due_entry ?s t e) (rs_removed ?s)"
  proof -
    have "fst e \<in> fst ` set ?due \<longleftrightarrow> due_entry ?s t e" if "e \<in> set (rs_removed ?s)" for e
      using that d by (auto simp: distinct_map inj_on_def)
    then show ?thesis unfolding s'(5) by (intro filter_cong) auto
  qed
  moreover have "length (rs_removed s') = length (rs_removed ?s) - length ?due"
    unfolding rest using sum_length_filter_compl [of "due_entry ?s t" "rs_removed ?s"] by simp
  ultimately show ?thesis
    by (intro exI [of _ "x\<lparr>tx_split := s'\<rparr>"] exI)
      (use s' trees_okD(2,4) [OF rs_invD(2) [OF s'(2)]] in \<open>simp add: text_cleanup_def text_ok_def text_units_def
        text_removed_nodes_len_def removed_nodes_len_def of_nat_diff due_blocks_def\<close>)
qed

text \<open>C34: A split forgets the removal: when a position inside a removed block is resolved, the part of
  the block behind it is a new block that is not removed, so text that was deleted shows again.\<close>
theorem split_of_removed_block_shows_again:
  assumes "text_ok x" "n \<in> set (rs_order (tx_split x))" "sn_removed (rs_nodes (tx_split x) n) \<noteq> None"
    "0 < k" "k < utf16_len (sn_value (rs_nodes (tx_split x) n))"
  shows "\<exists>s' m. split_node text_ops n k (tx_split x) = Some (s', Some m) \<and>
    sn_removed (rs_nodes s' n) \<noteq> None \<and> sn_removed (rs_nodes s' m) = None \<and>
    length (text_units x) < length (text_units (x\<lparr>tx_split := s'\<rparr>))"
proof -
  let ?s = "tx_split x"
  have inv: "rs_inv runes_ok text_ops ?s" using assms(1) by (simp add: text_ok_def)
  obtain as bs where x: "rs_order ?s = as @ n # bs" using split_list [OF assms(2)] by blast
  have "k < clen text_ops ?s n" using assms(5) by (simp add: content_len_def text_ops_def)
  from plain.split_node_correct [OF inv x assms(4) this] obtain s' m where
    s': "split_node text_ops n k ?s = Some (s', Some m)" "rs_inv runes_ok text_ops s'"
    "plain.split_at n k ?s s' [m]" "rs_order s' = as @ n # m # bs" by blast
  have n: "sn_removed (rs_nodes s' n) \<noteq> None" and m: "sn_removed (rs_nodes s' m) = None" "m \<notin> set (rs_order ?s)"
    using s'(3) assms(2,3) by (simp_all add: plain.split_at_def)
  have "m \<noteq> initial_head" using m(2) order_okD(4) [OF rs_invD(1) [OF inv]] by blast
  then have "0 < clen text_ops s' m" using blocks_okD(6) [OF rs_invD(3) [OF s'(2)], of m] s'(4) by simp
  then have pos: "0 < length (utf16_encode (sn_value (rs_nodes s' m)))"
    using plain.clen_units [OF rs_invD(3) [OF s'(2)], of m] s'(4) by simp
  have rest: "chain_units utf16_encode s' ns = chain_units utf16_encode ?s ns"
    if "set ns \<subseteq> set (rs_order ?s)" "n \<notin> set ns" for ns
  proof (rule chain_units_cong)
    fix q assume "q \<in> set ns"
    then have "q \<in> set (rs_order ?s)" "q \<noteq> n" using that by auto
    then show "node_units utf16_encode (rs_nodes s' q) = node_units utf16_encode (rs_nodes ?s q)"
      using s'(3) by (simp add: plain.split_at_def node_units_def)
  qed
  have "chain_units utf16_encode s' as = chain_units utf16_encode ?s as"
    "chain_units utf16_encode s' bs = chain_units utf16_encode ?s bs"
    using rest x head_split(2,3) [OF rs_invD(1) [OF inv] x] by auto
  then have "length (text_units x) < length (text_units (x\<lparr>tx_split := s'\<rparr>))"
    using pos n m(1) assms(3) by (simp add: text_units_def rs_units_def x s'(4) node_units_def)
  then show ?thesis using s'(1) n m(1) by blast
qed

text \<open>C19: A local edit of a rich text is a splice as well, and the inserted units carry exactly the
  attributes of the edit.\<close>
theorem rich_edit_splices:
  assumes "rs_inv rich_ok rich_ops (tx_split x)" "0 \<le> i" "i \<le> j"
    "j \<le> int (length (rs_units rich_units (tx_split x)))" "runes_ok content" "distinct (map fst attrs)" "newer_ticket t x"
    "\<not> rich_glued (rs_units rich_units (tx_split x) ! nat i) \<or> i = int (length (rs_units rich_units (tx_split x)))"
    "\<not> rich_glued (rs_units rich_units (tx_split x) ! nat j) \<or> j = int (length (rs_units rich_units (tx_split x)))"
  shows "\<exists>p q x' caret created. rich_create_range x i j = Some (p, q) \<and>
    rich_edit p q None content attrs t x = Some (x', caret, created) \<and> rs_inv rich_ok rich_ops (tx_split x') \<and>
    rs_units rich_units (tx_split x') = take (nat i) (rs_units rich_units (tx_split x)) @
      map (\<lambda>u. (u, map_of attrs)) (utf16_encode content) @ drop (nat j) (rs_units rich_units (tx_split x))"
proof -
  have t: "actorID t \<noteq> None" "wf_ticket t" "\<And>n. n \<in> set (rs_order (tx_split x)) \<Longrightarrow> ncreated (tx_split x) n < t"
    using assms(7) by (auto simp: newer_ticket_def)
  obtain r where r: "rht_set_all new_rht (attr_writes attrs t) = Some r" "attrs_ok r" "rht_shown r = map_of attrs"
    using fresh_attrs [OF assms(6) t(1)] by blast
  let ?v = "\<lparr>rv_attrs = r, rv_text = content\<rparr>"
  have v: "rich_ok ?v" using assms(5) r(2) by (simp add: rich_ok_def)
  have u: "rich_units ?v = map (\<lambda>u. (u, map_of attrs)) (utf16_encode content)" by (simp add: rich_units_def r(3))
  have cut: "rich.cuttable i (rs_units rich_units (tx_split x))" "rich.cuttable j (rs_units rich_units (tx_split x))"
    using assms(8,9) by (auto simp: rich.cuttable_def)
  obtain p q s' caret created where e: "create_range rich_ops (tx_split x) i j = Some (p, q)"
    "rs_edit rich_ops p q None ?v t (tx_split x) = Some (s', caret, created)" "rs_inv rich_ok rich_ops s'"
    "rich.cuttable i (rs_units rich_units (tx_split x)) \<Longrightarrow> rich.cuttable j (rs_units rich_units (tx_split x)) \<Longrightarrow>
       rs_units rich_units s' = take (nat i) (rs_units rich_units (tx_split x)) @ rich_units ?v @
         drop (nat j) (rs_units rich_units (tx_split x))"
    by (rule rich.rs_edit_correct [OF assms(1-4) v t(1,2)]) (use t(3) that in blast)+
  show ?thesis
    by (intro exI [of _ p] exI [of _ q] exI [of _ "x\<lparr>tx_split := s'\<rparr>"] exI [of _ caret] exI [of _ created])
      (use e cut in \<open>simp add: rich_create_range_def rich_edit_def r(1) u\<close>)
qed

section \<open>Examples\<close>

text \<open>A text with the block \<open>abcd\<close>, live or removed at time 5, and the empty rich text.\<close>

definition sample_block_id :: node_id where
  "sample_block_id = Node_Id (sample_ticket 1) 0"

definition sample_split :: "ticket option \<Rightarrow> rune list split_list" where
  "sample_split removed = \<lparr>
     rs_nodes = (\<lambda>n. if n = 1 then (new_split_node sample_block_id [97, 98, 99, 100])\<lparr>sn_removed := removed\<rparr>
       else initial_text_node),
     rs_next_node = 2, rs_order = [0, 1],
     rs_index = Splay_Node Null 0 (if removed = None then 4 else 0)
       (Splay_Node Null 1 (if removed = None then 4 else 0) Null),
     rs_by_id = \<lparr>llrb_root = Node (Node Nil initial_node_id 0 True Nil) sample_block_id 1 False Nil, llrb_size = 2\<rparr>,
     rs_removed = (if removed = None then [] else [(node_id_key sample_block_id, 1)])\<rparr>"

definition sample_text :: "ticket option \<Rightarrow> rune list text_body" where
  "sample_text removed = new_text (sample_split removed)"

lemma sample_text_ok:
  assumes "\<And>t. removed = Some t \<Longrightarrow> actorID t \<noteq> None"
  shows "text_ok (sample_text removed)"
proof -
  let ?s = "sample_split removed"
  have lt: "initial_node_id < sample_block_id" "\<not> sample_block_id < initial_node_id"
    "sample_block_id \<noteq> initial_node_id"
    by (auto simp: initial_node_id_def sample_block_id_def less_node_id_def sample_keys(2) sample_times)
  have len: "utf16_len [97, 98, 99, 100] = 4" "utf16_len [] = 0" by (simp_all add: utf16_len_def encode_rune_def)
  have nodes: "rs_nodes ?s 0 = initial_text_node"
    "rs_nodes ?s (Suc 0) = (new_split_node sample_block_id [97, 98, 99, 100])\<lparr>sn_removed := removed\<rparr>"
    "rs_order ?s = [0, Suc 0]" by (simp_all add: sample_split_def)
  have "order_ok ?s" by (simp add: order_ok_def sample_split_def initial_head_def)
  moreover have "trees_ok text_ops ?s"
  proof -
    have "llrb_map (rs_by_id ?s) i = (if i = initial_node_id then Some 0 else if i = sample_block_id then Some 1 else None)" for i
      by (simp add: sample_split_def llrb_map_def)
    then show ?thesis
      using lt len by (auto simp: trees_ok_def nodes rs_len_def split_node_len_def content_len_def initial_text_node_def
          new_split_node_def text_ops_def sample_split_def llrb_inv_def split: if_splits)
  qed
  moreover have "blocks_ok runes_ok text_ops ?s"
    using assms lt len by (auto simp: blocks_ok_def nodes node_ok_def initial_head_def initial_text_node_def content_len_def
        new_split_node_def text_ops_def runes_ok_def valid_rune_def sample_times initial_node_id_def
        sample_block_id_def sample_ticket_def wf_ticket_def wf_actor_def initial_actor_id_def initial_ticket_def)
  moreover have "ins_ok ?s"
  proof -
    have ids: "nid ?s 0 = initial_node_id" "nid ?s (Suc 0) = sample_block_id"
      "id_created initial_node_id \<noteq> id_created sample_block_id"
      by (simp_all add: nodes initial_text_node_def new_split_node_def)
        (simp add: initial_node_id_def sample_block_id_def sample_keys(2) sample_times)
    have "\<not> block_before (nid ?s) {0, Suc 0} p n" for p n
      using ids by (auto simp: block_before_def)
    then show ?thesis by (simp add: ins_ok_def nodes initial_text_node_def new_split_node_def)
  qed
  moreover have "removed_ok ?s"
    by (auto simp: removed_ok_def sample_split_def new_split_node_def)
  ultimately show ?thesis by (simp add: text_ok_def rs_inv_def sample_text_def new_text_def)
qed

lemma sample_text_units: "text_units (sample_text None) = [97, 98, 99, 100]"
  by (simp add: text_units_def rs_units_def sample_text_def new_text_def sample_split_def node_units_def
      initial_text_node_def new_split_node_def encode_rune_def)

lemma sample_text_newer: "1 < n \<Longrightarrow> newer_ticket (sample_ticket n) (sample_text removed)"
proof -
  assume n: "1 < n"
  have "0 < n" by (rule less_trans [OF _ n]) simp
  with n show ?thesis
    by (simp add: newer_ticket_def sample_text_def new_text_def sample_split_def sample_times initial_text_node_def
        new_split_node_def initial_node_id_def sample_block_id_def sample_keys(2))
      (simp add: sample_ticket_def wf_ticket_def wf_actor_def initial_actor_id_def)
qed

definition sample_rich :: "rich_value text_body" where
  "sample_rich = new_text \<lparr>rs_nodes = (\<lambda>_. initial_rich_text_node), rs_next_node = 1, rs_order = [0],
     rs_index = Splay_Node Null 0 0 Null,
     rs_by_id = \<lparr>llrb_root = Node Nil initial_node_id 0 False Nil, llrb_size = 1\<rparr>, rs_removed = []\<rparr>"

lemma sample_rich_ok:
  "rs_inv rich_ok rich_ops (tx_split sample_rich)" "rs_units rich_units (tx_split sample_rich) = []"
  "newer_ticket (sample_ticket 1) sample_rich"
proof -
  have "rht_actors new_rht" "\<And>k. rht_lookup new_rht k = None" by (simp_all add: rht_actors_def new_rht_def rht_lookup_def)
  then show "rs_inv rich_ok rich_ops (tx_split sample_rich)"
    by (auto simp: rs_inv_def order_ok_def trees_ok_def blocks_ok_def ins_ok_def removed_ok_def sample_rich_def new_text_def
        initial_head_def rs_len_def split_node_len_def content_len_def initial_rich_text_node_def new_split_node_def
        rich_ops_def utf16_len_def llrb_inv_def llrb_map_def node_ok_def rich_ok_def runes_ok_def attrs_ok_def
        new_rht_inv initial_node_id_def initial_ticket_def wf_ticket_def wf_actor_def initial_actor_id_def
        block_before_def split: if_splits)
  show "rs_units rich_units (tx_split sample_rich) = []"
    by (simp add: rs_units_def sample_rich_def new_text_def node_units_def initial_rich_text_node_def
        new_split_node_def rich_units_def)
  show "newer_ticket (sample_ticket 1) sample_rich"
    by (simp add: newer_ticket_def sample_rich_def new_text_def sample_times initial_rich_text_node_def
        new_split_node_def initial_node_id_def sample_keys(2))
      (simp add: sample_ticket_def wf_ticket_def wf_actor_def initial_actor_id_def)
qed

theorem text_edit_splices_witness:
  "\<exists>p q x' caret created. text_create_range (sample_text None) 1 3 = Some (p, q) \<and>
    text_edit p q None [120] (sample_ticket 2) (sample_text None) = Some (x', caret, created) \<and>
    text_units x' = [97, 120, 100]"
proof -
  have "text_ok (sample_text None)" by (rule sample_text_ok) simp
  moreover have "newer_ticket (sample_ticket 2) (sample_text None)" by (rule sample_text_newer) simp
  ultimately show ?thesis
    using text_edit_splices [of "sample_text None" 1 3 "[120]" "sample_ticket 2"]
    by (auto simp: sample_text_units runes_ok_def valid_rune_def whole_units_def is_low_def encode_rune_def)
qed

theorem text_cleanup_keeps_text_witness:
  "\<exists>x'. text_cleanup (sample_ticket 7) (sample_text (Some (sample_ticket 5))) = Some (x', 1) \<and>
    text_units x' = text_units (sample_text (Some (sample_ticket 5))) \<and>
    rs_order (tx_split x') = [0] \<and> splay_inorder (rs_index (tx_split x')) = [0] \<and>
    llrb_map (rs_by_id (tx_split x')) sample_block_id = None"
proof -
  let ?x = "sample_text (Some (sample_ticket 5))" and ?t = "sample_ticket 7"
  have s: "tx_split ?x = sample_split (Some (sample_ticket 5))" by (simp add: sample_text_def new_text_def)
  have l: "rs_order (tx_split ?x) = [0, 1]" "rs_removed (tx_split ?x) = [(node_id_key sample_block_id, 1)]"
    "sn_id (rs_nodes (tx_split ?x) 0) \<noteq> sample_block_id"
    by (simp_all add: s sample_split_def initial_text_node_def new_split_node_def)
      (simp add: initial_node_id_def sample_block_id_def sample_keys(2) sample_times)
  have "text_ok ?x" by (rule sample_text_ok) (auto simp: sample_ticket_def)
  moreover have "due_entry (tx_split ?x) ?t (k, Suc 0)" for k
    by (auto simp: due_entry_def s sample_split_def new_split_node_def less_eq_ticket_def sample_times)
  moreover from this have "due_blocks (tx_split ?x) ?t = {1}" by (simp add: due_blocks_def l)
  moreover have "actorID ?t \<noteq> None" by (simp add: sample_ticket_def)
  ultimately show ?thesis
    using text_cleanup_keeps_text [of ?x ?t] l by (auto simp flip: not_Some_eq)
qed

theorem split_of_removed_block_shows_again_witness:
  "\<exists>s' m. split_node text_ops 1 2 (sample_split (Some (sample_ticket 5))) = Some (s', Some m) \<and>
    sn_removed (rs_nodes s' m) = None"
proof -
  have "text_ok (sample_text (Some (sample_ticket 5)))" by (rule sample_text_ok) (auto simp: sample_ticket_def)
  from split_of_removed_block_shows_again [OF this, of 1 2] show ?thesis
    by (auto simp: sample_text_def new_text_def sample_split_def new_split_node_def utf16_len_def encode_rune_def)
qed

theorem rich_edit_splices_witness:
  "\<exists>p q x' caret created. rich_create_range sample_rich 0 0 = Some (p, q) \<and>
    rich_edit p q None [97] [(''b'', ''1'')] (sample_ticket 1) sample_rich = Some (x', caret, created) \<and>
    rs_units rich_units (tx_split x') = [(97, [''b'' \<mapsto> ''1''])]"
  using rich_edit_splices [OF sample_rich_ok(1), of 0 0 "[97]" "[(''b'', ''1'')]" "sample_ticket 1"]
  by (simp add: sample_rich_ok(2,3) runes_ok_def valid_rune_def encode_rune_def) blast

end
