(* ===== verification/Json_Elements.thy ===== *)
theory Json_Elements
  imports Rht_Pq_Map Rga_Tree_List Text_Elements Values
begin

text \<open>
  The JSON elements as a graph: \<open>src/pkg/document/json/element.go\<close>, \<open>object.go\<close>, \<open>array.go\<close>.  The
  interface \<open>Element\<close> is a reference to a cell of the heap (theory \<open>Cells\<close>), the dynamic type is
  the constructor of its body.  \<open>Marshal\<close>, \<open>DeepCopy\<close> and \<open>Descendants\<close> recurse along the graph;
  here they take the depth they may go to (0 is \<open>None\<close>), and \<open>depth_of\<close> is a depth that is
  enough for a graph without cycles.  A method called on an element of another type is \<open>None\<close>;
  the code tests the type before it calls.
\<close>

datatype body =
    Primitive_Body primitive | Counter_Body counter | Object_Body pq_map | Array_Body rga_list
  | Text_Body "rune list text_body" | Rich_Text_Body "rich_value text_body"

type_synonym json_heap = "body heap"

text \<open>What the text of numbers and dates depends on.\<close>

record text_env =
  env_float :: float_ops
  env_time :: "int \<Rightarrow> nat \<Rightarrow> string"

definition depth_of :: "json_heap \<Rightarrow> nat" where
  "depth_of h = Suc (next_ref h)"

definition new_element :: "ticket \<Rightarrow> body \<Rightarrow> json_heap \<Rightarrow> ref \<times> json_heap" where
  "new_element created b h = alloc (new_cell created b) h"

section \<open>Objects\<close>

definition as_object :: "json_heap \<Rightarrow> ref \<Rightarrow> pq_map option" where
  "as_object h r = (case body (cells h r) of Object_Body m \<Rightarrow> Some m | _ \<Rightarrow> None)"

definition new_object :: "ticket \<Rightarrow> json_heap \<Rightarrow> ref \<times> json_heap" where
  "new_object created h = new_element created (Object_Body new_pq_map) h"

definition object_purge :: "ref \<Rightarrow> ref \<Rightarrow> json_heap \<Rightarrow> json_heap option" where
  "object_purge r elem h = do {
     m \<leftarrow> as_object h r;
     m \<leftarrow> pm_purge h m elem;
     Some (set_body r (Object_Body m) h) }"

definition object_set :: "ref \<Rightarrow> string \<Rightarrow> ref \<Rightarrow> json_heap \<Rightarrow> (json_heap \<times> ref option) option" where
  "object_set r k v h = do {
     m \<leftarrow> as_object h r;
     (h, m, removed) \<leftarrow> pm_set h m k v;
     Some (set_body r (Object_Body m) h, removed) }"

definition object_members :: "json_heap \<Rightarrow> ref \<Rightarrow> (string \<times> ref) list option" where
  "object_members h r = do { m \<leftarrow> as_object h r; Some (pm_elements h m) }"

definition object_get :: "json_heap \<Rightarrow> ref \<Rightarrow> string \<Rightarrow> ref option option" where
  "object_get h r k = do { m \<leftarrow> as_object h r; Some (pm_get h m k) }"

definition object_has :: "json_heap \<Rightarrow> ref \<Rightarrow> string \<Rightarrow> bool option" where
  "object_has h r k = do { m \<leftarrow> as_object h r; pm_has h m k }"

definition object_delete_by_created_at :: "ref \<Rightarrow> ticket \<Rightarrow> ticket option \<Rightarrow> json_heap \<Rightarrow>
    (json_heap \<times> ref option) option" where
  "object_delete_by_created_at r created deleted h = do {
     m \<leftarrow> as_object h r;
     pm_delete_by_created_at h m created deleted }"

definition object_delete :: "ref \<Rightarrow> string \<Rightarrow> ticket option \<Rightarrow> json_heap \<Rightarrow> (json_heap \<times> ref option) option" where
  "object_delete r k deleted h = do { m \<leftarrow> as_object h r; pm_delete h m k deleted }"

definition object_rht_nodes :: "json_heap \<Rightarrow> ref \<Rightarrow> pq_node list option" where
  "object_rht_nodes h r = do { m \<leftarrow> as_object h r; Some (pm_nodes m) }"

section \<open>Arrays\<close>

definition as_array :: "json_heap \<Rightarrow> ref \<Rightarrow> rga_list option" where
  "as_array h r = (case body (cells h r) of Array_Body l \<Rightarrow> Some l | _ \<Rightarrow> None)"

text \<open>\<open>NewRGATreeList\<close> with its dummy primitive.\<close>

definition dummy_body :: body where
  "dummy_body = Primitive_Body \<lparr>value_type = Integer_Type, prim_value = Go_Int 0\<rparr>"

definition new_array :: "ticket \<Rightarrow> json_heap \<Rightarrow> ref \<times> json_heap" where
  "new_array created h = (let (h, l) = new_rga_tree_list dummy_body h in new_element created (Array_Body l) h)"

definition array_purge :: "ref \<Rightarrow> ref \<Rightarrow> json_heap \<Rightarrow> json_heap option" where
  "array_purge r elem h = do {
     l \<leftarrow> as_array h r;
     l \<leftarrow> rga_purge h l elem;
     Some (set_body r (Array_Body l) h) }"

definition array_add :: "ref \<Rightarrow> ref \<Rightarrow> json_heap \<Rightarrow> json_heap option" where
  "array_add r elem h = do {
     l \<leftarrow> as_array h r;
     l \<leftarrow> rga_add h l elem;
     Some (set_body r (Array_Body l) h) }"

definition array_get :: "json_heap \<Rightarrow> ref \<Rightarrow> int \<Rightarrow> ref option" where
  "array_get h r idx = do { l \<leftarrow> as_array h r; n \<leftarrow> rga_get h l idx; Some (rl_elem l n) }"

definition array_find_prev_created_at :: "json_heap \<Rightarrow> ref \<Rightarrow> ticket \<Rightarrow> ticket option" where
  "array_find_prev_created_at h r created = do { l \<leftarrow> as_array h r; rga_find_prev_created_at h l created }"

definition array_delete :: "ref \<Rightarrow> int \<Rightarrow> ticket option \<Rightarrow> json_heap \<Rightarrow> (json_heap \<times> ref) option" where
  "array_delete r idx deleted h = do {
     l \<leftarrow> as_array h r;
     (h, l, n) \<leftarrow> rga_delete h l idx deleted;
     Some (set_body r (Array_Body l) h, rl_elem l n) }"

definition array_move_after :: "ref \<Rightarrow> ticket \<Rightarrow> ticket \<Rightarrow> ticket \<Rightarrow> json_heap \<Rightarrow> json_heap option" where
  "array_move_after r prev created executed h = do {
     l \<leftarrow> as_array h r;
     (h, l) \<leftarrow> rga_move_after h l prev created executed;
     Some (set_body r (Array_Body l) h) }"

definition array_elements :: "json_heap \<Rightarrow> ref \<Rightarrow> ref list option" where
  "array_elements h r = do {
     l \<leftarrow> as_array h r;
     Some (map (rl_elem l) (filter (\<lambda>n. removed_at (rga_cell h l n) = None) (rga_nodes l))) }"

definition array_last_created_at :: "json_heap \<Rightarrow> ref \<Rightarrow> ticket option" where
  "array_last_created_at h r = do { l \<leftarrow> as_array h r; Some (rga_last_created_at h l) }"

definition array_insert_after :: "ref \<Rightarrow> ticket \<Rightarrow> ref \<Rightarrow> json_heap \<Rightarrow> json_heap option" where
  "array_insert_after r prev elem h = do {
     l \<leftarrow> as_array h r;
     l \<leftarrow> rga_insert_after h l prev elem;
     Some (set_body r (Array_Body l) h) }"

definition array_delete_by_created_at :: "ref \<Rightarrow> ticket \<Rightarrow> ticket option \<Rightarrow> json_heap \<Rightarrow>
    (json_heap \<times> ref) option" where
  "array_delete_by_created_at r created deleted h = do {
     l \<leftarrow> as_array h r;
     (h, l, n) \<leftarrow> rga_delete_by_created_at h l created deleted;
     Some (set_body r (Array_Body l) h, rl_elem l n) }"

definition array_len :: "json_heap \<Rightarrow> ref \<Rightarrow> int option" where
  "array_len h r = do { l \<leftarrow> as_array h r; Some (rl_size l) }"

definition array_rga_nodes :: "json_heap \<Rightarrow> ref \<Rightarrow> rga_node list option" where
  "array_rga_nodes h r = do { l \<leftarrow> as_array h r; Some (rga_nodes l) }"

section \<open>Containers and text elements\<close>

definition is_container :: "json_heap \<Rightarrow> ref \<Rightarrow> bool" where
  "is_container h r \<longleftrightarrow> (case body (cells h r) of Object_Body _ \<Rightarrow> True | Array_Body _ \<Rightarrow> True | _ \<Rightarrow> False)"

definition container_purge :: "ref \<Rightarrow> ref \<Rightarrow> json_heap \<Rightarrow> json_heap option" where
  "container_purge r elem h =
     (case body (cells h r) of
        Object_Body _ \<Rightarrow> object_purge r elem h
      | Array_Body _ \<Rightarrow> array_purge r elem h
      | _ \<Rightarrow> None)"

definition container_delete_by_created_at :: "ref \<Rightarrow> ticket \<Rightarrow> ticket option \<Rightarrow> json_heap \<Rightarrow>
    (json_heap \<times> ref option) option" where
  "container_delete_by_created_at r created deleted h =
     (case body (cells h r) of
        Object_Body _ \<Rightarrow> object_delete_by_created_at r created deleted h
      | Array_Body _ \<Rightarrow> do { (h, e) \<leftarrow> array_delete_by_created_at r created deleted h; Some (h, Some e) }
      | _ \<Rightarrow> None)"

definition text_element_removed_len :: "json_heap \<Rightarrow> ref \<Rightarrow> nat option" where
  "text_element_removed_len h r =
     (case body (cells h r) of
        Text_Body t \<Rightarrow> Some (text_removed_nodes_len t)
      | Rich_Text_Body t \<Rightarrow> Some (text_removed_nodes_len t)
      | _ \<Rightarrow> None)"

definition text_element_cleanup :: "ref \<Rightarrow> ticket \<Rightarrow> json_heap \<Rightarrow> (json_heap \<times> int) option" where
  "text_element_cleanup r ticket h =
     (case body (cells h r) of
        Text_Body t \<Rightarrow> do { (t, n) \<leftarrow> text_cleanup ticket t; Some (set_body r (Text_Body t) h, n) }
      | Rich_Text_Body t \<Rightarrow> do { (t, n) \<leftarrow> rich_cleanup ticket t; Some (set_body r (Rich_Text_Body t) h, n) }
      | _ \<Rightarrow> None)"

text \<open>The elements a container holds, tombstones included, in the order \<open>Descendants\<close> visits them.\<close>

definition children :: "json_heap \<Rightarrow> ref \<Rightarrow> ref list" where
  "children h r =
     (case body (cells h r) of
        Object_Body m \<Rightarrow> map pqn_elem (pm_nodes m)
      | Array_Body l \<Rightarrow> map (rl_elem l) (rga_nodes l)
      | _ \<Rightarrow> [])"

section \<open>Recursion along the graph\<close>

fun concat_options :: "'a list option list \<Rightarrow> 'a list option" where
  "concat_options [] = Some []"
| "concat_options (x # xs) = do { a \<leftarrow> x; b \<leftarrow> concat_options xs; Some (a @ b) }"

text \<open>\<open>Descendants\<close> with a callback that never stops: the elements with their containers.\<close>

fun descendants :: "nat \<Rightarrow> json_heap \<Rightarrow> ref \<Rightarrow> (ref \<times> ref) list option" where
  "descendants 0 h r = None"
| "descendants (Suc n) h r =
     concat_options (map (\<lambda>e. do {
       ds \<leftarrow> (if is_container h e then descendants n h e else Some []);
       Some ((e, r) # ds) }) (children h r))"

fun elem_marshal :: "nat \<Rightarrow> text_env \<Rightarrow> json_heap \<Rightarrow> ref \<Rightarrow> string option" where
  "elem_marshal 0 env h r = None"
| "elem_marshal (Suc n) env h r =
     (case body (cells h r) of
        Primitive_Body p \<Rightarrow> primitive_marshal (env_float env) (env_time env) p
      | Counter_Body c \<Rightarrow> counter_marshal (env_float env) c
      | Object_Body m \<Rightarrow> pm_marshal (elem_marshal n env h) h m
      | Array_Body l \<Rightarrow> rga_marshal (elem_marshal n env h) h l
      | Text_Body t \<Rightarrow> Some (text_marshal t)
      | Rich_Text_Body t \<Rightarrow> rich_marshal (created_at (cells h r)) t)"

text \<open>\<open>DeepCopy\<close>.  A copy of a container starts from the creation and removal times alone.\<close>

fun copy_members :: "(ref \<Rightarrow> json_heap \<Rightarrow> (json_heap \<times> ref) option) \<Rightarrow> pq_node list \<Rightarrow> pq_map \<Rightarrow> json_heap \<Rightarrow>
    (json_heap \<times> pq_map) option" where
  "copy_members copy [] members h = Some (h, members)"
| "copy_members copy (n # ns) members h = do {
     (h, v) \<leftarrow> copy (pqn_elem n) h;
     copy_members copy ns (pm_set_internal h members (pqn_key n) v) h }"

fun copy_elements :: "(ref \<Rightarrow> json_heap \<Rightarrow> (json_heap \<times> ref) option) \<Rightarrow> ref list \<Rightarrow> rga_list \<Rightarrow> json_heap \<Rightarrow>
    (json_heap \<times> rga_list) option" where
  "copy_elements copy [] l h = Some (h, l)"
| "copy_elements copy (e # es) l h = do {
     (h, v) \<leftarrow> copy e h;
     l \<leftarrow> rga_add h l v;
     copy_elements copy es l h }"

definition alloc_copy :: "'b cell \<Rightarrow> 'b heap \<Rightarrow> 'b heap \<times> ref" where
  "alloc_copy c h = (snd (alloc c h), fst (alloc c h))"

fun deep_copy :: "nat \<Rightarrow> ref \<Rightarrow> json_heap \<Rightarrow> (json_heap \<times> ref) option" where
  "deep_copy 0 r h = None"
| "deep_copy (Suc n) r h =
     (let c = cells h r in
      case body c of
        Primitive_Body p \<Rightarrow> Some (alloc_copy c h)
      | Counter_Body p \<Rightarrow> Some (alloc_copy c h)
      | Object_Body m \<Rightarrow> do {
          (h, members) \<leftarrow> copy_members (deep_copy n) (pm_nodes m) new_pq_map h;
          Some (alloc_copy ((new_cell (created_at c) (Object_Body members))\<lparr>removed_at := removed_at c\<rparr>) h) }
      | Array_Body l \<Rightarrow> do {
          let (h, elements) = new_rga_tree_list dummy_body h;
          (h, elements) \<leftarrow> copy_elements (deep_copy n) (map (rl_elem l) (rga_nodes l)) elements h;
          Some (alloc_copy ((new_cell (created_at c) (Array_Body elements))\<lparr>removed_at := removed_at c\<rparr>) h) }
      | Text_Body t \<Rightarrow> do {
          t \<leftarrow> text_deep_copy t;
          Some (alloc_copy (new_cell (created_at c) (Text_Body t)) h) }
      | Rich_Text_Body t \<Rightarrow> do {
          t \<leftarrow> rich_deep_copy t;
          Some (alloc_copy (new_cell (created_at c) (Rich_Text_Body t)) h) })"

lemma concat_options_none: "concat_options xs = None \<longleftrightarrow> None \<in> set xs"
proof (induction xs)
  case (Cons x xs)
  then show ?case by (cases x; cases "concat_options xs") auto
qed simp

end
