(* ===== verification/Document_Root.thy ===== *)
theory Document_Root
  imports Json_Elements
begin

text \<open>
  The root of a document: \<open>src/pkg/document/json/root.go\<close>.  Its tables find an element by its
  creation time, the removed elements with their containers, and the text elements that hold
  removed blocks; Go maps are association lists.  The collection of garbage ranges over maps
  it deletes from: an entry that was deleted before it is reached is not visited.
\<close>

section \<open>Definitions\<close>

record root =
  root_object :: ref
  root_elements :: "(string \<times> ref) list"
  root_removed_pairs :: "(string \<times> ref \<times> ref) list"
  root_removed_texts :: "(string \<times> ref) list"

definition elem_key :: "json_heap \<Rightarrow> ref \<Rightarrow> string" where
  "elem_key h r = ticket_key (created_at (cells h r))"

definition find_by_created_at :: "root \<Rightarrow> ticket \<Rightarrow> ref option" where
  "find_by_created_at r t = map_of (root_elements r) (ticket_key t)"

definition register_element :: "json_heap \<Rightarrow> ref \<Rightarrow> root \<Rightarrow> root" where
  "register_element h e r = r\<lparr>root_elements := AList.update (elem_key h e) e (root_elements r)\<rparr>"

definition deregister_element :: "json_heap \<Rightarrow> ref \<Rightarrow> root \<Rightarrow> root" where
  "deregister_element h e r =
     r\<lparr>root_elements := AList.delete (elem_key h e) (root_elements r),
       root_removed_pairs := AList.delete (elem_key h e) (root_removed_pairs r)\<rparr>"

definition register_removed_element_pair :: "json_heap \<Rightarrow> ref \<Rightarrow> ref \<Rightarrow> root \<Rightarrow> root" where
  "register_removed_element_pair h parent e r =
     r\<lparr>root_removed_pairs := AList.update (elem_key h e) (parent, e) (root_removed_pairs r)\<rparr>"

definition register_removed_node_text_element :: "json_heap \<Rightarrow> ref \<Rightarrow> root \<Rightarrow> root" where
  "register_removed_node_text_element h e r =
     r\<lparr>root_removed_texts := AList.update (elem_key h e) e (root_removed_texts r)\<rparr>"

definition new_root :: "json_heap \<Rightarrow> ref \<Rightarrow> root option" where
  "new_root h obj = do {
     let r = register_element h obj
       \<lparr>root_object = obj, root_elements = [], root_removed_pairs = [], root_removed_texts = []\<rparr>;
     ds \<leftarrow> descendants (depth_of h) h obj;
     Some (fold (\<lambda>(e, _). register_element h e) ds r) }"

definition root_deep_copy :: "json_heap \<Rightarrow> root \<Rightarrow> (json_heap \<times> root) option" where
  "root_deep_copy h r = do {
     (h, obj) \<leftarrow> deep_copy (depth_of h) (root_object r) h;
     r \<leftarrow> new_root h obj;
     Some (h, r) }"

text \<open>\<open>garbageCollect\<close>: deregister an element and everything below it.\<close>

definition collect_element :: "json_heap \<Rightarrow> ref \<Rightarrow> root \<Rightarrow> (root \<times> int) option" where
  "collect_element h e r = do {
     ds \<leftarrow> (if is_container h e then descendants (depth_of h) h e else Some []);
     let es = e # map fst ds;
     Some (fold (deregister_element h) es r, int (length es)) }"

definition removed_before :: "json_heap \<Rightarrow> ticket \<Rightarrow> ref \<Rightarrow> bool option" where
  "removed_before h ticket e =
     (case removed_at (cells h e) of
        None \<Rightarrow> Some False
      | Some u \<Rightarrow> do { c \<leftarrow> ticket_compare ticket u; Some (c \<ge> 0) })"

fun collect_pairs :: "ticket \<Rightarrow> string list \<Rightarrow> json_heap \<Rightarrow> root \<Rightarrow> int \<Rightarrow> (json_heap \<times> root \<times> int) option" where
  "collect_pairs ticket [] h r cnt = Some (h, r, cnt)"
| "collect_pairs ticket (k # ks) h r cnt =
     (case map_of (root_removed_pairs r) k of
        None \<Rightarrow> collect_pairs ticket ks h r cnt
      | Some (parent, e) \<Rightarrow> do {
          due \<leftarrow> removed_before h ticket e;
          if due then do {
            h \<leftarrow> container_purge parent e h;
            (r, n) \<leftarrow> collect_element h e r;
            collect_pairs ticket ks h r (cnt + n) }
          else collect_pairs ticket ks h r cnt })"

fun collect_texts :: "ticket \<Rightarrow> (string \<times> ref) list \<Rightarrow> json_heap \<Rightarrow> root \<Rightarrow> int \<Rightarrow> (json_heap \<times> root \<times> int) option" where
  "collect_texts ticket [] h r cnt = Some (h, r, cnt)"
| "collect_texts ticket ((_, e) # es) h r cnt = do {
     (h, n) \<leftarrow> text_element_cleanup e ticket h;
     let r = (if n > 0 then r\<lparr>root_removed_texts := AList.delete (elem_key h e) (root_removed_texts r)\<rparr> else r);
     collect_texts ticket es h r (cnt + n) }"

definition root_garbage_collect :: "ticket \<Rightarrow> json_heap \<Rightarrow> root \<Rightarrow> (json_heap \<times> root \<times> int) option" where
  "root_garbage_collect ticket h r = do {
     (h, r, cnt) \<leftarrow> collect_pairs ticket (map fst (root_removed_pairs r)) h r 0;
     collect_texts ticket (root_removed_texts r) h r cnt }"

fun sum_options :: "int option list \<Rightarrow> int option" where
  "sum_options [] = Some 0"
| "sum_options (x # xs) = do { a \<leftarrow> x; b \<leftarrow> sum_options xs; Some (a + b) }"

definition root_garbage_len :: "json_heap \<Rightarrow> root \<Rightarrow> int option" where
  "root_garbage_len h r = do {
     a \<leftarrow> sum_options (map (\<lambda>(_, _, e). do {
            ds \<leftarrow> (if is_container h e then descendants (depth_of h) h e else Some []);
            Some (1 + int (length ds)) }) (root_removed_pairs r));
     b \<leftarrow> sum_options (map (\<lambda>(_, e). map_option int (text_element_removed_len h e)) (root_removed_texts r));
     Some (a + b) }"

end
