(* ===== verification/Operations.thy ===== *)
theory Operations
  imports Document_Root
begin

text \<open>
  The operations of a change: \<open>src/pkg/document/operation/*.go\<close>.  One record per struct and one
  \<open>execute\<close> function per \<open>Execute\<close> method, over the graph of elements and the root; the interface
  \<open>Operation\<close> is the datatype that dispatches to them.  The outer \<open>None\<close> is a panic of the
  element underneath, \<open>Inl\<close> the error the method returns, before it changed anything.  The value
  of an operation is an element of its own outside the document, a reference to the same heap.
\<close>

section \<open>Definitions\<close>

datatype op_error = ErrNotApplicableDataType

type_synonym op_result = "(op_error + json_heap \<times> root) option"

definition not_applicable :: op_result where
  "not_applicable = Some (Inl ErrNotApplicableDataType)"

text \<open>The element an operation is executed on, with its dynamic type.\<close>

definition target :: "json_heap \<Rightarrow> root \<Rightarrow> ticket \<Rightarrow> (ref \<times> body) option" where
  "target h r t = map_option (\<lambda>p. (p, body (cells h p))) (find_by_created_at r t)"

subsection \<open>Set\<close>

record set_op =
  set_parent :: ticket
  set_key :: string
  set_value :: ref
  set_executed :: ticket

definition execute_set :: "set_op \<Rightarrow> json_heap \<Rightarrow> root \<Rightarrow> op_result" where
  "execute_set c h r =
     (case target h r (set_parent c) of
        Some (obj, Object_Body _) \<Rightarrow> do {
          (h, v) \<leftarrow> deep_copy (depth_of h) (set_value c) h;
          (h, removed) \<leftarrow> object_set obj (set_key c) v h;
          let r = register_element h v r;
          Some (Inr (h, case removed of None \<Rightarrow> r | Some e \<Rightarrow> register_removed_element_pair h obj e r)) }
      | _ \<Rightarrow> not_applicable)"

definition set_set_actor :: "actor_id option \<Rightarrow> set_op \<Rightarrow> set_op" where
  "set_set_actor a c = c\<lparr>set_executed := set_actor_id (set_executed c) a\<rparr>"

subsection \<open>Add\<close>

record add_op =
  add_parent :: ticket
  add_prev :: ticket
  add_value :: ref
  add_executed :: ticket

definition execute_add :: "add_op \<Rightarrow> json_heap \<Rightarrow> root \<Rightarrow> op_result" where
  "execute_add c h r =
     (case target h r (add_parent c) of
        Some (arr, Array_Body _) \<Rightarrow> do {
          (h, v) \<leftarrow> deep_copy (depth_of h) (add_value c) h;
          h \<leftarrow> array_insert_after arr (add_prev c) v h;
          Some (Inr (h, register_element h v r)) }
      | _ \<Rightarrow> not_applicable)"

definition add_set_actor :: "actor_id option \<Rightarrow> add_op \<Rightarrow> add_op" where
  "add_set_actor a c = c\<lparr>add_executed := set_actor_id (add_executed c) a\<rparr>"

subsection \<open>Move\<close>

record move_op =
  move_parent :: ticket
  move_prev :: ticket
  move_created :: ticket
  move_executed :: ticket

definition execute_move :: "move_op \<Rightarrow> json_heap \<Rightarrow> root \<Rightarrow> op_result" where
  "execute_move c h r =
     (case target h r (move_parent c) of
        Some (arr, Array_Body _) \<Rightarrow> do {
          h \<leftarrow> array_move_after arr (move_prev c) (move_created c) (move_executed c) h;
          Some (Inr (h, r)) }
      | _ \<Rightarrow> not_applicable)"

definition move_set_actor :: "actor_id option \<Rightarrow> move_op \<Rightarrow> move_op" where
  "move_set_actor a c = c\<lparr>move_executed := set_actor_id (move_executed c) a\<rparr>"

subsection \<open>Remove\<close>

record remove_op =
  remove_parent :: ticket
  remove_created :: ticket
  remove_executed :: ticket

definition execute_remove :: "remove_op \<Rightarrow> json_heap \<Rightarrow> root \<Rightarrow> op_result" where
  "execute_remove c h r =
     (case target h r (remove_parent c) of
        None \<Rightarrow> not_applicable
      | Some (parent, _) \<Rightarrow>
          if is_container h parent then do {
            (h, e) \<leftarrow> container_delete_by_created_at parent (remove_created c) (Some (remove_executed c)) h;
            Some (Inr (h, case e of None \<Rightarrow> r | Some e \<Rightarrow> register_removed_element_pair h parent e r)) }
          else not_applicable)"

definition remove_set_actor :: "actor_id option \<Rightarrow> remove_op \<Rightarrow> remove_op" where
  "remove_set_actor a c = c\<lparr>remove_executed := set_actor_id (remove_executed c) a\<rparr>"

subsection \<open>Increase\<close>

record increase_op =
  increase_parent :: ticket
  increase_value :: ref
  increase_executed :: ticket

text \<open>The value is asserted to be a primitive; another element panics.\<close>

definition execute_increase :: "float_ops \<Rightarrow> increase_op \<Rightarrow> json_heap \<Rightarrow> root \<Rightarrow> op_result" where
  "execute_increase fl c h r =
     (case target h r (increase_parent c) of
        Some (cnt, Counter_Body n) \<Rightarrow>
          (case body (cells h (increase_value c)) of
             Primitive_Body v \<Rightarrow> do {
               n \<leftarrow> counter_increase fl n v;
               Some (Inr (set_body cnt (Counter_Body n) h, r)) }
           | _ \<Rightarrow> None)
      | _ \<Rightarrow> not_applicable)"

definition increase_set_actor :: "actor_id option \<Rightarrow> increase_op \<Rightarrow> increase_op" where
  "increase_set_actor a c = c\<lparr>increase_executed := set_actor_id (increase_executed c) a\<rparr>"

subsection \<open>Edit and RichEdit\<close>

record edit_op =
  edit_parent :: ticket
  edit_from :: node_pos
  edit_to :: node_pos
  edit_latest :: "(string \<times> ticket) list option"
  edit_content :: "rune list"
  edit_executed :: ticket

text \<open>The text is registered for collection when the two positions compare as different.\<close>

definition register_edit :: "json_heap \<Rightarrow> node_pos \<Rightarrow> node_pos \<Rightarrow> ref \<Rightarrow> root \<Rightarrow> root" where
  "register_edit h from to e r =
     (if node_pos_compare from to \<noteq> 0 then register_removed_node_text_element h e r else r)"

definition execute_edit :: "edit_op \<Rightarrow> json_heap \<Rightarrow> root \<Rightarrow> op_result" where
  "execute_edit c h r =
     (case target h r (edit_parent c) of
        Some (e, Text_Body t) \<Rightarrow> do {
          (t, _, _) \<leftarrow> text_edit (edit_from c) (edit_to c) (edit_latest c) (edit_content c) (edit_executed c) t;
          let h = set_body e (Text_Body t) h;
          Some (Inr (h, register_edit h (edit_from c) (edit_to c) e r)) }
      | _ \<Rightarrow> not_applicable)"

definition edit_set_actor :: "actor_id option \<Rightarrow> edit_op \<Rightarrow> edit_op" where
  "edit_set_actor a c = c\<lparr>edit_executed := set_actor_id (edit_executed c) a\<rparr>"

record rich_edit_op =
  redit_parent :: ticket
  redit_from :: node_pos
  redit_to :: node_pos
  redit_latest :: "(string \<times> ticket) list option"
  redit_content :: "rune list"
  redit_attributes :: "(string \<times> string) list"
  redit_executed :: ticket

definition execute_rich_edit :: "rich_edit_op \<Rightarrow> json_heap \<Rightarrow> root \<Rightarrow> op_result" where
  "execute_rich_edit c h r =
     (case target h r (redit_parent c) of
        Some (e, Rich_Text_Body t) \<Rightarrow> do {
          (t, _, _) \<leftarrow> rich_edit (redit_from c) (redit_to c) (redit_latest c) (redit_content c)
            (redit_attributes c) (redit_executed c) t;
          let h = set_body e (Rich_Text_Body t) h;
          Some (Inr (h, register_edit h (redit_from c) (redit_to c) e r)) }
      | _ \<Rightarrow> not_applicable)"

definition rich_edit_set_actor :: "actor_id option \<Rightarrow> rich_edit_op \<Rightarrow> rich_edit_op" where
  "rich_edit_set_actor a c = c\<lparr>redit_executed := set_actor_id (redit_executed c) a\<rparr>"

subsection \<open>Select and Style\<close>

record select_op =
  select_parent :: ticket
  select_from :: node_pos
  select_to :: node_pos
  select_executed :: ticket

definition execute_select :: "select_op \<Rightarrow> json_heap \<Rightarrow> root \<Rightarrow> op_result" where
  "execute_select c h r =
     (case target h r (select_parent c) of
        Some (e, Text_Body t) \<Rightarrow> do {
          t \<leftarrow> text_select (select_from c) (select_to c) (select_executed c) t;
          Some (Inr (set_body e (Text_Body t) h, r)) }
      | Some (e, Rich_Text_Body t) \<Rightarrow> do {
          t \<leftarrow> rich_select (select_from c) (select_to c) (select_executed c) t;
          Some (Inr (set_body e (Rich_Text_Body t) h, r)) }
      | _ \<Rightarrow> not_applicable)"

definition select_set_actor :: "actor_id option \<Rightarrow> select_op \<Rightarrow> select_op" where
  "select_set_actor a c = c\<lparr>select_executed := set_actor_id (select_executed c) a\<rparr>"

record style_op =
  style_parent :: ticket
  style_from :: node_pos
  style_to :: node_pos
  style_attributes :: "(string \<times> string) list"
  style_executed :: ticket

definition execute_style :: "style_op \<Rightarrow> json_heap \<Rightarrow> root \<Rightarrow> op_result" where
  "execute_style c h r =
     (case target h r (style_parent c) of
        Some (e, Rich_Text_Body t) \<Rightarrow> do {
          t \<leftarrow> rich_set_style (style_from c) (style_to c) (style_attributes c) (style_executed c) t;
          Some (Inr (set_body e (Rich_Text_Body t) h, r)) }
      | _ \<Rightarrow> not_applicable)"

definition style_set_actor :: "actor_id option \<Rightarrow> style_op \<Rightarrow> style_op" where
  "style_set_actor a c = c\<lparr>style_executed := set_actor_id (style_executed c) a\<rparr>"

subsection \<open>The interface\<close>

datatype operation =
    Set_Op set_op | Add_Op add_op | Move_Op move_op | Remove_Op remove_op | Increase_Op increase_op
  | Edit_Op edit_op | Rich_Edit_Op rich_edit_op | Select_Op select_op | Style_Op style_op

fun op_execute :: "float_ops \<Rightarrow> operation \<Rightarrow> json_heap \<Rightarrow> root \<Rightarrow> op_result" where
  "op_execute fl (Set_Op c) h r = execute_set c h r"
| "op_execute fl (Add_Op c) h r = execute_add c h r"
| "op_execute fl (Move_Op c) h r = execute_move c h r"
| "op_execute fl (Remove_Op c) h r = execute_remove c h r"
| "op_execute fl (Increase_Op c) h r = execute_increase fl c h r"
| "op_execute fl (Edit_Op c) h r = execute_edit c h r"
| "op_execute fl (Rich_Edit_Op c) h r = execute_rich_edit c h r"
| "op_execute fl (Select_Op c) h r = execute_select c h r"
| "op_execute fl (Style_Op c) h r = execute_style c h r"

fun op_executed_at :: "operation \<Rightarrow> ticket" where
  "op_executed_at (Set_Op c) = set_executed c"
| "op_executed_at (Add_Op c) = add_executed c"
| "op_executed_at (Move_Op c) = move_executed c"
| "op_executed_at (Remove_Op c) = remove_executed c"
| "op_executed_at (Increase_Op c) = increase_executed c"
| "op_executed_at (Edit_Op c) = edit_executed c"
| "op_executed_at (Rich_Edit_Op c) = redit_executed c"
| "op_executed_at (Select_Op c) = select_executed c"
| "op_executed_at (Style_Op c) = style_executed c"

fun op_parent_created_at :: "operation \<Rightarrow> ticket" where
  "op_parent_created_at (Set_Op c) = set_parent c"
| "op_parent_created_at (Add_Op c) = add_parent c"
| "op_parent_created_at (Move_Op c) = move_parent c"
| "op_parent_created_at (Remove_Op c) = remove_parent c"
| "op_parent_created_at (Increase_Op c) = increase_parent c"
| "op_parent_created_at (Edit_Op c) = edit_parent c"
| "op_parent_created_at (Rich_Edit_Op c) = redit_parent c"
| "op_parent_created_at (Select_Op c) = select_parent c"
| "op_parent_created_at (Style_Op c) = style_parent c"

fun op_set_actor :: "actor_id option \<Rightarrow> operation \<Rightarrow> operation" where
  "op_set_actor a (Set_Op c) = Set_Op (set_set_actor a c)"
| "op_set_actor a (Add_Op c) = Add_Op (add_set_actor a c)"
| "op_set_actor a (Move_Op c) = Move_Op (move_set_actor a c)"
| "op_set_actor a (Remove_Op c) = Remove_Op (remove_set_actor a c)"
| "op_set_actor a (Increase_Op c) = Increase_Op (increase_set_actor a c)"
| "op_set_actor a (Edit_Op c) = Edit_Op (edit_set_actor a c)"
| "op_set_actor a (Rich_Edit_Op c) = Rich_Edit_Op (rich_edit_set_actor a c)"
| "op_set_actor a (Select_Op c) = Select_Op (select_set_actor a c)"
| "op_set_actor a (Style_Op c) = Style_Op (style_set_actor a c)"

end
