(* ===== verification/Results.thy ===== *)
theory Results
  imports Prelude
begin

text \<open>
  Go functions that may panic and return an error next to their result: the outer \<open>None\<close> is the
  panic, \<open>Inl\<close> the error of an early return and \<open>Inr\<close> the result.  \<open>checked m f\<close> is the idiom
  \<open>x, err := m; if err != nil { return nil, err }\<close> before \<open>f\<close>.
\<close>

type_synonym ('e, 'a) result = "('e + 'a) option"

definition ok :: "'a \<Rightarrow> ('e, 'a) result" where
  "ok a = Some (Inr a)"

definition fail :: "'e \<Rightarrow> ('e, 'a) result" where
  "fail e = Some (Inl e)"

definition checked :: "('e, 'a) result \<Rightarrow> ('a \<Rightarrow> ('e, 'b) result) \<Rightarrow> ('e, 'b) result" where
  "checked m f = (case m of None \<Rightarrow> None | Some (Inl e) \<Rightarrow> Some (Inl e) | Some (Inr a) \<Rightarrow> f a)"

text \<open>A call that has no error result, and one that does not panic.\<close>

definition panics :: "'a option \<Rightarrow> ('a \<Rightarrow> ('e, 'b) result) \<Rightarrow> ('e, 'b) result" where
  "panics m f = Option.bind m f"

text \<open>The loop that converts the items of a list and stops at the first error.\<close>

fun checked_map :: "('a \<Rightarrow> ('e, 'b) result) \<Rightarrow> 'a list \<Rightarrow> ('e, 'b list) result" where
  "checked_map f [] = ok []"
| "checked_map f (x # xs) = checked (f x) (\<lambda>y. checked (checked_map f xs) (\<lambda>ys. ok (y # ys)))"

lemma checked_simps [simp]:
  "checked (ok a) f = f a" "checked (fail e) f = fail e" "checked None f = None"
  "checked (Some (Inr a)) f = f a" "checked (Some (Inl e)) f = Some (Inl e)"
  by (simp_all add: checked_def ok_def fail_def)

lemma panics_simps [simp]: "panics (Some a) f = f a" "panics None f = None"
  by (simp_all add: panics_def)

lemma ok_inject [simp]: "ok a = ok b \<longleftrightarrow> a = b" "ok a \<noteq> fail e" "fail e \<noteq> ok a"
  "(fail e :: ('e, 'a) result) = fail e' \<longleftrightarrow> e = e'"
  by (auto simp: ok_def fail_def)

lemma ok_fail_some [simp]: "ok a \<noteq> None" "fail e \<noteq> None" "None \<noteq> ok a" "None \<noteq> fail e"
  by (simp_all add: ok_def fail_def)

lemma checked_ok: "checked m f = ok b \<longleftrightarrow> (\<exists>a. m = ok a \<and> f a = ok b)"
  by (auto simp: checked_def ok_def split: option.splits sum.splits)

lemma checked_assoc: "checked (checked m f) g = checked m (\<lambda>a. checked (f a) g)"
  by (auto simp: checked_def split: option.splits sum.splits)

lemma result_cases [case_names panic error ok]:
  "(m = None \<Longrightarrow> P) \<Longrightarrow> (\<And>e. m = fail e \<Longrightarrow> P) \<Longrightarrow> (\<And>a. m = ok a \<Longrightarrow> P) \<Longrightarrow> P"
  by (cases m; cases "the m") (auto simp: ok_def fail_def)

lemma checked_map_ok: "(\<And>x. x \<in> set xs \<Longrightarrow> f x = ok (g x)) \<Longrightarrow> checked_map f xs = ok (map g xs)"
  by (induction xs) auto

section \<open>Calls that change the world and may fail\<close>

text \<open>A call takes the world and returns it next to its result or error; \<open>None\<close> is a panic.\<close>

type_synonym ('w, 'e, 'a) io = "'w \<Rightarrow> ('w \<times> ('e + 'a)) option"

definition io_return :: "'a \<Rightarrow> ('w, 'e, 'a) io" where
  "io_return a = (\<lambda>w. Some (w, Inr a))"

definition io_fail :: "'e \<Rightarrow> ('w, 'e, 'a) io" where
  "io_fail e = (\<lambda>w. Some (w, Inl e))"

definition io_bind :: "('w, 'e, 'a) io \<Rightarrow> ('a \<Rightarrow> ('w, 'e, 'b) io) \<Rightarrow> ('w, 'e, 'b) io" where
  "io_bind m f = (\<lambda>w. case m w of
     None \<Rightarrow> None | Some (w, Inl e) \<Rightarrow> Some (w, Inl e) | Some (w, Inr a) \<Rightarrow> f a w)"

definition io_check :: "bool \<Rightarrow> 'e \<Rightarrow> ('w, 'e, 'a) io \<Rightarrow> ('w, 'e, 'a) io" where
  "io_check b e m = (if b then m else io_fail e)"

lemma io_simps [simp]:
  "io_bind (io_return a) f = f a" "io_bind (io_fail e) f = io_fail e"
  "io_check True e m = m" "io_check False e m = io_fail e"
  by (simp_all add: io_bind_def io_return_def io_fail_def io_check_def fun_eq_iff)

lemma io_bind_ok: "io_bind m f w = Some (w', Inr b) \<longleftrightarrow> (\<exists>v a. m w = Some (v, Inr a) \<and> f a v = Some (w', Inr b))"
  by (auto simp: io_bind_def split: option.splits sum.splits)

lemma io_return_ok [simp]: "io_return a w = Some (v, r) \<longleftrightarrow> v = w \<and> r = Inr a"
  by (auto simp: io_return_def)

lemma io_check_ok: "io_check b e m w = Some (v, Inr a) \<longleftrightarrow> b \<and> m w = Some (v, Inr a)"
  by (auto simp: io_check_def io_fail_def)

end
