(* ===== verification/Changes.thy ===== *)
theory Changes
  imports Operations Clock Results
begin

text \<open>
  Changes, the context in which a change is made and the packs that carry changes:
  \<open>src/pkg/document/change/change.go\<close>, \<open>context.go\<close> and \<open>pack.go\<close> (the change id is in theory
  \<open>Clock\<close>).  \<open>Execute\<close> stops at the first operation that returns an error; what the operations
  before it did stays, so the state is returned next to the error.
\<close>

section \<open>Changes\<close>

record change =
  ch_id :: change_id
  ch_message :: string
  ch_operations :: "operation list"
  ch_server_seq :: "64 word option"

definition new_change :: "change_id \<Rightarrow> string \<Rightarrow> operation list \<Rightarrow> change" where
  "new_change i m ops = \<lparr>ch_id = i, ch_message = m, ch_operations = ops, ch_server_seq = None\<rparr>"

fun execute_all :: "float_ops \<Rightarrow> operation list \<Rightarrow> json_heap \<Rightarrow> root \<Rightarrow> (json_heap \<times> root \<times> op_error option) option" where
  "execute_all fl [] h r = Some (h, r, None)"
| "execute_all fl (c # cs) h r = do {
     res \<leftarrow> op_execute fl c h r;
     case res of Inl e \<Rightarrow> Some (h, r, Some e) | Inr (h, r) \<Rightarrow> execute_all fl cs h r }"

definition change_execute :: "float_ops \<Rightarrow> change \<Rightarrow> json_heap \<Rightarrow> root \<Rightarrow> (json_heap \<times> root \<times> op_error option) option" where
  "change_execute fl c h r = execute_all fl (ch_operations c) h r"

definition set_server_seq :: "64 word \<Rightarrow> change \<Rightarrow> change" where
  "set_server_seq s c = c\<lparr>ch_server_seq := Some s\<rparr>"

text \<open>\<open>ServerSeq\<close> of a change that is not stored on the server is a nil dereference.\<close>

definition change_server_seq :: "change \<Rightarrow> 64 word option" where
  "change_server_seq c = ch_server_seq c"

definition change_client_seq :: "change \<Rightarrow> 32 word" where
  "change_client_seq c = id_client_seq (ch_id c)"

definition change_set_actor :: "actor_id option \<Rightarrow> change \<Rightarrow> change" where
  "change_set_actor a c = c\<lparr>ch_id := id_set_actor (ch_id c) a,
     ch_operations := map (op_set_actor a) (ch_operations c)\<rparr>"

section \<open>Contexts\<close>

text \<open>The root is the clone the proxies work on.\<close>

record change_context =
  cx_id :: change_id
  cx_message :: string
  cx_operations :: "operation list"
  cx_delimiter :: "32 word"
  cx_root :: root

definition new_context :: "change_id \<Rightarrow> string \<Rightarrow> root \<Rightarrow> change_context" where
  "new_context i m r = \<lparr>cx_id = i, cx_message = m, cx_operations = [], cx_delimiter = 0, cx_root = r\<rparr>"

definition to_change :: "change_context \<Rightarrow> change" where
  "to_change x = new_change (cx_id x) (cx_message x) (cx_operations x)"

definition has_operations :: "change_context \<Rightarrow> bool" where
  "has_operations x \<longleftrightarrow> length (cx_operations x) > 0"

definition issue_time_ticket :: "change_context \<Rightarrow> change_context \<times> ticket" where
  "issue_time_ticket x =
     (let d = cx_delimiter x + 1 in (x\<lparr>cx_delimiter := d\<rparr>, new_time_ticket (cx_id x) d))"

definition push_op :: "operation \<Rightarrow> change_context \<Rightarrow> change_context" where
  "push_op c x = x\<lparr>cx_operations := cx_operations x @ [c]\<rparr>"

definition cx_register_element :: "json_heap \<Rightarrow> ref \<Rightarrow> change_context \<Rightarrow> change_context" where
  "cx_register_element h e x = x\<lparr>cx_root := register_element h e (cx_root x)\<rparr>"

definition cx_register_removed_pair :: "json_heap \<Rightarrow> ref \<Rightarrow> ref \<Rightarrow> change_context \<Rightarrow> change_context" where
  "cx_register_removed_pair h parent e x =
     x\<lparr>cx_root := register_removed_element_pair h parent e (cx_root x)\<rparr>"

definition cx_register_removed_text :: "json_heap \<Rightarrow> ref \<Rightarrow> change_context \<Rightarrow> change_context" where
  "cx_register_removed_text h e x = x\<lparr>cx_root := register_removed_node_text_element h e (cx_root x)\<rparr>"

section \<open>Packs\<close>

record pack =
  pk_key :: doc_key
  pk_checkpoint :: checkpoint
  pk_changes :: "change list"
  pk_snapshot :: "8 word list"
  pk_min_synced :: "ticket option"

text \<open>A nil snapshot is the empty list.\<close>

definition new_pack :: "doc_key \<Rightarrow> checkpoint \<Rightarrow> change list \<Rightarrow> 8 word list \<Rightarrow> pack" where
  "new_pack k cp cs snapshot =
     \<lparr>pk_key = k, pk_checkpoint = cp, pk_changes = cs, pk_snapshot = snapshot, pk_min_synced = None\<rparr>"

definition has_changes :: "pack \<Rightarrow> bool" where
  "has_changes p \<longleftrightarrow> length (pk_changes p) > 0"

end
