(* ===== verification/Proxies.thy ===== *)
theory Proxies
  imports Changes
begin

text \<open>
  The proxies a user edits a document through: \<open>src/pkg/document/proxy/*.go\<close>.  A proxy is an element
  of the clone together with the context; it changes the clone and pushes the operation that makes
  the same change.  Embedding makes a proxy the element itself (\<open>toOriginal\<close>), so a proxy is the
  reference of its element here.  \<open>None\<close> is a panic, those the proxies raise included.
\<close>

type_synonym 'a edit = "(change_context \<times> json_heap \<times> 'a) option"

section \<open>Object proxies\<close>

type_synonym creator = "ticket \<Rightarrow> json_heap \<Rightarrow> (json_heap \<times> ref) option"

definition object_set_internal :: "ref \<Rightarrow> string \<Rightarrow> creator \<Rightarrow> change_context \<Rightarrow> json_heap \<Rightarrow> ref edit" where
  "object_set_internal p k creator x h = do {
     let (x, t) = issue_time_ticket x;
     (h, v) \<leftarrow> creator t h;
     (h, copy) \<leftarrow> deep_copy (depth_of h) v h;
     let x = push_op (Set_Op \<lparr>set_parent = created_at (cells h p), set_key = k, set_value = copy, set_executed = t\<rparr>) x;
     (h, removed) \<leftarrow> object_set p k v h;
     let x = cx_register_element h v x;
     Some (case removed of None \<Rightarrow> x | Some e \<Rightarrow> cx_register_removed_pair h p e x, h, v) }"

text \<open>The elements that are created.\<close>

definition create_value :: "go_value \<Rightarrow> creator" where
  "create_value v t h = do { x \<leftarrow> new_primitive v; Some (alloc_copy (new_cell t (Primitive_Body x)) h) }"

definition create_object :: creator where
  "create_object t h = Some (alloc_copy (new_cell t (Object_Body new_pq_map)) h)"

definition create_array :: creator where
  "create_array t h = (let (h, l) = new_rga_tree_list dummy_body h in Some (alloc_copy (new_cell t (Array_Body l)) h))"

definition create_text :: creator where
  "create_text t h = do {
     s \<leftarrow> new_rga_tree_split text_ops initial_text_node;
     Some (alloc_copy (new_cell t (Text_Body (new_text s))) h) }"

definition create_rich_text :: creator where
  "create_rich_text t h = do {
     s \<leftarrow> new_rga_tree_split rich_ops initial_rich_text_node;
     b \<leftarrow> new_initial_rich_text s t;
     Some (alloc_copy (new_cell t (Rich_Text_Body b)) h) }"

definition create_counter :: "go_value \<Rightarrow> creator" where
  "create_counter v t h = do { c \<leftarrow> new_counter v; Some (alloc_copy (new_cell t (Counter_Body c)) h) }"

definition set_new_object :: "ref \<Rightarrow> string \<Rightarrow> change_context \<Rightarrow> json_heap \<Rightarrow> ref edit" where
  "set_new_object p k = object_set_internal p k create_object"

definition set_new_array :: "ref \<Rightarrow> string \<Rightarrow> change_context \<Rightarrow> json_heap \<Rightarrow> ref edit" where
  "set_new_array p k = object_set_internal p k create_array"

definition set_new_text :: "ref \<Rightarrow> string \<Rightarrow> change_context \<Rightarrow> json_heap \<Rightarrow> ref edit" where
  "set_new_text p k = object_set_internal p k create_text"

definition set_new_rich_text :: "ref \<Rightarrow> string \<Rightarrow> change_context \<Rightarrow> json_heap \<Rightarrow> ref edit" where
  "set_new_rich_text p k = object_set_internal p k create_rich_text"

definition set_new_counter :: "ref \<Rightarrow> string \<Rightarrow> go_value \<Rightarrow> change_context \<Rightarrow> json_heap \<Rightarrow> ref edit" where
  "set_new_counter p k v = object_set_internal p k (create_counter v)"

definition set_null :: "ref \<Rightarrow> string \<Rightarrow> change_context \<Rightarrow> json_heap \<Rightarrow> ref edit" where
  "set_null p k = object_set_internal p k (create_value Go_Nil)"

definition set_bool :: "ref \<Rightarrow> string \<Rightarrow> bool \<Rightarrow> change_context \<Rightarrow> json_heap \<Rightarrow> ref edit" where
  "set_bool p k v = object_set_internal p k (create_value (Go_Bool v))"

definition set_integer :: "ref \<Rightarrow> string \<Rightarrow> 64 word \<Rightarrow> change_context \<Rightarrow> json_heap \<Rightarrow> ref edit" where
  "set_integer p k v = object_set_internal p k (create_value (Go_Int v))"

definition set_long :: "ref \<Rightarrow> string \<Rightarrow> 64 word \<Rightarrow> change_context \<Rightarrow> json_heap \<Rightarrow> ref edit" where
  "set_long p k v = object_set_internal p k (create_value (Go_Int64 v))"

definition set_double :: "ref \<Rightarrow> string \<Rightarrow> 64 word \<Rightarrow> change_context \<Rightarrow> json_heap \<Rightarrow> ref edit" where
  "set_double p k v = object_set_internal p k (create_value (Go_Float64 v))"

definition set_string :: "ref \<Rightarrow> string \<Rightarrow> string \<Rightarrow> change_context \<Rightarrow> json_heap \<Rightarrow> ref edit" where
  "set_string p k v = object_set_internal p k (create_value (Go_String v))"

definition set_bytes :: "ref \<Rightarrow> string \<Rightarrow> 8 word list \<Rightarrow> change_context \<Rightarrow> json_heap \<Rightarrow> ref edit" where
  "set_bytes p k v = object_set_internal p k (create_value (Go_Bytes v))"

definition set_date :: "ref \<Rightarrow> string \<Rightarrow> int \<times> nat \<Rightarrow> change_context \<Rightarrow> json_heap \<Rightarrow> ref edit" where
  "set_date p k v = object_set_internal p k (create_value (Go_Time (fst v) (snd v)))"

text \<open>\<open>Delete\<close> of a key without a live element does nothing.\<close>

definition object_proxy_delete :: "ref \<Rightarrow> string \<Rightarrow> change_context \<Rightarrow> json_heap \<Rightarrow> ref option edit" where
  "object_proxy_delete p k x h = do {
     has \<leftarrow> object_has h p k;
     if \<not> has then Some (x, h, None)
     else do {
       let (x, t) = issue_time_ticket x;
       (h, removed) \<leftarrow> object_delete p k (Some t) h;
       e \<leftarrow> removed;
       let x = push_op (Remove_Op \<lparr>remove_parent = created_at (cells h p),
         remove_created = created_at (cells h e), remove_executed = t\<rparr>) x;
       Some (cx_register_removed_pair h p e x, h, Some e) } }"

text \<open>The typed getters: the inner \<open>None\<close> is nil; an element of another type panics.\<close>

definition get_typed :: "(body \<Rightarrow> bool) \<Rightarrow> json_heap \<Rightarrow> ref \<Rightarrow> string \<Rightarrow> ref option option" where
  "get_typed is_type h p k = do {
     found \<leftarrow> object_get h p k;
     case found of
       None \<Rightarrow> Some None
     | Some e \<Rightarrow> if is_type (body (cells h e)) then Some (Some e) else None }"

definition get_object :: "json_heap \<Rightarrow> ref \<Rightarrow> string \<Rightarrow> ref option option" where
  "get_object = get_typed (\<lambda>b. case b of Object_Body _ \<Rightarrow> True | _ \<Rightarrow> False)"

definition get_array :: "json_heap \<Rightarrow> ref \<Rightarrow> string \<Rightarrow> ref option option" where
  "get_array = get_typed (\<lambda>b. case b of Array_Body _ \<Rightarrow> True | _ \<Rightarrow> False)"

definition get_text :: "json_heap \<Rightarrow> ref \<Rightarrow> string \<Rightarrow> ref option option" where
  "get_text = get_typed (\<lambda>b. case b of Text_Body _ \<Rightarrow> True | _ \<Rightarrow> False)"

definition get_rich_text :: "json_heap \<Rightarrow> ref \<Rightarrow> string \<Rightarrow> ref option option" where
  "get_rich_text = get_typed (\<lambda>b. case b of Rich_Text_Body _ \<Rightarrow> True | _ \<Rightarrow> False)"

definition get_counter :: "json_heap \<Rightarrow> ref \<Rightarrow> string \<Rightarrow> ref option option" where
  "get_counter = get_typed (\<lambda>b. case b of Counter_Body _ \<Rightarrow> True | _ \<Rightarrow> False)"

section \<open>Array proxies\<close>

definition array_insert_after_internal :: "ref \<Rightarrow> ticket \<Rightarrow> creator \<Rightarrow> change_context \<Rightarrow> json_heap \<Rightarrow> ref edit" where
  "array_insert_after_internal p prev creator x h = do {
     let (x, t) = issue_time_ticket x;
     (h, v) \<leftarrow> creator t h;
     (h, copy) \<leftarrow> deep_copy (depth_of h) v h;
     let x = push_op (Add_Op \<lparr>add_parent = created_at (cells h p), add_prev = prev, add_value = copy,
       add_executed = t\<rparr>) x;
     h \<leftarrow> array_insert_after p prev v h;
     Some (cx_register_element h v x, h, v) }"

definition array_add_internal :: "ref \<Rightarrow> creator \<Rightarrow> change_context \<Rightarrow> json_heap \<Rightarrow> ref edit" where
  "array_add_internal p creator x h = do {
     prev \<leftarrow> array_last_created_at h p;
     array_insert_after_internal p prev creator x h }"

fun add_values :: "ref \<Rightarrow> go_value list \<Rightarrow> change_context \<Rightarrow> json_heap \<Rightarrow> unit edit" where
  "add_values p [] x h = Some (x, h, ())"
| "add_values p (v # vs) x h = do {
     (x, h, _) \<leftarrow> array_add_internal p (create_value v) x h;
     add_values p vs x h }"

definition add_null :: "ref \<Rightarrow> change_context \<Rightarrow> json_heap \<Rightarrow> unit edit" where
  "add_null p = add_values p [Go_Nil]"

definition add_bool :: "ref \<Rightarrow> bool list \<Rightarrow> change_context \<Rightarrow> json_heap \<Rightarrow> unit edit" where
  "add_bool p vs = add_values p (map Go_Bool vs)"

definition add_integer :: "ref \<Rightarrow> 64 word list \<Rightarrow> change_context \<Rightarrow> json_heap \<Rightarrow> unit edit" where
  "add_integer p vs = add_values p (map Go_Int vs)"

definition add_long :: "ref \<Rightarrow> 64 word list \<Rightarrow> change_context \<Rightarrow> json_heap \<Rightarrow> unit edit" where
  "add_long p vs = add_values p (map Go_Int64 vs)"

definition add_double :: "ref \<Rightarrow> 64 word list \<Rightarrow> change_context \<Rightarrow> json_heap \<Rightarrow> unit edit" where
  "add_double p vs = add_values p (map Go_Float64 vs)"

definition add_string :: "ref \<Rightarrow> string list \<Rightarrow> change_context \<Rightarrow> json_heap \<Rightarrow> unit edit" where
  "add_string p vs = add_values p (map Go_String vs)"

definition add_bytes :: "ref \<Rightarrow> 8 word list list \<Rightarrow> change_context \<Rightarrow> json_heap \<Rightarrow> unit edit" where
  "add_bytes p vs = add_values p (map Go_Bytes vs)"

definition add_date :: "ref \<Rightarrow> (int \<times> nat) list \<Rightarrow> change_context \<Rightarrow> json_heap \<Rightarrow> unit edit" where
  "add_date p vs = add_values p (map (\<lambda>(s, ns). Go_Time s ns) vs)"

definition add_new_array :: "ref \<Rightarrow> change_context \<Rightarrow> json_heap \<Rightarrow> ref edit" where
  "add_new_array p = array_add_internal p create_array"

definition array_move_before :: "ref \<Rightarrow> ticket \<Rightarrow> ticket \<Rightarrow> change_context \<Rightarrow> json_heap \<Rightarrow> unit edit" where
  "array_move_before p next_created created x h = do {
     let (x, t) = issue_time_ticket x;
     prev \<leftarrow> array_find_prev_created_at h p next_created;
     let x = push_op (Move_Op \<lparr>move_parent = created_at (cells h p), move_prev = prev,
       move_created = created, move_executed = t\<rparr>) x;
     h \<leftarrow> array_move_after p prev created t h;
     Some (x, h, ()) }"

definition insert_integer_after :: "ref \<Rightarrow> int \<Rightarrow> 64 word \<Rightarrow> change_context \<Rightarrow> json_heap \<Rightarrow> unit edit" where
  "insert_integer_after p index v x h = do {
     e \<leftarrow> array_get h p index;
     (x, h, _) \<leftarrow> array_insert_after_internal p (created_at (cells h e)) (create_value (Go_Int v)) x h;
     Some (x, h, ()) }"

definition array_proxy_delete :: "ref \<Rightarrow> int \<Rightarrow> change_context \<Rightarrow> json_heap \<Rightarrow> ref option edit" where
  "array_proxy_delete p idx x h = do {
     n \<leftarrow> array_len h p;
     if n \<le> idx then Some (x, h, None)
     else do {
       let (x, t) = issue_time_ticket x;
       (h, e) \<leftarrow> array_delete p idx (Some t) h;
       let x = push_op (Remove_Op \<lparr>remove_parent = created_at (cells h p),
         remove_created = created_at (cells h e), remove_executed = t\<rparr>) x;
       Some (cx_register_removed_pair h p e x, h, Some e) } }"

section \<open>Counter proxies\<close>

text \<open>The dynamic type of an operand, with its bits.\<close>

datatype operand =
    Operand_Int "64 word" | Operand_Int8 "8 word" | Operand_Int16 "16 word" | Operand_Int32 "32 word"
  | Operand_Int64 "64 word" | Operand_Uint "64 word" | Operand_Uint8 "8 word" | Operand_Uint16 "16 word"
  | Operand_Uint32 "32 word" | Operand_Uint64 "64 word" | Operand_Uintptr "64 word"
  | Operand_Float32 "32 word" | Operand_Float64 "64 word" | Operand_Other

fun is_allowed_operand :: "operand \<Rightarrow> bool" where
  "is_allowed_operand (Operand_Uint64 _) = False"
| "is_allowed_operand (Operand_Uintptr _) = False"
| "is_allowed_operand Operand_Other = False"
| "is_allowed_operand _ = True"

text \<open>The value as an \<open>int\<close> (\<open>Inl\<close>) or as a \<open>float64\<close> (\<open>Inr\<close>).  \<open>widen\<close> is the conversion of a
  \<open>float32\<close>; the last branch is reached with a \<open>float64\<close> only.\<close>

fun convert_operand :: "(32 word \<Rightarrow> 64 word) \<Rightarrow> operand \<Rightarrow> (64 word + 64 word) option" where
  "convert_operand widen (Operand_Int v) = Some (Inl v)"
| "convert_operand widen (Operand_Int8 v) = Some (Inl (scast v))"
| "convert_operand widen (Operand_Int16 v) = Some (Inl (scast v))"
| "convert_operand widen (Operand_Int32 v) = Some (Inl (scast v))"
| "convert_operand widen (Operand_Int64 v) = Some (Inl v)"
| "convert_operand widen (Operand_Uint v) = Some (Inl v)"
| "convert_operand widen (Operand_Uint8 v) = Some (Inl (ucast v))"
| "convert_operand widen (Operand_Uint16 v) = Some (Inl (ucast v))"
| "convert_operand widen (Operand_Uint32 v) = Some (Inl (ucast v))"
| "convert_operand widen (Operand_Float32 v) = Some (Inr (widen v))"
| "convert_operand widen (Operand_Float64 v) = Some (Inr v)"
| "convert_operand widen _ = None"

definition operand_for :: "float_ops \<Rightarrow> counter_type \<Rightarrow> 64 word + 64 word \<Rightarrow> go_value" where
  "operand_for fl ty v =
     (case ty of
        Long_Cnt \<Rightarrow> Go_Int64 (case v of Inl i \<Rightarrow> i | Inr f \<Rightarrow> int_of_float fl f)
      | Integer_Cnt \<Rightarrow> Go_Int (case v of Inl i \<Rightarrow> i | Inr f \<Rightarrow> int_of_float fl f)
      | Double_Cnt \<Rightarrow> Go_Float64 (case v of Inl i \<Rightarrow> float_of_int fl i | Inr f \<Rightarrow> f))"

text \<open>\<open>Increase\<close> pushes the operation; it does not change the counter of the clone.\<close>

definition counter_proxy_increase :: "float_ops \<Rightarrow> (32 word \<Rightarrow> 64 word) \<Rightarrow> ref \<Rightarrow> operand \<Rightarrow>
    change_context \<Rightarrow> json_heap \<Rightarrow> unit edit" where
  "counter_proxy_increase fl widen p v x h =
     (if \<not> is_allowed_operand v then None
      else do {
        let (x, t) = issue_time_ticket x;
        v \<leftarrow> convert_operand widen v;
        ty \<leftarrow> (case body (cells h p) of Counter_Body c \<Rightarrow> Some (counter_type c) | _ \<Rightarrow> None);
        (h, e) \<leftarrow> create_value (operand_for fl ty v) t h;
        Some (push_op (Increase_Op \<lparr>increase_parent = created_at (cells h p), increase_value = e,
          increase_executed = t\<rparr>) x, h, ()) })"

section \<open>Text proxies\<close>

definition register_cx_edit :: "json_heap \<Rightarrow> node_pos \<Rightarrow> node_pos \<Rightarrow> ref \<Rightarrow> change_context \<Rightarrow> change_context" where
  "register_cx_edit h from to p x =
     (if node_pos_compare from to \<noteq> 0 then cx_register_removed_text h p x else x)"

definition text_proxy_edit :: "ref \<Rightarrow> int \<Rightarrow> int \<Rightarrow> rune list \<Rightarrow> change_context \<Rightarrow> json_heap \<Rightarrow> unit edit" where
  "text_proxy_edit p from to content x h =
     (if from > to then None
      else case body (cells h p) of
        Text_Body b \<Rightarrow> do {
          (from, to) \<leftarrow> text_create_range b from to;
          let (x, t) = issue_time_ticket x;
          (b, _, latest) \<leftarrow> text_edit from to None content t b;
          let h = set_body p (Text_Body b) h;
          let x = push_op (Edit_Op \<lparr>edit_parent = created_at (cells h p), edit_from = from, edit_to = to,
            edit_latest = Some latest, edit_content = content, edit_executed = t\<rparr>) x;
          Some (register_cx_edit h from to p x, h, ()) }
      | _ \<Rightarrow> None)"

definition text_proxy_select :: "ref \<Rightarrow> int \<Rightarrow> int \<Rightarrow> change_context \<Rightarrow> json_heap \<Rightarrow> unit edit" where
  "text_proxy_select p from to x h =
     (if from > to then None
      else case body (cells h p) of
        Text_Body b \<Rightarrow> do {
          (from, to) \<leftarrow> text_create_range b from to;
          let (x, t) = issue_time_ticket x;
          b \<leftarrow> text_select from to t b;
          let h = set_body p (Text_Body b) h;
          Some (push_op (Select_Op \<lparr>select_parent = created_at (cells h p), select_from = from,
            select_to = to, select_executed = t\<rparr>) x, h, ()) }
      | _ \<Rightarrow> None)"

definition rich_text_proxy_edit :: "ref \<Rightarrow> int \<Rightarrow> int \<Rightarrow> rune list \<Rightarrow> (string \<times> string) list \<Rightarrow>
    change_context \<Rightarrow> json_heap \<Rightarrow> unit edit" where
  "rich_text_proxy_edit p from to content attributes x h =
     (if from > to then None
      else case body (cells h p) of
        Rich_Text_Body b \<Rightarrow> do {
          (from, to) \<leftarrow> rich_create_range b from to;
          let (x, t) = issue_time_ticket x;
          (b, _, latest) \<leftarrow> rich_edit from to None content attributes t b;
          let h = set_body p (Rich_Text_Body b) h;
          let x = push_op (Rich_Edit_Op \<lparr>redit_parent = created_at (cells h p), redit_from = from,
            redit_to = to, redit_latest = Some latest, redit_content = content,
            redit_attributes = attributes, redit_executed = t\<rparr>) x;
          Some (register_cx_edit h from to p x, h, ()) }
      | _ \<Rightarrow> None)"

definition rich_text_proxy_set_style :: "ref \<Rightarrow> int \<Rightarrow> int \<Rightarrow> (string \<times> string) list \<Rightarrow>
    change_context \<Rightarrow> json_heap \<Rightarrow> unit edit" where
  "rich_text_proxy_set_style p from to attributes x h =
     (if from > to then None
      else case body (cells h p) of
        Rich_Text_Body b \<Rightarrow> do {
          (from, to) \<leftarrow> rich_create_range b from to;
          let (x, t) = issue_time_ticket x;
          b \<leftarrow> rich_set_style from to attributes t b;
          let h = set_body p (Rich_Text_Body b) h;
          Some (push_op (Style_Op \<lparr>style_parent = created_at (cells h p), style_from = from,
            style_to = to, style_attributes = attributes, style_executed = t\<rparr>) x, h, ()) }
      | _ \<Rightarrow> None)"

end
