(* ===== verification/Messages.thy ===== *)
theory Messages
  imports Clock
begin

text \<open>
  The messages of \<open>src/api/yorkie.proto\<close> the converter reads and writes, as the generated Go
  structs hold them: a message field is a pointer that may be nil (\<open>option\<close>), a \<open>oneof\<close> without a
  value is the constructor \<open>Pb_No_...\<close>, a \<open>map\<close> an association list, an enumeration may hold a number
  without a name.  Text content is given by its runes.
\<close>

section \<open>Common messages\<close>

record pb_time_ticket =
  pt_lamport :: "64 word"
  pt_delimiter :: "32 word"
  pt_actor_id :: "byte list"

record pb_text_node_pos =
  pp_created_at :: "pb_time_ticket option"
  pp_offset :: "32 word"
  pp_relative_offset :: "32 word"

record pb_checkpoint =
  pc_server_seq :: "64 word"
  pc_client_seq :: "32 word"

record pb_document_key =
  pd_collection :: string
  pd_document :: string

datatype pb_value_type =
    Pb_Null | Pb_Boolean | Pb_Integer | Pb_Long | Pb_Double | Pb_String | Pb_Bytes | Pb_Date
  | Pb_Json_Object | Pb_Json_Array | Pb_Text | Pb_Rich_Text
  | Pb_Integer_Cnt | Pb_Long_Cnt | Pb_Double_Cnt | Pb_Unknown_Type int

record pb_client =
  pcl_id :: "byte list"
  pcl_metadata :: "(string \<times> string) list"

datatype pb_doc_event_type =
    Pb_Documents_Changed | Pb_Documents_Watched | Pb_Documents_Unwatched | Pb_Unknown_Event int

record pb_doc_event =
  pe_type :: pb_doc_event_type
  pe_publisher :: "pb_client option"
  pe_document_keys :: "pb_document_key list"

section \<open>Operations and packs\<close>

record pb_element_simple =
  ps_created_at :: "pb_time_ticket option"
  ps_type :: pb_value_type
  ps_value :: "8 word list"

record pb_set =
  pset_parent :: "pb_time_ticket option"
  pset_key :: string
  pset_value :: "pb_element_simple option"
  pset_executed :: "pb_time_ticket option"

record pb_add =
  padd_parent :: "pb_time_ticket option"
  padd_prev :: "pb_time_ticket option"
  padd_value :: "pb_element_simple option"
  padd_executed :: "pb_time_ticket option"

record pb_move =
  pmove_parent :: "pb_time_ticket option"
  pmove_prev :: "pb_time_ticket option"
  pmove_created :: "pb_time_ticket option"
  pmove_executed :: "pb_time_ticket option"

record pb_remove =
  premove_parent :: "pb_time_ticket option"
  premove_created :: "pb_time_ticket option"
  premove_executed :: "pb_time_ticket option"

record pb_edit =
  pedit_parent :: "pb_time_ticket option"
  pedit_from :: "pb_text_node_pos option"
  pedit_to :: "pb_text_node_pos option"
  pedit_created_map :: "(string \<times> pb_time_ticket option) list"
  pedit_content :: "nat list"
  pedit_executed :: "pb_time_ticket option"

record pb_select =
  psel_parent :: "pb_time_ticket option"
  psel_from :: "pb_text_node_pos option"
  psel_to :: "pb_text_node_pos option"
  psel_executed :: "pb_time_ticket option"

record pb_rich_edit =
  predit_parent :: "pb_time_ticket option"
  predit_from :: "pb_text_node_pos option"
  predit_to :: "pb_text_node_pos option"
  predit_created_map :: "(string \<times> pb_time_ticket option) list"
  predit_content :: "nat list"
  predit_attributes :: "(string \<times> string) list"
  predit_executed :: "pb_time_ticket option"

record pb_style =
  pstyle_parent :: "pb_time_ticket option"
  pstyle_from :: "pb_text_node_pos option"
  pstyle_to :: "pb_text_node_pos option"
  pstyle_attributes :: "(string \<times> string) list"
  pstyle_executed :: "pb_time_ticket option"

record pb_increase =
  pinc_parent :: "pb_time_ticket option"
  pinc_value :: "pb_element_simple option"
  pinc_executed :: "pb_time_ticket option"

datatype pb_operation =
    Pb_No_Operation
  | Pb_Set pb_set | Pb_Add pb_add | Pb_Move pb_move | Pb_Remove pb_remove | Pb_Edit pb_edit
  | Pb_Select pb_select | Pb_Rich_Edit pb_rich_edit | Pb_Style pb_style | Pb_Increase pb_increase

record pb_change_id =
  pci_client_seq :: "32 word"
  pci_lamport :: "64 word"
  pci_actor_id :: "byte list"

record pb_change =
  pch_id :: "pb_change_id option"
  pch_message :: string
  pch_operations :: "pb_operation list"

record pb_change_pack =
  ppk_document_key :: "pb_document_key option"
  ppk_checkpoint :: "pb_checkpoint option"
  ppk_snapshot :: "8 word list"
  ppk_changes :: "pb_change list"
  ppk_min_synced :: "pb_time_ticket option"

section \<open>JSON elements\<close>

record pb_times =
  pb_created_at :: "pb_time_ticket option"
  pb_moved_at :: "pb_time_ticket option"
  pb_removed_at :: "pb_time_ticket option"

record pb_text_node_id =
  pti_created_at :: "pb_time_ticket option"
  pti_offset :: "32 word"

record pb_text_node =
  ptn_id :: "pb_text_node_id option"
  ptn_value :: "nat list"
  ptn_removed_at :: "pb_time_ticket option"
  ptn_ins_prev_id :: "pb_text_node_id option"

record pb_rich_text_attr =
  pra_key :: string
  pra_value :: string
  pra_updated_at :: "pb_time_ticket option"

record pb_rich_text_node =
  prn_id :: "pb_text_node_id option"
  prn_attributes :: "(string \<times> pb_rich_text_attr) list"
  prn_value :: "nat list"
  prn_removed_at :: "pb_time_ticket option"
  prn_ins_prev_id :: "pb_text_node_id option"

datatype pb_element =
    Pb_No_Body
  | Pb_Object_Element "pb_rht_node list" pb_times
  | Pb_Array_Element "pb_rga_node list" pb_times
  | Pb_Primitive_Element pb_value_type "8 word list" pb_times
  | Pb_Text_Element "pb_text_node list" pb_times
  | Pb_Rich_Text_Element "pb_rich_text_node list" pb_times
  | Pb_Counter_Element pb_value_type "8 word list" pb_times
and pb_rht_node = Pb_Rht_Node string "pb_element option"
and pb_rga_node = Pb_Rga_Node "pb_element option"

end
