(* ===== verification/Converter.thy ===== *)
theory Converter
  imports Messages Changes
begin

text \<open>
  Conversion of change packs between the model and protobuf: \<open>src/api/converter/to_pb.go\<close> and
  \<open>from_pb.go\<close>.  A \<open>from_\<close> function returns an error of the converter or of \<open>ActorIDFromBytes\<close>, and
  \<open>None\<close> where it dereferences a nil message or decodes too few bytes.  A missing ticket is passed
  on as nil and panics at its first use; the model has no nil ticket where one is needed, so the
  conversion is \<open>None\<close> there.  The \<open>to_\<close> functions cannot return an error on the model's types,
  whose constructors are the supported ones.
\<close>

datatype conv_error =
    ErrPackRequired | ErrCheckpointRequired | ErrUnsupportedOperation | ErrUnsupportedElement
  | ErrUnsupportedEventType | ErrUnsupportedValueType | ErrUnsupportedCounterType
  | Actor_Error actor_error | Proto_Error

section \<open>To protobuf\<close>

definition to_time_ticket :: "ticket option \<Rightarrow> pb_time_ticket option" where
  "to_time_ticket t = map_option (\<lambda>t. \<lparr>pt_lamport = lamport t, pt_delimiter = delimiter t,
     pt_actor_id = actor_id_bytes (actorID t)\<rparr>) t"

definition to_document_key :: "doc_key \<Rightarrow> pb_document_key" where
  "to_document_key k = \<lparr>pd_collection = collection k, pd_document = document k\<rparr>"

definition to_checkpoint :: "checkpoint \<Rightarrow> pb_checkpoint" where
  "to_checkpoint cp = \<lparr>pc_server_seq = cp_server_seq cp, pc_client_seq = cp_client_seq cp\<rparr>"

definition to_change_id :: "change_id \<Rightarrow> pb_change_id" where
  "to_change_id i = \<lparr>pci_client_seq = id_client_seq i, pci_lamport = id_lamport i,
     pci_actor_id = actor_id_bytes (id_actor i)\<rparr>"

text \<open>\<open>int32\<close> truncates.\<close>

definition to_text_node_pos :: "node_pos \<Rightarrow> pb_text_node_pos" where
  "to_text_node_pos p = \<lparr>pp_created_at = to_time_ticket (Some (id_created (pos_id p))),
     pp_offset = word_of_int (id_offset (pos_id p)), pp_relative_offset = word_of_int (pos_relative p)\<rparr>"

definition to_created_at_map :: "(string \<times> ticket) list option \<Rightarrow> (string \<times> pb_time_ticket option) list" where
  "to_created_at_map m = map (\<lambda>(k, t). (k, to_time_ticket (Some t))) (case m of None \<Rightarrow> [] | Some m \<Rightarrow> m)"

fun to_value_type :: "value_type \<Rightarrow> pb_value_type" where
  "to_value_type Null_Type = Pb_Null"
| "to_value_type Boolean_Type = Pb_Boolean"
| "to_value_type Integer_Type = Pb_Integer"
| "to_value_type Long_Type = Pb_Long"
| "to_value_type Double_Type = Pb_Double"
| "to_value_type String_Type = Pb_String"
| "to_value_type Bytes_Type = Pb_Bytes"
| "to_value_type Date_Type = Pb_Date"

fun to_counter_type :: "counter_type \<Rightarrow> pb_value_type" where
  "to_counter_type Integer_Cnt = Pb_Integer_Cnt"
| "to_counter_type Long_Cnt = Pb_Long_Cnt"
| "to_counter_type Double_Cnt = Pb_Double_Cnt"

text \<open>The value of an operation: its type, creation time and bytes, not what it contains.\<close>

definition to_element_simple :: "json_heap \<Rightarrow> ref \<Rightarrow> pb_element_simple option" where
  "to_element_simple h r =
     (let c = cells h r;
          simple = (\<lambda>ty bs. \<lparr>ps_created_at = to_time_ticket (Some (created_at c)), ps_type = ty, ps_value = bs\<rparr>)
      in case body c of
        Object_Body _ \<Rightarrow> Some (simple Pb_Json_Object [])
      | Array_Body _ \<Rightarrow> Some (simple Pb_Json_Array [])
      | Primitive_Body p \<Rightarrow> map_option (simple (to_value_type (value_type p))) (primitive_bytes p)
      | Text_Body _ \<Rightarrow> Some (simple Pb_Text [])
      | Rich_Text_Body _ \<Rightarrow> Some (simple Pb_Rich_Text [])
      | Counter_Body n \<Rightarrow> map_option (simple (to_counter_type (counter_type n))) (counter_bytes n))"

definition to_set :: "json_heap \<Rightarrow> set_op \<Rightarrow> pb_set option" where
  "to_set h c = do {
     v \<leftarrow> to_element_simple h (set_value c);
     Some \<lparr>pset_parent = to_time_ticket (Some (set_parent c)), pset_key = set_key c,
       pset_value = Some v, pset_executed = to_time_ticket (Some (set_executed c))\<rparr> }"

definition to_add :: "json_heap \<Rightarrow> add_op \<Rightarrow> pb_add option" where
  "to_add h c = do {
     v \<leftarrow> to_element_simple h (add_value c);
     Some \<lparr>padd_parent = to_time_ticket (Some (add_parent c)),
       padd_prev = to_time_ticket (Some (add_prev c)),
       padd_value = Some v, padd_executed = to_time_ticket (Some (add_executed c))\<rparr> }"

definition to_move :: "move_op \<Rightarrow> pb_move" where
  "to_move c = \<lparr>pmove_parent = to_time_ticket (Some (move_parent c)),
     pmove_prev = to_time_ticket (Some (move_prev c)),
     pmove_created = to_time_ticket (Some (move_created c)),
     pmove_executed = to_time_ticket (Some (move_executed c))\<rparr>"

definition to_remove :: "remove_op \<Rightarrow> pb_remove" where
  "to_remove c = \<lparr>premove_parent = to_time_ticket (Some (remove_parent c)),
     premove_created = to_time_ticket (Some (remove_created c)),
     premove_executed = to_time_ticket (Some (remove_executed c))\<rparr>"

definition to_edit :: "edit_op \<Rightarrow> pb_edit" where
  "to_edit c = \<lparr>pedit_parent = to_time_ticket (Some (edit_parent c)),
     pedit_from = Some (to_text_node_pos (edit_from c)), pedit_to = Some (to_text_node_pos (edit_to c)),
     pedit_created_map = to_created_at_map (edit_latest c), pedit_content = edit_content c,
     pedit_executed = to_time_ticket (Some (edit_executed c))\<rparr>"

definition to_select :: "select_op \<Rightarrow> pb_select" where
  "to_select c = \<lparr>psel_parent = to_time_ticket (Some (select_parent c)),
     psel_from = Some (to_text_node_pos (select_from c)), psel_to = Some (to_text_node_pos (select_to c)),
     psel_executed = to_time_ticket (Some (select_executed c))\<rparr>"

definition to_rich_edit :: "rich_edit_op \<Rightarrow> pb_rich_edit" where
  "to_rich_edit c = \<lparr>predit_parent = to_time_ticket (Some (redit_parent c)),
     predit_from = Some (to_text_node_pos (redit_from c)), predit_to = Some (to_text_node_pos (redit_to c)),
     predit_created_map = to_created_at_map (redit_latest c), predit_content = redit_content c,
     predit_attributes = redit_attributes c, predit_executed = to_time_ticket (Some (redit_executed c))\<rparr>"

definition to_style :: "style_op \<Rightarrow> pb_style" where
  "to_style c = \<lparr>pstyle_parent = to_time_ticket (Some (style_parent c)),
     pstyle_from = Some (to_text_node_pos (style_from c)), pstyle_to = Some (to_text_node_pos (style_to c)),
     pstyle_attributes = style_attributes c, pstyle_executed = to_time_ticket (Some (style_executed c))\<rparr>"

definition to_increase :: "json_heap \<Rightarrow> increase_op \<Rightarrow> pb_increase option" where
  "to_increase h c = do {
     v \<leftarrow> to_element_simple h (increase_value c);
     Some \<lparr>pinc_parent = to_time_ticket (Some (increase_parent c)), pinc_value = Some v,
       pinc_executed = to_time_ticket (Some (increase_executed c))\<rparr> }"

fun to_operation :: "json_heap \<Rightarrow> operation \<Rightarrow> pb_operation option" where
  "to_operation h (Set_Op c) = map_option Pb_Set (to_set h c)"
| "to_operation h (Add_Op c) = map_option Pb_Add (to_add h c)"
| "to_operation h (Move_Op c) = Some (Pb_Move (to_move c))"
| "to_operation h (Remove_Op c) = Some (Pb_Remove (to_remove c))"
| "to_operation h (Edit_Op c) = Some (Pb_Edit (to_edit c))"
| "to_operation h (Select_Op c) = Some (Pb_Select (to_select c))"
| "to_operation h (Rich_Edit_Op c) = Some (Pb_Rich_Edit (to_rich_edit c))"
| "to_operation h (Style_Op c) = Some (Pb_Style (to_style c))"
| "to_operation h (Increase_Op c) = map_option Pb_Increase (to_increase h c)"

fun to_operations :: "json_heap \<Rightarrow> operation list \<Rightarrow> pb_operation list option" where
  "to_operations h [] = Some []"
| "to_operations h (c # cs) = do { p \<leftarrow> to_operation h c; ps \<leftarrow> to_operations h cs; Some (p # ps) }"

fun to_changes :: "json_heap \<Rightarrow> change list \<Rightarrow> pb_change list option" where
  "to_changes h [] = Some []"
| "to_changes h (c # cs) = do {
     ops \<leftarrow> to_operations h (ch_operations c);
     ps \<leftarrow> to_changes h cs;
     Some (\<lparr>pch_id = Some (to_change_id (ch_id c)), pch_message = ch_message c, pch_operations = ops\<rparr> # ps) }"

definition to_change_pack :: "json_heap \<Rightarrow> pack \<Rightarrow> pb_change_pack option" where
  "to_change_pack h p = do {
     cs \<leftarrow> to_changes h (pk_changes p);
     Some \<lparr>ppk_document_key = Some (to_document_key (pk_key p)),
       ppk_checkpoint = Some (to_checkpoint (pk_checkpoint p)),
       ppk_snapshot = pk_snapshot p, ppk_changes = cs,
       ppk_min_synced = to_time_ticket (pk_min_synced p)\<rparr> }"

section \<open>From protobuf\<close>

definition decode_actor :: "byte list \<Rightarrow> (conv_error, actor_id option) result" where
  "decode_actor bs = (case actor_id_from_bytes bs of Inl e \<Rightarrow> fail (Actor_Error e) | Inr a \<Rightarrow> ok a)"

definition from_time_ticket :: "pb_time_ticket option \<Rightarrow> (conv_error, ticket option) result" where
  "from_time_ticket p =
     (case p of
        None \<Rightarrow> ok None
      | Some p \<Rightarrow> checked (decode_actor (pt_actor_id p)) (\<lambda>a. ok (Some (Ticket (pt_lamport p) (pt_delimiter p) a))))"

definition needed_ticket :: "pb_time_ticket option \<Rightarrow> (conv_error, ticket) result" where
  "needed_ticket p = checked (from_time_ticket p) (\<lambda>t. panics t ok)"

text \<open>A nil message that is dereferenced.\<close>

definition message :: "'a option \<Rightarrow> ('a \<Rightarrow> ('e, 'b) result) \<Rightarrow> ('e, 'b) result" where
  "message p f = panics p f"

definition from_document_key :: "pb_document_key \<Rightarrow> doc_key" where
  "from_document_key k = \<lparr>collection = pd_collection k, document = pd_document k\<rparr>"

definition from_checkpoint :: "pb_checkpoint \<Rightarrow> checkpoint" where
  "from_checkpoint cp = new_checkpoint (pc_server_seq cp) (pc_client_seq cp)"

definition from_change_id :: "pb_change_id \<Rightarrow> (conv_error, change_id) result" where
  "from_change_id i = checked (decode_actor (pci_actor_id i)) (\<lambda>a.
     ok (new_id (pci_client_seq i) (pci_lamport i) a))"

text \<open>\<open>int\<close> of an \<open>int32\<close>.\<close>

definition from_text_node_pos :: "pb_text_node_pos option \<Rightarrow> (conv_error, node_pos) result" where
  "from_text_node_pos p =
     message p (\<lambda>p.
     checked (needed_ticket (pp_created_at p)) (\<lambda>t.
     ok (Node_Pos (Node_Id t (sint (pp_offset p))) (sint (pp_relative_offset p)))))"

definition from_created_at_map :: "(string \<times> pb_time_ticket option) list \<Rightarrow> (conv_error, (string \<times> ticket) list) result" where
  "from_created_at_map m = checked_map (\<lambda>(k, p). checked (needed_ticket p) (\<lambda>t. ok (k, t))) m"

fun from_primitive_value_type :: "pb_value_type \<Rightarrow> (conv_error, value_type) result" where
  "from_primitive_value_type Pb_Null = ok Null_Type"
| "from_primitive_value_type Pb_Boolean = ok Boolean_Type"
| "from_primitive_value_type Pb_Integer = ok Integer_Type"
| "from_primitive_value_type Pb_Long = ok Long_Type"
| "from_primitive_value_type Pb_Double = ok Double_Type"
| "from_primitive_value_type Pb_String = ok String_Type"
| "from_primitive_value_type Pb_Bytes = ok Bytes_Type"
| "from_primitive_value_type Pb_Date = ok Date_Type"
| "from_primitive_value_type _ = fail ErrUnsupportedValueType"

fun from_counter_type :: "pb_value_type \<Rightarrow> (conv_error, counter_type) result" where
  "from_counter_type Pb_Integer_Cnt = ok Integer_Cnt"
| "from_counter_type Pb_Long_Cnt = ok Long_Cnt"
| "from_counter_type Pb_Double_Cnt = ok Double_Cnt"
| "from_counter_type _ = fail ErrUnsupportedCounterType"

definition heap_new :: "ticket \<Rightarrow> body \<Rightarrow> json_heap \<Rightarrow> (conv_error, json_heap \<times> ref) result" where
  "heap_new t b h = ok (alloc_copy (new_cell t b) h)"

definition from_element :: "pb_element_simple option \<Rightarrow> json_heap \<Rightarrow> (conv_error, json_heap \<times> ref) result" where
  "from_element p h =
     message p (\<lambda>p.
     case ps_type p of
       Pb_Json_Object \<Rightarrow> checked (needed_ticket (ps_created_at p)) (\<lambda>t. heap_new t (Object_Body new_pq_map) h)
     | Pb_Json_Array \<Rightarrow> checked (needed_ticket (ps_created_at p)) (\<lambda>t.
         let (h, l) = new_rga_tree_list dummy_body h in heap_new t (Array_Body l) h)
     | Pb_Text \<Rightarrow> checked (needed_ticket (ps_created_at p)) (\<lambda>t.
         panics (new_rga_tree_split text_ops initial_text_node) (\<lambda>s. heap_new t (Text_Body (new_text s)) h))
     | Pb_Rich_Text \<Rightarrow> checked (needed_ticket (ps_created_at p)) (\<lambda>t.
         panics (new_rga_tree_split rich_ops initial_rich_text_node) (\<lambda>s.
         panics (new_initial_rich_text s t) (\<lambda>x. heap_new t (Rich_Text_Body x) h)))
     | ty \<Rightarrow>
         if ty \<in> {Pb_Integer_Cnt, Pb_Long_Cnt, Pb_Double_Cnt} then
           checked (from_counter_type ty) (\<lambda>ct.
           checked (needed_ticket (ps_created_at p)) (\<lambda>t.
           panics (counter_value_from_bytes ct (ps_value p)) (\<lambda>v.
           panics (new_counter v) (\<lambda>c. heap_new t (Counter_Body c) h))))
         else if ty \<in> {Pb_Null, Pb_Boolean, Pb_Integer, Pb_Long, Pb_Double, Pb_String, Pb_Bytes, Pb_Date} then
           checked (from_primitive_value_type ty) (\<lambda>vt.
           checked (needed_ticket (ps_created_at p)) (\<lambda>t.
           panics (value_from_bytes vt (ps_value p)) (\<lambda>v.
           panics (new_primitive v) (\<lambda>x. heap_new t (Primitive_Body x) h))))
         else fail ErrUnsupportedElement)"

definition from_set :: "pb_set \<Rightarrow> json_heap \<Rightarrow> (conv_error, json_heap \<times> set_op) result" where
  "from_set p h =
     checked (needed_ticket (pset_parent p)) (\<lambda>parent.
     checked (needed_ticket (pset_executed p)) (\<lambda>executed.
     checked (from_element (pset_value p) h) (\<lambda>(h, v).
     ok (h, \<lparr>set_parent = parent, set_key = pset_key p, set_value = v, set_executed = executed\<rparr>))))"

definition from_add :: "pb_add \<Rightarrow> json_heap \<Rightarrow> (conv_error, json_heap \<times> add_op) result" where
  "from_add p h =
     checked (needed_ticket (padd_parent p)) (\<lambda>parent.
     checked (needed_ticket (padd_prev p)) (\<lambda>prev.
     checked (from_element (padd_value p) h) (\<lambda>(h, v).
     checked (needed_ticket (padd_executed p)) (\<lambda>executed.
     ok (h, \<lparr>add_parent = parent, add_prev = prev, add_value = v, add_executed = executed\<rparr>)))))"

definition from_move :: "pb_move \<Rightarrow> (conv_error, move_op) result" where
  "from_move p =
     checked (needed_ticket (pmove_parent p)) (\<lambda>parent.
     checked (needed_ticket (pmove_prev p)) (\<lambda>prev.
     checked (needed_ticket (pmove_created p)) (\<lambda>created.
     checked (needed_ticket (pmove_executed p)) (\<lambda>executed.
     ok \<lparr>move_parent = parent, move_prev = prev, move_created = created, move_executed = executed\<rparr>))))"

definition from_remove :: "pb_remove \<Rightarrow> (conv_error, remove_op) result" where
  "from_remove p =
     checked (needed_ticket (premove_parent p)) (\<lambda>parent.
     checked (needed_ticket (premove_created p)) (\<lambda>created.
     checked (needed_ticket (premove_executed p)) (\<lambda>executed.
     ok \<lparr>remove_parent = parent, remove_created = created, remove_executed = executed\<rparr>)))"

definition from_edit :: "pb_edit \<Rightarrow> (conv_error, edit_op) result" where
  "from_edit p =
     checked (needed_ticket (pedit_parent p)) (\<lambda>parent.
     checked (from_text_node_pos (pedit_from p)) (\<lambda>from.
     checked (from_text_node_pos (pedit_to p)) (\<lambda>to.
     checked (from_created_at_map (pedit_created_map p)) (\<lambda>m.
     checked (needed_ticket (pedit_executed p)) (\<lambda>executed.
     ok \<lparr>edit_parent = parent, edit_from = from, edit_to = to, edit_latest = Some m,
       edit_content = pedit_content p, edit_executed = executed\<rparr>)))))"

definition from_select :: "pb_select \<Rightarrow> (conv_error, select_op) result" where
  "from_select p =
     checked (needed_ticket (psel_parent p)) (\<lambda>parent.
     checked (from_text_node_pos (psel_from p)) (\<lambda>from.
     checked (from_text_node_pos (psel_to p)) (\<lambda>to.
     checked (needed_ticket (psel_executed p)) (\<lambda>executed.
     ok \<lparr>select_parent = parent, select_from = from, select_to = to, select_executed = executed\<rparr>))))"

definition from_rich_edit :: "pb_rich_edit \<Rightarrow> (conv_error, rich_edit_op) result" where
  "from_rich_edit p =
     checked (needed_ticket (predit_parent p)) (\<lambda>parent.
     checked (from_text_node_pos (predit_from p)) (\<lambda>from.
     checked (from_text_node_pos (predit_to p)) (\<lambda>to.
     checked (from_created_at_map (predit_created_map p)) (\<lambda>m.
     checked (needed_ticket (predit_executed p)) (\<lambda>executed.
     ok \<lparr>redit_parent = parent, redit_from = from, redit_to = to, redit_latest = Some m,
       redit_content = predit_content p, redit_attributes = predit_attributes p,
       redit_executed = executed\<rparr>)))))"

definition from_style :: "pb_style \<Rightarrow> (conv_error, style_op) result" where
  "from_style p =
     checked (needed_ticket (pstyle_parent p)) (\<lambda>parent.
     checked (from_text_node_pos (pstyle_from p)) (\<lambda>from.
     checked (from_text_node_pos (pstyle_to p)) (\<lambda>to.
     checked (needed_ticket (pstyle_executed p)) (\<lambda>executed.
     ok \<lparr>style_parent = parent, style_from = from, style_to = to,
       style_attributes = pstyle_attributes p, style_executed = executed\<rparr>))))"

definition from_increase :: "pb_increase \<Rightarrow> json_heap \<Rightarrow> (conv_error, json_heap \<times> increase_op) result" where
  "from_increase p h =
     checked (needed_ticket (pinc_parent p)) (\<lambda>parent.
     checked (from_element (pinc_value p) h) (\<lambda>(h, v).
     checked (needed_ticket (pinc_executed p)) (\<lambda>executed.
     ok (h, \<lparr>increase_parent = parent, increase_value = v, increase_executed = executed\<rparr>))))"

fun from_operation :: "pb_operation \<Rightarrow> json_heap \<Rightarrow> (conv_error, json_heap \<times> operation) result" where
  "from_operation (Pb_Set p) h = checked (from_set p h) (\<lambda>(h, c). ok (h, Set_Op c))"
| "from_operation (Pb_Add p) h = checked (from_add p h) (\<lambda>(h, c). ok (h, Add_Op c))"
| "from_operation (Pb_Move p) h = checked (from_move p) (\<lambda>c. ok (h, Move_Op c))"
| "from_operation (Pb_Remove p) h = checked (from_remove p) (\<lambda>c. ok (h, Remove_Op c))"
| "from_operation (Pb_Edit p) h = checked (from_edit p) (\<lambda>c. ok (h, Edit_Op c))"
| "from_operation (Pb_Select p) h = checked (from_select p) (\<lambda>c. ok (h, Select_Op c))"
| "from_operation (Pb_Rich_Edit p) h = checked (from_rich_edit p) (\<lambda>c. ok (h, Rich_Edit_Op c))"
| "from_operation (Pb_Style p) h = checked (from_style p) (\<lambda>c. ok (h, Style_Op c))"
| "from_operation (Pb_Increase p) h = checked (from_increase p h) (\<lambda>(h, c). ok (h, Increase_Op c))"
| "from_operation Pb_No_Operation h = fail ErrUnsupportedOperation"

fun from_operations :: "pb_operation list \<Rightarrow> json_heap \<Rightarrow> (conv_error, json_heap \<times> operation list) result" where
  "from_operations [] h = ok (h, [])"
| "from_operations (p # ps) h =
     checked (from_operation p h) (\<lambda>(h, c).
     checked (from_operations ps h) (\<lambda>(h, cs). ok (h, c # cs)))"

fun from_changes :: "pb_change list \<Rightarrow> json_heap \<Rightarrow> (conv_error, json_heap \<times> change list) result" where
  "from_changes [] h = ok (h, [])"
| "from_changes (p # ps) h =
     message (pch_id p) (\<lambda>i.
     checked (from_change_id i) (\<lambda>i.
     checked (from_operations (pch_operations p) h) (\<lambda>(h, ops).
     checked (from_changes ps h) (\<lambda>(h, cs). ok (h, new_change i (pch_message p) ops # cs)))))"

definition from_change_pack :: "pb_change_pack option \<Rightarrow> json_heap \<Rightarrow> (conv_error, json_heap \<times> pack) result" where
  "from_change_pack p h =
     (case p of
        None \<Rightarrow> fail ErrPackRequired
      | Some p \<Rightarrow>
          (case ppk_checkpoint p of
             None \<Rightarrow> fail ErrCheckpointRequired
           | Some cp \<Rightarrow>
               checked (from_changes (ppk_changes p) h) (\<lambda>(h, cs).
               checked (from_time_ticket (ppk_min_synced p)) (\<lambda>t.
               message (ppk_document_key p) (\<lambda>k.
               ok (h, \<lparr>pk_key = from_document_key k, pk_checkpoint = from_checkpoint cp,
                 pk_changes = cs, pk_snapshot = ppk_snapshot p, pk_min_synced = t\<rparr>))))))"

section \<open>Clients and events\<close>

record client =
  cl_id :: "actor_id option"
  cl_metadata :: "(string \<times> string) list"

datatype doc_event_type = Documents_Changed_Event | Documents_Watched_Event | Documents_Unwatched_Event

record doc_event =
  ev_type :: doc_event_type
  ev_publisher :: client
  ev_document_keys :: "doc_key list"

definition to_client :: "client \<Rightarrow> pb_client" where
  "to_client c = \<lparr>pcl_id = actor_id_bytes (cl_id c), pcl_metadata = cl_metadata c\<rparr>"

definition from_client :: "pb_client option \<Rightarrow> (conv_error, client) result" where
  "from_client p = message p (\<lambda>p. checked (decode_actor (pcl_id p)) (\<lambda>a.
     ok \<lparr>cl_id = a, cl_metadata = pcl_metadata p\<rparr>))"

definition from_clients :: "pb_client list \<Rightarrow> (conv_error, client list) result" where
  "from_clients ps = checked_map (\<lambda>p. from_client (Some p)) ps"

definition to_clients_map :: "(string \<times> client list) list \<Rightarrow> (string \<times> pb_client list) list" where
  "to_clients_map m = map (\<lambda>(k, cs). (k, map to_client cs)) m"

definition to_document_keys :: "doc_key list \<Rightarrow> pb_document_key list" where
  "to_document_keys ks = map to_document_key ks"

definition from_document_keys :: "pb_document_key list \<Rightarrow> doc_key list" where
  "from_document_keys ks = map from_document_key ks"

fun to_doc_event_type :: "doc_event_type \<Rightarrow> pb_doc_event_type" where
  "to_doc_event_type Documents_Changed_Event = Pb_Documents_Changed"
| "to_doc_event_type Documents_Watched_Event = Pb_Documents_Watched"
| "to_doc_event_type Documents_Unwatched_Event = Pb_Documents_Unwatched"

fun from_event_type :: "pb_doc_event_type \<Rightarrow> (conv_error, doc_event_type) result" where
  "from_event_type Pb_Documents_Changed = ok Documents_Changed_Event"
| "from_event_type Pb_Documents_Watched = ok Documents_Watched_Event"
| "from_event_type Pb_Documents_Unwatched = ok Documents_Unwatched_Event"
| "from_event_type (Pb_Unknown_Event n) = fail ErrUnsupportedEventType"

definition to_doc_event :: "doc_event \<Rightarrow> pb_doc_event" where
  "to_doc_event e = \<lparr>pe_type = to_doc_event_type (ev_type e), pe_publisher = Some (to_client (ev_publisher e)),
     pe_document_keys = to_document_keys (ev_document_keys e)\<rparr>"

definition from_doc_event :: "pb_doc_event \<Rightarrow> (conv_error, doc_event) result" where
  "from_doc_event p =
     checked (from_client (pe_publisher p)) (\<lambda>c.
     checked (from_event_type (pe_type p)) (\<lambda>ty.
     ok \<lparr>ev_type = ty, ev_publisher = c, ev_document_keys = from_document_keys (pe_document_keys p)\<rparr>))"

end
