(* ===== verification/Documents.thy ===== *)
theory Documents
  imports Changes
begin

text \<open>
  The document: \<open>src/pkg/document/internal_document.go\<close> and \<open>document.go\<close>.  The heap is threaded
  through every operation; an error is returned next to the state it leaves behind.  The decoder
  of snapshots (\<open>converter.BytesToObject\<close>, theory \<open>Converter\<close> together with protobuf) and the
  user's updater are arguments.  The message of a change is given as text (\<open>messageFromMsgAndArgs\<close>
  formats it with \<open>fmt\<close>); the debug output is left out.
\<close>

section \<open>Internal documents\<close>

datatype doc_status = Detached | Attached

record internal_document =
  idoc_key :: doc_key
  idoc_status :: doc_status
  idoc_root :: root
  idoc_checkpoint :: checkpoint
  idoc_change_id :: change_id
  idoc_local_changes :: "change list"

datatype ('c, 'u) doc_error = Operation_Error op_error | Snapshot_Error 'c | Updater_Error 'u

type_synonym 'c snapshot_decoder = "8 word list option \<Rightarrow> json_heap \<Rightarrow> ('c, json_heap \<times> ref) result"

definition new_internal_document :: "string \<Rightarrow> string \<Rightarrow> json_heap \<Rightarrow> (json_heap \<times> internal_document) option" where
  "new_internal_document c d h = do {
     let (obj, h) = new_object initial_ticket h;
     r \<leftarrow> new_root h obj;
     Some (h, \<lparr>idoc_key = \<lparr>collection = c, document = d\<rparr>, idoc_status = Detached, idoc_root = r,
       idoc_checkpoint = initial_checkpoint, idoc_change_id = initial_id, idoc_local_changes = []\<rparr>) }"

definition new_internal_document_from_snapshot :: "'c snapshot_decoder \<Rightarrow> string \<Rightarrow> string \<Rightarrow> 64 word \<Rightarrow>
    8 word list option \<Rightarrow> json_heap \<Rightarrow> ('c, json_heap \<times> internal_document) result" where
  "new_internal_document_from_snapshot decode c d server_seq snapshot h =
     checked (decode snapshot h) (\<lambda>(h, obj).
     panics (new_root h obj) (\<lambda>r.
     ok (h, \<lparr>idoc_key = \<lparr>collection = c, document = d\<rparr>, idoc_status = Detached, idoc_root = r,
       idoc_checkpoint = next_server_seq initial_checkpoint server_seq,
       idoc_change_id = initial_id, idoc_local_changes = []\<rparr>)))"

definition has_local_changes :: "internal_document \<Rightarrow> bool" where
  "has_local_changes d \<longleftrightarrow> length (idoc_local_changes d) > 0"

text \<open>\<open>applyChanges\<close>: the clock follows the changes that were executed.\<close>

fun apply_changes :: "float_ops \<Rightarrow> change list \<Rightarrow> json_heap \<Rightarrow> internal_document \<Rightarrow>
    (json_heap \<times> internal_document \<times> op_error option) option" where
  "apply_changes fl [] h d = Some (h, d, None)"
| "apply_changes fl (c # cs) h d = do {
     (h, r, err) \<leftarrow> change_execute fl c h (idoc_root d);
     let d = d\<lparr>idoc_root := r\<rparr>;
     case err of
       Some e \<Rightarrow> Some (h, d, Some e)
     | None \<Rightarrow> apply_changes fl cs h
         (d\<lparr>idoc_change_id := sync_lamport (idoc_change_id d) (id_lamport (ch_id c))\<rparr>) }"

fun execute_changes :: "float_ops \<Rightarrow> change list \<Rightarrow> json_heap \<Rightarrow> root \<Rightarrow>
    (json_heap \<times> root \<times> op_error option) option" where
  "execute_changes fl [] h r = Some (h, r, None)"
| "execute_changes fl (c # cs) h r = do {
     (h, r, err) \<leftarrow> change_execute fl c h r;
     case err of Some e \<Rightarrow> Some (h, r, Some e) | None \<Rightarrow> execute_changes fl cs h r }"

definition apply_snapshot :: "'c snapshot_decoder \<Rightarrow> float_ops \<Rightarrow> 8 word list \<Rightarrow> 64 word \<Rightarrow> json_heap \<Rightarrow>
    internal_document \<Rightarrow> (json_heap \<times> internal_document \<times> ('c, 'u) doc_error option) option" where
  "apply_snapshot decode fl snapshot server_seq h d =
     (case decode (Some snapshot) h of
        None \<Rightarrow> None
      | Some (Inl e) \<Rightarrow> Some (h, d, Some (Snapshot_Error e))
      | Some (Inr (h, obj)) \<Rightarrow> do {
          r \<leftarrow> new_root h obj;
          (h, r, err) \<leftarrow> execute_changes fl (idoc_local_changes d) h r;
          let d = d\<lparr>idoc_root := r\<rparr>;
          Some (case err of
            Some e \<Rightarrow> (h, d, Some (Operation_Error e))
          | None \<Rightarrow> (h, d\<lparr>idoc_change_id := sync_lamport (idoc_change_id d) server_seq\<rparr>, None)) })"

text \<open>Step 02 of \<open>ApplyChangePack\<close>: drop the local changes the server has.\<close>

definition drop_pushed :: "checkpoint \<Rightarrow> change list \<Rightarrow> change list" where
  "drop_pushed cp cs = dropWhile (\<lambda>c. change_client_seq c \<le> cp_client_seq cp) cs"

definition idoc_finish_pack :: "pack \<Rightarrow> internal_document \<Rightarrow> internal_document" where
  "idoc_finish_pack p d = d\<lparr>
     idoc_local_changes := drop_pushed (pk_checkpoint p) (idoc_local_changes d),
     idoc_checkpoint := forward (idoc_checkpoint d) (pk_checkpoint p)\<rparr>"

definition idoc_apply_change_pack :: "'c snapshot_decoder \<Rightarrow> float_ops \<Rightarrow> pack \<Rightarrow> json_heap \<Rightarrow> internal_document \<Rightarrow>
    (json_heap \<times> internal_document \<times> ('c, 'u) doc_error option) option" where
  "idoc_apply_change_pack decode fl p h d = do {
     (h, d, err) \<leftarrow> (if length (pk_snapshot p) > 0
       then apply_snapshot decode fl (pk_snapshot p) (cp_server_seq (pk_checkpoint p)) h d
       else do {
         (h, d, err) \<leftarrow> apply_changes fl (pk_changes p) h d;
         Some (h, d, map_option Operation_Error err) });
     Some (h, if err = None then idoc_finish_pack p d else d, err) }"

text \<open>A nil ticket is compared, and panics, only if there is a removed element or block.\<close>

definition nothing_removed :: "json_heap \<Rightarrow> root \<Rightarrow> bool" where
  "nothing_removed h r \<longleftrightarrow>
     list_all (\<lambda>(_, _, e). removed_at (cells h e) = None) (root_removed_pairs r) \<and>
     list_all (\<lambda>(_, e). text_element_removed_len h e = Some 0) (root_removed_texts r)"

definition collect_garbage :: "ticket option \<Rightarrow> json_heap \<Rightarrow> root \<Rightarrow> (json_heap \<times> root \<times> int) option" where
  "collect_garbage t h r =
     (case t of
        None \<Rightarrow> if nothing_removed h r then Some (h, r, 0) else None
      | Some t \<Rightarrow> root_garbage_collect t h r)"

definition idoc_garbage_collect :: "ticket option \<Rightarrow> json_heap \<Rightarrow> internal_document \<Rightarrow>
    (json_heap \<times> internal_document \<times> int) option" where
  "idoc_garbage_collect t h d = do {
     (h, r, n) \<leftarrow> collect_garbage t h (idoc_root d);
     Some (h, d\<lparr>idoc_root := r\<rparr>, n) }"

definition idoc_garbage_len :: "json_heap \<Rightarrow> internal_document \<Rightarrow> int option" where
  "idoc_garbage_len h d = root_garbage_len h (idoc_root d)"

definition idoc_marshal :: "text_env \<Rightarrow> json_heap \<Rightarrow> internal_document \<Rightarrow> string option" where
  "idoc_marshal env h d = elem_marshal (depth_of h) env h (root_object (idoc_root d))"

definition idoc_create_change_pack :: "internal_document \<Rightarrow> pack" where
  "idoc_create_change_pack d =
     (let changes = idoc_local_changes d;
          cp = increase_client_seq (idoc_checkpoint d) (word_of_nat (length changes))
      in new_pack (idoc_key d) cp changes [])"

definition idoc_set_actor :: "actor_id option \<Rightarrow> internal_document \<Rightarrow> internal_document" where
  "idoc_set_actor a d = d\<lparr>
     idoc_local_changes := map (change_set_actor a) (idoc_local_changes d),
     idoc_change_id := id_set_actor (idoc_change_id d) a\<rparr>"

definition idoc_actor :: "internal_document \<Rightarrow> actor_id option" where
  "idoc_actor d = id_actor (idoc_change_id d)"

definition idoc_is_attached :: "internal_document \<Rightarrow> bool" where
  "idoc_is_attached d \<longleftrightarrow> idoc_status d = Attached"

section \<open>Documents\<close>

record document =
  doc_internal :: internal_document
  doc_clone :: "root option"

definition new_document :: "string \<Rightarrow> string \<Rightarrow> json_heap \<Rightarrow> (json_heap \<times> document) option" where
  "new_document c d h = do {
     (h, i) \<leftarrow> new_internal_document c d h;
     Some (h, \<lparr>doc_internal = i, doc_clone = None\<rparr>) }"

definition ensure_clone :: "json_heap \<Rightarrow> document \<Rightarrow> (json_heap \<times> document \<times> root) option" where
  "ensure_clone h d =
     (case doc_clone d of
        Some r \<Rightarrow> Some (h, d, r)
      | None \<Rightarrow> do {
          (h, r) \<leftarrow> root_deep_copy h (idoc_root (doc_internal d));
          Some (h, d\<lparr>doc_clone := Some r\<rparr>, r) })"

text \<open>The message of a change: no argument, a value, or a format and its arguments; the two formatters
  of package \<open>fmt\<close> are arguments.  A format that is not a string panics.\<close>

fun message_from_args :: "(go_value \<Rightarrow> string) \<Rightarrow> (string \<Rightarrow> go_value list \<Rightarrow> string) \<Rightarrow> go_value list \<Rightarrow> string option" where
  "message_from_args show_value sprintf [] = Some []"
| "message_from_args show_value sprintf [v] = Some (case v of Go_String s \<Rightarrow> s | _ \<Rightarrow> show_value v)"
| "message_from_args show_value sprintf (f # v # vs) =
     (case f of Go_String s \<Rightarrow> Some (sprintf s (v # vs)) | _ \<Rightarrow> None)"

text \<open>The updater works on the root object of the clone through a context.\<close>

type_synonym 'u updater = "ref \<Rightarrow> change_context \<Rightarrow> json_heap \<Rightarrow> (json_heap \<times> change_context \<times> 'u option) option"

definition doc_update :: "float_ops \<Rightarrow> 'u updater \<Rightarrow> string \<Rightarrow> json_heap \<Rightarrow> document \<Rightarrow>
    (json_heap \<times> document \<times> ('c, 'u) doc_error option) option" where
  "doc_update fl updater msg h d = do {
     (h, d, clone) \<leftarrow> ensure_clone h d;
     let i = doc_internal d;
     (h, x, err) \<leftarrow> updater (root_object clone) (new_context (next_id (idoc_change_id i)) msg clone) h;
     case err of
       Some e \<Rightarrow> Some (h, d\<lparr>doc_clone := None\<rparr>, Some (Updater_Error e))
     | None \<Rightarrow>
         let d = d\<lparr>doc_clone := Some (cx_root x)\<rparr> in
         if has_operations x then do {
           let c = to_change x;
           (h, r, err) \<leftarrow> change_execute fl c h (idoc_root i);
           let i = i\<lparr>idoc_root := r\<rparr>;
           Some (case err of
             Some e \<Rightarrow> (h, d\<lparr>doc_internal := i\<rparr>, Some (Operation_Error e))
           | None \<Rightarrow> (h, d\<lparr>doc_internal := i\<lparr>idoc_local_changes := idoc_local_changes i @ [c],
               idoc_change_id := cx_id x\<rparr>\<rparr>, None)) }
         else Some (h, d, None) }"

definition doc_garbage_collect :: "ticket option \<Rightarrow> json_heap \<Rightarrow> document \<Rightarrow>
    (json_heap \<times> document \<times> int) option" where
  "doc_garbage_collect t h d = do {
     (h, clone) \<leftarrow> (case doc_clone d of
        None \<Rightarrow> Some (h, None)
      | Some r \<Rightarrow> do { (h, r, _) \<leftarrow> collect_garbage t h r; Some (h, Some r) });
     (h, i, n) \<leftarrow> idoc_garbage_collect t h (doc_internal d);
     Some (h, \<lparr>doc_internal = i, doc_clone = clone\<rparr>, n) }"

text \<open>Step 01 of \<open>ApplyChangePack\<close>: the changes are executed on the clone, then on the document.\<close>

definition doc_apply_remote :: "'c snapshot_decoder \<Rightarrow> float_ops \<Rightarrow> pack \<Rightarrow> json_heap \<Rightarrow> document \<Rightarrow>
    (json_heap \<times> document \<times> ('c, 'u) doc_error option) option" where
  "doc_apply_remote decode fl p h d =
     (if length (pk_snapshot p) > 0 then do {
        (h, i, err) \<leftarrow> apply_snapshot decode fl (pk_snapshot p) (cp_server_seq (pk_checkpoint p)) h (doc_internal d);
        Some (h, \<lparr>doc_internal = i, doc_clone = None\<rparr>, err) }
      else do {
        (h, d, clone) \<leftarrow> ensure_clone h d;
        (h, clone, err) \<leftarrow> execute_changes fl (pk_changes p) h clone;
        let d = d\<lparr>doc_clone := Some clone\<rparr>;
        case err of
          Some e \<Rightarrow> Some (h, d, Some (Operation_Error e))
        | None \<Rightarrow> do {
            (h, i, err) \<leftarrow> apply_changes fl (pk_changes p) h (doc_internal d);
            Some (h, d\<lparr>doc_internal := i\<rparr>, map_option Operation_Error err) } })"

definition doc_apply_change_pack :: "'c snapshot_decoder \<Rightarrow> float_ops \<Rightarrow> pack \<Rightarrow> json_heap \<Rightarrow> document \<Rightarrow>
    (json_heap \<times> document \<times> ('c, 'u) doc_error option) option" where
  "doc_apply_change_pack decode fl p h d = do {
     (h, d, err) \<leftarrow> doc_apply_remote decode fl p h d;
     case err of
       Some e \<Rightarrow> Some (h, d, Some e)
     | None \<Rightarrow> do {
         (h, d, _) \<leftarrow> doc_garbage_collect (pk_min_synced p) h
           (d\<lparr>doc_internal := idoc_finish_pack p (doc_internal d)\<rparr>);
         Some (h, d, None) } }"

definition doc_set_actor :: "actor_id option \<Rightarrow> document \<Rightarrow> document" where
  "doc_set_actor a d = d\<lparr>doc_internal := idoc_set_actor a (doc_internal d)\<rparr>"

definition doc_set_status :: "doc_status \<Rightarrow> document \<Rightarrow> document" where
  "doc_set_status s d = d\<lparr>doc_internal := (doc_internal d)\<lparr>idoc_status := s\<rparr>\<rparr>"

definition doc_create_change_pack :: "document \<Rightarrow> pack" where
  "doc_create_change_pack d = idoc_create_change_pack (doc_internal d)"

definition doc_root :: "json_heap \<Rightarrow> document \<Rightarrow> (json_heap \<times> document \<times> change_context \<times> ref) option" where
  "doc_root h d = do {
     (h, d, clone) \<leftarrow> ensure_clone h d;
     Some (h, d, new_context (next_id (idoc_change_id (doc_internal d))) [] clone, root_object clone) }"

end
