(* ===== verification/Snapshot_Converter.thy ===== *)
theory Snapshot_Converter
  imports Converter Documents
begin

text \<open>
  Snapshots: \<open>src/api/converter/to_bytes.go\<close> and \<open>from_bytes.go\<close>, the conversion of a whole element
  with everything below it.  \<open>proto.Marshal\<close> and \<open>proto.Unmarshal\<close> are arguments.  Writing recurses
  along the graph up to a given depth, as \<open>Marshal\<close> does in theory \<open>Json_Elements\<close>; reading
  recurses on the message.
\<close>

section \<open>Writing\<close>

definition to_times :: "json_heap \<Rightarrow> ref \<Rightarrow> pb_times" where
  "to_times h r = \<lparr>pb_created_at = to_time_ticket (Some (created_at (cells h r))),
     pb_moved_at = to_time_ticket (moved_at (cells h r)),
     pb_removed_at = to_time_ticket (removed_at (cells h r))\<rparr>"

definition to_text_node_id :: "node_id \<Rightarrow> pb_text_node_id" where
  "to_text_node_id i = \<lparr>pti_created_at = to_time_ticket (Some (id_created i)),
     pti_offset = word_of_int (id_offset i)\<rparr>"

definition to_text_nodes :: "rune list split_list \<Rightarrow> pb_text_node list" where
  "to_text_nodes s = map (\<lambda>n.
     \<lparr>ptn_id = Some (to_text_node_id (sn_id (rs_nodes s n))), ptn_value = sn_value (rs_nodes s n),
      ptn_removed_at = to_time_ticket (sn_removed (rs_nodes s n)),
      ptn_ins_prev_id = map_option to_text_node_id (ins_prev_id s n)\<rparr>) (rs_chain s)"

definition to_rich_attrs :: "rht \<Rightarrow> (string \<times> pb_rich_text_attr) list" where
  "to_rich_attrs attrs = fold (\<lambda>n m. AList.update (rn_key n)
       \<lparr>pra_key = rn_key n, pra_value = rn_val n, pra_updated_at = to_time_ticket (Some (rn_updated_at n))\<rparr> m)
     (rht_nodes attrs) []"

definition to_rich_text_nodes :: "rich_value split_list \<Rightarrow> pb_rich_text_node list" where
  "to_rich_text_nodes s = map (\<lambda>n.
     \<lparr>prn_id = Some (to_text_node_id (sn_id (rs_nodes s n))),
      prn_attributes = to_rich_attrs (rv_attrs (sn_value (rs_nodes s n))),
      prn_value = rv_text (sn_value (rs_nodes s n)),
      prn_removed_at = to_time_ticket (sn_removed (rs_nodes s n)),
      prn_ins_prev_id = map_option to_text_node_id (ins_prev_id s n)\<rparr>) (rs_chain s)"

definition to_primitive :: "json_heap \<Rightarrow> ref \<Rightarrow> primitive \<Rightarrow> pb_element option" where
  "to_primitive h r p = map_option (\<lambda>bs. Pb_Primitive_Element (to_value_type (value_type p)) bs (to_times h r))
     (primitive_bytes p)"

definition to_counter :: "json_heap \<Rightarrow> ref \<Rightarrow> counter \<Rightarrow> pb_element option" where
  "to_counter h r c = map_option (\<lambda>bs. Pb_Counter_Element (to_counter_type (counter_type c)) bs (to_times h r))
     (counter_bytes c)"

fun to_rht_nodes :: "(ref \<Rightarrow> pb_element option) \<Rightarrow> pq_node list \<Rightarrow> pb_rht_node list option" where
  "to_rht_nodes conv [] = Some []"
| "to_rht_nodes conv (n # ns) = do {
     p \<leftarrow> conv (pqn_elem n);
     ps \<leftarrow> to_rht_nodes conv ns;
     Some (Pb_Rht_Node (pqn_key n) (Some p) # ps) }"

fun to_rga_nodes :: "(ref \<Rightarrow> pb_element option) \<Rightarrow> ref list \<Rightarrow> pb_rga_node list option" where
  "to_rga_nodes conv [] = Some []"
| "to_rga_nodes conv (e # es) = do {
     p \<leftarrow> conv e;
     ps \<leftarrow> to_rga_nodes conv es;
     Some (Pb_Rga_Node (Some p) # ps) }"

fun to_json_element :: "nat \<Rightarrow> json_heap \<Rightarrow> ref \<Rightarrow> pb_element option" where
  "to_json_element 0 h r = None"
| "to_json_element (Suc n) h r =
     (case body (cells h r) of
        Object_Body m \<Rightarrow> map_option (\<lambda>ns. Pb_Object_Element ns (to_times h r))
          (to_rht_nodes (to_json_element n h) (pm_nodes m))
      | Array_Body l \<Rightarrow> map_option (\<lambda>ns. Pb_Array_Element ns (to_times h r))
          (to_rga_nodes (to_json_element n h) (map (rl_elem l) (rga_nodes l)))
      | Primitive_Body p \<Rightarrow> to_primitive h r p
      | Text_Body t \<Rightarrow> Some (Pb_Text_Element (to_text_nodes (tx_split t)) (to_times h r))
      | Rich_Text_Body t \<Rightarrow> Some (Pb_Rich_Text_Element (to_rich_text_nodes (tx_split t)) (to_times h r))
      | Counter_Body c \<Rightarrow> to_counter h r c)"

definition object_to_bytes :: "(pb_element \<Rightarrow> 8 word list option) \<Rightarrow> json_heap \<Rightarrow> ref \<Rightarrow>
    (conv_error, 8 word list) result" where
  "object_to_bytes marshal h r =
     panics (to_json_element (depth_of h) h r) (\<lambda>p.
     case marshal p of None \<Rightarrow> fail Proto_Error | Some bs \<Rightarrow> ok bs)"

section \<open>Reading\<close>

text \<open>The three tickets, in the order they are read, and the element built with them.\<close>

definition from_times :: "pb_times \<Rightarrow> (conv_error, ticket \<times> ticket option \<times> ticket option) result" where
  "from_times p =
     checked (needed_ticket (pb_created_at p)) (\<lambda>c.
     checked (from_time_ticket (pb_moved_at p)) (\<lambda>m.
     checked (from_time_ticket (pb_removed_at p)) (\<lambda>r. ok (c, m, r))))"

definition heap_new_at :: "ticket \<times> ticket option \<times> ticket option \<Rightarrow> body \<Rightarrow> json_heap \<Rightarrow>
    (conv_error, json_heap \<times> ref) result" where
  "heap_new_at tm b h = (case tm of (c, m, r) \<Rightarrow>
     ok (alloc_copy \<lparr>created_at = c, moved_at = m, removed_at = r, body = b\<rparr> h))"

definition from_text_node_id :: "pb_text_node_id option \<Rightarrow> (conv_error, node_id option) result" where
  "from_text_node_id p =
     (case p of
        None \<Rightarrow> ok None
      | Some p \<Rightarrow> checked (needed_ticket (pti_created_at p)) (\<lambda>t.
          ok (Some (Node_Id t (sint (pti_offset p))))))"

text \<open>The end of \<open>fromTextNode\<close> and \<open>fromRichTextNode\<close>; a node without id panics when it is inserted.\<close>

definition from_node :: "pb_text_node_id option \<Rightarrow> 'v \<Rightarrow> pb_time_ticket option \<Rightarrow> (conv_error, 'v rs_node) result" where
  "from_node i v removed =
     checked (from_text_node_id i) (\<lambda>i.
     if removed = None then panics i (\<lambda>i. ok (new_split_node i v))
     else checked (needed_ticket removed) (\<lambda>t.
       panics i (\<lambda>i.
       panics (split_node_remove t max_ticket (new_split_node i v)) (\<lambda>(nd, _). ok nd))))"

definition from_text_node :: "pb_text_node \<Rightarrow> (conv_error, rune list rs_node) result" where
  "from_text_node p = from_node (ptn_id p) (ptn_value p) (ptn_removed_at p)"

fun from_rich_attrs :: "(string \<times> pb_rich_text_attr) list \<Rightarrow> rht \<Rightarrow> (conv_error, rht) result" where
  "from_rich_attrs [] attrs = ok attrs"
| "from_rich_attrs ((_, p) # ps) attrs =
     checked (needed_ticket (pra_updated_at p)) (\<lambda>t.
     panics (rht_set attrs (pra_key p) (pra_value p) t) (from_rich_attrs ps))"

definition from_rich_text_node :: "pb_rich_text_node \<Rightarrow> (conv_error, rich_value rs_node) result" where
  "from_rich_text_node p =
     checked (from_text_node_id (prn_id p)) (\<lambda>_.
     checked (from_rich_attrs (prn_attributes p) new_rht) (\<lambda>attrs.
     from_node (prn_id p) \<lparr>rv_attrs = attrs, rv_text = prn_value p\<rparr> (prn_removed_at p)))"

text \<open>The loop over the nodes of a text.\<close>

fun insert_text_nodes :: "'v value_ops \<Rightarrow> ('p \<Rightarrow> (conv_error, 'v rs_node) result) \<Rightarrow>
    ('p \<Rightarrow> pb_text_node_id option) \<Rightarrow> 'p list \<Rightarrow> nat \<Rightarrow> 'v split_list \<Rightarrow> (conv_error, 'v split_list) result" where
  "insert_text_nodes ops conv prev [] current s = ok s"
| "insert_text_nodes ops conv prev (p # ps) current s =
     checked (conv p) (\<lambda>nd.
     panics (rs_insert_after ops current nd s) (\<lambda>(s, m).
     checked (from_text_node_id (prev p)) (\<lambda>i.
     panics (case i of
         None \<Rightarrow> Some s
       | Some i \<Rightarrow> do { found \<leftarrow> find_node s (Some i); q \<leftarrow> found; Some (set_ins_prev m q s) }) (\<lambda>s.
     insert_text_nodes ops conv prev ps m s))))"

definition from_json_primitive :: "pb_value_type \<Rightarrow> 8 word list \<Rightarrow> pb_times \<Rightarrow> json_heap \<Rightarrow>
    (conv_error, json_heap \<times> ref) result" where
  "from_json_primitive ty bs tm h =
     checked (from_times tm) (\<lambda>tm.
     checked (from_primitive_value_type ty) (\<lambda>vt.
     panics (value_from_bytes vt bs) (\<lambda>v.
     panics (new_primitive v) (\<lambda>x. heap_new_at tm (Primitive_Body x) h))))"

definition from_json_counter :: "pb_value_type \<Rightarrow> 8 word list \<Rightarrow> pb_times \<Rightarrow> json_heap \<Rightarrow>
    (conv_error, json_heap \<times> ref) result" where
  "from_json_counter ty bs tm h =
     checked (from_times tm) (\<lambda>tm.
     checked (from_counter_type ty) (\<lambda>ct.
     panics (counter_value_from_bytes ct bs) (\<lambda>v.
     panics (new_counter v) (\<lambda>x. heap_new_at tm (Counter_Body x) h))))"

definition from_json_text :: "pb_text_node list \<Rightarrow> pb_times \<Rightarrow> json_heap \<Rightarrow> (conv_error, json_heap \<times> ref) result" where
  "from_json_text ps tm h =
     checked (from_times tm) (\<lambda>tm.
     panics (new_rga_tree_split text_ops initial_text_node) (\<lambda>s.
     checked (insert_text_nodes text_ops from_text_node ptn_ins_prev_id ps initial_head s) (\<lambda>s.
     heap_new_at tm (Text_Body (new_text s)) h)))"

definition from_json_rich_text :: "pb_rich_text_node list \<Rightarrow> pb_times \<Rightarrow> json_heap \<Rightarrow>
    (conv_error, json_heap \<times> ref) result" where
  "from_json_rich_text ps tm h =
     checked (from_times tm) (\<lambda>tm.
     panics (new_rga_tree_split rich_ops initial_rich_text_node) (\<lambda>s.
     checked (insert_text_nodes rich_ops from_rich_text_node prn_ins_prev_id ps initial_head s) (\<lambda>s.
     heap_new_at tm (Rich_Text_Body (new_text s)) h)))"

fun from_json_element :: "pb_element \<Rightarrow> json_heap \<Rightarrow> (conv_error, json_heap \<times> ref) result"
and from_rht_nodes :: "pb_rht_node list \<Rightarrow> pq_map \<Rightarrow> json_heap \<Rightarrow> (conv_error, json_heap \<times> pq_map) result"
and from_rga_nodes :: "pb_rga_node list \<Rightarrow> rga_list \<Rightarrow> json_heap \<Rightarrow> (conv_error, json_heap \<times> rga_list) result" where
  "from_json_element Pb_No_Body h = fail ErrUnsupportedElement"
| "from_json_element (Pb_Object_Element ns tm) h =
     checked (from_rht_nodes ns new_pq_map h) (\<lambda>(h, m).
     checked (from_times tm) (\<lambda>tm. heap_new_at tm (Object_Body m) h))"
| "from_json_element (Pb_Array_Element ns tm) h =
     (let (h, l) = new_rga_tree_list dummy_body h in
      checked (from_rga_nodes ns l h) (\<lambda>(h, l).
      checked (from_times tm) (\<lambda>tm. heap_new_at tm (Array_Body l) h)))"
| "from_json_element (Pb_Primitive_Element ty bs tm) h = from_json_primitive ty bs tm h"
| "from_json_element (Pb_Text_Element ns tm) h = from_json_text ns tm h"
| "from_json_element (Pb_Rich_Text_Element ns tm) h = from_json_rich_text ns tm h"
| "from_json_element (Pb_Counter_Element ty bs tm) h = from_json_counter ty bs tm h"
| "from_rht_nodes [] m h = ok (h, m)"
| "from_rht_nodes (Pb_Rht_Node k (Some p) # ns) m h =
     checked (from_json_element p h) (\<lambda>(h, e). from_rht_nodes ns (pm_set_internal h m k e) h)"
| "from_rht_nodes (Pb_Rht_Node k None # ns) m h = None"
| "from_rga_nodes [] l h = ok (h, l)"
| "from_rga_nodes (Pb_Rga_Node (Some p) # ns) l h =
     checked (from_json_element p h) (\<lambda>(h, e).
     panics (rga_add h l e) (\<lambda>l. from_rga_nodes ns l h))"
| "from_rga_nodes (Pb_Rga_Node None # ns) l h = None"

definition bytes_to_object :: "(8 word list \<Rightarrow> pb_element option) \<Rightarrow> conv_error snapshot_decoder" where
  "bytes_to_object unmarshal snapshot h =
     (case snapshot of
        None \<Rightarrow> (let (obj, h) = new_object initial_ticket h in ok (h, obj))
      | Some bs \<Rightarrow>
          (case unmarshal bs of
             None \<Rightarrow> fail Proto_Error
           | Some (Pb_Object_Element ns tm) \<Rightarrow> from_json_element (Pb_Object_Element ns tm) h
           | _ \<Rightarrow> None))"

end
