(* ===== verification/Server.thy ===== *)
theory Server
  imports Snapshot_Converter
begin

text \<open>
  The server side of synchronisation: the client and document records of \<open>src/yorkie/backend/db\<close>,
  the push-pull protocol of \<open>src/yorkie/packs/packs.go\<close>, \<open>src/yorkie/clients/clients.go\<close>, the access
  rules of \<open>src/yorkie/auth\<close> and \<open>backend.go\<close>, and the request handlers of
  \<open>src/yorkie/rpc/yorkie_server.go\<close>.  The database interface \<open>db.DB\<close> is the record \<open>db_ops\<close>, an
  argument; its state and the heap are threaded through every call and are returned next to an
  error, because calls made before the error stay done.  A request is one step here: the locks of
  the coordinator, the metrics, logging and wall clock times are left out.
\<close>

section \<open>Clients and documents\<close>

type_synonym db_id = string

definition id_bytes :: "db_id \<Rightarrow> byte list" where
  "id_bytes i = (case hex_decode i of None \<Rightarrow> [] | Some bs \<Rightarrow> bs)"

definition id_from_bytes :: "byte list \<Rightarrow> db_id" where
  "id_from_bytes bs = hex_encode bs"

text \<open>A status is a string; the ones the code writes have a constructor of their own.\<close>

datatype client_status = Client_Deactivated | Client_Activated | Other_Client_Status string

datatype attach_status = Document_Attached | Document_Detached | Other_Attach_Status string

record client_doc_info =
  cdi_status :: attach_status
  cdi_server_seq :: "64 word"
  cdi_client_seq :: "32 word"

text \<open>A nil map of documents is the empty list.\<close>

record client_info =
  ci_id :: db_id
  ci_key :: string
  ci_status :: client_status
  ci_documents :: "(db_id \<times> client_doc_info) list"

record doc_info =
  di_id :: db_id
  di_key :: string
  di_server_seq :: "64 word"
  di_owner :: db_id

record snapshot_info =
  si_server_seq :: "64 word"
  si_snapshot :: "8 word list option"

datatype 'e server_error =
    Client_Not_Activated | Document_Not_Attached | Document_Never_Attached | Document_Already_Attached
  | Invalid_Server_Seq | Invalid_Client_Key | Invalid_Client_Id | Invalid_Doc_Key | Not_Allowed string
  | Conv_Failed conv_error | Op_Failed op_error | Outside 'e

definition has_document :: "client_info \<Rightarrow> db_id \<Rightarrow> bool" where
  "has_document i d \<longleftrightarrow> map_of (ci_documents i) d \<noteq> None"

definition attach_document :: "db_id \<Rightarrow> client_info \<Rightarrow> 'e server_error + client_info" where
  "attach_document d i =
     (if ci_status i \<noteq> Client_Activated then Inl Client_Not_Activated
      else if map_option cdi_status (map_of (ci_documents i) d) = Some Document_Attached
      then Inl Document_Already_Attached
      else Inr (i\<lparr>ci_documents := AList.update d
        \<lparr>cdi_status = Document_Attached, cdi_server_seq = 0, cdi_client_seq = 0\<rparr> (ci_documents i)\<rparr>))"

definition ensure_document_attached :: "db_id \<Rightarrow> client_info \<Rightarrow> 'e server_error + unit" where
  "ensure_document_attached d i =
     (if ci_status i \<noteq> Client_Activated then Inl Client_Not_Activated
      else case map_of (ci_documents i) d of
        None \<Rightarrow> Inl Document_Not_Attached
      | Some c \<Rightarrow> if cdi_status c = Document_Detached then Inl Document_Not_Attached else Inr ())"

definition detach_document :: "db_id \<Rightarrow> client_info \<Rightarrow> 'e server_error + client_info" where
  "detach_document d i =
     (case ensure_document_attached d i of
        Inl e \<Rightarrow> Inl e
      | Inr _ \<Rightarrow> Inr (i\<lparr>ci_documents := AList.update d
          \<lparr>cdi_status = Document_Detached, cdi_server_seq = 0, cdi_client_seq = 0\<rparr> (ci_documents i)\<rparr>))"

definition client_is_attached :: "db_id \<Rightarrow> client_info \<Rightarrow> 'e server_error + bool" where
  "client_is_attached d i =
     (case map_of (ci_documents i) d of
        None \<Rightarrow> Inl Document_Never_Attached
      | Some c \<Rightarrow> Inr (cdi_status c = Document_Attached))"

definition client_checkpoint :: "db_id \<Rightarrow> client_info \<Rightarrow> checkpoint" where
  "client_checkpoint d i =
     (case map_of (ci_documents i) d of
        None \<Rightarrow> initial_checkpoint
      | Some c \<Rightarrow> new_checkpoint (cdi_server_seq c) (cdi_client_seq c))"

definition update_checkpoint :: "db_id \<Rightarrow> checkpoint \<Rightarrow> client_info \<Rightarrow> 'e server_error + client_info" where
  "update_checkpoint d cp i =
     (case map_of (ci_documents i) d of
        None \<Rightarrow> Inl Document_Never_Attached
      | Some c \<Rightarrow> Inr (i\<lparr>ci_documents := AList.update d
          (c\<lparr>cdi_server_seq := cp_server_seq cp, cdi_client_seq := cp_client_seq cp\<rparr>) (ci_documents i)\<rparr>))"

definition increase_server_seq :: "doc_info \<Rightarrow> doc_info \<times> 64 word" where
  "increase_server_seq d = (d\<lparr>di_server_seq := di_server_seq d + 1\<rparr>, di_server_seq d + 1)"

definition doc_get_key :: "doc_info \<Rightarrow> 'e server_error + doc_key" where
  "doc_get_key d = (case from_bson_key (di_key d) of None \<Rightarrow> Inl Invalid_Doc_Key | Some k \<Rightarrow> Inr k)"

subsection \<open>Stored changes\<close>

text \<open>The bytes of an operation: \<open>Marshal\<close> and \<open>Unmarshal\<close> of the generated message.\<close>

record op_codec =
  op_marshal :: "pb_operation \<Rightarrow> 8 word list option"
  op_unmarshal :: "8 word list \<Rightarrow> pb_operation option"

record change_info =
  chi_server_seq :: "64 word"
  chi_client_seq :: "32 word"
  chi_lamport :: "64 word"
  chi_actor :: db_id
  chi_message :: string
  chi_operations :: "8 word list list"

definition encode_operations :: "op_codec \<Rightarrow> json_heap \<Rightarrow> operation list \<Rightarrow> (unit, 8 word list list) result" where
  "encode_operations codec h ops =
     panics (to_operations h ops) (checked_map (\<lambda>p.
       case op_marshal codec p of None \<Rightarrow> fail () | Some bs \<Rightarrow> ok bs))"

definition info_to_change :: "op_codec \<Rightarrow> change_info \<Rightarrow> json_heap \<Rightarrow> (conv_error, json_heap \<times> change) result" where
  "info_to_change codec i h =
     checked (case actor_id_from_hex (chi_actor i) of Inl e \<Rightarrow> fail (Actor_Error e) | Inr a \<Rightarrow> ok a) (\<lambda>a.
     checked (checked_map (\<lambda>bs. case op_unmarshal codec bs of None \<Rightarrow> fail Proto_Error | Some p \<Rightarrow> ok p)
       (chi_operations i)) (\<lambda>ps.
     checked (from_operations ps h) (\<lambda>(h, ops).
     ok (h, set_server_seq (chi_server_seq i)
       (new_change (new_id (chi_client_seq i) (chi_lamport i) a) (chi_message i) ops)))))"

section \<open>The environment of a request\<close>

text \<open>The methods of \<open>db.DB\<close>.  \<open>None\<close> is a panic of the implementation.\<close>

record ('s, 'e) db_ops =
  db_activate_client :: "string \<Rightarrow> ('s, 'e, client_info) io"
  db_deactivate_client :: "db_id \<Rightarrow> ('s, 'e, client_info) io"
  db_find_client :: "db_id \<Rightarrow> ('s, 'e, client_info) io"
  db_update_client :: "client_info \<Rightarrow> doc_info \<Rightarrow> ('s, 'e, unit) io"
  db_find_doc :: "client_info \<Rightarrow> string \<Rightarrow> bool \<Rightarrow> ('s, 'e, doc_info) io"
  db_store_changes :: "json_heap \<Rightarrow> doc_info \<Rightarrow> 64 word \<Rightarrow> change list \<Rightarrow> ('s, 'e, unit) io"
  db_create_snapshot :: "json_heap \<Rightarrow> db_id \<Rightarrow> internal_document \<Rightarrow> ('s, 'e, unit) io"
  db_find_changes :: "db_id \<Rightarrow> 64 word \<Rightarrow> 64 word \<Rightarrow> json_heap \<Rightarrow> ('s, 'e, json_heap \<times> change list) io"
  db_min_synced :: "client_info \<Rightarrow> db_id \<Rightarrow> 64 word \<Rightarrow> ('s, 'e, ticket) io"
  db_last_snapshot :: "db_id \<Rightarrow> ('s, 'e, snapshot_info) io"

datatype rpc_method =
    Activate_Client | Deactivate_Client | Attach_Document | Detach_Document | Push_Pull | Watch_Documents

record backend_config =
  snapshot_threshold :: "64 word"
  snapshot_interval :: "64 word"
  webhook_url :: string
  webhook_methods :: "string list"

text \<open>The webhook of an access check: its answer, or the error of the HTTP call.\<close>

datatype verb = Read_Verb | Read_Write_Verb

record access_info =
  ai_method :: rpc_method
  ai_attributes :: "(string \<times> verb) list"

record ('s, 'e) backend =
  be_db :: "('s, 'e) db_ops"
  be_config :: backend_config
  be_webhook :: "access_info \<Rightarrow> 'e + bool \<times> string"
  be_marshal :: "pb_element \<Rightarrow> 8 word list option"
  be_unmarshal :: "8 word list \<Rightarrow> pb_element option"
  be_float :: float_ops

type_synonym ('s, 'e, 'a) handler = "('s \<times> json_heap, 'e server_error, 'a) io"

definition db_call :: "('s, 'e, 'a) io \<Rightarrow> ('s, 'e, 'a) handler" where
  "db_call f = (\<lambda>(s, h). case f s of
     None \<Rightarrow> None
   | Some (s, Inl e) \<Rightarrow> Some ((s, h), Inl (Outside e))
   | Some (s, Inr a) \<Rightarrow> Some ((s, h), Inr a))"

definition pure_call :: "'e server_error + 'a \<Rightarrow> ('s, 'e, 'a) handler" where
  "pure_call r = (case r of Inl e \<Rightarrow> io_fail e | Inr a \<Rightarrow> io_return a)"

text \<open>A step on the heap, whose error is that of the converter.\<close>

definition conv_call :: "(json_heap \<Rightarrow> (conv_error, json_heap \<times> 'a) result) \<Rightarrow> ('s, 'e, 'a) handler" where
  "conv_call f = (\<lambda>(s, h). case f h of
     None \<Rightarrow> None
   | Some (Inl e) \<Rightarrow> Some ((s, h), Inl (Conv_Failed e))
   | Some (Inr (h, a)) \<Rightarrow> Some ((s, h), Inr a))"

definition with_heap :: "(json_heap \<Rightarrow> ('s, 'e, 'a) handler) \<Rightarrow> ('s, 'e, 'a) handler" where
  "with_heap f = (\<lambda>(s, h). f h (s, h))"

section \<open>Access\<close>

fun method_name :: "rpc_method \<Rightarrow> string" where
  "method_name Activate_Client = ''ActivateClient''"
| "method_name Deactivate_Client = ''DeactivateClient''"
| "method_name Attach_Document = ''AttachDocument''"
| "method_name Detach_Document = ''DetachDocument''"
| "method_name Push_Pull = ''PushPull''"
| "method_name Watch_Documents = ''WatchDocuments''"

definition auth_methods :: "rpc_method list" where
  "auth_methods = [Activate_Client, Deactivate_Client, Attach_Document, Detach_Document, Push_Pull, Watch_Documents]"

definition is_auth_method :: "string \<Rightarrow> bool" where
  "is_auth_method m \<longleftrightarrow> m \<in> set (map method_name auth_methods)"

definition require_auth :: "backend_config \<Rightarrow> rpc_method \<Rightarrow> bool" where
  "require_auth c m \<longleftrightarrow>
     webhook_url c \<noteq> [] \<and> (webhook_methods c = [] \<or> method_name m \<in> set (webhook_methods c))"

definition config_valid :: "backend_config \<Rightarrow> bool" where
  "config_valid c \<longleftrightarrow> list_all is_auth_method (webhook_methods c)"

definition access_attributes :: "pack \<Rightarrow> (string \<times> verb) list" where
  "access_attributes p = [(bson_key (pk_key p), if has_changes p then Read_Write_Verb else Read_Verb)]"

definition verify_access :: "('s, 'e) backend \<Rightarrow> access_info \<Rightarrow> 'e server_error + unit" where
  "verify_access be i =
     (if \<not> require_auth (be_config be) (ai_method i) then Inr ()
      else case be_webhook be i of
        Inl e \<Rightarrow> Inl (Outside e)
      | Inr (allowed, reason) \<Rightarrow> if allowed then Inr () else Inl (Not_Allowed reason))"

section \<open>Push\<close>

text \<open>The loop of \<open>pushChanges\<close>: a change whose client sequence is not above the checkpoint is
  rejected; the others get the next server sequences.\<close>

fun push_loop :: "change list \<Rightarrow> checkpoint \<Rightarrow> doc_info \<Rightarrow> checkpoint \<times> doc_info \<times> change list" where
  "push_loop [] cp d = (cp, d, [])"
| "push_loop (c # cs) cp d =
     (if id_client_seq (ch_id c) > cp_client_seq cp
      then let (d, s) = increase_server_seq d;
               (cp, d, pushed) = push_loop cs (sync_client_seq (next_server_seq cp s) (change_client_seq c)) d
           in (cp, d, set_server_seq s c # pushed)
      else push_loop cs (sync_client_seq cp (change_client_seq c)) d)"

definition push_changes :: "client_info \<Rightarrow> doc_info \<Rightarrow> pack \<Rightarrow> checkpoint \<times> doc_info \<times> change list" where
  "push_changes ci d p = push_loop (pk_changes p) (client_checkpoint (di_id d) ci) d"

section \<open>Pull\<close>

definition pull_changes :: "('s, 'e) backend \<Rightarrow> doc_info \<Rightarrow> pack \<Rightarrow> checkpoint \<Rightarrow> 64 word \<Rightarrow>
    ('s, 'e, checkpoint \<times> change list) handler" where
  "pull_changes be d req pushed_cp initial =
     io_bind (with_heap (\<lambda>h. db_call (db_find_changes (be_db be) (di_id d)
       (cp_server_seq (pk_checkpoint req) + 1) initial h))) (\<lambda>(h, cs) (s, _).
     io_return (next_server_seq pushed_cp (di_server_seq d), cs) (s, h))"

text \<open>The changes that were read are applied to the document of the snapshot.\<close>

definition apply_stored :: "('s, 'e) backend \<Rightarrow> doc_info \<Rightarrow> doc_key \<Rightarrow> internal_document \<Rightarrow> change list \<Rightarrow>
    ('s, 'e, internal_document) handler" where
  "apply_stored be d k doc cs = (\<lambda>(s, h).
     case idoc_apply_change_pack (bytes_to_object (be_unmarshal be)) (be_float be)
         (new_pack k (next_server_seq initial_checkpoint (di_server_seq d)) cs []) h doc of
       None \<Rightarrow> None
     | Some (h, doc, None) \<Rightarrow> Some ((s, h), Inr doc)
     | Some (h, doc, Some (Operation_Error e)) \<Rightarrow> Some ((s, h), Inl (Op_Failed e))
     | Some (h, doc, Some (Snapshot_Error e)) \<Rightarrow> Some ((s, h), Inl (Conv_Failed e))
     | Some (h, doc, Some (Updater_Error e)) \<Rightarrow> Some ((s, h), Inl (Outside e)))"

text \<open>The document at a server sequence: the last snapshot and the changes after it.\<close>

definition build_document :: "('s, 'e) backend \<Rightarrow> doc_info \<Rightarrow> snapshot_info \<Rightarrow> 64 word \<Rightarrow>
    ('s, 'e, internal_document) handler" where
  "build_document be d si last_seq =
     io_bind (pure_call (doc_get_key d)) (\<lambda>k.
     io_bind (conv_call (new_internal_document_from_snapshot (bytes_to_object (be_unmarshal be))
       (collection k) (document k) (si_server_seq si) (si_snapshot si))) (\<lambda>doc.
     io_bind (with_heap (\<lambda>h. db_call (db_find_changes (be_db be) (di_id d) (si_server_seq si + 1) last_seq h)))
       (\<lambda>(h, cs) (s, _). apply_stored be d k doc cs (s, h))))"

definition pull_snapshot :: "('s, 'e) backend \<Rightarrow> doc_info \<Rightarrow> checkpoint \<Rightarrow> 64 word \<Rightarrow>
    ('s, 'e, checkpoint \<times> 8 word list) handler" where
  "pull_snapshot be d pushed_cp initial =
     io_bind (db_call (db_last_snapshot (be_db be) (di_id d))) (\<lambda>si.
     let cp = next_server_seq pushed_cp (di_server_seq d) in
     if si_server_seq si \<ge> initial
     then io_return (cp, case si_snapshot si of None \<Rightarrow> [] | Some bs \<Rightarrow> bs)
     else io_bind (build_document be d si initial) (\<lambda>doc.
       io_bind (conv_call (\<lambda>h. checked (object_to_bytes (be_marshal be) h (root_object (idoc_root doc)))
         (\<lambda>bs. ok (h, bs)))) (\<lambda>bs.
       io_return (cp, bs))))"

definition pull_pack :: "('s, 'e) backend \<Rightarrow> doc_info \<Rightarrow> pack \<Rightarrow> checkpoint \<Rightarrow> 64 word \<Rightarrow>
    ('s, 'e, pack) handler" where
  "pull_pack be d req pushed_cp initial =
     io_bind (pure_call (doc_get_key d)) (\<lambda>k.
     io_check (\<not> initial < cp_server_seq (pk_checkpoint req)) Invalid_Server_Seq
       (if initial - cp_server_seq (pk_checkpoint req) < snapshot_threshold (be_config be)
        then io_bind (pull_changes be d req pushed_cp initial) (\<lambda>(cp, cs). io_return (new_pack k cp cs []))
        else io_bind (pull_snapshot be d pushed_cp initial) (\<lambda>(cp, bs). io_return (new_pack k cp [] bs))))"

section \<open>Push-pull\<close>

definition push_pull :: "('s, 'e) backend \<Rightarrow> client_info \<Rightarrow> doc_info \<Rightarrow> pack \<Rightarrow> ('s, 'e, pack) handler" where
  "push_pull be ci d req =
     (let initial = di_server_seq d;
          (pushed_cp, d, pushed) = push_changes ci d req
      in
      io_bind (pull_pack be d req pushed_cp initial) (\<lambda>resp.
      io_bind (pure_call (update_checkpoint (di_id d) (pk_checkpoint resp) ci)) (\<lambda>ci.
      io_bind (if length pushed > 0
          then with_heap (\<lambda>h. db_call (db_store_changes (be_db be) h d initial pushed))
          else io_return ()) (\<lambda>_.
      io_bind (db_call (db_update_client (be_db be) ci d)) (\<lambda>_.
      io_bind (db_call (db_min_synced (be_db be) ci (di_id d) (cp_server_seq (pk_checkpoint req)))) (\<lambda>t.
      io_return (resp\<lparr>pk_min_synced := Some t\<rparr>)))))))"

text \<open>What is started after a push with changes: the snapshot is stored when enough changes have
  been added since the last one.\<close>

definition store_snapshot :: "('s, 'e) backend \<Rightarrow> doc_info \<Rightarrow> ('s, 'e, unit) handler" where
  "store_snapshot be d =
     io_bind (db_call (db_last_snapshot (be_db be) (di_id d))) (\<lambda>si.
     if si_server_seq si \<ge> di_server_seq d then io_return ()
     else if di_server_seq d - si_server_seq si < snapshot_interval (be_config be) then io_return ()
     else
       io_bind (with_heap (\<lambda>h. db_call (db_find_changes (be_db be) (di_id d) (si_server_seq si + 1) (di_server_seq d) h)))
         (\<lambda>(h, cs) (s, _).
         io_bind (pure_call (doc_get_key d)) (\<lambda>k.
         io_bind (conv_call (new_internal_document_from_snapshot (bytes_to_object (be_unmarshal be))
           (collection k) (document k) (si_server_seq si) (si_snapshot si))) (\<lambda>doc.
         io_bind (apply_stored be d k doc cs) (\<lambda>doc.
         with_heap (\<lambda>h. db_call (db_create_snapshot (be_db be) h (di_id d) doc))))) (s, h)))"

text \<open>The goroutine of step 05: the event to publish, and the snapshot, whose error is only logged.\<close>

definition pushed_event :: "client_info \<Rightarrow> pack \<Rightarrow> doc_event option" where
  "pushed_event ci req =
     (if \<not> has_changes req then None
      else case actor_id_from_hex (ci_id ci) of
        Inl _ \<Rightarrow> None
      | Inr a \<Rightarrow> Some \<lparr>ev_type = Documents_Changed_Event, ev_publisher = \<lparr>cl_id = a, cl_metadata = []\<rparr>,
          ev_document_keys = [pk_key req]\<rparr>)"

definition after_push_pull :: "('s, 'e) backend \<Rightarrow> client_info \<Rightarrow> doc_info \<Rightarrow> pack \<Rightarrow>
    ('s, 'e, doc_event option) handler" where
  "after_push_pull be ci d req =
     (case pushed_event ci req of
        None \<Rightarrow> io_return None
      | Some e \<Rightarrow> (\<lambda>w. case store_snapshot be d w of None \<Rightarrow> None | Some (w, _) \<Rightarrow> Some (w, Inr (Some e))))"

section \<open>Request handlers\<close>

definition find_client_and_document :: "('s, 'e) backend \<Rightarrow> byte list \<Rightarrow> pack \<Rightarrow> bool \<Rightarrow>
    ('s, 'e, client_info \<times> doc_info) handler" where
  "find_client_and_document be cid p create =
     io_bind (db_call (db_find_client (be_db be) (id_from_bytes cid))) (\<lambda>ci.
     io_bind (db_call (db_find_doc (be_db be) ci (bson_key (pk_key p)) create)) (\<lambda>d.
     io_return (ci, d)))"

definition rpc_activate_client :: "('s, 'e) backend \<Rightarrow> string \<Rightarrow> ('s, 'e, string \<times> byte list) handler" where
  "rpc_activate_client be key =
     io_check (key \<noteq> []) Invalid_Client_Key
       (io_bind (pure_call (verify_access be \<lparr>ai_method = Activate_Client, ai_attributes = []\<rparr>)) (\<lambda>_.
        io_bind (db_call (db_activate_client (be_db be) key)) (\<lambda>ci.
        io_return (ci_key ci, id_bytes (ci_id ci)))))"

definition rpc_deactivate_client :: "('s, 'e) backend \<Rightarrow> byte list \<Rightarrow> ('s, 'e, byte list) handler" where
  "rpc_deactivate_client be cid =
     io_check (cid \<noteq> []) Invalid_Client_Id
       (io_bind (pure_call (verify_access be \<lparr>ai_method = Deactivate_Client, ai_attributes = []\<rparr>)) (\<lambda>_.
        io_bind (db_call (db_deactivate_client (be_db be) (id_from_bytes cid))) (\<lambda>ci.
        io_return (id_bytes (ci_id ci)))))"

text \<open>The answer is converted back to a message.\<close>

definition to_pack_message :: "pack \<Rightarrow> ('s, 'e, pb_change_pack) handler" where
  "to_pack_message p = conv_call (\<lambda>h. panics (to_change_pack h p) (\<lambda>m. ok (h, m)))"

definition rpc_attach_document :: "('s, 'e) backend \<Rightarrow> byte list \<Rightarrow> pb_change_pack option \<Rightarrow>
    ('s, 'e, pb_change_pack) handler" where
  "rpc_attach_document be cid m =
     io_bind (conv_call (from_change_pack m)) (\<lambda>p.
     io_bind (pure_call (verify_access be \<lparr>ai_method = Attach_Document, ai_attributes = access_attributes p\<rparr>)) (\<lambda>_.
     io_bind (find_client_and_document be cid p True) (\<lambda>(ci, d).
     io_bind (pure_call (attach_document (di_id d) ci)) (\<lambda>ci.
     io_bind (push_pull be ci d p) to_pack_message))))"

definition rpc_detach_document :: "('s, 'e) backend \<Rightarrow> byte list \<Rightarrow> pb_change_pack option \<Rightarrow>
    ('s, 'e, pb_change_pack) handler" where
  "rpc_detach_document be cid m =
     io_bind (conv_call (from_change_pack m)) (\<lambda>p.
     io_bind (pure_call (verify_access be \<lparr>ai_method = Detach_Document, ai_attributes = access_attributes p\<rparr>)) (\<lambda>_.
     io_bind (find_client_and_document be cid p False) (\<lambda>(ci, d).
     io_bind (pure_call (ensure_document_attached (di_id d) ci)) (\<lambda>_.
     io_bind (pure_call (detach_document (di_id d) ci)) (\<lambda>ci.
     io_bind (push_pull be ci d p) to_pack_message)))))"

definition rpc_push_pull :: "('s, 'e) backend \<Rightarrow> byte list \<Rightarrow> pb_change_pack option \<Rightarrow>
    ('s, 'e, pb_change_pack) handler" where
  "rpc_push_pull be cid m =
     io_bind (conv_call (from_change_pack m)) (\<lambda>p.
     io_bind (pure_call (verify_access be \<lparr>ai_method = Push_Pull, ai_attributes = access_attributes p\<rparr>)) (\<lambda>_.
     io_bind (find_client_and_document be cid p False) (\<lambda>(ci, d).
     io_bind (pure_call (ensure_document_attached (di_id d) ci)) (\<lambda>_.
     io_bind (push_pull be ci d p) to_pack_message))))"

section \<open>Facts about the push\<close>

text \<open>The client sequences a push accepts: those above everything seen so far.\<close>

fun accepted :: "32 word \<Rightarrow> change list \<Rightarrow> change list" where
  "accepted m [] = []"
| "accepted m (c # cs) =
     (if change_client_seq c > m then c # accepted (change_client_seq c) cs else accepted m cs)"

text \<open>The server sequences after \<open>s\<close>.\<close>

fun numbered :: "64 word \<Rightarrow> change list \<Rightarrow> change list" where
  "numbered s [] = []"
| "numbered s (c # cs) = set_server_seq (s + 1) c # numbered (s + 1) cs"

definition highest_seq :: "32 word \<Rightarrow> change list \<Rightarrow> 32 word" where
  "highest_seq m cs = fold (\<lambda>c m. max m (change_client_seq c)) cs m"

lemma length_numbered [simp]: "length (numbered s cs) = length cs"
  by (induction cs arbitrary: s) auto

lemma numbered_id [simp]: "map ch_id (numbered s cs) = map ch_id cs"
  by (induction cs arbitrary: s) (auto simp: set_server_seq_def)

lemma numbered_seqs: "map ch_server_seq (numbered s cs) = map (\<lambda>i. Some (s + of_nat i)) [1..<Suc (length cs)]"
proof (induction cs arbitrary: s)
  case (Cons c cs)
  have "map (\<lambda>i. Some (s + of_nat i)) [2..<Suc (Suc (length cs))] =
      map (\<lambda>i. Some (s + 1 + of_nat i)) [1..<Suc (length cs)]"
    by (subst map_Suc_upt [symmetric, of 1, simplified One_nat_def numeral_2_eq_2 [symmetric]])
      (simp add: numeral_2_eq_2 add.assoc add.commute add.left_commute)
  then show ?case using Cons.IH [of "s + 1"]
    by (simp add: set_server_seq_def upt_conv_Cons numeral_2_eq_2 del: upt_Suc)
qed simp

lemma highest_seq_simps [simp]:
  "highest_seq m [] = m" "highest_seq m (c # cs) = highest_seq (max m (change_client_seq c)) cs"
  by (simp_all add: highest_seq_def)

lemma highest_seq_start: "m \<le> highest_seq m cs"
  by (induction cs arbitrary: m) (auto intro: order_trans [OF max.cobounded1])

lemma highest_seq_ge: "c \<in> set cs \<Longrightarrow> change_client_seq c \<le> highest_seq m cs"
proof (induction cs arbitrary: m)
  case (Cons a cs)
  then show ?case using highest_seq_start [of "max m (change_client_seq a)" cs] by auto
qed simp

lemma push_loop_accepts:
  "push_loop cs cp d = (let n = accepted (cp_client_seq cp) cs in
     (new_checkpoint (if n = [] then cp_server_seq cp else di_server_seq d + of_nat (length n))
        (highest_seq (cp_client_seq cp) cs),
      d\<lparr>di_server_seq := di_server_seq d + of_nat (length n)\<rparr>,
      numbered (di_server_seq d) n))"
proof (induction cs arbitrary: cp d)
  case (Cons c cs)
  show ?case
  proof (cases "change_client_seq c > cp_client_seq cp")
    case True
    then have m: "max (cp_client_seq cp) (change_client_seq c) = change_client_seq c"
      by (rule max_absorb2 [OF less_imp_le])
    then show ?thesis
      using True Cons.IH
      by (simp add: Let_def increase_server_seq_def change_client_seq_def add.commute add.left_commute)
  next
    case False
    then have m: "max (cp_client_seq cp) (change_client_seq c) = cp_client_seq cp"
      by (simp add: max_absorb1 not_less)
    then show ?thesis using False Cons.IH by (simp add: Let_def change_client_seq_def)
  qed
qed simp

lemma accepted_none: "(\<And>c. c \<in> set cs \<Longrightarrow> change_client_seq c \<le> m) \<Longrightarrow> accepted m cs = []"
  by (induction cs) (auto simp: not_less)

lemma accepted_above: "c \<in> set (accepted m cs) \<Longrightarrow> m < change_client_seq c"
proof (induction cs arbitrary: m)
  case (Cons a cs)
  then show ?case using Cons.IH [of "change_client_seq a"] Cons.IH [of m]
    by (auto split: if_splits dest: order.strict_trans)
qed simp

lemma accepted_sorted: "sorted_wrt (<) (map change_client_seq (accepted m cs))"
  by (induction cs arbitrary: m) (auto dest: accepted_above)

end
