(* ===== verification/Pub_Sub.thy ===== *)
theory Pub_Sub
  imports Converter
begin

text \<open>
  Events of documents: \<open>src/yorkie/backend/sync/pubsub.go\<close> and \<open>memory/pubsub.go\<close>.  A subscription is
  a number (its unique id); its channel has room for one event.  \<open>Subscribe\<close> and \<open>Unsubscribe\<close> hold
  the write lock and are one step; \<open>Publish\<close> holds the read lock and sends to one subscription
  after the other, so it is the list of sends that are left.  The second half is the system of
  publishers and watching streams (\<open>WatchDocuments\<close> of \<open>src/yorkie/rpc/yorkie_server.go\<close>) as a step
  relation.
\<close>

section \<open>Subscriptions\<close>

record subscription =
  sub_client :: client
  sub_closed :: bool
  sub_events :: "doc_event list"

definition new_subscription :: "client \<Rightarrow> subscription" where
  "new_subscription c = \<lparr>sub_client = c, sub_closed = False, sub_events = []\<rparr>"

definition subscriber_id :: "subscription \<Rightarrow> string" where
  "subscriber_id s = actor_id_string (cl_id (sub_client s))"

definition sub_close :: "subscription \<Rightarrow> subscription" where
  "sub_close s = s\<lparr>sub_closed := True\<rparr>"

record pubsub =
  ps_topics :: "(string \<times> nat list) list"
  ps_subs :: "nat \<Rightarrow> subscription"
  ps_next :: nat

definition new_pubsub :: pubsub where
  "new_pubsub = \<lparr>ps_topics = [], ps_subs = (\<lambda>_. new_subscription \<lparr>cl_id = None, cl_metadata = []\<rparr>), ps_next = 0\<rparr>"

definition topic_subs :: "pubsub \<Rightarrow> string \<Rightarrow> nat list" where
  "topic_subs m k = (case map_of (ps_topics m) k of None \<Rightarrow> [] | Some ss \<Rightarrow> ss)"

definition set_sub :: "nat \<Rightarrow> subscription \<Rightarrow> pubsub \<Rightarrow> pubsub" where
  "set_sub n s m = m\<lparr>ps_subs := (ps_subs m)(n := s)\<rparr>"

text \<open>\<open>Add\<close> and \<open>Delete\<close> of the subscriptions of a topic.\<close>

definition subs_add :: "string \<Rightarrow> nat \<Rightarrow> pubsub \<Rightarrow> pubsub" where
  "subs_add k n m = m\<lparr>ps_topics := AList.update k (List.insert n (topic_subs m k)) (ps_topics m)\<rparr>"

definition subs_delete :: "string \<Rightarrow> nat \<Rightarrow> pubsub \<Rightarrow> pubsub" where
  "subs_delete k n m =
     (case map_of (ps_topics m) k of
        None \<Rightarrow> m
      | Some ss \<Rightarrow>
          let m = (if n \<in> set ss then set_sub n (sub_close (ps_subs m n)) m else m);
              ss = filter (\<lambda>x. x \<noteq> n) ss
          in m\<lparr>ps_topics := (if ss = [] then AList.delete k (ps_topics m) else AList.update k ss (ps_topics m))\<rparr>)"

datatype sync_error = ErrEmptyTopics

text \<open>The loop of \<open>Subscribe\<close>: the subscription joins every topic; the peers of a topic include it.\<close>

fun subscribe_topics :: "nat \<Rightarrow> doc_key list \<Rightarrow> pubsub \<Rightarrow> (string \<times> client list) list \<Rightarrow>
    pubsub \<times> (string \<times> client list) list" where
  "subscribe_topics n [] m peers = (m, peers)"
| "subscribe_topics n (t # ts) m peers =
     (let k = bson_key t;
          m = subs_add k n m
      in subscribe_topics n ts m (AList.update k (map (\<lambda>x. sub_client (ps_subs m x)) (topic_subs m k)) peers))"

definition subscribe :: "client \<Rightarrow> doc_key list \<Rightarrow> pubsub \<Rightarrow>
    sync_error + pubsub \<times> nat \<times> (string \<times> client list) list" where
  "subscribe c topics m =
     (if length topics = 0 then Inl ErrEmptyTopics
      else
        let n = ps_next m;
            m = m\<lparr>ps_subs := (ps_subs m)(n := new_subscription c), ps_next := Suc n\<rparr>;
            (m, peers) = subscribe_topics n topics m []
        in Inr (m, n, peers))"

text \<open>The first topic is logged, so an empty list panics.\<close>

definition unsubscribe :: "doc_key list \<Rightarrow> nat \<Rightarrow> pubsub \<Rightarrow> pubsub option" where
  "unsubscribe topics n m =
     (if topics = [] then None
      else let m = fold (\<lambda>t. subs_delete (bson_key t) n) topics m
           in Some (set_sub n (sub_close (ps_subs m n)) m))"

text \<open>The sends of \<open>Publish\<close>: every subscription of the topics of the event but the publisher's own.\<close>

fun other_subscribers :: "pubsub \<Rightarrow> actor_id option \<Rightarrow> nat list \<Rightarrow> nat list option" where
  "other_subscribers m pub [] = Some []"
| "other_subscribers m pub (n # ns) = do {
     c \<leftarrow> actor_id_compare (cl_id (sub_client (ps_subs m n))) pub;
     ts \<leftarrow> other_subscribers m pub ns;
     Some (if c = 0 then ts else n # ts) }"

definition publish_targets :: "pubsub \<Rightarrow> actor_id option \<Rightarrow> doc_event \<Rightarrow> nat list option" where
  "publish_targets m pub e =
     other_subscribers m pub (concat (map (\<lambda>k. topic_subs m (bson_key k)) (ev_document_keys e)))"

text \<open>A send to a channel with room for one event: it is done, it blocks, or it panics.\<close>

datatype send_result = Sent pubsub | Send_Blocks | Send_Panics

definition send_event :: "nat \<Rightarrow> doc_event \<Rightarrow> pubsub \<Rightarrow> send_result" where
  "send_event n e m =
     (let s = ps_subs m n in
      if sub_closed s then Send_Panics
      else if length (sub_events s) \<ge> 1 then Send_Blocks
      else Sent (set_sub n (s\<lparr>sub_events := sub_events s @ [e]\<rparr>) m))"

section \<open>Watching streams and publishers\<close>

datatype watcher = Not_Watching | Watching "doc_key list" | Leaving "doc_key list"

record watch_system =
  ws_pubsub :: pubsub
  ws_watchers :: "nat \<Rightarrow> watcher"
  ws_publishers :: "(nat list \<times> doc_event) list"

definition initial_system :: watch_system where
  "initial_system = \<lparr>ws_pubsub = new_pubsub, ws_watchers = (\<lambda>_. Not_Watching), ws_publishers = []\<rparr>"

text \<open>A stream watches (write lock: no publisher is at work), receives events, ends and then waits
  for the write lock to unsubscribe.  A publisher enters only while no stream waits for the write
  lock (\<open>sync.RWMutex\<close> lets a waiting writer go before new readers) and leaves when every send is
  done.\<close>

inductive watch_step :: "watch_system \<Rightarrow> watch_system \<Rightarrow> bool" where
  watch: "ws_publishers w = [] \<Longrightarrow> subscribe c topics (ws_pubsub w) = Inr (m, n, peers) \<Longrightarrow>
    watch_step w (w\<lparr>ws_pubsub := m, ws_watchers := (ws_watchers w)(n := Watching topics)\<rparr>)"
| receive: "ws_watchers w n = Watching topics \<Longrightarrow> sub_events (ps_subs (ws_pubsub w) n) = e # es \<Longrightarrow>
    watch_step w (w\<lparr>ws_pubsub := set_sub n ((ps_subs (ws_pubsub w) n)\<lparr>sub_events := es\<rparr>) (ws_pubsub w)\<rparr>)"
| leave: "ws_watchers w n = Watching topics \<Longrightarrow>
    watch_step w (w\<lparr>ws_watchers := (ws_watchers w)(n := Leaving topics)\<rparr>)"
| unsubscribe: "ws_publishers w = [] \<Longrightarrow> ws_watchers w n = Leaving topics \<Longrightarrow>
    unsubscribe topics n (ws_pubsub w) = Some m \<Longrightarrow>
    watch_step w (w\<lparr>ws_pubsub := m, ws_watchers := (ws_watchers w)(n := Not_Watching)\<rparr>)"
| publish: "(\<And>n topics. ws_watchers w n \<noteq> Leaving topics) \<Longrightarrow>
    publish_targets (ws_pubsub w) pub e = Some ts \<Longrightarrow>
    watch_step w (w\<lparr>ws_publishers := (ts, e) # ws_publishers w\<rparr>)"
| send: "ws_publishers w = ps @ (n # ns, e) # qs \<Longrightarrow> send_event n e (ws_pubsub w) = Sent m \<Longrightarrow>
    watch_step w (w\<lparr>ws_pubsub := m, ws_publishers := ps @ (ns, e) # qs\<rparr>)"
| finish: "ws_publishers w = ps @ ([], e) # qs \<Longrightarrow>
    watch_step w (w\<lparr>ws_publishers := ps @ qs\<rparr>)"

abbreviation watch_steps :: "watch_system \<Rightarrow> watch_system \<Rightarrow> bool" where
  "watch_steps \<equiv> watch_step\<^sup>*\<^sup>*"

section \<open>Facts about the operations\<close>

lemma set_sub_simps [simp]:
  "ps_topics (set_sub n s m) = ps_topics m" "ps_next (set_sub n s m) = ps_next m"
  "ps_subs (set_sub n s m) = (ps_subs m)(n := s)" "topic_subs (set_sub n s m) k = topic_subs m k"
  by (simp_all add: set_sub_def topic_subs_def)

lemma subs_add_simps [simp]:
  "ps_subs (subs_add k n m) = ps_subs m" "ps_next (subs_add k n m) = ps_next m"
  "set (topic_subs (subs_add k n m) k') = (if k' = k then insert n (set (topic_subs m k)) else set (topic_subs m k'))"
  by (auto simp: subs_add_def topic_subs_def update_conv split: option.splits)

lemma subs_delete_topics:
  "map_of (ps_topics (subs_delete k n m)) =
     (case map_of (ps_topics m) k of
        None \<Rightarrow> map_of (ps_topics m)
      | Some ss \<Rightarrow> (map_of (ps_topics m))(k := (let ss = filter (\<lambda>x. x \<noteq> n) ss in if ss = [] then None else Some ss)))"
  by (simp add: subs_delete_def Let_def update_conv' delete_conv' split: option.split)

lemma subs_delete_simps [simp]:
  "ps_next (subs_delete k n m) = ps_next m"
  "set (topic_subs (subs_delete k n m) k') =
     (if k' = k then set (topic_subs m k) - {n} else set (topic_subs m k'))"
  "x \<noteq> n \<Longrightarrow> ps_subs (subs_delete k n m) x = ps_subs m x"
  "sub_events (ps_subs (subs_delete k n m) x) = sub_events (ps_subs m x)"
proof -
  show "ps_next (subs_delete k n m) = ps_next m" "x \<noteq> n \<Longrightarrow> ps_subs (subs_delete k n m) x = ps_subs m x"
    "sub_events (ps_subs (subs_delete k n m) x) = sub_events (ps_subs m x)"
    by (simp_all add: subs_delete_def Let_def sub_close_def split: option.split)
  have "set (filter (\<lambda>x. x \<noteq> n) ss) = set ss - {n}" for ss by auto
  then show "set (topic_subs (subs_delete k n m) k') =
      (if k' = k then set (topic_subs m k) - {n} else set (topic_subs m k'))"
    unfolding topic_subs_def subs_delete_topics
    by (cases "map_of (ps_topics m) k") (auto simp: Let_def simp flip: set_empty)
qed

lemma subs_delete_all:
  fixes topics :: "doc_key list"
  defines "del n \<equiv> fold (\<lambda>t. subs_delete (bson_key t) n) topics"
  shows "ps_next (del n m) = ps_next m"
    and "set (topic_subs (del n m) k) = set (topic_subs m k) - (if k \<in> bson_key ` set topics then {n} else {})"
    and "x \<noteq> n \<Longrightarrow> ps_subs (del n m) x = ps_subs m x"
    and "sub_events (ps_subs (del n m) x) = sub_events (ps_subs m x)"
  unfolding del_def by (induction topics arbitrary: m) auto

lemma subscribe_topics_facts:
  assumes "subscribe_topics n topics m peers = (m', peers')"
  shows "ps_next m' = ps_next m" "ps_subs m' = ps_subs m"
    "set (topic_subs m' k) = set (topic_subs m k) \<union> (if k \<in> bson_key ` set topics then {n} else {})"
  using assms by (induction topics arbitrary: m peers) (auto simp: Let_def)

lemma subscribe_facts:
  assumes "subscribe c topics m = Inr (m', n, peers)"
  shows "n = ps_next m" "ps_next m' = Suc n" "ps_subs m' = (ps_subs m)(n := new_subscription c)" "topics \<noteq> []"
    "set (topic_subs m' k) = set (topic_subs m k) \<union> (if k \<in> bson_key ` set topics then {n} else {})"
proof -
  let ?m = "m\<lparr>ps_subs := (ps_subs m)(ps_next m := new_subscription c), ps_next := Suc (ps_next m)\<rparr>"
  have "topic_subs ?m k = topic_subs m k" by (simp add: topic_subs_def)
  moreover obtain peers' where "subscribe_topics (ps_next m) topics ?m [] = (m', peers')"
    "n = ps_next m" "topics \<noteq> []"
    using assms by (auto simp: subscribe_def Let_def split: if_splits prod.splits)
  ultimately show "n = ps_next m" "ps_next m' = Suc n" "ps_subs m' = (ps_subs m)(n := new_subscription c)"
    "topics \<noteq> []" "set (topic_subs m' k) = set (topic_subs m k) \<union> (if k \<in> bson_key ` set topics then {n} else {})"
    using subscribe_topics_facts by fastforce+
qed

lemma unsubscribe_facts:
  assumes "unsubscribe topics n m = Some m'"
  shows "ps_next m' = ps_next m" "x \<noteq> n \<Longrightarrow> ps_subs m' x = ps_subs m x"
    "sub_events (ps_subs m' x) = sub_events (ps_subs m x)"
    "set (topic_subs m' k) = set (topic_subs m k) - (if k \<in> bson_key ` set topics then {n} else {})"
  using assms by (auto simp: unsubscribe_def Let_def sub_close_def subs_delete_all split: if_splits)

lemma other_subscribers_subset: "other_subscribers m pub ns = Some ts \<Longrightarrow> set ts \<subseteq> set ns"
  by (induction ns arbitrary: ts) (auto split: if_splits bind_splits)

lemma publish_targets_registered:
  "publish_targets m pub e = Some ts \<Longrightarrow> n \<in> set ts \<Longrightarrow> \<exists>k. n \<in> set (topic_subs m k)"
  unfolding publish_targets_def using other_subscribers_subset by fastforce

lemma send_event_sent:
  "send_event n e m = Sent m' \<longleftrightarrow> \<not> sub_closed (ps_subs m n) \<and> sub_events (ps_subs m n) = [] \<and>
     m' = set_sub n ((ps_subs m n)\<lparr>sub_events := [e]\<rparr>) m"
  by (cases "sub_events (ps_subs m n)") (auto simp: send_event_def Let_def)

section \<open>The system\<close>

text \<open>A registered subscription is open and its stream watches a topic it is registered for; what a
  publisher still sends to is open; a channel holds at most one event.\<close>

definition watch_inv :: "watch_system \<Rightarrow> bool" where
  "watch_inv w \<longleftrightarrow>
     (\<forall>k n. n \<in> set (topic_subs (ws_pubsub w) k) \<longrightarrow> \<not> sub_closed (ps_subs (ws_pubsub w) n) \<and>
        (\<exists>topics. k \<in> bson_key ` set topics \<and> ws_watchers w n \<in> {Watching topics, Leaving topics})) \<and>
     (\<forall>n. ws_watchers w n \<noteq> Not_Watching \<longrightarrow> n < ps_next (ws_pubsub w)) \<and>
     (\<forall>(ts, e) \<in> set (ws_publishers w). \<forall>n\<in>set ts. \<not> sub_closed (ps_subs (ws_pubsub w) n)) \<and>
     (\<forall>n. length (sub_events (ps_subs (ws_pubsub w) n)) \<le> 1)"

lemma watch_invI:
  assumes "\<And>k n. n \<in> set (topic_subs (ws_pubsub w) k) \<Longrightarrow> \<not> sub_closed (ps_subs (ws_pubsub w) n)"
    "\<And>k n. n \<in> set (topic_subs (ws_pubsub w) k) \<Longrightarrow>
       \<exists>topics. k \<in> bson_key ` set topics \<and> ws_watchers w n \<in> {Watching topics, Leaving topics}"
    "\<And>n. ws_watchers w n \<noteq> Not_Watching \<Longrightarrow> n < ps_next (ws_pubsub w)"
    "\<And>ts e n. (ts, e) \<in> set (ws_publishers w) \<Longrightarrow> n \<in> set ts \<Longrightarrow> \<not> sub_closed (ps_subs (ws_pubsub w) n)"
    "\<And>n. length (sub_events (ps_subs (ws_pubsub w) n)) \<le> 1"
  shows "watch_inv w"
  unfolding watch_inv_def using assms by auto

lemma watch_invD:
  assumes "watch_inv w"
  shows "n \<in> set (topic_subs (ws_pubsub w) k) \<Longrightarrow> \<not> sub_closed (ps_subs (ws_pubsub w) n)"
    "n \<in> set (topic_subs (ws_pubsub w) k) \<Longrightarrow>
       \<exists>topics. k \<in> bson_key ` set topics \<and> ws_watchers w n \<in> {Watching topics, Leaving topics}"
    "ws_watchers w n \<noteq> Not_Watching \<Longrightarrow> n < ps_next (ws_pubsub w)"
    "(ts, e) \<in> set (ws_publishers w) \<Longrightarrow> n \<in> set ts \<Longrightarrow> \<not> sub_closed (ps_subs (ws_pubsub w) n)"
    "length (sub_events (ps_subs (ws_pubsub w) n)) \<le> 1"
  using assms unfolding watch_inv_def by auto

lemma watch_step_inv: "watch_step w w' \<Longrightarrow> watch_inv w \<Longrightarrow> watch_inv w'"
proof (induction rule: watch_step.induct)
  case (watch w c topics m n peers)
  note f = subscribe_facts [OF watch.hyps(2)]
  note d = watch_invD [OF watch.prems]
  have new: "n \<notin> set (topic_subs (ws_pubsub w) k)" for k
    using d(2,3) f(1) by (metis insertE less_irrefl singletonD watcher.distinct(1,3))
  let ?w = "w\<lparr>ws_pubsub := m, ws_watchers := (ws_watchers w)(n := Watching topics)\<rparr>"
  show ?case
  proof (rule watch_invI)
    fix k x assume "x \<in> set (topic_subs (ws_pubsub ?w) k)"
    then have x: "x \<in> set (topic_subs m k)" by simp
    show "\<not> sub_closed (ps_subs (ws_pubsub ?w) x)" using x d(1) new by (auto simp: f new_subscription_def split: if_splits)
    show "\<exists>ts. k \<in> bson_key ` set ts \<and> ws_watchers ?w x \<in> {Watching ts, Leaving ts}"
      using x d(2) [of x k] new by (cases "x = n") (auto simp: f split: if_splits)
  qed (use d watch.hyps(1) in \<open>auto simp: f new_subscription_def less_Suc_eq split: if_splits\<close>)
next
  case (receive w n topics e es)
  note d = watch_invD [OF receive.prems]
  show ?case
    by (rule watch_invI) (use d d(5) [of n] receive.hyps in \<open>auto split: if_splits\<close>)
next
  case (leave w n topics)
  note d = watch_invD [OF leave.prems]
  let ?w = "w\<lparr>ws_watchers := (ws_watchers w)(n := Leaving topics)\<rparr>"
  show ?case
  proof (rule watch_invI)
    fix k x assume "x \<in> set (topic_subs (ws_pubsub ?w) k)"
    then have x: "x \<in> set (topic_subs (ws_pubsub w) k)" by simp
    show "\<exists>ts. k \<in> bson_key ` set ts \<and> ws_watchers ?w x \<in> {Watching ts, Leaving ts}"
      using d(2) [OF x] leave.hyps by (cases "x = n") auto
  qed (use d leave.hyps in \<open>auto split: if_splits\<close>)
next
  case (unsubscribe w n topics m)
  note f = unsubscribe_facts [OF unsubscribe.hyps(3)]
  note d = watch_invD [OF unsubscribe.prems]
  have old: "x \<noteq> n \<and> x \<in> set (topic_subs (ws_pubsub w) k)" if "x \<in> set (topic_subs m k)" for x k
    using that d(2) [of x k] unsubscribe.hyps(2) by (auto simp: f(4) split: if_splits)
  let ?w = "w\<lparr>ws_pubsub := m, ws_watchers := (ws_watchers w)(n := Not_Watching)\<rparr>"
  show ?case
  proof (rule watch_invI)
    fix k x assume "x \<in> set (topic_subs (ws_pubsub ?w) k)"
    then have x: "x \<in> set (topic_subs m k)" by simp
    show "\<not> sub_closed (ps_subs (ws_pubsub ?w) x)" using old [OF x] d(1) f(2) by auto
    show "\<exists>ts. k \<in> bson_key ` set ts \<and> ws_watchers ?w x \<in> {Watching ts, Leaving ts}"
      using d(2) [of x k] old [OF x] by auto
  qed (use d unsubscribe.hyps(1) in \<open>auto simp: f split: if_splits\<close>)
next
  case (publish w pub e ts)
  note d = watch_invD [OF publish.prems]
  have "\<not> sub_closed (ps_subs (ws_pubsub w) n)" if "n \<in> set ts" for n
    using publish_targets_registered [OF publish.hyps(2) that] d(1) by blast
  then show ?case by (rule_tac watch_invI) (use d in auto)
next
  case (send w ps n ns e qs m)
  note d = watch_invD [OF send.prems]
  have m: "m = set_sub n ((ps_subs (ws_pubsub w) n)\<lparr>sub_events := [e]\<rparr>) (ws_pubsub w)"
    using send.hyps(2) by (simp add: send_event_sent)
  have old: "\<not> sub_closed (ps_subs (ws_pubsub w) x)" if "(ts, e') \<in> set (ps @ (ns, e) # qs)" "x \<in> set ts" for ts e' x
    using that d(4) [of "n # ns" e x] d(4) [of ts e' x] send.hyps(1) by auto
  show ?case
  proof (rule watch_invI)
    let ?w = "w\<lparr>ws_pubsub := m, ws_publishers := ps @ (ns, e) # qs\<rparr>"
    show "\<not> sub_closed (ps_subs (ws_pubsub ?w) x)" if "(ts, e') \<in> set (ws_publishers ?w)" "x \<in> set ts" for ts e' x
      using old [of ts e' x] that by (auto simp: m)
  qed (use d in \<open>auto simp: m split: if_splits\<close>)
next
  case (finish w ps e qs)
  note d = watch_invD [OF finish.prems]
  have old: "\<not> sub_closed (ps_subs (ws_pubsub w) x)" if "(ts, e') \<in> set (ps @ qs)" "x \<in> set ts" for ts e' x
    using that d(4) [of ts e' x] finish.hyps by auto
  show ?case
  proof (rule watch_invI)
    let ?w = "w\<lparr>ws_publishers := ps @ qs\<rparr>"
    show "\<not> sub_closed (ps_subs (ws_pubsub ?w) x)" if "(ts, e') \<in> set (ws_publishers ?w)" "x \<in> set ts" for ts e' x
      using old [of ts e' x] that by auto
  qed (use d in auto)
qed

lemma watch_reachable_inv: "watch_steps initial_system w \<Longrightarrow> watch_inv w"
proof (induction rule: rtranclp_induct)
  case base
  show ?case by (simp add: watch_inv_def initial_system_def new_pubsub_def topic_subs_def new_subscription_def)
qed (rule watch_step_inv)

section \<open>Properties\<close>

text \<open>A sample: a stream of one client, and events another client publishes.\<close>

definition sample_doc_key :: doc_key where
  "sample_doc_key = \<lparr>collection = ''c'', document = ''d''\<rparr>"

definition sample_event :: doc_event where
  "sample_event = \<lparr>ev_type = Documents_Changed_Event,
     ev_publisher = \<lparr>cl_id = Some (replicate 12 2), cl_metadata = []\<rparr>, ev_document_keys = [sample_doc_key]\<rparr>"

definition sample_subscription :: "doc_event list \<Rightarrow> subscription" where
  "sample_subscription es = \<lparr>sub_client = \<lparr>cl_id = Some (replicate 12 1), cl_metadata = []\<rparr>,
     sub_closed = False, sub_events = es\<rparr>"

definition sample_system :: "doc_event list \<Rightarrow> watcher \<Rightarrow> (nat list \<times> doc_event) list \<Rightarrow> watch_system" where
  "sample_system es ws ps = \<lparr>ws_pubsub = \<lparr>ps_topics = [(bson_key sample_doc_key, [0])],
       ps_subs = (ps_subs new_pubsub)(0 := sample_subscription es), ps_next = 1\<rparr>,
     ws_watchers = (\<lambda>_. Not_Watching)(0 := ws), ws_publishers = ps\<rparr>"

lemma sample_targets:
  "publish_targets (ws_pubsub (sample_system es ws ps)) (Some (replicate 12 2)) sample_event = Some [0]"
  by (simp add: publish_targets_def sample_system_def sample_event_def topic_subs_def sample_subscription_def
      actor_id_compare_def eval_nat_numeral)

lemma sample_watching: "watch_step initial_system (sample_system [] (Watching [sample_doc_key]) [])"
proof -
  let ?c = "\<lparr>cl_id = Some (replicate 12 1), cl_metadata = []\<rparr>"
  let ?w = "sample_system [] (Watching [sample_doc_key]) []"
  have "subscribe ?c [sample_doc_key] new_pubsub =
      Inr (ws_pubsub ?w, 0, [(bson_key sample_doc_key, [?c])])"
    by (simp add: subscribe_def new_pubsub_def Let_def subs_add_def topic_subs_def sample_system_def
        sample_subscription_def new_subscription_def)
  then have "watch_step initial_system (initial_system\<lparr>ws_pubsub := ws_pubsub ?w,
      ws_watchers := (ws_watchers initial_system)(0 := Watching [sample_doc_key])\<rparr>)"
    by (intro watch_step.watch) (auto simp: initial_system_def)
  then show ?thesis by (simp add: initial_system_def sample_system_def)
qed

lemma sample_publish:
  "watch_step (sample_system es (Watching ts) []) (sample_system es (Watching ts) [([0], sample_event)])"
proof -
  have "ws_watchers (sample_system es (Watching ts) []) n \<noteq> Leaving topics" for n topics
    by (simp add: sample_system_def)
  from watch_step.publish [OF this sample_targets] show ?thesis by (simp add: sample_system_def)
qed

lemma sample_sent:
  "watch_step (sample_system [] (Watching ts) [([0], sample_event)])
     (sample_system [sample_event] (Watching ts) [([], sample_event)])"
proof -
  let ?w = "sample_system [] (Watching ts) [([0], sample_event)]"
  have "send_event 0 sample_event (ws_pubsub ?w) = Sent (ws_pubsub (sample_system [sample_event] (Watching ts) []))"
    by (simp add: send_event_sent sample_system_def sample_subscription_def set_sub_def)
  from watch_step.send [of ?w "[]" 0 "[]" sample_event "[]", OF _ this] show ?thesis
    by (simp add: sample_system_def)
qed

lemma sample_blocked:
  "watch_steps initial_system (sample_system [sample_event] (Leaving [sample_doc_key]) [([0], sample_event)])"
proof -
  let ?ts = "[sample_doc_key]"
  have "watch_steps initial_system (sample_system [] (Watching ?ts) [])"
    using sample_watching by blast
  also have "watch_steps \<dots> (sample_system [sample_event] (Watching ?ts) [([], sample_event)])"
    using sample_publish sample_sent by (meson converse_rtranclp_into_rtranclp r_into_rtranclp)
  also have "watch_steps \<dots> (sample_system [sample_event] (Watching ?ts) [])"
    using watch_step.finish [of "sample_system [sample_event] (Watching ?ts) [([], sample_event)]" "[]" sample_event "[]"]
    by (auto simp: sample_system_def)
  also have "watch_steps \<dots> (sample_system [sample_event] (Watching ?ts) [([0], sample_event)])"
    using sample_publish by blast
  also have "watch_steps \<dots> (sample_system [sample_event] (Leaving ?ts) [([0], sample_event)])"
    using watch_step.leave [of "sample_system [sample_event] (Watching ?ts) [([0], sample_event)]" 0 ?ts]
    by (auto simp: sample_system_def)
  finally show ?thesis .
qed

text \<open>C13: Publishers and watching streams, in every order of their steps: no publisher ever sends to
  a closed channel (which would panic), no channel holds more than one event, and what is left to be
  sent goes to streams that have not unsubscribed.\<close>
theorem publish_never_panics:
  assumes "watch_steps initial_system w" "(ts, e) \<in> set (ws_publishers w)" "n \<in> set ts"
  shows "send_event n e' (ws_pubsub w) \<noteq> Send_Panics \<and> length (sub_events (ps_subs (ws_pubsub w) n)) \<le> 1"
  using watch_invD(4,5) [OF watch_reachable_inv [OF assms(1)]] assms(2,3) by (auto simp: send_event_def Let_def)

theorem publish_never_panics_witness:
  "send_event 0 sample_event (ws_pubsub (sample_system [sample_event] (Leaving [sample_doc_key]) [([0], sample_event)])) \<noteq>
     Send_Panics"
  using publish_never_panics [OF sample_blocked, of "[0]" sample_event 0 sample_event]
  by (simp add: sample_system_def)

text \<open>A stream that waits for the write lock while its full channel blocks a publisher.\<close>

definition deadlocked :: "nat \<Rightarrow> watch_system \<Rightarrow> bool" where
  "deadlocked n w \<longleftrightarrow> (\<exists>topics. ws_watchers w n = Leaving topics) \<and> sub_events (ps_subs (ws_pubsub w) n) \<noteq> [] \<and>
     (\<exists>ns e. (n # ns, e) \<in> set (ws_publishers w))"

lemma deadlocked_step: "watch_step w w' \<Longrightarrow> deadlocked n w \<Longrightarrow> deadlocked n w'"
proof (induction rule: watch_step.induct)
  case (send w ps x ns e qs m)
  then have "x \<noteq> n" by (auto simp: deadlocked_def send_event_sent)
  then show ?case using send by (fastforce simp: deadlocked_def send_event_sent)
qed (fastforce simp: deadlocked_def)+

text \<open>C30: The subscriptions can deadlock: there is a reachable state in which a publisher waits for
  room in the channel of a stream that has ended, the stream waits for the lock the publisher holds,
  and every state that can follow is the same in this.\<close>
theorem watch_deadlock_reachable:
  "\<exists>w. watch_steps initial_system w \<and> {w'. watch_steps w w'} \<subseteq> {w'. deadlocked 0 w'}"
proof -
  let ?w = "sample_system [sample_event] (Leaving [sample_doc_key]) [([0], sample_event)]"
  have start: "deadlocked 0 ?w" by (simp add: deadlocked_def sample_system_def sample_subscription_def)
  have "deadlocked 0 w'" if "watch_steps ?w w'" for w'
    using that by (induction rule: rtranclp_induct) (use start in \<open>auto intro: deadlocked_step\<close>)
  then show ?thesis using sample_blocked by blast
qed

end
