(* ===== verification/Client_Side.thy ===== *)
theory Client_Side
  imports Snapshot_Converter
begin

text \<open>
  The client: \<open>src/client/client.go\<close>.  The RPC stub is an argument; its world, the heap and the
  documents (which the user and the attachments share, hence a store of documents) are threaded
  through every call and come back next to an error.  The goroutine that reads a watch stream is
  the recursion \<open>watch_loop\<close> over what the stream delivers; reading certificates and dialling are
  arguments.
\<close>

section \<open>State\<close>

datatype activation = Deactivated_Client | Activated_Client

type_synonym metadata = "(string \<times> string) list"

record attachment =
  at_doc :: nat
  at_peers :: "(string \<times> metadata) list"

record yorkie_client =
  yc_id :: "actor_id option"
  yc_key :: string
  yc_metadata :: metadata
  yc_status :: activation
  yc_attachments :: "(string \<times> attachment) list"

definition new_yorkie_client :: "string \<Rightarrow> metadata \<Rightarrow> yorkie_client" where
  "new_yorkie_client k md = \<lparr>yc_id = None, yc_key = k, yc_metadata = md, yc_status = Deactivated_Client,
     yc_attachments = []\<rparr>"

record 'w client_world =
  cw_net :: 'w
  cw_heap :: json_heap
  cw_docs :: "nat \<Rightarrow> document"
  cw_client :: yorkie_client

type_synonym ('w, 'e) pack_call = "byte list \<Rightarrow> pb_change_pack \<Rightarrow> 'w \<Rightarrow> 'w \<times> ('e + pb_change_pack option)"

record ('w, 'e) client_env =
  stub_activate :: "string \<Rightarrow> 'w \<Rightarrow> 'w \<times> ('e + byte list)"
  stub_deactivate :: "byte list \<Rightarrow> 'w \<Rightarrow> 'w \<times> ('e + unit)"
  stub_attach :: "('w, 'e) pack_call"
  stub_detach :: "('w, 'e) pack_call"
  stub_push_pull :: "('w, 'e) pack_call"
  ce_unmarshal :: "8 word list \<Rightarrow> pb_element option"
  ce_float :: float_ops

datatype 'e client_error =
    Yc_Not_Activated | Yc_Not_Attached | Yc_Rpc 'e | Yc_Conv conv_error
  | Yc_Document "(conv_error, unit) doc_error" | Yc_Unsupported

type_synonym ('w, 'e, 'a) client_io = "('w client_world, 'e client_error, 'a) io"

definition with_world :: "('w client_world \<Rightarrow> ('w, 'e, 'a) client_io) \<Rightarrow> ('w, 'e, 'a) client_io" where
  "with_world f = (\<lambda>w. f w w)"

definition modify_client :: "(yorkie_client \<Rightarrow> yorkie_client) \<Rightarrow> ('w, 'e, unit) client_io" where
  "modify_client f = (\<lambda>w. Some (w\<lparr>cw_client := f (cw_client w)\<rparr>, Inr ()))"

definition modify_doc :: "nat \<Rightarrow> (document \<Rightarrow> document) \<Rightarrow> ('w, 'e, unit) client_io" where
  "modify_doc r f = (\<lambda>w. Some (w\<lparr>cw_docs := (cw_docs w)(r := f (cw_docs w r))\<rparr>, Inr ()))"

definition net_call :: "('w \<Rightarrow> 'w \<times> ('e + 'a)) \<Rightarrow> ('w, 'e, 'a) client_io" where
  "net_call f = (\<lambda>w. case f (cw_net w) of
     (n, Inl e) \<Rightarrow> Some (w\<lparr>cw_net := n\<rparr>, Inl (Yc_Rpc e))
   | (n, Inr a) \<Rightarrow> Some (w\<lparr>cw_net := n\<rparr>, Inr a))"

definition heap_call :: "(json_heap \<Rightarrow> (conv_error, json_heap \<times> 'a) result) \<Rightarrow> ('w, 'e, 'a) client_io" where
  "heap_call f = (\<lambda>w. case f (cw_heap w) of
     None \<Rightarrow> None
   | Some (Inl e) \<Rightarrow> Some (w, Inl (Yc_Conv e))
   | Some (Inr (h, a)) \<Rightarrow> Some (w\<lparr>cw_heap := h\<rparr>, Inr a))"

definition doc_bson_key :: "'w client_world \<Rightarrow> nat \<Rightarrow> string" where
  "doc_bson_key w r = bson_key (idoc_key (doc_internal (cw_docs w r)))"

section \<open>Activation\<close>

definition client_activate :: "('w, 'e) client_env \<Rightarrow> ('w, 'e, unit) client_io" where
  "client_activate env = with_world (\<lambda>w.
     if yc_status (cw_client w) = Activated_Client then io_return ()
     else io_bind (net_call (stub_activate env (yc_key (cw_client w)))) (\<lambda>bs.
       case actor_id_from_bytes bs of
         Inl e \<Rightarrow> io_fail (Yc_Conv (Actor_Error e))
       | Inr a \<Rightarrow> modify_client (\<lambda>c. c\<lparr>yc_status := Activated_Client, yc_id := a\<rparr>)))"

definition client_deactivate :: "('w, 'e) client_env \<Rightarrow> ('w, 'e, unit) client_io" where
  "client_deactivate env = with_world (\<lambda>w.
     if yc_status (cw_client w) = Deactivated_Client then io_return ()
     else io_bind (net_call (stub_deactivate env (actor_id_bytes (yc_id (cw_client w))))) (\<lambda>_.
       modify_client (\<lambda>c. c\<lparr>yc_status := Deactivated_Client\<rparr>)))"

definition client_is_active :: "yorkie_client \<Rightarrow> bool" where
  "client_is_active c \<longleftrightarrow> yc_status c = Activated_Client"

section \<open>Exchange of packs\<close>

definition apply_pack :: "('w, 'e) client_env \<Rightarrow> nat \<Rightarrow> pack \<Rightarrow> ('w, 'e, unit) client_io" where
  "apply_pack env r p = (\<lambda>w.
     case doc_apply_change_pack (bytes_to_object (ce_unmarshal env)) (ce_float env) p (cw_heap w) (cw_docs w r) of
       None \<Rightarrow> None
     | Some (h, d, err) \<Rightarrow> Some (w\<lparr>cw_heap := h, cw_docs := (cw_docs w)(r := d)\<rparr>,
         case err of None \<Rightarrow> Inr () | Some e \<Rightarrow> Inl (Yc_Document e)))"

text \<open>The common middle of \<open>Attach\<close>, \<open>Detach\<close> and \<open>sync\<close>: send the local changes, apply the answer.\<close>

definition exchange :: "('w, 'e) client_env \<Rightarrow> ('w, 'e) pack_call \<Rightarrow> nat \<Rightarrow> ('w, 'e, unit) client_io" where
  "exchange env call r = with_world (\<lambda>w.
     io_bind (heap_call (\<lambda>h. panics (to_change_pack h (doc_create_change_pack (cw_docs w r))) (\<lambda>m. ok (h, m)))) (\<lambda>m.
     io_bind (net_call (call (actor_id_bytes (yc_id (cw_client w))) m)) (\<lambda>resp.
     io_bind (heap_call (from_change_pack resp)) (apply_pack env r))))"

definition client_attach :: "('w, 'e) client_env \<Rightarrow> nat \<Rightarrow> ('w, 'e, unit) client_io" where
  "client_attach env r = with_world (\<lambda>w.
     io_check (yc_status (cw_client w) = Activated_Client) Yc_Not_Activated
       (io_bind (modify_doc r (doc_set_actor (yc_id (cw_client w)))) (\<lambda>_.
        io_bind (exchange env (stub_attach env) r) (\<lambda>_.
        io_bind (modify_doc r (doc_set_status Attached)) (\<lambda>_.
        modify_client (\<lambda>c. c\<lparr>yc_attachments := AList.update (doc_bson_key w r)
          \<lparr>at_doc = r, at_peers = []\<rparr> (yc_attachments c)\<rparr>))))))"

definition client_detach :: "('w, 'e) client_env \<Rightarrow> nat \<Rightarrow> ('w, 'e, unit) client_io" where
  "client_detach env r = with_world (\<lambda>w.
     io_check (yc_status (cw_client w) = Activated_Client) Yc_Not_Activated
       (io_check (map_of (yc_attachments (cw_client w)) (doc_bson_key w r) \<noteq> None) Yc_Not_Attached
         (io_bind (exchange env (stub_detach env) r) (\<lambda>_.
          io_bind (modify_doc r (doc_set_status Detached)) (\<lambda>_.
          modify_client (\<lambda>c. c\<lparr>yc_attachments := AList.delete (doc_bson_key w r) (yc_attachments c)\<rparr>))))))"

definition client_sync_key :: "('w, 'e) client_env \<Rightarrow> doc_key \<Rightarrow> ('w, 'e, unit) client_io" where
  "client_sync_key env k = with_world (\<lambda>w.
     io_check (yc_status (cw_client w) = Activated_Client) Yc_Not_Activated
       (case map_of (yc_attachments (cw_client w)) (bson_key k) of
          None \<Rightarrow> io_fail Yc_Not_Attached
        | Some a \<Rightarrow> exchange env (stub_push_pull env) (at_doc a)))"

fun client_sync_keys :: "('w, 'e) client_env \<Rightarrow> doc_key list \<Rightarrow> ('w, 'e, unit) client_io" where
  "client_sync_keys env [] = io_return ()"
| "client_sync_keys env (k # ks) = io_bind (client_sync_key env k) (\<lambda>_. client_sync_keys env ks)"

definition client_sync :: "('w, 'e) client_env \<Rightarrow> doc_key list \<Rightarrow> ('w, 'e, unit) client_io" where
  "client_sync env keys = with_world (\<lambda>w.
     client_sync_keys env (if length keys = 0
       then map (\<lambda>(_, a). idoc_key (doc_internal (cw_docs w (at_doc a)))) (yc_attachments (cw_client w))
       else keys))"

section \<open>Watching\<close>

datatype pb_watch_response =
    Pb_Initialization "(string \<times> pb_client list) list" | Pb_Event pb_doc_event | Pb_No_Response

datatype watch_response =
    Documents_Changed "doc_key list" | Peers_Changed "(string \<times> (string \<times> metadata) list) list"

definition peers_map_by_doc :: "yorkie_client \<Rightarrow> (string \<times> (string \<times> metadata) list) list" where
  "peers_map_by_doc c = map (\<lambda>(k, a). (k, at_peers a)) (yc_attachments c)"

text \<open>The handler of a message changes the peers of the attachments as it goes, also when it ends with
  an error.  Changing the peers of a document that is not attached is a nil dereference.\<close>

type_synonym ('e, 'a) peers_io = "(yorkie_client, 'e client_error, 'a) io"

definition conv_step :: "(conv_error, 'a) result \<Rightarrow> ('e, 'a) peers_io" where
  "conv_step r = (\<lambda>c. case r of
     None \<Rightarrow> None | Some (Inl e) \<Rightarrow> Some (c, Inl (Yc_Conv e)) | Some (Inr a) \<Rightarrow> Some (c, Inr a))"

definition update_peers :: "string \<Rightarrow> ((string \<times> metadata) list \<Rightarrow> (string \<times> metadata) list) \<Rightarrow> ('e, unit) peers_io" where
  "update_peers k f = (\<lambda>c. case map_of (yc_attachments c) k of
     None \<Rightarrow> None
   | Some a \<Rightarrow> Some (c\<lparr>yc_attachments := AList.update k (a\<lparr>at_peers := f (at_peers a)\<rparr>) (yc_attachments c)\<rparr>, Inr ()))"

fun add_peers :: "string \<Rightarrow> client list \<Rightarrow> ('e, unit) peers_io" where
  "add_peers k [] = io_return ()"
| "add_peers k (p # ps) =
     io_bind (update_peers k (AList.update (actor_id_string (cl_id p)) (cl_metadata p))) (\<lambda>_. add_peers k ps)"

fun initialize_peers :: "(string \<times> pb_client list) list \<Rightarrow> ('e, unit) peers_io" where
  "initialize_peers [] = io_return ()"
| "initialize_peers ((k, ps) # kps) =
     io_bind (conv_step (from_clients ps)) (\<lambda>ps.
     io_bind (add_peers k ps) (\<lambda>_. initialize_peers kps))"

fun peers_event :: "bool \<Rightarrow> pb_client option \<Rightarrow> doc_key list \<Rightarrow> ('e, unit) peers_io" where
  "peers_event watched p [] = io_return ()"
| "peers_event watched p (k # ks) =
     io_bind (conv_step (from_client p)) (\<lambda>cl.
     io_bind (update_peers (bson_key k)
         (if watched then AList.update (actor_id_string (cl_id cl)) (cl_metadata cl)
          else AList.delete (actor_id_string (cl_id cl)))) (\<lambda>_.
     peers_event watched p ks))"

text \<open>The result is the message for the user, if there is one.\<close>

fun handle_watch_response :: "pb_watch_response \<Rightarrow> ('e, watch_response option) peers_io" where
  "handle_watch_response (Pb_Initialization m) = io_bind (initialize_peers m) (\<lambda>_. io_return None)"
| "handle_watch_response (Pb_Event e) =
     io_bind (conv_step (from_event_type (pe_type e))) (\<lambda>ty.
     let keys = from_document_keys (pe_document_keys e) in
     case ty of
       Documents_Changed_Event \<Rightarrow> io_return (Some (Documents_Changed keys))
     | _ \<Rightarrow> io_bind (peers_event (ty = Documents_Watched_Event) (pe_publisher e) keys) (\<lambda>_.
         (\<lambda>c. Some (c, Inr (Some (Peers_Changed (peers_map_by_doc c)))))))"
| "handle_watch_response Pb_No_Response = io_fail Yc_Unsupported"

text \<open>What the goroutine of \<open>Watch\<close> sends to the user, given what \<open>Recv\<close> returns: the channel is closed
  after the first error.  A message without a response for the user, that is, a second
  initialization, is a nil pointer that is dereferenced.\<close>

datatype 'e watch_item = Watch_Response watch_response | Watch_Failed "'e client_error"

record 'e watch_channel =
  wc_items :: "'e watch_item list"
  wc_closed :: bool

fun watch_loop :: "('e + pb_watch_response) list \<Rightarrow> yorkie_client \<times> 'e watch_channel \<Rightarrow>
    (yorkie_client \<times> 'e watch_channel) option" where
  "watch_loop [] (c, ch) = Some (c, ch)"
| "watch_loop (Inl e # ms) (c, ch) =
     Some (c, ch\<lparr>wc_items := wc_items ch @ [Watch_Failed (Yc_Rpc e)], wc_closed := True\<rparr>)"
| "watch_loop (Inr m # ms) (c, ch) =
     (case handle_watch_response m c of
        None \<Rightarrow> None
      | Some (c, Inl e) \<Rightarrow> Some (c, ch\<lparr>wc_items := wc_items ch @ [Watch_Failed e], wc_closed := True\<rparr>)
      | Some (c, Inr None) \<Rightarrow> None
      | Some (c, Inr (Some r)) \<Rightarrow> watch_loop ms (c, ch\<lparr>wc_items := wc_items ch @ [Watch_Response r]\<rparr>))"

text \<open>\<open>Watch\<close>: the request, the first message, then the loop.  \<open>open_stream\<close> is the call of the stub with
  what the stream will deliver.\<close>

record pb_watch_request =
  pwr_client :: "pb_client option"
  pwr_keys :: "pb_document_key list"

definition watch_request :: "(nat \<Rightarrow> document) \<Rightarrow> yorkie_client \<Rightarrow> nat list \<Rightarrow> pb_watch_request" where
  "watch_request docs c rs =
     \<lparr>pwr_client = Some (to_client \<lparr>cl_id = yc_id c, cl_metadata = yc_metadata c\<rparr>),
      pwr_keys = to_document_keys (map (\<lambda>r. idoc_key (doc_internal (docs r))) rs)\<rparr>"

definition client_watch :: "(pb_watch_request \<Rightarrow> 'e + ('e + pb_watch_response) \<times> ('e + pb_watch_response) list) \<Rightarrow>
    (nat \<Rightarrow> document) \<Rightarrow> nat list \<Rightarrow> ('e, 'e watch_channel) peers_io" where
  "client_watch open_stream docs rs = (\<lambda>c.
     case open_stream (watch_request docs c rs) of
       Inl e \<Rightarrow> Some (c, Inl (Yc_Rpc e))
     | Inr (Inl e, ms) \<Rightarrow> Some (c, Inl (Yc_Rpc e))
     | Inr (Inr m, ms) \<Rightarrow>
         io_bind (handle_watch_response m) (\<lambda>_ c.
         case watch_loop ms (c, \<lparr>wc_items = [], wc_closed = False\<rparr>) of
           None \<Rightarrow> None
         | Some (c, ch) \<Rightarrow> Some (c, Inr ch)) c)"

section \<open>Making and closing a client\<close>

text \<open>A field that is left out is the empty string, or no metadata.\<close>

record client_option =
  co_key :: string
  co_metadata :: "metadata option"
  co_token :: string
  co_cert_file :: string
  co_server_name :: string

datatype 'k dial_option = Transport_Credentials 'k | Insecure | Unary_Token string | Stream_Token string

definition new_client :: "(string \<Rightarrow> string \<Rightarrow> 'e + 'k) \<Rightarrow> string \<Rightarrow> client_option list \<Rightarrow>
    'e + yorkie_client \<times> 'k dial_option list" where
  "new_client load_cert fresh_key opts =
     (let opt = (case opts of [] \<Rightarrow> \<lparr>co_key = [], co_metadata = None, co_token = [], co_cert_file = [],
            co_server_name = []\<rparr> | opt # _ \<Rightarrow> opt);
          k = (if co_key opt \<noteq> [] then co_key opt else fresh_key);
          md = (case co_metadata opt of None \<Rightarrow> [] | Some md \<Rightarrow> md);
          transport = (if co_cert_file opt \<noteq> []
            then map_sum id Transport_Credentials (load_cert (co_cert_file opt) (co_server_name opt))
            else Inr Insecure)
      in case transport of
        Inl e \<Rightarrow> Inl e
      | Inr t \<Rightarrow> Inr (new_yorkie_client k md,
          t # (if co_token opt \<noteq> [] then [Unary_Token (co_token opt), Stream_Token (co_token opt)] else [])))"

text \<open>The connection is \<open>grpc.Dial\<close>'s; it has none before.\<close>

definition dial_client :: "(string \<Rightarrow> string \<Rightarrow> 'e + 'k) \<Rightarrow> (string \<Rightarrow> 'k dial_option list \<Rightarrow> 'w \<Rightarrow> 'w \<times> ('e + 'c)) \<Rightarrow>
    string \<Rightarrow> string \<Rightarrow> client_option list \<Rightarrow> 'w \<Rightarrow> 'w \<times> ('e + yorkie_client \<times> 'c)" where
  "dial_client load_cert grpc fresh_key addr opts w =
     (case new_client load_cert fresh_key opts of
        Inl e \<Rightarrow> (w, Inl e)
      | Inr (c, dial_opts) \<Rightarrow> (case grpc addr dial_opts w of
          (w, Inl e) \<Rightarrow> (w, Inl e)
        | (w, Inr conn) \<Rightarrow> (w, Inr (c, conn))))"

definition client_close :: "('w, 'e) client_env \<Rightarrow> ('w \<Rightarrow> 'w \<times> ('e + unit)) \<Rightarrow> ('w, 'e, unit) client_io" where
  "client_close env close_conn = io_bind (client_deactivate env) (\<lambda>_. net_call close_conn)"

end
