(* ===== verification/Sync_Protocol.thy ===== *)
theory Sync_Protocol
  imports Server
begin

text \<open>
  What a client's push and the server's answer do to the changes, over an unreliable network: the
  client side is \<open>src/pkg/document/internal_document.go\<close>, the server side the push of
  \<open>src/yorkie/packs/packs.go\<close>.  Requests and answers may be lost, repeated and overtake each other.
\<close>

section \<open>The server's part of a round\<close>

text \<open>The effect of \<open>PushPull\<close> on the client and document records, the changes it stores and the
  checkpoint it answers.\<close>

definition server_round :: "client_info \<Rightarrow> doc_info \<Rightarrow> pack \<Rightarrow>
    (client_info \<times> doc_info \<times> change list \<times> checkpoint) option" where
  "server_round ci d p =
     (let (cp, d', pushed) = push_changes ci d p;
          cp = next_server_seq cp (di_server_seq d')
      in case update_checkpoint (di_id d') cp ci :: unit server_error + client_info of
        Inl _ \<Rightarrow> None
      | Inr ci' \<Rightarrow> Some (ci', d', pushed, cp))"

lemma pure_call_ok [simp]: "pure_call r w = Some (v, Inr a) \<longleftrightarrow> v = w \<and> r = Inr a"
  by (cases r) (auto simp: pure_call_def io_fail_def)

lemma pull_changes_checkpoint:
  "pull_changes be d req cp initial w = Some (w', Inr (cp', cs)) \<Longrightarrow> cp' = next_server_seq cp (di_server_seq d)"
  by (auto simp: pull_changes_def io_bind_ok split: prod.splits)

lemma pull_snapshot_checkpoint:
  "pull_snapshot be d cp initial w = Some (w', Inr (cp', bs)) \<Longrightarrow> cp' = next_server_seq cp (di_server_seq d)"
  by (auto simp: pull_snapshot_def io_bind_ok Let_def split: if_splits)

lemma pull_pack_checkpoint:
  assumes "pull_pack be d req cp initial w = Some (w', Inr resp)"
  shows "pk_checkpoint resp = next_server_seq cp (di_server_seq d)"
  using assms
  by (auto simp: pull_pack_def io_bind_ok io_check_ok new_pack_def
      dest!: pull_changes_checkpoint pull_snapshot_checkpoint split: if_splits prod.splits)

lemma update_checkpoint_error_type:
  "(update_checkpoint d cp ci :: 'e server_error + client_info) = Inr ci' \<longleftrightarrow>
   (update_checkpoint d cp ci :: 'f server_error + client_info) = Inr ci'"
  by (simp add: update_checkpoint_def split: option.split)

text \<open>A push-pull that returns has done this round.\<close>

lemma push_pull_round:
  fixes be :: "('s, 'b) backend"
  assumes "push_pull be ci d req w = Some (w', Inr resp)"
  shows "\<exists>ci' d' pushed. server_round ci d req = Some (ci', d', pushed, pk_checkpoint resp)"
proof -
  obtain cp d' pushed where push: "push_changes ci d req = (cp, d', pushed)" by (metis prod_cases3)
  obtain v r ci' where r: "pull_pack be d' req cp (di_server_seq d) w = Some (v, Inr r)"
    "pk_checkpoint resp = pk_checkpoint r"
    and "(update_checkpoint (di_id d') (pk_checkpoint r) ci :: 'b server_error + client_info) = Inr ci'"
    using assms by (auto simp: push_pull_def Let_def push io_bind_ok)
  then have "(update_checkpoint (di_id d') (pk_checkpoint r) ci :: unit server_error + client_info) = Inr ci'"
    using update_checkpoint_error_type by blast
  then show ?thesis using r pull_pack_checkpoint [OF r(1)] by (simp add: server_round_def push)
qed

lemma server_round_seq:
  "server_round ci d p = Some (ci', d', pushed, cp) \<Longrightarrow>
     cp_client_seq cp = highest_seq (cp_client_seq (client_checkpoint (di_id d) ci)) (pk_changes p)"
  by (auto simp: server_round_def push_changes_def push_loop_accepts Let_def split: sum.splits)

section \<open>Consecutive client sequences\<close>

definition useqs :: "change list \<Rightarrow> nat list" where
  "useqs cs = map (\<lambda>c. unat (change_client_seq c)) cs"

lemma useqs_simps [simp]: "useqs [] = []" "useqs (c # cs) = unat (change_client_seq c) # useqs cs"
  "useqs (as @ bs) = useqs as @ useqs bs" "useqs (numbered s cs) = useqs cs"
  "length (useqs cs) = length cs"
proof -
  have "useqs cs = map (\<lambda>i. unat (id_client_seq i)) (map ch_id cs)" for cs
    by (simp add: useqs_def change_client_seq_def)
  then show "useqs (numbered s cs) = useqs cs" by (simp only: numbered_id)
qed (simp_all add: useqs_def)

lemma accepted_consecutive:
  "useqs cs = [Suc a..<Suc k] \<Longrightarrow> a \<le> unat b \<Longrightarrow>
     useqs (accepted b cs) = [Suc (unat b)..<Suc k] \<and> unat (highest_seq b cs) = max (unat b) (if cs = [] then 0 else k)"
proof (induction cs arbitrary: a b)
  case (Cons c cs)
  have c: "unat (change_client_seq c) = Suc a" "Suc a \<le> k" "useqs cs = [Suc (Suc a)..<Suc k]"
    using Cons.prems(1) by (auto simp: upt_rec [of "Suc a"] simp del: upt_Suc split: if_splits)
  have hd: "[Suc a..<Suc k] = Suc a # [Suc (Suc a)..<Suc k]" using c(2) by (simp add: upt_conv_Cons del: upt_Suc)
  have k: "cs = [] \<Longrightarrow> k = Suc a" using c(2,3) by (auto simp: eq_commute [of "[]"] simp del: upt_Suc)
  show ?case
  proof (cases "b < change_client_seq c")
    case True
    then have b: "a = unat b" using Cons.prems(2) c(1) by (simp add: word_less_nat_alt)
    have m: "max b (change_client_seq c) = change_client_seq c" using True by (simp add: max_absorb2 less_imp_le)
    show ?thesis
      using Cons.IH [of "Suc a" "change_client_seq c"] True c k b m hd by (auto simp del: upt_Suc)
  next
    case False
    then have le: "Suc a \<le> unat b" using c(1) by (simp add: word_less_nat_alt)
    have m: "max b (change_client_seq c) = b" using False by (simp add: max_absorb1 not_less)
    show ?thesis using Cons.IH [of "Suc a" b] False c k le m by auto
  qed
qed (auto simp: eq_commute [of "[]"] simp del: upt_Suc)

lemma drop_pushed_consecutive:
  "useqs cs = [Suc a..<Suc k] \<Longrightarrow> useqs (drop_pushed cp cs) = [Suc (max a (unat (cp_client_seq cp)))..<Suc k]"
proof (induction cs arbitrary: a)
  case (Cons c cs)
  have c: "unat (change_client_seq c) = Suc a" "Suc a \<le> k" "useqs cs = [Suc (Suc a)..<Suc k]"
    using Cons.prems(1) by (auto simp: upt_rec [of "Suc a"] simp del: upt_Suc split: if_splits)
  show ?case
  proof (cases "change_client_seq c \<le> cp_client_seq cp")
    case True
    then have "Suc a \<le> unat (cp_client_seq cp)" using c(1) by (simp add: word_le_nat_alt)
    then show ?thesis using Cons.IH [OF c(3)] True by (simp add: drop_pushed_def max_def)
  next
    case False
    then have "unat (cp_client_seq cp) \<le> a" using c(1) by (simp add: word_le_nat_alt)
    then show ?thesis using Cons.prems False by (simp add: drop_pushed_def max_absorb1 del: upt_Suc)
  qed
qed (auto simp: drop_pushed_def eq_commute [of "[]"] simp del: upt_Suc)

section \<open>The client's part of a round\<close>

lemma apply_changes_keeps:
  "apply_changes fl cs h d = Some (h', d', err) \<Longrightarrow>
     idoc_local_changes d' = idoc_local_changes d \<and> id_client_seq (idoc_change_id d') = id_client_seq (idoc_change_id d)"
  by (induction fl cs h d rule: apply_changes.induct)
    (auto simp: sync_lamport_def Let_def split: bind_splits prod.splits option.splits if_splits)

lemma apply_snapshot_keeps:
  "apply_snapshot decode fl bs seq h d = Some (h', d', err) \<Longrightarrow>
     idoc_local_changes d' = idoc_local_changes d \<and> id_client_seq (idoc_change_id d') = id_client_seq (idoc_change_id d)"
  by (auto simp: apply_snapshot_def sync_lamport_def Let_def
      split: bind_splits prod.splits option.splits if_splits sum.splits)

lemma apply_pack_keeps:
  assumes "idoc_apply_change_pack decode fl p h d = Some (h', d', None)"
  shows "idoc_local_changes d' = drop_pushed (pk_checkpoint p) (idoc_local_changes d)"
    "id_client_seq (idoc_change_id d') = id_client_seq (idoc_change_id d)"
  using assms apply_changes_keeps apply_snapshot_keeps
  by (fastforce simp: idoc_apply_change_pack_def idoc_finish_pack_def split: bind_splits if_splits prod.splits)+

section \<open>The protocol\<close>

text \<open>Clients that edit one document, the server's records of them, the changes it has stored of
  each, and what is under way.\<close>

record sync_state =
  sy_docs :: "nat \<Rightarrow> internal_document"
  sy_infos :: "nat \<Rightarrow> client_info"
  sy_doc_info :: doc_info
  sy_log :: "nat \<Rightarrow> change list"
  sy_requests :: "(nat \<times> pack) set"
  sy_answers :: "(nat \<times> pack) set"

text \<open>A client edits (the end of \<open>Document.Update\<close>), sends its local changes, the server handles
  any request it was ever sent, and a client applies any answer it was ever given.\<close>

inductive sync_step :: "'c snapshot_decoder \<Rightarrow> float_ops \<Rightarrow> sync_state \<Rightarrow> sync_state \<Rightarrow> bool"
  for decode :: "'c snapshot_decoder" and fl :: float_ops where
  edit: "d = sy_docs s i \<Longrightarrow> id_client_seq (idoc_change_id d) < 2 ^ 32 - 1 \<Longrightarrow>
    ch_id c = next_id (idoc_change_id d) \<Longrightarrow>
    sync_step decode fl s (s\<lparr>sy_docs := (sy_docs s)(i := d\<lparr>idoc_local_changes := idoc_local_changes d @ [c],
      idoc_change_id := ch_id c\<rparr>)\<rparr>)"
| request: "sync_step decode fl s
    (s\<lparr>sy_requests := insert (i, idoc_create_change_pack (sy_docs s i)) (sy_requests s)\<rparr>)"
| handle: "(i, p) \<in> sy_requests s \<Longrightarrow>
    server_round (sy_infos s i) (sy_doc_info s) p = Some (ci', di', pushed, cp) \<Longrightarrow> pk_checkpoint resp = cp \<Longrightarrow>
    sync_step decode fl s (s\<lparr>sy_infos := (sy_infos s)(i := ci'), sy_doc_info := di',
      sy_log := (sy_log s)(i := sy_log s i @ pushed), sy_answers := insert (i, resp) (sy_answers s)\<rparr>)"
| answer: "(i, resp) \<in> sy_answers s \<Longrightarrow>
    idoc_apply_change_pack decode fl resp h (sy_docs s i) = Some (h', d', None :: ('c, unit) doc_error option) \<Longrightarrow>
    sync_step decode fl s (s\<lparr>sy_docs := (sy_docs s)(i := d')\<rparr>)"

text \<open>At the start nothing was edited and every client has attached the document.\<close>

definition sync_start :: "sync_state \<Rightarrow> bool" where
  "sync_start s \<longleftrightarrow> sy_requests s = {} \<and> sy_answers s = {} \<and>
     (\<forall>i. idoc_local_changes (sy_docs s i) = [] \<and> id_client_seq (idoc_change_id (sy_docs s i)) = 0 \<and>
        sy_log s i = [] \<and> map_of (ci_documents (sy_infos s i)) (di_id (sy_doc_info s)) =
          Some \<lparr>cdi_status = Document_Attached, cdi_server_seq = 0, cdi_client_seq = 0\<rparr>)"

text \<open>What the server has accepted from a client, and what the client has made.\<close>

definition accepted_seq :: "sync_state \<Rightarrow> nat \<Rightarrow> nat" where
  "accepted_seq s i = unat (cp_client_seq (client_checkpoint (di_id (sy_doc_info s)) (sy_infos s i)))"

definition made_seq :: "sync_state \<Rightarrow> nat \<Rightarrow> nat" where
  "made_seq s i = unat (id_client_seq (idoc_change_id (sy_docs s i)))"

definition pending :: "change list \<Rightarrow> nat \<Rightarrow> nat \<Rightarrow> bool" where
  "pending cs b k \<longleftrightarrow> (\<exists>a\<le>b. useqs cs = [Suc a..<Suc k])"

definition sync_inv :: "sync_state \<Rightarrow> bool" where
  "sync_inv s \<longleftrightarrow>
     (\<forall>i. map_of (ci_documents (sy_infos s i)) (di_id (sy_doc_info s)) \<noteq> None \<and>
        accepted_seq s i \<le> made_seq s i \<and> useqs (sy_log s i) = [1..<Suc (accepted_seq s i)] \<and>
        pending (idoc_local_changes (sy_docs s i)) (accepted_seq s i) (made_seq s i)) \<and>
     (\<forall>(i, p) \<in> sy_requests s. \<exists>k\<le>made_seq s i. pending (pk_changes p) (accepted_seq s i) k) \<and>
     (\<forall>(i, p) \<in> sy_answers s. unat (cp_client_seq (pk_checkpoint p)) \<le> accepted_seq s i)"

lemma pending_mono: "pending cs b k \<Longrightarrow> b \<le> b' \<Longrightarrow> pending cs b' k"
  by (auto simp: pending_def intro: order_trans)

lemma sync_inv_start:
  assumes "sync_start s"
  shows "sync_inv s"
proof -
  have "accepted_seq s i = 0" "made_seq s i = 0" for i
    using assms by (simp_all add: sync_start_def accepted_seq_def made_seq_def client_checkpoint_def)
  then show ?thesis using assms by (simp add: sync_inv_def sync_start_def pending_def)
qed

text \<open>A round accepts exactly the changes the server has not seen.\<close>

lemma server_round_pending:
  assumes "server_round ci d p = Some (ci', d', pushed, cp)"
    and b: "b = unat (cp_client_seq (client_checkpoint (di_id d) ci))"
    and p: "pending (pk_changes p) b k"
  shows "useqs pushed = [Suc b..<Suc k]" "di_id d' = di_id d"
    "unat (cp_client_seq cp) = max b k"
    "cp_client_seq (client_checkpoint (di_id d) ci') = cp_client_seq cp"
    "map_of (ci_documents ci') (di_id d) \<noteq> None"
proof -
  let ?m = "cp_client_seq (client_checkpoint (di_id d) ci)"
  let ?n = "accepted ?m (pk_changes p)"
  have r: "pushed = numbered (di_server_seq d) ?n" "di_id d' = di_id d"
    "cp_client_seq cp = highest_seq ?m (pk_changes p)"
    "update_checkpoint (di_id d) cp ci = (Inr ci' :: unit server_error + client_info)"
    using assms(1) by (auto simp: server_round_def push_changes_def push_loop_accepts Let_def split: sum.splits)
  obtain a where a: "a \<le> b" "useqs (pk_changes p) = [Suc a..<Suc k]" using p by (auto simp: pending_def)
  note acc = accepted_consecutive [OF a(2) a(1) [unfolded b]]
  show "useqs pushed = [Suc b..<Suc k]" using r(1) acc b by simp
  show "di_id d' = di_id d" by (rule r)
  have "pk_changes p = [] \<Longrightarrow> k \<le> a" using a(2) by (auto simp: eq_commute [of "[]"] simp del: upt_Suc)
  then show "unat (cp_client_seq cp) = max b k" using r(3) acc a(1) b by (cases "pk_changes p = []") auto
  show "cp_client_seq (client_checkpoint (di_id d) ci') = cp_client_seq cp" "map_of (ci_documents ci') (di_id d) \<noteq> None"
    using r(4) by (auto simp: update_checkpoint_def client_checkpoint_def update_conv split: option.splits)
qed

lemma sync_invD:
  assumes "sync_inv s"
  shows "map_of (ci_documents (sy_infos s i)) (di_id (sy_doc_info s)) \<noteq> None"
    "accepted_seq s i \<le> made_seq s i" "useqs (sy_log s i) = [1..<Suc (accepted_seq s i)]"
    "pending (idoc_local_changes (sy_docs s i)) (accepted_seq s i) (made_seq s i)"
    "(i, p) \<in> sy_requests s \<Longrightarrow> \<exists>k\<le>made_seq s i. pending (pk_changes p) (accepted_seq s i) k"
    "(i, p) \<in> sy_answers s \<Longrightarrow> unat (cp_client_seq (pk_checkpoint p)) \<le> accepted_seq s i"
  using assms unfolding sync_inv_def by auto

lemma sync_invI:
  assumes "\<And>i. map_of (ci_documents (sy_infos s i)) (di_id (sy_doc_info s)) \<noteq> None"
    "\<And>i. accepted_seq s i \<le> made_seq s i" "\<And>i. useqs (sy_log s i) = [1..<Suc (accepted_seq s i)]"
    "\<And>i. pending (idoc_local_changes (sy_docs s i)) (accepted_seq s i) (made_seq s i)"
    "\<And>i p. (i, p) \<in> sy_requests s \<Longrightarrow> \<exists>k\<le>made_seq s i. pending (pk_changes p) (accepted_seq s i) k"
    "\<And>i p. (i, p) \<in> sy_answers s \<Longrightarrow> unat (cp_client_seq (pk_checkpoint p)) \<le> accepted_seq s i"
  shows "sync_inv s"
  using assms unfolding sync_inv_def by auto

lemma pending_edit:
  assumes "pending cs b k" "b \<le> k" "unat (change_client_seq c) = Suc k"
  shows "pending (cs @ [c]) b (Suc k)"
proof -
  obtain a where "a \<le> b" "useqs cs = [Suc a..<Suc k]" using assms(1) by (auto simp: pending_def)
  then have "useqs (cs @ [c]) = [Suc a..<Suc (Suc k)]" using assms(2,3) by simp
  then show ?thesis using \<open>a \<le> b\<close> unfolding pending_def by blast
qed

lemma pending_drop:
  assumes "pending cs b k" "unat (cp_client_seq cp) \<le> b"
  shows "pending (drop_pushed cp cs) b k"
proof -
  obtain a where "a \<le> b" "useqs cs = [Suc a..<Suc k]" using assms(1) by (auto simp: pending_def)
  then show ?thesis using drop_pushed_consecutive [of cs a k cp] assms(2) unfolding pending_def
    by (intro exI [of _ "max a (unat (cp_client_seq cp))"]) simp
qed

lemma sync_step_inv: "sync_step decode fl s s' \<Longrightarrow> sync_inv s \<Longrightarrow> sync_inv s'"
proof (induction rule: sync_step.induct)
  case (edit d s i c)
  note inv = sync_invD [OF edit.prems]
  let ?s = "s\<lparr>sy_docs := (sy_docs s)(i := d\<lparr>idoc_local_changes := idoc_local_changes d @ [c], idoc_change_id := ch_id c\<rparr>)\<rparr>"
  have "id_client_seq (ch_id c) = id_client_seq (idoc_change_id d) + 1" using edit.hyps(3) by simp
  moreover have "unat (id_client_seq (idoc_change_id d) + 1) = Suc (unat (id_client_seq (idoc_change_id d)))"
    using edit.hyps(2)
    by (simp add: word_less_nat_alt unat_word_ariths unsigned_minus_1_eq_mask mask_eq_exp_minus_1)
  ultimately have c: "unat (change_client_seq c) = Suc (made_seq s i)"
    using edit.hyps(1) by (simp add: made_seq_def change_client_seq_def)
  have acc: "accepted_seq ?s j = accepted_seq s j" for j by (simp add: accepted_seq_def)
  have made: "made_seq ?s j = (if j = i then Suc (made_seq s i) else made_seq s j)" for j
    using c by (simp add: made_seq_def change_client_seq_def)
  show ?case
  proof (rule sync_invI)
    fix j
    show "accepted_seq ?s j \<le> made_seq ?s j" using inv(2) [of j] acc made by auto
    show "pending (idoc_local_changes (sy_docs ?s j)) (accepted_seq ?s j) (made_seq ?s j)"
      unfolding acc made using inv(4) [of j] pending_edit [OF inv(4) inv(2) c] edit.hyps(1) by simp
    show "\<exists>k\<le>made_seq ?s j. pending (pk_changes p) (accepted_seq ?s j) k" if "(j, p) \<in> sy_requests ?s" for p
      using inv(5) [of j p] that unfolding acc made by (auto intro: le_SucI)
  qed (use inv acc in auto)
next
  case (request s i)
  note inv = sync_invD [OF request]
  let ?s = "s\<lparr>sy_requests := insert (i, idoc_create_change_pack (sy_docs s i)) (sy_requests s)\<rparr>"
  have "accepted_seq ?s j = accepted_seq s j" "made_seq ?s j = made_seq s j" for j
    by (simp_all add: accepted_seq_def made_seq_def)
  moreover have "pk_changes (idoc_create_change_pack (sy_docs s i)) = idoc_local_changes (sy_docs s i)"
    by (simp add: idoc_create_change_pack_def new_pack_def Let_def)
  ultimately show ?case by (intro sync_invI) (use inv in auto)
next
  case (handle i p s ci' di' pushed cp resp)
  note inv = sync_invD [OF handle.prems]
  let ?s = "s\<lparr>sy_infos := (sy_infos s)(i := ci'), sy_doc_info := di', sy_log := (sy_log s)(i := sy_log s i @ pushed),
    sy_answers := insert (i, resp) (sy_answers s)\<rparr>"
  let ?b = "accepted_seq s i"
  obtain k where k: "k \<le> made_seq s i" "pending (pk_changes p) ?b k" using inv(5) handle.hyps(1) by blast
  note r = server_round_pending [OF handle.hyps(2) accepted_seq_def k(2)]
  have made: "made_seq ?s j = made_seq s j" for j by (simp add: made_seq_def)
  have acc: "accepted_seq ?s j = (if j = i then max ?b k else accepted_seq s j)" for j
    using r(2-4) by (simp add: accepted_seq_def)
  have up: "accepted_seq s j \<le> accepted_seq ?s j" for j unfolding acc by simp
  show ?case
  proof (rule sync_invI)
    fix j
    show "map_of (ci_documents (sy_infos ?s j)) (di_id (sy_doc_info ?s)) \<noteq> None" using inv(1) r(2,5) by simp
    show "accepted_seq ?s j \<le> made_seq ?s j" using inv(2) [of j] k(1) unfolding acc made by auto
    have "[1..<Suc ?b] @ [Suc ?b..<Suc k] = [1..<Suc (max ?b k)]"
      using upt_add_eq_append [of 1 "Suc ?b" "k - ?b"] by (cases "?b \<le> k") (simp_all add: max_def del: upt_Suc)
    then show "useqs (sy_log ?s j) = [1..<Suc (accepted_seq ?s j)]"
      using inv(3) [of j] r(1) unfolding acc by (auto simp del: upt_Suc)
    show "pending (idoc_local_changes (sy_docs ?s j)) (accepted_seq ?s j) (made_seq ?s j)"
      using pending_mono [OF inv(4) up] unfolding made by simp
    show "\<exists>k\<le>made_seq ?s j. pending (pk_changes q) (accepted_seq ?s j) k" if "(j, q) \<in> sy_requests ?s" for q
    proof -
      have "(j, q) \<in> sy_requests s" using that by simp
      then show ?thesis using inv(5) pending_mono [OF _ up] unfolding made by blast
    qed
    show "unat (cp_client_seq (pk_checkpoint q)) \<le> accepted_seq ?s j" if "(j, q) \<in> sy_answers ?s" for q
    proof (cases "(j, q) = (i, resp)")
      case True
      then show ?thesis using r(3) handle.hyps(3) acc [of j] by simp
    next
      case False
      then have "(j, q) \<in> sy_answers s" using that by auto
      then show ?thesis using inv(6) up [of j] by (meson order_trans)
    qed
  qed
next
  case (answer i resp s h h' d')
  note inv = sync_invD [OF answer.prems]
  let ?s = "s\<lparr>sy_docs := (sy_docs s)(i := d')\<rparr>"
  note k = apply_pack_keeps [OF answer.hyps(2)]
  have "accepted_seq ?s j = accepted_seq s j" "made_seq ?s j = made_seq s j" for j
    using k(2) by (simp_all add: accepted_seq_def made_seq_def)
  moreover have "pending (idoc_local_changes d') (accepted_seq s i) (made_seq s i)"
    unfolding k(1) by (rule pending_drop [OF inv(4) inv(6) [OF answer.hyps(1)]])
  ultimately show ?case by (intro sync_invI) (use inv in auto)
qed

lemma sync_reachable_inv:
  "(sync_step decode fl)\<^sup>*\<^sup>* s s' \<Longrightarrow> sync_start s \<Longrightarrow> sync_inv s'"
  by (induction rule: rtranclp_induct) (auto intro: sync_inv_start sync_step_inv)

section \<open>Properties\<close>

text \<open>A sample: one client that has edited, sent its change and had it handled.\<close>

definition sample_idoc :: internal_document where
  "sample_idoc = \<lparr>idoc_key = \<lparr>collection = ''c'', document = ''d''\<rparr>, idoc_status = Attached,
     idoc_root = \<lparr>root_object = 0, root_elements = [], root_removed_pairs = [], root_removed_texts = []\<rparr>,
     idoc_checkpoint = initial_checkpoint, idoc_change_id = initial_id, idoc_local_changes = []\<rparr>"

definition sample_client_info :: client_info where
  "sample_client_info = \<lparr>ci_id = ''01'', ci_key = ''k'', ci_status = Client_Activated, ci_documents =
     [(''d'', \<lparr>cdi_status = Document_Attached, cdi_server_seq = 0, cdi_client_seq = 0\<rparr>)]\<rparr>"

definition sample_doc_info :: doc_info where
  "sample_doc_info = \<lparr>di_id = ''d'', di_key = ''c$d'', di_server_seq = 0, di_owner = ''01''\<rparr>"

definition sample_change :: change where
  "sample_change = new_change (next_id initial_id) [] []"

definition sample_edited :: internal_document where
  "sample_edited = sample_idoc\<lparr>idoc_local_changes := [sample_change], idoc_change_id := next_id initial_id\<rparr>"

definition sample_sync :: "internal_document \<Rightarrow> (nat \<times> pack) set \<Rightarrow> sync_state" where
  "sample_sync d rs = \<lparr>sy_docs = (\<lambda>_. sample_idoc)(0 := d), sy_infos = (\<lambda>_. sample_client_info),
     sy_doc_info = sample_doc_info, sy_log = (\<lambda>_. []), sy_requests = rs, sy_answers = {}\<rparr>"

definition sample_handled :: sync_state where
  "sample_handled = (sample_sync sample_edited {(0, idoc_create_change_pack sample_edited)})
     \<lparr>sy_infos := (\<lambda>_. sample_client_info)(0 := sample_client_info\<lparr>ci_documents :=
        [(''d'', \<lparr>cdi_status = Document_Attached, cdi_server_seq = 1, cdi_client_seq = 1\<rparr>)]\<rparr>),
      sy_doc_info := sample_doc_info\<lparr>di_server_seq := 1\<rparr>,
      sy_log := (\<lambda>_. [])(0 := [set_server_seq 1 sample_change]),
      sy_answers := {(0, new_pack \<lparr>collection = ''c'', document = ''d''\<rparr> (new_checkpoint 1 1) [] [])}\<rparr>"

lemma sample_round:
  "server_round sample_client_info sample_doc_info (idoc_create_change_pack sample_edited) =
     Some (sample_client_info\<lparr>ci_documents :=
        [(''d'', \<lparr>cdi_status = Document_Attached, cdi_server_seq = 1, cdi_client_seq = 1\<rparr>)]\<rparr>,
      sample_doc_info\<lparr>di_server_seq := 1\<rparr>, [set_server_seq 1 sample_change], new_checkpoint 1 1)"
  by code_simp

lemma sample_sync_start: "sync_start (sample_sync sample_idoc {})"
  by (simp add: sync_start_def sample_sync_def sample_idoc_def sample_client_info_def sample_doc_info_def initial_id_def)

lemma sample_sync_run: "(sync_step decode fl)\<^sup>*\<^sup>* (sample_sync sample_idoc {}) sample_handled"
proof -
  let ?k = "\<lparr>collection = ''c'', document = ''d''\<rparr>"
  have "sync_step decode fl (sample_sync sample_idoc {}) (sample_sync sample_edited {})"
    using sync_step.edit [of sample_idoc "sample_sync sample_idoc {}" 0 sample_change decode fl]
    by (simp add: sample_sync_def sample_idoc_def initial_id_def sample_change_def new_change_def sample_edited_def
        word_less_nat_alt unsigned_minus_1_eq_mask mask_eq_exp_minus_1)
  moreover have "sync_step decode fl (sample_sync sample_edited {})
      (sample_sync sample_edited {(0, idoc_create_change_pack sample_edited)})"
    using sync_step.request [of decode fl "sample_sync sample_edited {}" 0] by (simp add: sample_sync_def)
  moreover have "sync_step decode fl (sample_sync sample_edited {(0, idoc_create_change_pack sample_edited)}) sample_handled"
    using sync_step.handle [of 0 "idoc_create_change_pack sample_edited"
        "sample_sync sample_edited {(0, idoc_create_change_pack sample_edited)}" _ _ _ _
        "new_pack ?k (new_checkpoint 1 1) [] []" decode fl] sample_round
    by (simp add: sample_sync_def sample_handled_def new_pack_def)
  ultimately show ?thesis by (meson converse_rtranclp_into_rtranclp r_into_rtranclp)
qed

text \<open>C1: Over a network that loses, repeats and reorders requests and answers: the changes the server
  has stored of a client are, in the order they were made, the first ones the client made, each
  exactly once; and every change that was made is stored or still waits at the client.\<close>
theorem sync_exactly_once:
  assumes "sync_start s0" "(sync_step decode fl)\<^sup>*\<^sup>* s0 s"
  shows "useqs (sy_log s i) = [1..<Suc (accepted_seq s i)] \<and> accepted_seq s i \<le> made_seq s i \<and>
    set (useqs (sy_log s i)) \<union> set (useqs (idoc_local_changes (sy_docs s i))) = {1..made_seq s i} \<and>
    distinct (useqs (idoc_local_changes (sy_docs s i)))"
proof -
  note inv = sync_invD [OF sync_reachable_inv [OF assms(2,1)]]
  obtain a where "a \<le> accepted_seq s i" "useqs (idoc_local_changes (sy_docs s i)) = [Suc a..<Suc (made_seq s i)]"
    using inv(4) [of i] by (auto simp: pending_def)
  then show ?thesis using inv(2,3) [of i] by (auto simp del: upt_Suc)
qed

theorem sync_exactly_once_witness:
  "useqs (sy_log sample_handled 0) = [1] \<and> set (useqs (sy_log sample_handled 0)) = {1..made_seq sample_handled 0}"
proof -
  have m: "made_seq sample_handled 0 = 1" "accepted_seq sample_handled 0 = 1"
    by (simp_all add: made_seq_def accepted_seq_def sample_handled_def sample_sync_def sample_edited_def initial_id_def
        client_checkpoint_def sample_doc_info_def)
  from sync_exactly_once [OF sample_sync_start sample_sync_run, of 0] show ?thesis unfolding m by simp
qed

text \<open>C14: A push-pull that succeeds acknowledges every local change: once its answer is applied the
  client has nothing left to send, also when the server had stored some of the changes before.\<close>
theorem sync_drains:
  assumes "push_pull be ci d (idoc_create_change_pack doc) w = Some (w', Inr resp)"
  shows "idoc_local_changes (idoc_finish_pack resp doc) = []"
proof -
  obtain ci' d' pushed where "server_round ci d (idoc_create_change_pack doc) = Some (ci', d', pushed, pk_checkpoint resp)"
    using push_pull_round [OF assms] by blast
  then have "cp_client_seq (pk_checkpoint resp) =
      highest_seq (cp_client_seq (client_checkpoint (di_id d) ci)) (idoc_local_changes doc)"
    using server_round_seq by (fastforce simp: idoc_create_change_pack_def new_pack_def Let_def)
  then show ?thesis using highest_seq_ge by (simp add: idoc_finish_pack_def drop_pushed_def)
qed

text \<open>A database that stores nothing, for the sample of a push-pull.\<close>

definition sample_backend :: "(unit, unit) backend" where
  "sample_backend = \<lparr>be_db = \<lparr>
       db_activate_client = (\<lambda>k s. Some (s, Inl ())), db_deactivate_client = (\<lambda>i s. Some (s, Inl ())),
       db_find_client = (\<lambda>i s. Some (s, Inr sample_client_info)), db_update_client = (\<lambda>ci d s. Some (s, Inr ())),
       db_find_doc = (\<lambda>ci k b s. Some (s, Inr sample_doc_info)), db_store_changes = (\<lambda>h d q cs s. Some (s, Inr ())),
       db_create_snapshot = (\<lambda>h i d s. Some (s, Inr ())), db_find_changes = (\<lambda>i a b h s. Some (s, Inr (h, []))),
       db_min_synced = (\<lambda>ci i q s. Some (s, Inr initial_ticket)),
       db_last_snapshot = (\<lambda>i s. Some (s, Inr \<lparr>si_server_seq = 0, si_snapshot = None\<rparr>))\<rparr>,
     be_config = \<lparr>snapshot_threshold = 500, snapshot_interval = 100, webhook_url = [], webhook_methods = []\<rparr>,
     be_webhook = (\<lambda>_. Inl ()), be_marshal = (\<lambda>_. None), be_unmarshal = (\<lambda>_. None), be_float = sample_float\<rparr>"

lemma sample_push_pull:
  "\<exists>resp. push_pull sample_backend sample_client_info sample_doc_info (idoc_create_change_pack sample_edited)
     ((), h) = Some (((), h), Inr resp)"
proof -
  have p: "push_changes sample_client_info sample_doc_info (idoc_create_change_pack sample_edited) =
      (new_checkpoint 1 1, sample_doc_info\<lparr>di_server_seq := 1\<rparr>, [set_server_seq 1 sample_change])"
    by code_simp
  have k: "from_bson_key ''c$d'' = Some \<lparr>collection = ''c'', document = ''d''\<rparr>" by code_simp
  show ?thesis
    unfolding push_pull_def Let_def p prod.case
    by (simp add: pull_pack_def doc_get_key_def sample_doc_info_def k pure_call_def
        pull_changes_def io_bind_def io_return_def io_check_def with_heap_def db_call_def sample_backend_def
        idoc_create_change_pack_def sample_edited_def sample_idoc_def new_pack_def initial_checkpoint_def
        increase_client_seq_def update_checkpoint_def sample_client_info_def)
qed

theorem sync_drains_witness:
  "idoc_local_changes sample_edited = [sample_change] \<and>
   (\<exists>resp. idoc_local_changes (idoc_finish_pack resp sample_edited) = [])"
proof -
  obtain h :: json_heap where True by simp
  obtain resp where "push_pull sample_backend sample_client_info sample_doc_info (idoc_create_change_pack sample_edited)
      ((), h) = Some (((), h), Inr resp)" using sample_push_pull by blast
  from sync_drains [OF this] show ?thesis by (auto simp: sample_edited_def)
qed

text \<open>C25: The push numbers the changes the server has not seen, and only them: they get the server
  sequences after the document's, in order, the document ends at the last of them, and the same pack
  pushed again with the client's new record adds nothing.\<close>
theorem push_numbers_changes:
  assumes "push_changes ci d p = (cp, d', pushed)"
    "update_checkpoint (di_id d) (next_server_seq cp (di_server_seq d')) ci = (Inr ci' :: unit server_error + client_info)"
  shows "map ch_id pushed = map ch_id (accepted (cp_client_seq (client_checkpoint (di_id d) ci)) (pk_changes p)) \<and>
    map ch_server_seq pushed = map (\<lambda>i. Some (di_server_seq d + of_nat i)) [1..<Suc (length pushed)] \<and>
    di_server_seq d' = di_server_seq d + of_nat (length pushed) \<and>
    snd (snd (push_changes ci' d' p)) = []"
proof -
  let ?m = "cp_client_seq (client_checkpoint (di_id d) ci)"
  have r: "pushed = numbered (di_server_seq d) (accepted ?m (pk_changes p))" "cp_client_seq cp = highest_seq ?m (pk_changes p)"
    "d' = d\<lparr>di_server_seq := di_server_seq d + of_nat (length pushed)\<rparr>"
    using assms(1) by (auto simp: push_changes_def push_loop_accepts Let_def)
  have "cp_client_seq (client_checkpoint (di_id d) ci') = cp_client_seq cp"
    using assms(2) by (auto simp: update_checkpoint_def client_checkpoint_def update_conv split: option.splits)
  moreover have "accepted (cp_client_seq cp) (pk_changes p) = []"
    using accepted_none highest_seq_ge r(2) by simp
  ultimately have "snd (snd (push_changes ci' d' p)) = []"
    using r(3) by (simp add: push_changes_def push_loop_accepts Let_def)
  then show ?thesis using r numbered_seqs by simp
qed

theorem push_numbers_changes_witness:
  "map ch_server_seq [set_server_seq 1 sample_change] = [Some 1] \<and>
   snd (snd (push_changes
     (sample_client_info\<lparr>ci_documents := [(''d'', \<lparr>cdi_status = Document_Attached, cdi_server_seq = 1, cdi_client_seq = 1\<rparr>)]\<rparr>)
     (sample_doc_info\<lparr>di_server_seq := 1\<rparr>) (idoc_create_change_pack sample_edited))) = []"
proof -
  have "push_changes sample_client_info sample_doc_info (idoc_create_change_pack sample_edited) =
      (new_checkpoint 1 1, sample_doc_info\<lparr>di_server_seq := 1\<rparr>, [set_server_seq 1 sample_change])"
    by code_simp
  moreover have "update_checkpoint (di_id sample_doc_info) (next_server_seq (new_checkpoint 1 1)
      (di_server_seq (sample_doc_info\<lparr>di_server_seq := 1\<rparr>))) sample_client_info =
      (Inr (sample_client_info\<lparr>ci_documents := [(''d'', \<lparr>cdi_status = Document_Attached, cdi_server_seq = 1, cdi_client_seq = 1\<rparr>)]\<rparr>)
        :: unit server_error + client_info)"
    by code_simp
  ultimately show ?thesis
    using push_numbers_changes [of sample_client_info sample_doc_info "idoc_create_change_pack sample_edited"]
    by (simp add: set_server_seq_def)
qed

text \<open>C36: A request from a client that claims to have seen more than the server has stored is
  refused, and nothing is stored.\<close>
theorem request_ahead_of_server_refused:
  fixes be :: "('s, 'b) backend"
  assumes "doc_get_key d = (Inr k :: 'b server_error + doc_key)" "di_server_seq d < cp_server_seq (pk_checkpoint req)"
  shows "push_pull be ci d req w = Some (w, Inl Invalid_Server_Seq)"
proof -
  obtain cp d' pushed where push: "push_changes ci d req = (cp, d', pushed)" by (metis prod_cases3)
  then have "di_key d' = di_key d" by (auto simp: push_changes_def push_loop_accepts Let_def)
  then have "doc_get_key d' = (Inr k :: 'b server_error + doc_key)"
    using assms(1) by (simp add: doc_get_key_def split: option.splits)
  then show ?thesis
    using assms(2) by (simp add: push_pull_def Let_def push pull_pack_def pure_call_def io_bind_def io_return_def
        io_check_def io_fail_def)
qed

theorem request_ahead_of_server_refused_witness:
  "push_pull sample_backend sample_client_info sample_doc_info
     (new_pack \<lparr>collection = ''c'', document = ''d''\<rparr> (new_checkpoint 7 0) [] []) ((), \<lparr>cells = (\<lambda>_. undefined), next_ref = 0\<rparr>) =
   Some (((), \<lparr>cells = (\<lambda>_. undefined), next_ref = 0\<rparr>), Inl Invalid_Server_Seq)"
proof -
  have "from_bson_key ''c$d'' = Some \<lparr>collection = ''c'', document = ''d''\<rparr>" by code_simp
  then have "doc_get_key sample_doc_info = (Inr \<lparr>collection = ''c'', document = ''d''\<rparr> :: unit server_error + doc_key)"
    by (simp add: doc_get_key_def sample_doc_info_def)
  then show ?thesis by (rule request_ahead_of_server_refused) (simp add: sample_doc_info_def new_pack_def)
qed

end
