(* ===== verification/Heap_Facts.thy ===== *)
theory Heap_Facts
  imports Json_Elements
begin

text \<open>
  What the operations on elements keep of the heap: an element keeps its creation time and its
  dynamic type and stays removed once it is removed, references point to allocated elements, and
  the containment of elements has no cycle.  A copy is made of new elements only.  The operations
  are those of \<open>object.go\<close>, \<open>array.go\<close> and \<open>element.go\<close> under \<open>src/pkg/document/json/\<close>.
\<close>

section \<open>Types and references\<close>

datatype elem_kind = Primitive_Kind | Counter_Kind | Object_Kind | Array_Kind | Text_Kind | Rich_Text_Kind

fun kind_of :: "body \<Rightarrow> elem_kind" where
  "kind_of (Primitive_Body _) = Primitive_Kind"
| "kind_of (Counter_Body _) = Counter_Kind"
| "kind_of (Object_Body _) = Object_Kind"
| "kind_of (Array_Body _) = Array_Kind"
| "kind_of (Text_Body _) = Text_Kind"
| "kind_of (Rich_Text_Body _) = Rich_Text_Kind"

abbreviation elem_kind_at :: "json_heap \<Rightarrow> ref \<Rightarrow> elem_kind" where
  "elem_kind_at h r \<equiv> kind_of (body (cells h r))"

text \<open>Every reference a container can come to: those of its members and those of its tables.\<close>

definition pm_refs :: "pq_map \<Rightarrow> ref set" where
  "pm_refs m = pqn_elem ` (set (pm_nodes m) \<union> snd ` set (pm_by_created m))"

fun body_refs :: "body \<Rightarrow> ref set" where
  "body_refs (Object_Body m) = pm_refs m"
| "body_refs (Array_Body l) = range (rl_elem l)"
| "body_refs _ = {}"

abbreviation refs_at :: "json_heap \<Rightarrow> ref \<Rightarrow> ref set" where
  "refs_at h r \<equiv> body_refs (body (cells h r))"

lemma children_refs: "set (children h r) \<subseteq> refs_at h r"
  by (auto simp: children_def pm_refs_def split: body.splits)

lemma container_kind: "is_container h r \<longleftrightarrow> elem_kind_at h r = Object_Kind \<or> elem_kind_at h r = Array_Kind"
  by (auto simp: is_container_def split: body.splits)

section \<open>Extension of a heap\<close>

definition hext :: "json_heap \<Rightarrow> json_heap \<Rightarrow> bool" where
  "hext h h' \<longleftrightarrow> next_ref h \<le> next_ref h' \<and>
     (\<forall>r<next_ref h. created_at (cells h' r) = created_at (cells h r) \<and> elem_kind_at h' r = elem_kind_at h r \<and>
        (removed_at (cells h r) \<noteq> None \<longrightarrow> removed_at (cells h' r) \<noteq> None))"

lemma hext_refl [iff]: "hext h h"
  by (simp add: hext_def)

lemma hext_trans [trans]: "hext h h1 \<Longrightarrow> hext h1 h2 \<Longrightarrow> hext h h2"
  by (simp add: hext_def)

lemma hextD:
  "hext h h' \<Longrightarrow> next_ref h \<le> next_ref h'"
  "hext h h' \<Longrightarrow> r < next_ref h \<Longrightarrow> created_at (cells h' r) = created_at (cells h r)"
  "hext h h' \<Longrightarrow> r < next_ref h \<Longrightarrow> elem_kind_at h' r = elem_kind_at h r"
  "hext h h' \<Longrightarrow> r < next_ref h \<Longrightarrow> is_container h' r = is_container h r"
  by (auto simp: hext_def container_kind)

lemma heap_remove_frame:
  assumes "heap_remove_elem r t h = Some (h', b)"
  shows "hext h h'" "next_ref h' = next_ref h" "body (cells h' x) = body (cells h x)"
proof -
  obtain c where c: "elem_remove t (cells h r) = Some (c, b)" "h' = set_cell r c h"
    using assms by (auto simp: heap_remove_elem_def bind_eq_Some_conv)
  define y where "y = removed_at c"
  have "c = (cells h r)\<lparr>removed_at := y\<rparr>" "removed_at (cells h r) \<noteq> None \<longrightarrow> y \<noteq> None"
    using elem_remove_frame [OF c(1)] unfolding y_def by blast+
  then show "hext h h'" "next_ref h' = next_ref h" "body (cells h' x) = body (cells h x)"
    using c(2) by (auto simp: hext_def)
qed

section \<open>The invariant of a heap\<close>

text \<open>References are allocated, and some rank decreases along them: there is no cycle.\<close>

definition heap_ranked :: "(ref \<Rightarrow> nat) \<Rightarrow> json_heap \<Rightarrow> bool" where
  "heap_ranked rank h \<longleftrightarrow> (\<forall>r<next_ref h. \<forall>c\<in>refs_at h r. c < next_ref h \<and> rank c < rank r)"

definition heap_ok :: "json_heap \<Rightarrow> bool" where
  "heap_ok h \<longleftrightarrow> (\<exists>rank. heap_ranked rank h)"

lemma heap_okD: "heap_ok h \<Longrightarrow> r < next_ref h \<Longrightarrow> c \<in> refs_at h r \<Longrightarrow> c < next_ref h"
  by (auto simp: heap_ok_def heap_ranked_def)

text \<open>Fewer references keep the invariant, at the same elements.\<close>

lemma heap_ok_less_refs:
  assumes "heap_ok h" "next_ref h' = next_ref h" "\<And>r. r < next_ref h \<Longrightarrow> refs_at h' r \<subseteq> refs_at h r"
  shows "heap_ok h'"
proof -
  obtain rank where "heap_ranked rank h" using assms(1) by (auto simp: heap_ok_def)
  then have "heap_ranked rank h'" using assms(2,3) unfolding heap_ranked_def by (metis subset_iff)
  then show ?thesis by (auto simp: heap_ok_def)
qed

text \<open>An operation on the container \<open>r\<close> that may let it refer to \<open>V\<close> also.\<close>

definition touches :: "ref \<Rightarrow> ref set \<Rightarrow> json_heap \<Rightarrow> json_heap \<Rightarrow> bool" where
  "touches r V h h' \<longleftrightarrow> next_ref h' = next_ref h \<and> hext h h' \<and>
     (\<forall>x. refs_at h' x \<subseteq> refs_at h x \<union> (if x = r then V else {}))"

lemma touchesD:
  "touches r V h h' \<Longrightarrow> next_ref h' = next_ref h"
  "touches r V h h' \<Longrightarrow> hext h h'"
  "touches r V h h' \<Longrightarrow> refs_at h' x \<subseteq> refs_at h x \<union> (if x = r then V else {})"
  by (auto simp: touches_def)

lemma touches_refl [iff]: "touches r V h h"
  by (auto simp: touches_def)

lemma touches_trans [trans]:
  assumes "touches r V h h1" "touches r V h1 h2"
  shows "touches r V h h2"
proof -
  have "refs_at h2 x \<subseteq> refs_at h x \<union> (if x = r then V else {})" for x
    using touchesD(3) [OF assms(1), of x] touchesD(3) [OF assms(2), of x] by (cases "x = r"; simp; blast)
  then show ?thesis using assms hext_trans by (auto simp: touches_def)
qed

lemma touches_set_body:
  "kind_of b = elem_kind_at h r \<Longrightarrow> body_refs b \<subseteq> refs_at h r \<union> V \<Longrightarrow> touches r V h (set_body r b h)"
  by (auto simp: touches_def hext_def set_body_def)

lemma touches_remove: "heap_remove_elem x t h = Some (h', b) \<Longrightarrow> touches r V h h'"
  unfolding touches_def using heap_remove_frame by auto

lemma touches_ok: "touches r {} h h' \<Longrightarrow> heap_ok h \<Longrightarrow> heap_ok h'"
  by (rule heap_ok_less_refs [of h]) (auto simp: touches_def split: if_splits)

text \<open>A heap that has grown by elements that refer to older new ones.\<close>

definition grows :: "json_heap \<Rightarrow> json_heap \<Rightarrow> bool" where
  "grows h h' \<longleftrightarrow> next_ref h \<le> next_ref h' \<and> (\<forall>r<next_ref h. cells h' r = cells h r) \<and>
     (\<forall>r. next_ref h \<le> r \<longrightarrow> r < next_ref h' \<longrightarrow> refs_at h' r \<subseteq> {next_ref h..<r})"

lemma grows_refl [iff]: "grows h h"
  by (auto simp: grows_def)

lemma growsD:
  "grows h h' \<Longrightarrow> next_ref h \<le> next_ref h'"
  "grows h h' \<Longrightarrow> r < next_ref h \<Longrightarrow> cells h' r = cells h r"
  "grows h h' \<Longrightarrow> next_ref h \<le> r \<Longrightarrow> r < next_ref h' \<Longrightarrow> refs_at h' r \<subseteq> {next_ref h..<r}"
  by (auto simp: grows_def)

lemma grows_trans [trans]:
  assumes "grows h h1" "grows h1 h2"
  shows "grows h h2"
proof -
  have "refs_at h2 r \<subseteq> {next_ref h..<r}" if "next_ref h \<le> r" "r < next_ref h2" for r
  proof (cases "r < next_ref h1")
    case True
    then show ?thesis using growsD(2) [OF assms(2)] growsD(3) [OF assms(1)] that by simp
  next
    case False
    then show ?thesis using growsD(3) [OF assms(2)] growsD(1) [OF assms(1)] that
      by (meson atLeastLessThan_iff dual_order.trans not_le subset_iff)
  qed
  then show ?thesis using assms by (auto simp: grows_def)
qed

lemma grows_hext: "grows h h' \<Longrightarrow> hext h h'"
  by (simp add: grows_def hext_def)

lemma grows_alloc: "body_refs (body c) \<subseteq> {next_ref h..<next_ref h} \<Longrightarrow> grows h (snd (alloc c h))"
  by (auto simp: grows_def less_Suc_eq)

lemma grows_alloc_after:
  assumes "grows h h1" "body_refs (body c) \<subseteq> {next_ref h..<next_ref h1}"
  shows "grows h (snd (alloc c h1))"
  using assms by (auto simp: grows_def less_Suc_eq)

text \<open>Old elements may refer to new ones: that closes no cycle.\<close>

lemma heap_ok_extend:
  assumes "heap_ok h" "grows h h1" "next_ref h' = next_ref h1"
    "\<And>x. x < next_ref h \<Longrightarrow> refs_at h' x \<subseteq> refs_at h x \<union> {next_ref h..<next_ref h1}"
    "\<And>x. next_ref h \<le> x \<Longrightarrow> refs_at h' x \<subseteq> refs_at h1 x"
  shows "heap_ok h'"
proof -
  let ?N = "next_ref h"
  obtain rank where rank: "heap_ranked rank h" using assms(1) by (auto simp: heap_ok_def)
  define rank' where "rank' x = (if x < ?N then rank x + next_ref h1 else x - ?N)" for x
  have "c < next_ref h1 \<and> rank' c < rank' x" if x: "x < next_ref h1" and c: "c \<in> refs_at h' x" for x c
  proof (cases "x < ?N")
    case True
    then have "c \<in> {?N..<next_ref h1} \<or> c \<in> refs_at h x" using c assms(4) by blast
    moreover have "c \<in> refs_at h x \<Longrightarrow> c < ?N \<and> rank c < rank x" using rank True by (auto simp: heap_ranked_def)
    ultimately show ?thesis using True growsD(1) [OF assms(2)] by (auto simp: rank'_def)
  next
    case False
    then have "c \<in> {?N..<x}" using growsD(3) [OF assms(2)] assms(5) x c by (meson not_le subset_iff)
    then show ?thesis using False x by (auto simp: rank'_def)
  qed
  then have "heap_ranked rank' h'" by (simp add: heap_ranked_def assms(3))
  then show ?thesis by (auto simp: heap_ok_def)
qed

lemma heap_ok_grows: "heap_ok h \<Longrightarrow> grows h h1 \<Longrightarrow> heap_ok h1"
  by (rule heap_ok_extend [of h h1 h1]) (auto simp: growsD)

lemma heap_ok_link:
  assumes "heap_ok h" "grows h h1" "r < next_ref h" "next_ref h \<le> v" "v < next_ref h1" "touches r {v} h1 h'"
  shows "heap_ok h'"
proof (rule heap_ok_extend [OF assms(1,2)])
  show "next_ref h' = next_ref h1" using touchesD(1) [OF assms(6)] .
  show "refs_at h' x \<subseteq> refs_at h x \<union> {next_ref h..<next_ref h1}" if "x < next_ref h" for x
    using touchesD(3) [OF assms(6), of x] growsD(2) [OF assms(2) that] assms(4,5) by (auto split: if_splits)
  show "refs_at h' x \<subseteq> refs_at h1 x" if "next_ref h \<le> x" for x
    using touchesD(3) [OF assms(6), of x] that assms(3) by simp
qed

section \<open>Members of objects\<close>

text \<open>The queues keep their values, whatever the order.\<close>

lemma pq_values_mset: "mset (pq_values q) = image_mset pq_value (mset q)"
  by (simp add: pq_values_def)

lemma pq_push_mset: "mset (pq_values (pq_push lt q v)) = add_mset v (mset (pq_values q))"
proof -
  let ?q = "queue_push q (new_pq_item v)"
  have "length ?q = Suc (length q)" by (simp add: queue_push_def)
  then show ?thesis using heap_up_frame [of "length q" ?q lt]
    by (simp add: pq_push_def heap_push_def pq_values_mset) (simp add: queue_push_def new_pq_item_def)
qed

lemma set_pq_push [simp]: "set (pq_values (pq_push lt q v)) = insert v (set (pq_values q))"
  using pq_push_mset by (metis set_mset_add_mset_insert set_mset_mset)

lemma queue_pop_subset: "queue_pop q = Some (q', x) \<Longrightarrow> set (pq_values q') \<subseteq> set (pq_values q)"
  by (auto simp: queue_pop_def pq_values_def split: if_splits dest: in_set_butlastD)

lemma heap_remove_subset:
  assumes "Priority_Queue.heap_remove lt q i = Some (q', x)"
  shows "set (pq_values q') \<subseteq> set (pq_values q)"
proof -
  let ?n = "length q - 1"
  let ?q1 = "queue_swap q i ?n"
  let ?d = "heap_down lt ?q1 i i ?n"
  have i: "i < length q" using assms by (auto simp: heap_remove_def split: if_splits)
  define q2 where "q2 = (if ?n \<noteq> i then let (q', moved) = ?d in if \<not> moved then heap_up lt q' i else q' else q)"
  have "queue_pop q2 = Some (q', x)"
    using assms i unfolding heap_remove_def q2_def Let_def if_distrib [of queue_pop] by simp
  then have "set (pq_values q') \<subseteq> set (pq_values q2)" by (rule queue_pop_subset)
  moreover have "mset (pq_values q2) = mset (pq_values q)"
  proof (cases "?n = i")
    case False
    then have "i < ?n" "?n \<le> length ?q1" "?n < length q" using i by auto
    then show ?thesis
      using heap_down_frame [of i ?n ?q1 lt i] heap_up_frame [of i "fst ?d" lt] mset_queue_swap [of i q ?n] i
      by (simp add: q2_def pq_values_mset Let_def case_prod_beta)
  qed (simp add: q2_def)
  ultimately show ?thesis by (metis set_mset_mset)
qed

lemma pq_release_subset: "pq_release lt q v = Some q' \<Longrightarrow> set (pq_values q') \<subseteq> set (pq_values q)"
  by (auto simp: pq_release_def split: option.splits dest!: heap_remove_subset)

lemma alist_delete_subset: "set (AList.delete k xs) \<subseteq> set xs"
  by (auto simp: AList.delete_eq)

lemma pm_nodes_in: "n \<in> set (pm_nodes m) \<longleftrightarrow> (\<exists>k q. (k, q) \<in> set (pm_queues m) \<and> n \<in> set (pq_values q))"
  by (auto simp: pm_nodes_def)

lemma pm_queue_nodes: "map_of (pm_queues m) k = Some q \<Longrightarrow> set (pq_values q) \<subseteq> set (pm_nodes m)"
  using map_of_SomeD [of "pm_queues m" k q] by (auto simp: pm_nodes_def)

lemma pm_set_internal_refs: "pm_refs (pm_set_internal h m k v) \<subseteq> insert v (pm_refs m)"
proof -
  let ?n = "\<lparr>pqn_id = pm_next m, pqn_key = k, pqn_elem = v\<rparr>"
  define q where "q = (case map_of (pm_queues m) k of None \<Rightarrow> new_priority_queue | Some q \<Rightarrow> q)"
  define m' where "m' = pm_set_internal h m k v"
  have q: "set (pq_values q) \<subseteq> set (pm_nodes m)"
    using pm_queue_nodes [of m k] by (auto simp: q_def pq_values_def new_priority_queue_def split: option.splits)
  have m': "pm_queues m' = AList.update k (pq_push (pq_node_less h) q ?n) (pm_queues m)"
    "pm_by_created m' = AList.update (ticket_key (created_at (cells h v))) ?n (pm_by_created m)"
    by (simp_all add: m'_def pm_set_internal_def q_def Let_def)
  have "set (pm_nodes m') \<subseteq> insert ?n (set (pm_nodes m))"
    using q set_update_subset [of k "pq_push (pq_node_less h) q ?n" "pm_queues m"]
    unfolding m' by (fastforce simp: pm_nodes_in m')
  moreover have "snd ` set (pm_by_created m') \<subseteq> insert ?n (snd ` set (pm_by_created m))"
    using set_update_subset [of "ticket_key (created_at (cells h v))" ?n "pm_by_created m"] unfolding m' by force
  ultimately have "set (pm_nodes m') \<union> snd ` set (pm_by_created m') \<subseteq>
      insert ?n (set (pm_nodes m) \<union> snd ` set (pm_by_created m))" by blast
  from image_mono [OF this, of pqn_elem] show ?thesis unfolding pm_refs_def m'_def [symmetric] by simp
qed

lemma pm_peek_refs:
  assumes "map_of (pm_queues m) k = Some q" "pq_peek q = Some n"
  shows "pqn_elem n \<in> pm_refs m"
proof -
  have "n \<in> set (pq_values q)" using assms(2) by (auto simp: pq_peek_def queue_peek_def pq_values_def split: if_splits)
  then show ?thesis using pm_queue_nodes [OF assms(1)] by (auto simp: pm_refs_def)
qed

lemma pm_set_touches:
  assumes "pm_set h m k v = Some (h', m', e)"
  shows "touches r V h h'" "pm_refs m' \<subseteq> insert v (pm_refs m)" "e = Some x \<Longrightarrow> x \<in> pm_refs m"
proof -
  have "m' = pm_set_internal h' m k v" using assms by (auto simp: pm_set_def bind_eq_Some_conv)
  then show "pm_refs m' \<subseteq> insert v (pm_refs m)" by (simp only: pm_set_internal_refs)
  show "touches r V h h'" "e = Some x \<Longrightarrow> x \<in> pm_refs m" using assms
    by (auto simp: pm_set_def bind_eq_Some_conv touches_remove dest: pm_peek_refs split: option.splits if_splits)
qed

lemma pm_delete_by_created_at_touches:
  assumes "pm_delete_by_created_at h m c d = Some (h', e)"
  shows "touches r V h h'" "e = Some x \<Longrightarrow> x \<in> pm_refs m"
  using assms
  by (auto simp: pm_delete_by_created_at_def pm_refs_def bind_eq_Some_conv touches_remove rev_image_eqI
      dest!: map_of_SomeD split: option.splits if_splits)

lemma pm_purge_refs:
  assumes "pm_purge h m e = Some m'"
  shows "pm_refs m' \<subseteq> pm_refs m"
proof -
  obtain n q q' where n: "map_of (pm_queues m) (pqn_key n) = Some q" "pq_release (pq_node_less h) q n = Some q'"
    "m' = m\<lparr>pm_queues := AList.update (pqn_key n) q' (pm_queues m),
            pm_by_created := AList.delete (ticket_key (pqn_created h n)) (pm_by_created m)\<rparr>"
    using assms by (auto simp: pm_purge_def bind_eq_Some_conv)
  have "set (pq_values q') \<subseteq> set (pm_nodes m)"
    using pq_release_subset [OF n(2)] pm_queue_nodes [OF n(1)] by blast
  then have "set (pm_nodes m') \<subseteq> set (pm_nodes m)"
    using set_update_subset [of "pqn_key n" q' "pm_queues m"] by (fastforce simp: pm_nodes_in n(3))
  moreover have "set (pm_by_created m') \<subseteq> set (pm_by_created m)" by (simp add: n(3) alist_delete_subset)
  ultimately have "set (pm_nodes m') \<union> snd ` set (pm_by_created m') \<subseteq> set (pm_nodes m) \<union> snd ` set (pm_by_created m)"
    by blast
  then show ?thesis unfolding pm_refs_def by (rule image_mono)
qed

lemma touches_mono: "touches r V h h' \<Longrightarrow> V \<subseteq> W \<Longrightarrow> touches r W h h'"
  by (force simp: touches_def split: if_splits)

lemma touches_then_set_body:
  assumes "touches r V h h1" "kind_of b = elem_kind_at h r" "r < next_ref h" "body_refs b \<subseteq> refs_at h1 r \<union> V"
  shows "touches r V h (set_body r b h1)"
proof -
  have "kind_of b = elem_kind_at h1 r" using assms(2,3) hextD(3) [OF touchesD(2) [OF assms(1)]] by simp
  then show ?thesis using touches_trans [OF assms(1) touches_set_body] assms(4) by blast
qed

section \<open>Operations of objects and arrays\<close>

lemma as_object_body: "as_object h r = Some m \<longleftrightarrow> body (cells h r) = Object_Body m"
  by (auto simp: as_object_def split: body.splits)

lemma as_array_body: "as_array h r = Some l \<longleftrightarrow> body (cells h r) = Array_Body l"
  by (auto simp: as_array_def split: body.splits)

lemma object_set_touches:
  assumes "object_set r k v h = Some (h', e)" "r < next_ref h"
  shows "touches r {v} h h'" "e = Some x \<Longrightarrow> x \<in> refs_at h r"
proof -
  obtain m h1 m' where m: "body (cells h r) = Object_Body m" "pm_set h m k v = Some (h1, m', e)"
    "h' = set_body r (Object_Body m') h1"
    using assms by (auto simp: object_set_def bind_eq_Some_conv as_object_body)
  note t = pm_set_touches [OF m(2)]
  have "refs_at h r = pm_refs m" using m(1) by simp
  moreover have "elem_kind_at h1 r = Object_Kind" using hextD(3) [OF touchesD(2) [OF t(1) [of r "{v}"]]] assms(2) m(1) by simp
  moreover have "body (cells h1 r) = Object_Body m"
    using m(1,2) heap_remove_frame(3)
    by (auto simp: pm_set_def bind_eq_Some_conv split: option.splits if_splits)
  ultimately show "touches r {v} h h'" "e = Some x \<Longrightarrow> x \<in> refs_at h r"
    using touches_then_set_body [OF t(1), of "Object_Body m'" r "{v}"] t(2) t(3) [of x] assms(2) m(1,3) by auto
qed

lemma rga_insert_range: "rga_insert_at h l prev r t = Some l' \<Longrightarrow> range (rl_elem l') \<subseteq> insert r (range (rl_elem l))"
  by (auto simp: rga_insert_at_def rga_insert_after_node_def Let_def bind_eq_Some_conv split: if_splits)

lemma rga_release_elem [simp]: "rga_release h l n = Some l' \<Longrightarrow> rl_elem l' = rl_elem l"
  by (auto simp: rga_release_def bind_eq_Some_conv)

lemma array_insert_after_touches:
  assumes "array_insert_after r prev v h = Some h'"
  shows "touches r {v} h h'"
proof -
  obtain l l' where l: "body (cells h r) = Array_Body l" "rga_insert_after h l prev v = Some l'"
    "h' = set_body r (Array_Body l') h"
    using assms by (auto simp: array_insert_after_def bind_eq_Some_conv as_array_body)
  have "range (rl_elem l') \<subseteq> insert v (range (rl_elem l))"
    using rga_insert_range l(2) unfolding rga_insert_after_def by blast
  then show ?thesis unfolding l(3) using l(1) by (intro touches_set_body) auto
qed

lemma array_move_after_touches:
  assumes "array_move_after r prev c t h = Some h'" "r < next_ref h"
  shows "touches r {} h h'"
proof -
  obtain l h1 l' where l: "body (cells h r) = Array_Body l" "rga_move_after h l prev c t = Some (h1, l')"
    "h' = set_body r (Array_Body l') h1"
    using assms by (auto simp: array_move_after_def bind_eq_Some_conv as_array_body)
  have "range (rl_elem l') \<subseteq> range (rl_elem l) \<and> touches r {} h h1 \<and> body (cells h1 r) = Array_Body l"
    using l(1,2)
    by (auto simp: rga_move_after_def bind_eq_Some_conv set_moved_at_def touches_def hext_def
        dest!: rga_insert_range split: if_splits)
  then show ?thesis unfolding l(3) using l(1) assms(2) by (intro touches_then_set_body) auto
qed

lemma array_delete_by_created_at_touches:
  assumes "array_delete_by_created_at r c d h = Some (h', e)" "r < next_ref h"
  shows "touches r {} h h'" "e \<in> refs_at h r"
proof -
  obtain l h1 l' n where l: "body (cells h r) = Array_Body l" "rga_delete_by_created_at h l c d = Some (h1, l', n)"
    "h' = set_body r (Array_Body l') h1" "e = rl_elem l' n"
    using assms by (auto simp: array_delete_by_created_at_def bind_eq_Some_conv as_array_body)
  have e: "rl_elem l' = rl_elem l \<and> touches r {} h h1 \<and> body (cells h1 r) = Array_Body l"
    using l(1,2) by (auto simp: rga_delete_by_created_at_def bind_eq_Some_conv touches_remove heap_remove_frame)
  then show "touches r {} h h'" unfolding l(3) using l(1) assms(2) by (intro touches_then_set_body) auto
  show "e \<in> refs_at h r" using l(1,4) e by simp
qed

lemma container_delete_touches:
  assumes "container_delete_by_created_at r c d h = Some (h', e)" "r < next_ref h"
  shows "touches r {} h h'" "e = Some x \<Longrightarrow> x \<in> refs_at h r"
  using assms array_delete_by_created_at_touches pm_delete_by_created_at_touches
  by (fastforce simp: container_delete_by_created_at_def object_delete_by_created_at_def as_object_body
      bind_eq_Some_conv split: body.splits)+

lemma container_purge_touches:
  assumes "container_purge r e h = Some h'"
  shows "touches r {} h h'"
  using assms pm_purge_refs
  by (fastforce simp: container_purge_def object_purge_def array_purge_def rga_purge_def as_object_body
      as_array_body bind_eq_Some_conv split: body.splits intro!: touches_set_body)

lemma text_element_cleanup_touches: "text_element_cleanup r t h = Some (h', n) \<Longrightarrow> touches r {} h h'"
  by (auto simp: text_element_cleanup_def bind_eq_Some_conv split: body.splits intro!: touches_set_body)

section \<open>Copies\<close>

lemma insert_interval:
  fixes a :: nat
  assumes "A \<subseteq> insert v B" "B \<subseteq> {a..<b}" "a \<le> v" "v < c" "b \<le> c"
  shows "A \<subseteq> {a..<c}"
proof -
  have "{a..<b} \<subseteq> {a..<c}" "v \<in> {a..<c}" using assms by auto
  then show ?thesis using assms(1,2) by blast
qed

lemma copy_members_grows:
  assumes "\<And>e h h' v. copy e h = Some (h', v) \<Longrightarrow> grows h h' \<and> next_ref h \<le> v \<and> v < next_ref h'"
    "copy_members copy ns m h = Some (h', m')" "grows h0 h" "pm_refs m \<subseteq> {next_ref h0..<next_ref h}"
  shows "grows h0 h' \<and> pm_refs m' \<subseteq> {next_ref h0..<next_ref h'}"
  using assms(2-)
proof (induction ns arbitrary: m h)
  case (Cons n ns)
  obtain h1 v where v: "copy (pqn_elem n) h = Some (h1, v)"
    "copy_members copy ns (pm_set_internal h1 m (pqn_key n) v) h1 = Some (h', m')"
    using Cons.prems(1) by (auto simp: bind_eq_Some_conv)
  have g: "grows h h1" "next_ref h \<le> v" "v < next_ref h1" using assms(1) [OF v(1)] by auto
  have "pm_refs (pm_set_internal h1 m (pqn_key n) v) \<subseteq> {next_ref h0..<next_ref h1}"
    by (rule insert_interval [OF pm_set_internal_refs Cons.prems(3)])
      (use g growsD(1) [OF Cons.prems(2)] growsD(1) [OF g(1)] in auto)
  then show ?case using Cons.IH [OF v(2) grows_trans [OF Cons.prems(2) g(1)]] by blast
qed simp

lemma copy_elements_grows:
  assumes "\<And>e h h' v. copy e h = Some (h', v) \<Longrightarrow> grows h h' \<and> next_ref h \<le> v \<and> v < next_ref h'"
    "copy_elements copy es l h = Some (h', l')" "grows h0 h" "range (rl_elem l) \<subseteq> {next_ref h0..<next_ref h}"
  shows "grows h0 h' \<and> range (rl_elem l') \<subseteq> {next_ref h0..<next_ref h'}"
  using assms(2-)
proof (induction es arbitrary: l h)
  case (Cons e es)
  obtain h1 v l1 where v: "copy e h = Some (h1, v)" "rga_add h1 l v = Some l1" "copy_elements copy es l1 h1 = Some (h', l')"
    using Cons.prems(1) by (auto simp: bind_eq_Some_conv)
  have g: "grows h h1" "next_ref h \<le> v" "v < next_ref h1" using assms(1) [OF v(1)] by auto
  have "range (rl_elem l1) \<subseteq> insert v (range (rl_elem l))" using rga_insert_range v(2) unfolding rga_add_def by blast
  then have "range (rl_elem l1) \<subseteq> {next_ref h0..<next_ref h1}"
    by (rule insert_interval [OF _ Cons.prems(3)])
      (use g growsD(1) [OF Cons.prems(2)] growsD(1) [OF g(1)] in auto)
  then show ?case using Cons.IH [OF v(3) grows_trans [OF Cons.prems(2) g(1)]] by blast
qed simp

lemma new_list_grows:
  "grows h (fst (new_rga_tree_list dummy_body h))"
  "range (rl_elem (snd (new_rga_tree_list dummy_body h))) \<subseteq> {next_ref h..<next_ref (fst (new_rga_tree_list dummy_body h))}"
  using grows_alloc_after [OF grows_refl, of "(new_cell initial_ticket dummy_body)\<lparr>removed_at := Some initial_ticket\<rparr>" h]
  by (auto simp: new_rga_tree_list_def Let_def alloc_def dummy_body_def new_cell_def)

text \<open>\<open>DeepCopy\<close> makes new elements only, and one of the same type and creation time.\<close>

lemma deep_copy_grows:
  "deep_copy n r h = Some (h', v) \<Longrightarrow> grows h h' \<and> next_ref h \<le> v \<and> v < next_ref h' \<and>
     created_at (cells h' v) = created_at (cells h r) \<and> elem_kind_at h' v = elem_kind_at h r"
proof (induction n arbitrary: r h h' v)
  case (Suc n)
  have copy: "\<And>e h h' v. deep_copy n e h = Some (h', v) \<Longrightarrow> grows h h' \<and> next_ref h \<le> v \<and> v < next_ref h'"
    using Suc.IH by blast
  have new: "grows h (snd (alloc c h1)) \<and> next_ref h \<le> fst (alloc c h1) \<and> fst (alloc c h1) < next_ref (snd (alloc c h1)) \<and>
      cells (snd (alloc c h1)) (fst (alloc c h1)) = c"
    if "grows h h1" "body_refs (body c) \<subseteq> {next_ref h..<next_ref h1}" for c h1
    using grows_alloc_after [OF that] growsD(1) [OF that(1)] by simp
  show ?case
  proof (cases "body (cells h r)")
    case (Object_Body m)
    obtain h1 m' where m: "copy_members (deep_copy n) (pm_nodes m) new_pq_map h = Some (h1, m')"
      "(h', v) = alloc_copy ((new_cell (created_at (cells h r)) (Object_Body m'))\<lparr>removed_at := removed_at (cells h r)\<rparr>) h1"
      using Suc.prems Object_Body by (auto simp: Let_def bind_eq_Some_conv)
    have "grows h h1 \<and> pm_refs m' \<subseteq> {next_ref h..<next_ref h1}"
      by (rule copy_members_grows [OF copy m(1)]) (simp_all add: pm_refs_def pm_nodes_def new_pq_map_def)
    then show ?thesis using m(2) new [of h1] growsD(1) [of h h1] Object_Body
      by (auto simp: alloc_copy_def new_cell_def)
  next
    case (Array_Body l)
    let ?d = "new_rga_tree_list dummy_body h"
    obtain h1 l' where l: "copy_elements (deep_copy n) (map (rl_elem l) (rga_nodes l)) (snd ?d) (fst ?d) = Some (h1, l')"
      "(h', v) = alloc_copy ((new_cell (created_at (cells h r)) (Array_Body l'))\<lparr>removed_at := removed_at (cells h r)\<rparr>) h1"
      using Suc.prems Array_Body by (auto simp: Let_def bind_eq_Some_conv split: prod.splits)
    have d: "grows h (fst ?d)" "range (rl_elem (snd ?d)) \<subseteq> {next_ref h..<next_ref (fst ?d)}"
      using new_list_grows by blast+
    have "grows h h1 \<and> range (rl_elem l') \<subseteq> {next_ref h..<next_ref h1}"
      by (rule copy_elements_grows [OF copy l(1) d])
    then show ?thesis using l(2) new [of h1] growsD(1) [of h h1] Array_Body
      by (auto simp: alloc_copy_def new_cell_def)
  qed (use Suc.prems new [OF grows_refl] in \<open>auto simp: Let_def bind_eq_Some_conv alloc_copy_def new_cell_def\<close>)
qed simp

section \<open>The depth of the recursions\<close>

text \<open>In a heap without cycles there is a rank that the number of elements bounds: how many elements
  are below an element.\<close>

lemma heap_ranked_bounded:
  assumes "heap_ok h"
  obtains rank where "heap_ranked rank h" "\<And>r. rank r < depth_of h"
proof -
  let ?N = "next_ref h"
  define R where "R = {(r, c). r < ?N \<and> c \<in> refs_at h r}"
  define rank where "rank r = card (R\<^sup>+ `` {r})" for r
  obtain k where k: "heap_ranked k h" using assms by (auto simp: heap_ok_def)
  have sub: "R\<^sup>+ `` {r} \<subseteq> {..<?N}" for r
  proof -
    have "c < ?N" if "(r, c) \<in> R\<^sup>+" for c
      using that by (induction rule: trancl_induct) (use k in \<open>auto simp: R_def heap_ranked_def\<close>)
    then show ?thesis by auto
  qed
  have down: "k c < k r" if "(r, c) \<in> R\<^sup>+" for r c
    using that by (induction rule: trancl_induct) (use k in \<open>auto simp: R_def heap_ranked_def intro: less_trans\<close>)
  have "rank c < rank r" if "r < ?N" "c \<in> refs_at h r" for r c
  proof -
    have rc: "(r, c) \<in> R" using that by (simp add: R_def)
    then have "R\<^sup>+ `` {c} \<subseteq> R\<^sup>+ `` {r}" by (auto intro: trancl_into_trancl2)
    moreover have "c \<in> R\<^sup>+ `` {r}" "c \<notin> R\<^sup>+ `` {c}" using rc down [of c c] by auto
    ultimately show ?thesis unfolding rank_def
      using finite_subset [OF sub] by (intro psubset_card_mono) auto
  qed
  then have "heap_ranked rank h" using k by (auto simp: heap_ranked_def)
  moreover have "rank r < depth_of h" for r
    unfolding rank_def depth_of_def using card_mono [OF _ sub [of r]] by simp
  ultimately show ?thesis by (rule that)
qed

lemma heap_rankedD:
  "heap_ranked rank h \<Longrightarrow> r < next_ref h \<Longrightarrow> c \<in> refs_at h r \<Longrightarrow> c < next_ref h \<and> rank c < rank r"
  by (auto simp: heap_ranked_def)

text \<open>\<open>Descendants\<close> reaches everything below an element, and only that.\<close>

definition below :: "json_heap \<Rightarrow> (ref \<times> ref) set" where
  "below h = {(r, c). c \<in> set (children h r)}\<^sup>+"

lemma concat_options_set:
  "concat_options (map f xs) = Some ys \<Longrightarrow> set ys = (\<Union>x\<in>set xs. set (the (f x))) \<and> (\<forall>x\<in>set xs. f x \<noteq> None)"
  by (induction xs arbitrary: ys) (auto simp: bind_eq_Some_conv)

lemma below_children: "below h `` {r} = (\<Union>c\<in>set (children h r). insert c (below h `` {c}))"
proof -
  have "(r, x) \<in> S\<^sup>+ \<longleftrightarrow> (\<exists>c. (r, c) \<in> S \<and> (x = c \<or> (c, x) \<in> S\<^sup>+))" for x and S :: "(ref \<times> ref) set"
    by (metis converse_tranclE r_into_trancl' trancl_into_trancl2)
  then show ?thesis unfolding below_def by (auto simp del: Image_singleton_iff simp: Image_def)
qed

lemma not_container_below: "\<not> is_container h r \<Longrightarrow> below h `` {r} = {}"
  by (subst below_children) (auto simp: is_container_def children_def split: body.splits)

lemma descendants_below:
  assumes "heap_ranked rank h"
  shows "rank r < n \<Longrightarrow> r < next_ref h \<Longrightarrow> \<exists>ds. descendants n h r = Some ds \<and> fst ` set ds = below h `` {r}"
proof (induction n arbitrary: r)
  case (Suc n)
  define f where "f e = do { ds \<leftarrow> (if is_container h e then descendants n h e else Some []); Some ((e, r) # ds) }" for e
  have eq: "descendants (Suc n) h r = concat_options (map f (children h r))" by (simp add: f_def [abs_def])
  have f: "\<exists>ds. f c = Some ds \<and> fst ` set ds = insert c (below h `` {c})" if c: "c \<in> set (children h r)" for c
  proof -
    have "c < next_ref h" "rank c < n"
      using heap_rankedD [OF assms Suc.prems(2), of c] children_refs [of h r] c Suc.prems(1) by auto
    then obtain ds where "descendants n h c = Some ds" "fst ` set ds = below h `` {c}" using Suc.IH by blast
    then show ?thesis using not_container_below [of h c] by (cases "is_container h c") (simp_all add: f_def)
  qed
  have "None \<notin> f ` set (children h r)" using f by fastforce
  then obtain ds where ds: "descendants (Suc n) h r = Some ds"
    unfolding eq by (cases "concat_options (map f (children h r))") (auto simp: concat_options_none)
  moreover have "fst ` set ds = (\<Union>c\<in>set (children h r). fst ` set (the (f c)))"
    using concat_options_set [of f "children h r" ds] ds eq by (simp add: image_UN)
  moreover have "\<dots> = (\<Union>c\<in>set (children h r). insert c (below h `` {c}))"
    using f by (intro SUP_cong refl) force
  ultimately show ?case using below_children by metis
qed simp

lemma descendants_depth:
  assumes "heap_ranked rank h"
  shows "rank r < n \<Longrightarrow> rank r < m \<Longrightarrow> r < next_ref h \<Longrightarrow> descendants n h r = descendants m h r"
proof (induction n arbitrary: r m)
  case (Suc n)
  obtain k where m: "m = Suc k" using Suc.prems(2) by (cases m) auto
  have "descendants n h c = descendants k h c" if "c \<in> set (children h r)" for c
    using heap_rankedD [OF assms Suc.prems(3), of c] children_refs [of h r] that Suc.IH [of c k] Suc.prems m by auto
  then have "map (\<lambda>e. do { ds \<leftarrow> (if is_container h e then descendants n h e else Some []); Some ((e, r) # ds) }) (children h r) =
      map (\<lambda>e. do { ds \<leftarrow> (if is_container h e then descendants k h e else Some []); Some ((e, r) # ds) }) (children h r)"
    by (intro map_cong refl) simp
  then show ?case unfolding m descendants.simps by (rule arg_cong)
qed simp

text \<open>The results do not depend on a depth above the rank of the element.\<close>

lemma show_members_cong:
  "(\<And>k r. (k, r) \<in> set es \<Longrightarrow> f r = g r) \<Longrightarrow> show_members f es = show_members g es"
proof (induction es)
  case (Cons e es)
  obtain k r where "e = (k, r)" by (cases e)
  moreover have "f r = g r" "show_members f es = show_members g es" using Cons calculation by auto
  ultimately show ?case by simp
qed simp

lemma rga_marshal_nodes_cong:
  "(\<And>n. n \<in> set ns \<Longrightarrow> f (rl_elem l n) = g (rl_elem l n)) \<Longrightarrow> rga_marshal_nodes f h l ns = rga_marshal_nodes g h l ns"
  by (induction ns) (simp_all cong: Option.bind_cong)

lemma pm_elements_refs: "r \<in> snd ` set (pm_elements h m) \<Longrightarrow> r \<in> pm_refs m"
proof -
  have "snd ` set (fold (\<lambda>n e. AList.update (pqn_key n) (pqn_elem n) e) ns es) \<subseteq> pqn_elem ` set ns \<union> snd ` set es" for ns es
  proof (induction ns arbitrary: es)
    case (Cons n ns)
    have "snd ` set (AList.update (pqn_key n) (pqn_elem n) es) \<subseteq> insert (pqn_elem n) (snd ` set es)"
      using image_mono [OF set_update_subset [of "pqn_key n" "pqn_elem n" es], of snd] by simp
    then have "pqn_elem ` set ns \<union> snd ` set (AList.update (pqn_key n) (pqn_elem n) es) \<subseteq>
        pqn_elem ` set (n # ns) \<union> snd ` set es" by auto
    then show ?case unfolding fold.simps comp_def by (rule subset_trans [OF Cons.IH])
  qed simp
  from this [of "pm_tops h m" "[]"] have "snd ` set (pm_elements h m) \<subseteq> pqn_elem ` set (pm_tops h m)"
    by (simp add: pm_elements_def)
  moreover have "set (pm_tops h m) \<subseteq> set (pm_nodes m)"
    by (auto simp: pm_tops_def List.map_filter_def pm_nodes_in pq_peek_def queue_peek_def pq_values_def split: if_splits)
       (metis image_eqI length_greater_0_conv nth_mem)
  ultimately show "r \<in> snd ` set (pm_elements h m) \<Longrightarrow> r \<in> pm_refs m" unfolding pm_refs_def by blast
qed

lemma elem_marshal_depth:
  assumes "heap_ranked rank h"
  shows "rank r < n \<Longrightarrow> rank r < m \<Longrightarrow> r < next_ref h \<Longrightarrow> elem_marshal n env h r = elem_marshal m env h r"
proof (induction n arbitrary: r m)
  case (Suc n)
  obtain k where m: "m = Suc k" using Suc.prems(2) by (cases m) auto
  have IH: "elem_marshal n env h c = elem_marshal k env h c" if "c \<in> refs_at h r" for c
    using heap_rankedD [OF assms Suc.prems(3) that] Suc.IH [of c k] Suc.prems m by simp
  show ?case
  proof (cases "body (cells h r)")
    case (Object_Body p)
    have "elem_marshal n env h (the (map_of (pm_elements h p) x)) = elem_marshal k env h (the (map_of (pm_elements h p) x))"
      if "x \<in> fst ` set (pm_elements h p)" for x
    proof -
      obtain c where "map_of (pm_elements h p) x = Some c" using \<open>x \<in> _\<close> by (metis map_of_eq_None_iff not_None_eq)
      then show ?thesis using IH [of c] Object_Body pm_elements_refs [of c h p] by (force dest: map_of_SomeD)
    qed
    then have "pm_marshal (elem_marshal n env h) h p = pm_marshal (elem_marshal k env h) h p"
      unfolding pm_marshal_def Let_def
      by (intro arg_cong2 [where f = Option.bind] show_members_cong refl) auto
    then show ?thesis by (simp add: m Object_Body)
  next
    case (Array_Body l)
    then have "rga_marshal (elem_marshal n env h) h l = rga_marshal (elem_marshal k env h) h l"
      unfolding rga_marshal_def using IH
      by (intro arg_cong2 [where f = Option.bind] rga_marshal_nodes_cong refl) auto
    then show ?thesis by (simp add: m Array_Body)
  qed (simp_all add: m)
qed simp

lemma copy_members_cong:
  assumes "\<And>n h. n \<in> set ns \<Longrightarrow> grows h0 h \<Longrightarrow> f (pqn_elem n) h = g (pqn_elem n) h"
    "\<And>e h h' v. f e h = Some (h', v) \<Longrightarrow> grows h h'" "grows h0 h"
  shows "copy_members f ns m h = copy_members g ns m h"
  using assms(1,3)
proof (induction ns arbitrary: m h)
  case (Cons n ns)
  have "f (pqn_elem n) h = g (pqn_elem n) h" using Cons.prems by simp
  moreover have "copy_members f ns m' h' = copy_members g ns m' h'" if "g (pqn_elem n) h = Some (h', v)" for h' v m'
    using Cons.IH [OF Cons.prems(1)] grows_trans [OF Cons.prems(2) assms(2)] that calculation by simp
  ultimately show ?case by (cases "g (pqn_elem n) h") auto
qed simp

lemma copy_elements_cong:
  assumes "\<And>e h. e \<in> set es \<Longrightarrow> grows h0 h \<Longrightarrow> f e h = g e h"
    "\<And>e h h' v. f e h = Some (h', v) \<Longrightarrow> grows h h'" "grows h0 h"
  shows "copy_elements f es l h = copy_elements g es l h"
  using assms(1,3)
proof (induction es arbitrary: l h)
  case (Cons e es)
  have "f e h = g e h" using Cons.prems by simp
  moreover have "copy_elements f es l' h' = copy_elements g es l' h'" if "g e h = Some (h', v)" for h' v l'
    using Cons.IH [OF Cons.prems(1)] grows_trans [OF Cons.prems(2) assms(2)] that calculation by simp
  ultimately show ?case by (cases "g e h") auto
qed simp

lemma deep_copy_depth:
  assumes "heap_ranked rank h"
  shows "rank r < n \<Longrightarrow> rank r < m \<Longrightarrow> r < next_ref h \<Longrightarrow> grows h h1 \<Longrightarrow> deep_copy n r h1 = deep_copy m r h1"
proof (induction n arbitrary: r m h1)
  case (Suc n)
  obtain k where m: "m = Suc k" using Suc.prems(2) by (cases m) auto
  have c: "cells h1 r = cells h r" using growsD(2) [OF Suc.prems(4,3)] .
  have IH: "deep_copy n e h2 = deep_copy k e h2" if "e \<in> refs_at h r" "grows h h2" for e h2
    using heap_rankedD [OF assms Suc.prems(3) that(1)] Suc.IH [of e k h2] Suc.prems m that(2) by simp
  have gr: "deep_copy n e h2 = Some (h3, v) \<Longrightarrow> grows h2 h3" for e h2 h3 v using deep_copy_grows by blast
  show ?case
  proof (cases "body (cells h r)")
    case (Object_Body p)
    have "copy_members (deep_copy n) (pm_nodes p) new_pq_map h1 = copy_members (deep_copy k) (pm_nodes p) new_pq_map h1"
    proof (rule copy_members_cong)
      show "deep_copy n (pqn_elem x) h2 = deep_copy k (pqn_elem x) h2" if "x \<in> set (pm_nodes p)" "grows h h2" for x h2
        using that IH Object_Body by (auto simp: pm_refs_def)
    qed (use gr Suc.prems(4) in auto)
    then show ?thesis by (simp add: m c Object_Body)
  next
    case (Array_Body l)
    have "copy_elements (deep_copy n) (map (rl_elem l) (rga_nodes l)) xs (fst (new_rga_tree_list dummy_body h1)) =
        copy_elements (deep_copy k) (map (rl_elem l) (rga_nodes l)) xs (fst (new_rga_tree_list dummy_body h1))" for xs
    proof (rule copy_elements_cong)
      show "deep_copy n x h2 = deep_copy k x h2" if "x \<in> set (map (rl_elem l) (rga_nodes l))" "grows h h2" for x h2
        using that IH Array_Body by auto
    qed (use gr grows_trans [OF Suc.prems(4) new_list_grows(1)] in auto)
    then show ?thesis by (simp add: m c Array_Body case_prod_beta)
  qed (simp_all add: m c)
qed simp

section \<open>Properties\<close>

text \<open>C20: The recursions along the elements end: in a heap without cycles the depth the model allows is
  enough for \<open>Descendants\<close>, which visits exactly the elements below its container, and a greater
  depth changes neither it nor \<open>Marshal\<close> nor \<open>DeepCopy\<close>.\<close>
theorem recursion_depth_suffices:
  assumes "heap_ok h" "r < next_ref h" "depth_of h \<le> n"
  shows "(\<exists>ds. descendants n h r = Some ds \<and> fst ` set ds = below h `` {r} \<and> descendants (depth_of h) h r = Some ds) \<and>
    elem_marshal n env h r = elem_marshal (depth_of h) env h r \<and> deep_copy n r h = deep_copy (depth_of h) r h"
proof -
  obtain rank where rank: "heap_ranked rank h" "\<And>r. rank r < depth_of h"
    using heap_ranked_bounded [OF assms(1)] by blast
  have n: "rank x < n" for x using rank(2) assms(3) by (rule less_le_trans)
  have "descendants n h x = descendants (depth_of h) h x" if "x < next_ref h" for x
    using descendants_depth [OF rank(1)] rank(2) n that by blast
  then show ?thesis
    using descendants_below [OF rank(1) n assms(2)] elem_marshal_depth [OF rank(1) n rank(2) assms(2)]
      deep_copy_depth [OF rank(1) n rank(2) assms(2) grows_refl] assms(2) by metis
qed

text \<open>A heap for the examples: element 1 is an object whose member is the integer 0.\<close>

definition sample_json :: json_heap where
  "sample_json = \<lparr>cells = (\<lambda>r. if r = 0
       then new_cell (sample_ticket 2) (Primitive_Body \<lparr>value_type = Integer_Type, prim_value = Go_Int 7\<rparr>)
       else new_cell (sample_ticket 1) (Object_Body \<lparr>pm_next = 1,
         pm_queues = [(''k'', [\<lparr>pq_value = \<lparr>pqn_id = 0, pqn_key = ''k'', pqn_elem = 0\<rparr>, pq_index = 0\<rparr>])],
         pm_by_created = [(ticket_key (sample_ticket 2), \<lparr>pqn_id = 0, pqn_key = ''k'', pqn_elem = 0\<rparr>)]\<rparr>)),
     next_ref = 2\<rparr>"

lemma sample_json_ok: "heap_ok sample_json"
proof -
  have "heap_ranked (\<lambda>r. r) sample_json"
    by (auto simp: heap_ranked_def sample_json_def new_cell_def pm_refs_def pm_nodes_def pq_values_def)
  then show ?thesis by (auto simp: heap_ok_def)
qed

theorem recursion_depth_suffices_witness:
  "\<exists>ds. descendants 3 sample_json 1 = Some ds \<and> fst ` set ds = below sample_json `` {1}"
  using recursion_depth_suffices [OF sample_json_ok, of 1 3] by (auto simp: sample_json_def depth_of_def)

end
