(* ===== verification/Operation_Facts.thy ===== *)
theory Operation_Facts
  imports Heap_Facts Changes
begin

text \<open>
  What operations and changes keep of a document: the invariant of the root's tables
  (\<open>src/pkg/document/json/root.go\<close>) is preserved by \<open>Execute\<close> of every operation
  (\<open>src/pkg/document/operation/*.go\<close>), and an operation fails exactly when its target is missing
  or of another type.
\<close>

section \<open>The invariant of a root\<close>

definition is_text_element :: "json_heap \<Rightarrow> ref \<Rightarrow> bool" where
  "is_text_element h e \<longleftrightarrow> elem_kind_at h e = Text_Kind \<or> elem_kind_at h e = Rich_Text_Kind"

text \<open>Registered elements are allocated and registered at their creation time, the containers of
  removed pairs are containers and the texts are texts.\<close>

definition root_ok :: "json_heap \<Rightarrow> root \<Rightarrow> bool" where
  "root_ok h r \<longleftrightarrow> root_object r < next_ref h \<and> elem_kind_at h (root_object r) = Object_Kind \<and>
     (\<forall>(k, e)\<in>set (root_elements r). e < next_ref h \<and> k = elem_key h e) \<and>
     (\<forall>(k, p, e)\<in>set (root_removed_pairs r). p < next_ref h \<and> is_container h p \<and> e < next_ref h \<and> k = elem_key h e) \<and>
     (\<forall>(k, e)\<in>set (root_removed_texts r). e < next_ref h \<and> is_text_element h e \<and> k = elem_key h e)"

lemma elem_key_hext: "hext h h' \<Longrightarrow> e < next_ref h \<Longrightarrow> elem_key h' e = elem_key h e"
  by (simp add: elem_key_def hextD)

lemma root_ok_hext:
  assumes "hext h h'" "root_ok h r"
  shows "root_ok h' r"
proof -
  have up: "e < next_ref h \<Longrightarrow> e < next_ref h'" for e using hextD(1) [OF assms(1)] by simp
  show ?thesis
    using assms(2) unfolding root_ok_def
    by (auto simp: up elem_key_hext [OF assms(1)] hextD(3,4) [OF assms(1)] is_text_element_def)
qed

lemma root_ok_element: "root_ok h r \<Longrightarrow> find_by_created_at r t = Some e \<Longrightarrow> e < next_ref h \<and> elem_key h e = ticket_key t"
  by (auto simp: root_ok_def find_by_created_at_def dest!: map_of_SomeD)

lemma register_element_ok:
  assumes "root_ok h r" "e < next_ref h"
  shows "root_ok h (register_element h e r)"
  using assms set_update_subset [of "elem_key h e" e "root_elements r"] unfolding root_ok_def register_element_def
  by (auto dest!: subsetD)

lemma register_removed_element_pair_ok:
  assumes "root_ok h r" "e < next_ref h" "p < next_ref h" "is_container h p"
  shows "root_ok h (register_removed_element_pair h p e r)"
  using assms set_update_subset [of "elem_key h e" "(p, e)" "root_removed_pairs r"]
  unfolding root_ok_def register_removed_element_pair_def by (auto dest!: subsetD)

lemma register_removed_node_text_element_ok:
  assumes "root_ok h r" "e < next_ref h" "is_text_element h e"
  shows "root_ok h (register_removed_node_text_element h e r)"
  using assms set_update_subset [of "elem_key h e" e "root_removed_texts r"]
  unfolding root_ok_def register_removed_node_text_element_def by (auto dest!: subsetD)

lemma deregister_element_ok: "root_ok h r \<Longrightarrow> root_ok h (deregister_element h e r)"
  unfolding root_ok_def deregister_element_def
  by (auto dest!: subsetD [OF alist_delete_subset])

section \<open>A step of a document\<close>

text \<open>The heap and the root after a step: nothing an element was is lost but its contents.\<close>

definition evolves :: "json_heap \<Rightarrow> root \<Rightarrow> json_heap \<Rightarrow> root \<Rightarrow> bool" where
  "evolves h r h' r' \<longleftrightarrow> heap_ok h' \<and> root_ok h' r' \<and> hext h h' \<and> root_object r' = root_object r"

lemma evolves_refl: "heap_ok h \<Longrightarrow> root_ok h r \<Longrightarrow> evolves h r h r"
  by (simp add: evolves_def)

lemma evolves_trans [trans]: "evolves h r h1 r1 \<Longrightarrow> evolves h1 r1 h2 r2 \<Longrightarrow> evolves h r h2 r2"
  using hext_trans by (auto simp: evolves_def)

lemma evolves_touches:
  assumes "heap_ok h" "root_ok h r" "touches x {} h h'"
  shows "evolves h r h' r"
  using assms(1) touches_ok [OF assms(3)] touchesD(2) [OF assms(3)] root_ok_hext [OF touchesD(2) [OF assms(3)] assms(2)]
  by (simp add: evolves_def)

text \<open>A copy that is linked into an element of the document.\<close>

lemma evolves_link:
  assumes "heap_ok h" "root_ok h r" "grows h h1" "obj < next_ref h" "next_ref h \<le> v" "v < next_ref h1"
    "touches obj {v} h1 h2"
  shows "evolves h r h2 (register_element h2 v r)"
proof -
  have ext: "hext h h2" using hext_trans [OF grows_hext [OF assms(3)] touchesD(2) [OF assms(7)]] .
  have "heap_ok h2" using heap_ok_link [OF assms(1,3-7)] .
  moreover have "v < next_ref h2" using touchesD(1) [OF assms(7)] assms(6) by simp
  ultimately show ?thesis
    using register_element_ok [OF root_ok_hext [OF ext assms(2)]] ext by (simp add: evolves_def register_element_def)
qed

section \<open>Operations\<close>

text \<open>The dynamic types an operation is for.\<close>

fun applies_to :: "operation \<Rightarrow> elem_kind \<Rightarrow> bool" where
  "applies_to (Set_Op _) k \<longleftrightarrow> k = Object_Kind"
| "applies_to (Add_Op _) k \<longleftrightarrow> k = Array_Kind"
| "applies_to (Move_Op _) k \<longleftrightarrow> k = Array_Kind"
| "applies_to (Remove_Op _) k \<longleftrightarrow> k = Object_Kind \<or> k = Array_Kind"
| "applies_to (Increase_Op _) k \<longleftrightarrow> k = Counter_Kind"
| "applies_to (Edit_Op _) k \<longleftrightarrow> k = Text_Kind"
| "applies_to (Rich_Edit_Op _) k \<longleftrightarrow> k = Rich_Text_Kind"
| "applies_to (Select_Op _) k \<longleftrightarrow> k = Text_Kind \<or> k = Rich_Text_Kind"
| "applies_to (Style_Op _) k \<longleftrightarrow> k = Rich_Text_Kind"

definition applicable :: "json_heap \<Rightarrow> root \<Rightarrow> operation \<Rightarrow> bool" where
  "applicable h r c \<longleftrightarrow> (case find_by_created_at r (op_parent_created_at c) of
     None \<Rightarrow> False | Some p \<Rightarrow> applies_to c (elem_kind_at h p))"

lemma target_find:
  "target h r t = Some (p, b) \<longleftrightarrow> find_by_created_at r t = Some p \<and> body (cells h p) = b"
  "target h r t = None \<longleftrightarrow> find_by_created_at r t = None"
  by (auto simp: target_def)

lemma set_evolves:
  assumes "heap_ok h" "root_ok h r" "execute_set c h r = Some (Inr (h', r'))"
  shows "evolves h r h' r'"
proof -
  obtain obj m h1 v e where o: "target h r (set_parent c) = Some (obj, Object_Body m)"
    "deep_copy (depth_of h) (set_value c) h = Some (h1, v)" "object_set obj (set_key c) v h1 = Some (h', e)"
    "r' = (case e of None \<Rightarrow> register_element h' v r
      | Some e \<Rightarrow> register_removed_element_pair h' obj e (register_element h' v r))"
    using assms(3) by (auto simp: execute_set_def not_applicable_def bind_eq_Some_conv Let_def split: option.splits body.splits)
  have obj: "obj < next_ref h" "elem_kind_at h obj = Object_Kind"
    using root_ok_element [OF assms(2)] o(1) by (auto simp: target_find)
  note cp = deep_copy_grows [OF o(2)]
  have obj1: "obj < next_ref h1" using obj(1) cp growsD(1) by (meson less_le_trans)
  note t = object_set_touches [OF o(3) obj1]
  have ev: "evolves h r h' (register_element h' v r)"
    by (rule evolves_link [OF assms(1,2) _ obj(1) _ _ t(1)]) (use cp in auto)
  show ?thesis
  proof (cases e)
    case (Some x)
    have "x \<in> refs_at h1 obj" using t(2) Some by simp
    then have "x < next_ref h" using growsD(2) [of h h1 obj] cp obj(1) heap_okD [OF assms(1) obj(1)] by simp
    then show ?thesis
      using ev register_removed_element_pair_ok [of h' "register_element h' v r" x obj] obj hextD(1) [of h h'] hextD(4) [of h h' obj]
      by (auto simp: evolves_def o(4) Some container_kind register_removed_element_pair_def)
  qed (use ev o(4) in simp)
qed

lemma add_evolves:
  assumes "heap_ok h" "root_ok h r" "execute_add c h r = Some (Inr (h', r'))"
  shows "evolves h r h' r'"
proof -
  obtain arr l h1 v where o: "target h r (add_parent c) = Some (arr, Array_Body l)"
    "deep_copy (depth_of h) (add_value c) h = Some (h1, v)" "array_insert_after arr (add_prev c) v h1 = Some h'"
    "r' = register_element h' v r"
    using assms(3) by (auto simp: execute_add_def not_applicable_def bind_eq_Some_conv split: option.splits body.splits)
  have "arr < next_ref h" using root_ok_element [OF assms(2)] o(1) by (auto simp: target_find)
  then show ?thesis unfolding o(4)
    using evolves_link [OF assms(1,2) _ _ _ _ array_insert_after_touches [OF o(3)]] deep_copy_grows [OF o(2)] by blast
qed

lemma remove_evolves:
  assumes "heap_ok h" "root_ok h r" "execute_remove c h r = Some (Inr (h', r'))"
  shows "evolves h r h' r'"
proof -
  obtain p e where o: "find_by_created_at r (remove_parent c) = Some p" "is_container h p"
    "container_delete_by_created_at p (remove_created c) (Some (remove_executed c)) h = Some (h', e)"
    "r' = (case e of None \<Rightarrow> r | Some e \<Rightarrow> register_removed_element_pair h' p e r)"
    using assms(3) by (auto simp: execute_remove_def not_applicable_def bind_eq_Some_conv target_find split: option.splits if_splits)
  have p: "p < next_ref h" using root_ok_element [OF assms(2) o(1)] by simp
  note t = container_delete_touches [OF o(3) p]
  have ev: "evolves h r h' r" by (rule evolves_touches [OF assms(1,2) t(1)])
  show ?thesis
  proof (cases e)
    case (Some x)
    have "x < next_ref h" using heap_okD [OF assms(1) p] t(2) Some by simp
    then show ?thesis
      using ev register_removed_element_pair_ok [of h' r x p] p o(2) hextD(1) [of h h'] hextD(4) [of h h' p]
      by (auto simp: evolves_def o(4) Some register_removed_element_pair_def)
  qed (use ev o(4) in simp)
qed

text \<open>The other operations change the body of their target, and an edit may register it.\<close>

lemma set_body_evolves:
  assumes "heap_ok h" "root_ok h r" "find_by_created_at r t = Some e" "kind_of b = elem_kind_at h e" "body_refs b = {}"
  shows "evolves h r (set_body e b h) r"
  by (rule evolves_touches [OF assms(1,2) touches_set_body]) (use assms(4,5) in auto)

lemma register_edit_ok:
  assumes "evolves h r h' r" "find_by_created_at r t = Some e" "root_ok h r" "is_text_element h e"
  shows "evolves h r h' (register_edit h' from to e r)"
proof -
  have "e < next_ref h" using root_ok_element [OF assms(3,2)] by simp
  then show ?thesis
    using assms(1,4) register_removed_node_text_element_ok [of h' r e] hextD(3) [of h h' e] hextD(1) [of h h']
    by (auto simp: evolves_def register_edit_def is_text_element_def register_removed_node_text_element_def)
qed

lemma other_evolves:
  assumes "heap_ok h" "root_ok h r"
  shows "execute_move c1 h r = Some (Inr (h', r')) \<Longrightarrow> evolves h r h' r'"
    "execute_increase fl c2 h r = Some (Inr (h', r')) \<Longrightarrow> evolves h r h' r'"
    "execute_edit c3 h r = Some (Inr (h', r')) \<Longrightarrow> evolves h r h' r'"
    "execute_rich_edit c4 h r = Some (Inr (h', r')) \<Longrightarrow> evolves h r h' r'"
    "execute_select c5 h r = Some (Inr (h', r')) \<Longrightarrow> evolves h r h' r'"
    "execute_style c6 h r = Some (Inr (h', r')) \<Longrightarrow> evolves h r h' r'"
proof -
  note unfolds = not_applicable_def bind_eq_Some_conv target_find Let_def
  show "execute_move c1 h r = Some (Inr (h', r')) \<Longrightarrow> evolves h r h' r'"
    using evolves_touches [OF assms array_move_after_touches] root_ok_element [OF assms(2)]
    by (auto simp: execute_move_def unfolds split: option.splits body.splits)
  show "execute_increase fl c2 h r = Some (Inr (h', r')) \<Longrightarrow> evolves h r h' r'"
    using set_body_evolves [OF assms]
    by (auto simp: execute_increase_def unfolds split: option.splits body.splits)
  show "execute_edit c3 h r = Some (Inr (h', r')) \<Longrightarrow> evolves h r h' r'"
    using set_body_evolves [OF assms] register_edit_ok [OF _ _ assms(2)]
    by (auto simp: execute_edit_def unfolds is_text_element_def split: option.splits body.splits)
  show "execute_rich_edit c4 h r = Some (Inr (h', r')) \<Longrightarrow> evolves h r h' r'"
    using set_body_evolves [OF assms] register_edit_ok [OF _ _ assms(2)]
    by (auto simp: execute_rich_edit_def unfolds is_text_element_def split: option.splits body.splits)
  show "execute_select c5 h r = Some (Inr (h', r')) \<Longrightarrow> evolves h r h' r'"
    using set_body_evolves [OF assms]
    by (auto simp: execute_select_def unfolds split: option.splits body.splits)
  show "execute_style c6 h r = Some (Inr (h', r')) \<Longrightarrow> evolves h r h' r'"
    using set_body_evolves [OF assms]
    by (auto simp: execute_style_def unfolds split: option.splits body.splits)
qed

lemma op_execute_evolves:
  assumes "heap_ok h" "root_ok h r" "op_execute fl c h r = Some (Inr (h', r'))"
  shows "evolves h r h' r'"
  using assms(3) set_evolves [OF assms(1,2)] add_evolves [OF assms(1,2)] remove_evolves [OF assms(1,2)]
    other_evolves [OF assms(1,2)] by (cases c) auto

section \<open>Changes\<close>

lemma execute_all_evolves:
  "execute_all fl cs h r = Some (h', r', err) \<Longrightarrow> heap_ok h \<Longrightarrow> root_ok h r \<Longrightarrow> evolves h r h' r'"
proof (induction fl cs h r rule: execute_all.induct)
  case (2 fl c cs h r)
  show ?case
  proof (cases "\<exists>h1 r1. op_execute fl c h r = Some (Inr (h1, r1))")
    case True
    then obtain h1 r1 where o: "op_execute fl c h r = Some (Inr (h1, r1))" by blast
    have ev: "evolves h r h1 r1" using op_execute_evolves [OF 2(3,4) o] .
    have "evolves h1 r1 h' r'"
      using 2(1) [OF o refl refl] 2(2) o ev by (simp add: evolves_def)
    then show ?thesis using evolves_trans [OF ev] by blast
  next
    case False
    obtain res where res: "op_execute fl c h r = Some res" using 2(2) by (auto simp: bind_eq_Some_conv)
    then obtain e where "res = Inl e" using False by (cases res) auto
    then show ?thesis using 2(2) res evolves_refl [OF 2(3,4)] by simp
  qed
qed (simp add: evolves_refl)

lemma change_execute_evolves:
  "change_execute fl c h r = Some (h', r', err) \<Longrightarrow> heap_ok h \<Longrightarrow> root_ok h r \<Longrightarrow> evolves h r h' r'"
  unfolding change_execute_def by (rule execute_all_evolves)

lemma op_execute_error: "op_execute fl c h r = Some (Inl e) \<longleftrightarrow> \<not> applicable h r c"
proof -
  note defs = applicable_def not_applicable_def target_def bind_eq_Some_conv
  have e: "e = ErrNotApplicableDataType" by (cases e)
  show ?thesis
  proof (cases c)
    case (Set_Op x)
    then show ?thesis by (auto simp: defs e execute_set_def Let_def split: option.splits body.splits)
  next
    case (Add_Op x)
    then show ?thesis by (auto simp: defs e execute_add_def split: option.splits body.splits)
  next
    case (Move_Op x)
    then show ?thesis by (auto simp: defs e execute_move_def split: option.splits body.splits)
  next
    case (Remove_Op x)
    then show ?thesis by (auto simp: defs e execute_remove_def container_kind split: option.splits if_splits)
  next
    case (Increase_Op x)
    then show ?thesis by (auto simp: defs e execute_increase_def split: option.splits body.splits)
  next
    case (Edit_Op x)
    then show ?thesis by (auto simp: defs e execute_edit_def Let_def split: option.splits body.splits)
  next
    case (Rich_Edit_Op x)
    then show ?thesis by (auto simp: defs e execute_rich_edit_def Let_def split: option.splits body.splits)
  next
    case (Select_Op x)
    then show ?thesis by (auto simp: defs e execute_select_def split: option.splits body.splits)
  next
    case (Style_Op x)
    then show ?thesis by (auto simp: defs e execute_style_def split: option.splits body.splits)
  qed
qed

lemma execute_all_append:
  "execute_all fl (as @ bs) h r = do {
     (h, r, err) \<leftarrow> execute_all fl as h r;
     case err of Some e \<Rightarrow> Some (h, r, Some e) | None \<Rightarrow> execute_all fl bs h r }"
proof (induction as arbitrary: h r)
  case (Cons c as)
  then show ?case by (cases "op_execute fl c h r") (auto split: sum.splits)
qed simp

lemma execute_all_error:
  "execute_all fl cs h r = Some (h', r', Some e) \<longleftrightarrow>
     (\<exists>as c bs. cs = as @ c # bs \<and> execute_all fl as h r = Some (h', r', None) \<and> \<not> applicable h' r' c)"
    (is "?L cs h r \<longleftrightarrow> ?R cs h r")
proof
  show "?L cs h r \<Longrightarrow> ?R cs h r"
  proof (induction cs arbitrary: h r)
    case (Cons c cs)
    then obtain res where res: "op_execute fl c h r = Some res" by (auto simp: bind_eq_Some_conv)
    show ?case
    proof (cases res)
      case (Inl e')
      then have "\<not> applicable h r c" using res op_execute_error [of fl c h r e'] by simp
      moreover have "h' = h" "r' = r" using Cons.prems res Inl by auto
      ultimately show ?thesis by (intro exI [of _ "[]"]) auto
    next
      case (Inr s)
      obtain h1 r1 where s: "s = (h1, r1)" by (cases s)
      have "?L cs h1 r1" using Cons.prems res Inr s by simp
      then obtain as c' bs where "cs = as @ c' # bs" "execute_all fl as h1 r1 = Some (h', r', None)" "\<not> applicable h' r' c'"
        using Cons.IH by blast
      then show ?thesis using res Inr s by (intro exI [of _ "c # as"]) auto
    qed
  qed simp
  assume "?R cs h r"
  then obtain as c bs where c: "cs = as @ c # bs" "execute_all fl as h r = Some (h', r', None)" "\<not> applicable h' r' c" by blast
  then have "op_execute fl c h' r' = Some (Inl e)" using op_execute_error by blast
  then show "?L cs h r" using c(2) by (simp add: c(1) execute_all_append)
qed

section \<open>Properties\<close>

text \<open>C7: Operations are type safe: executing a change, also one that stops with an error, keeps every
  reference allocated and the containment free of cycles, keeps the tables of the root right, and
  no element loses its creation time, its type or its removal.\<close>
theorem change_execute_type_safe:
  assumes "heap_ok h" "root_ok h r" "change_execute fl c h r = Some (h', r', err)"
  shows "heap_ok h' \<and> root_ok h' r' \<and> hext h h' \<and> root_object r' = root_object r"
  using change_execute_evolves [OF assms(3,1,2)] by (simp add: evolves_def)

text \<open>C22: An operation fails exactly when its target is not registered or not of a type it is for, and a
  change stops exactly at its first such operation, with the effect of those before it.\<close>
theorem operation_errors:
  "(op_execute fl op h r = Some (Inl e) \<longleftrightarrow> \<not> applicable h r op) \<and>
   (change_execute fl c h r = Some (h', r', Some e) \<longleftrightarrow>
     (\<exists>as x bs. ch_operations c = as @ x # bs \<and> execute_all fl as h r = Some (h', r', None) \<and> \<not> applicable h' r' x))"
  unfolding change_execute_def by (intro conjI op_execute_error execute_all_error)

text \<open>The sample: setting a member of the object of \<open>sample_json\<close>.\<close>

definition sample_json_root :: root where
  "sample_json_root = \<lparr>root_object = 1, root_elements = [(ticket_key (sample_ticket 1), 1), (ticket_key (sample_ticket 2), 0)],
     root_removed_pairs = [], root_removed_texts = []\<rparr>"

definition sample_remove :: change where
  "sample_remove = new_change (next_id initial_id) [] [Remove_Op \<lparr>remove_parent = sample_ticket 1,
     remove_created = sample_ticket 2, remove_executed = sample_ticket 5\<rparr>]"

lemma sample_json_root_ok: "root_ok sample_json sample_json_root"
  by (simp add: root_ok_def sample_json_root_def sample_json_def elem_key_def new_cell_def)

theorem change_execute_type_safe_witness:
  "\<exists>h r. change_execute sample_float sample_remove sample_json sample_json_root = Some (h, r, None) \<and>
     heap_ok h \<and> root_ok h r"
proof -
  have "\<exists>h r. change_execute sample_float sample_remove sample_json sample_json_root = Some (h, r, None)"
    by (simp add: change_execute_def sample_remove_def new_change_def execute_remove_def target_def
        find_by_created_at_def sample_json_root_def is_container_def sample_json_def new_cell_def
        container_delete_by_created_at_def object_delete_by_created_at_def as_object_def
        pm_delete_by_created_at_def heap_remove_elem_def elem_remove_def ticket_after_actors sample_times)
  then show ?thesis using change_execute_type_safe [OF sample_json_ok sample_json_root_ok] by blast
qed

end
