(* ===== verification/Document_Facts.thy ===== *)
theory Document_Facts
  imports Operation_Facts Snapshot_Converter
begin

text \<open>
  What the document keeps (\<open>src/pkg/document/document.go\<close>, \<open>internal_document.go\<close>): the invariant
  of its root and its clone over every pack that is applied and every collection of garbage
  (\<open>src/pkg/document/json/root.go\<close>).  The decoder of snapshots is used through its contract, which
  the converter of \<open>src/api/converter/from_bytes.go\<close> satisfies.
\<close>

section \<open>New roots\<close>

lemma descendants_allocated:
  assumes "heap_ok h"
  shows "descendants n h r = Some ds \<Longrightarrow> r < next_ref h \<Longrightarrow> \<forall>(e, p)\<in>set ds. e < next_ref h"
proof (induction n arbitrary: r ds)
  case (Suc n)
  define f where "f e = do { ds \<leftarrow> (if is_container h e then descendants n h e else Some []); Some ((e, r) # ds) }" for e
  have eq: "concat_options (map f (children h r)) = Some ds" using Suc.prems(1) by (simp add: f_def [abs_def])
  have "\<forall>(e, p)\<in>set (the (f c)). e < next_ref h" if c: "c \<in> set (children h r)" for c
  proof -
    have "c < next_ref h" using heap_okD [OF assms Suc.prems(2)] children_refs [of h r] c by blast
    moreover have "f c \<noteq> None" using concat_options_set [OF eq] c by blast
    ultimately show ?thesis using Suc.IH [of c] by (auto simp: f_def bind_eq_Some_conv split: if_splits)
  qed
  then show ?case using concat_options_set [OF eq] by blast
qed simp

lemma fold_register_ok:
  "root_ok h r \<Longrightarrow> \<forall>(e, p)\<in>set ds. e < next_ref h \<Longrightarrow>
     root_ok h (fold (\<lambda>(e, _). register_element h e) ds r) \<and>
     root_object (fold (\<lambda>(e, _). register_element h e) ds r) = root_object r"
proof (induction ds arbitrary: r)
  case (Cons d ds)
  obtain e p where d: "d = (e, p)" by (cases d)
  have "root_ok h (register_element h e r)" using register_element_ok Cons.prems d by auto
  then show ?case using Cons.IH [of "register_element h e r"] Cons.prems(2) d by (simp add: register_element_def)
qed simp

lemma new_root_ok:
  assumes "new_root h obj = Some r" "heap_ok h" "obj < next_ref h" "elem_kind_at h obj = Object_Kind"
  shows "root_ok h r" "root_object r = obj"
proof -
  let ?r = "register_element h obj \<lparr>root_object = obj, root_elements = [], root_removed_pairs = [], root_removed_texts = []\<rparr>"
  obtain ds where ds: "descendants (depth_of h) h obj = Some ds" "r = fold (\<lambda>(e, _). register_element h e) ds ?r"
    using assms(1) by (auto simp: new_root_def Let_def bind_eq_Some_conv)
  have "root_ok h ?r" using assms(3,4) by (simp add: root_ok_def register_element_def)
  moreover have "\<forall>(e, p)\<in>set ds. e < next_ref h" using descendants_allocated [OF assms(2) ds(1) assms(3)] .
  ultimately show "root_ok h r" "root_object r = obj" using fold_register_ok [of h ?r ds] by (simp_all add: ds(2) register_element_def)
qed

lemma root_deep_copy_ok:
  assumes "root_deep_copy h r = Some (h', r')" "heap_ok h" "root_ok h r"
  shows "grows h h'" "heap_ok h'" "root_ok h' r'" "next_ref h \<le> root_object r'"
proof -
  obtain obj where obj: "deep_copy (depth_of h) (root_object r) h = Some (h', obj)" "new_root h' obj = Some r'"
    using assms(1) by (auto simp: root_deep_copy_def bind_eq_Some_conv)
  note c = deep_copy_grows [OF obj(1)]
  show g: "grows h h'" using c by simp
  show ok: "heap_ok h'" by (rule heap_ok_grows [OF assms(2) g])
  have "elem_kind_at h' obj = Object_Kind" using c assms(3) by (simp add: root_ok_def)
  then show "root_ok h' r'" "next_ref h \<le> root_object r'" using new_root_ok [OF obj(2) ok] c by auto
qed

section \<open>Collection of garbage\<close>

lemma fold_deregister_ok:
  "root_ok h r \<Longrightarrow> root_ok h (fold (deregister_element h) es r) \<and>
     root_object (fold (deregister_element h) es r) = root_object r"
  by (induction es arbitrary: r) (simp_all add: deregister_element_ok, simp add: deregister_element_def)

lemma collect_element_fold:
  assumes "collect_element h e r = Some (r', n)"
  obtains ds where "(if is_container h e then descendants (depth_of h) h e else Some []) = Some ds"
    "r' = fold (deregister_element h) (e # map fst ds) r"
  using assms by (auto simp: collect_element_def Let_def bind_eq_Some_conv)

lemma collect_element_ok:
  "collect_element h e r = Some (r', n) \<Longrightarrow> root_ok h r \<Longrightarrow> root_ok h r' \<and> root_object r' = root_object r"
  by (elim collect_element_fold) (simp only: fold_deregister_ok)

lemma collect_pairs_evolves:
  "collect_pairs t ks h r cnt = Some (h', r', n) \<Longrightarrow> heap_ok h \<Longrightarrow> root_ok h r \<Longrightarrow> evolves h r h' r'"
proof (induction t ks h r cnt rule: collect_pairs.induct)
  case (2 t k ks h r cnt)
  show ?case
  proof (cases "map_of (root_removed_pairs r) k")
    case None
    then show ?thesis using 2 by simp
  next
    case (Some pe)
    obtain p e where pe: "pe = (p, e)" by (cases pe)
    obtain due where due: "removed_before h t e = Some due" using 2(4) Some pe by (auto simp: bind_eq_Some_conv)
    show ?thesis
    proof (cases due)
      case True
      obtain h1 r1 m where s: "container_purge p e h = Some h1" "collect_element h1 e r = Some (r1, m)"
        "collect_pairs t ks h1 r1 (cnt + m) = Some (h', r', n)"
        using 2(4) Some pe due True by (auto simp: bind_eq_Some_conv)
      have "evolves h r h1 r" by (rule evolves_touches [OF 2(5,6) container_purge_touches [OF s(1)]])
      then have "evolves h r h1 r1" using collect_element_ok [OF s(2)] by (simp add: evolves_def)
      moreover have "evolves h1 r1 h' r'"
        using 2(2) [OF Some pe [symmetric] due True s(1,2) refl s(3)] calculation by (simp add: evolves_def)
      ultimately show ?thesis by (rule evolves_trans)
    next
      case False
      then show ?thesis using 2(3) [OF Some pe [symmetric] due False] 2(4-) Some pe due False by simp
    qed
  qed
qed (simp add: evolves_refl)

lemma collect_texts_evolves:
  "collect_texts t es h r cnt = Some (h', r', n) \<Longrightarrow> heap_ok h \<Longrightarrow> root_ok h r \<Longrightarrow> evolves h r h' r'"
proof (induction t es h r cnt rule: collect_texts.induct)
  case (2 t k e es h r cnt)
  obtain h1 m where s: "text_element_cleanup e t h = Some (h1, m)"
    "collect_texts t es h1 (if m > 0 then r\<lparr>root_removed_texts := AList.delete (elem_key h1 e) (root_removed_texts r)\<rparr>
       else r) (cnt + m) = Some (h', r', n)"
    using 2(2) by (auto simp: bind_eq_Some_conv Let_def)
  let ?r = "if m > 0 then r\<lparr>root_removed_texts := AList.delete (elem_key h1 e) (root_removed_texts r)\<rparr> else r"
  have "evolves h r h1 r" by (rule evolves_touches [OF 2(3,4) text_element_cleanup_touches [OF s(1)]])
  moreover have "root_ok h1 r \<Longrightarrow> root_ok h1 ?r" unfolding root_ok_def by (auto dest!: subsetD [OF alist_delete_subset])
  ultimately have ev: "evolves h r h1 ?r" by (simp add: evolves_def)
  moreover have "evolves h1 ?r h' r'" using 2(1) [OF s(1) refl refl s(2)] ev by (simp only: evolves_def simp_thms)
  ultimately show ?case by (rule evolves_trans)
qed (simp add: evolves_refl)

lemma collect_garbage_evolves:
  assumes "collect_garbage t h r = Some (h', r', n)" "heap_ok h" "root_ok h r"
  shows "evolves h r h' r'"
proof (cases t)
  case None
  then show ?thesis using assms evolves_refl by (auto simp: collect_garbage_def split: if_splits)
next
  case (Some u)
  obtain h1 r1 m where s: "collect_pairs u (map fst (root_removed_pairs r)) h r 0 = Some (h1, r1, m)"
    "collect_texts u (root_removed_texts r1) h1 r1 m = Some (h', r', n)"
    using assms(1) Some by (auto simp: collect_garbage_def root_garbage_collect_def bind_eq_Some_conv)
  have "evolves h r h1 r1" by (rule collect_pairs_evolves [OF s(1) assms(2,3)])
  then show ?thesis using collect_texts_evolves [OF s(2)] evolves_trans by (simp add: evolves_def) (meson hext_trans)
qed

section \<open>Documents\<close>

definition doc_ok :: "json_heap \<Rightarrow> document \<Rightarrow> bool" where
  "doc_ok h d \<longleftrightarrow> heap_ok h \<and> root_ok h (idoc_root (doc_internal d)) \<and>
     (case doc_clone d of None \<Rightarrow> True | Some r \<Rightarrow> root_ok h r)"

lemma doc_okD:
  "doc_ok h d \<Longrightarrow> heap_ok h" "doc_ok h d \<Longrightarrow> root_ok h (idoc_root (doc_internal d))"
  "doc_ok h d \<Longrightarrow> doc_clone d = Some r \<Longrightarrow> root_ok h r"
  by (auto simp: doc_ok_def)

lemma new_document_ok:
  assumes "new_document c k h = Some (h', d)" "heap_ok h"
  shows "doc_ok h' d"
proof -
  let ?o = "new_object initial_ticket h"
  obtain r where r: "new_root h' (fst ?o) = Some r" "h' = snd ?o" "idoc_root (doc_internal d) = r" "doc_clone d = None"
    using assms(1) by (auto simp: new_document_def new_internal_document_def Let_def bind_eq_Some_conv split: prod.splits)
  have "grows h (snd ?o)" unfolding new_object_def new_element_def
    by (rule grows_alloc) (simp add: new_cell_def new_pq_map_def pm_refs_def pm_nodes_def)
  then have ok: "heap_ok h'" using heap_ok_grows [OF assms(2)] r(2) by simp
  have "fst ?o < next_ref h'" "elem_kind_at h' (fst ?o) = Object_Kind"
    by (simp_all add: r(2) new_object_def new_element_def new_cell_def)
  then show ?thesis using new_root_ok [OF r(1) ok] ok r(3,4) by (simp add: doc_ok_def)
qed

lemma ensure_clone_ok:
  assumes "ensure_clone h d = Some (h', d', r)" "doc_ok h d"
  shows "doc_ok h' d'" "hext h h'" "root_ok h' r" "doc_internal d' = doc_internal d" "doc_clone d' = Some r"
proof -
  have "doc_ok h' d' \<and> hext h h' \<and> root_ok h' r \<and> doc_internal d' = doc_internal d \<and> doc_clone d' = Some r"
  proof (cases "doc_clone d")
    case None
    then have s: "root_deep_copy h (idoc_root (doc_internal d)) = Some (h', r)" "d' = d\<lparr>doc_clone := Some r\<rparr>"
      using assms(1) by (auto simp: ensure_clone_def bind_eq_Some_conv)
    note c = root_deep_copy_ok [OF s(1) doc_okD(1,2) [OF assms(2)]]
    then show ?thesis
      using root_ok_hext [OF grows_hext [OF c(1)] doc_okD(2) [OF assms(2)]] grows_hext [OF c(1)] by (simp add: doc_ok_def s(2))
  next
    case (Some x)
    then show ?thesis using assms doc_okD(3) by (auto simp: ensure_clone_def)
  qed
  then show "doc_ok h' d'" "hext h h'" "root_ok h' r" "doc_internal d' = doc_internal d" "doc_clone d' = Some r" by auto
qed

lemma execute_changes_evolves:
  "execute_changes fl cs h r = Some (h', r', err) \<Longrightarrow> heap_ok h \<Longrightarrow> root_ok h r \<Longrightarrow> evolves h r h' r'"
proof (induction fl cs h r rule: execute_changes.induct)
  case (2 fl c cs h r)
  obtain h1 r1 e where s: "change_execute fl c h r = Some (h1, r1, e)"
    "(case e of Some e \<Rightarrow> Some (h1, r1, Some e) | None \<Rightarrow> execute_changes fl cs h1 r1) = Some (h', r', err)"
    using 2(2) by (auto simp: bind_eq_Some_conv)
  have ev: "evolves h r h1 r1" by (rule change_execute_evolves [OF s(1) 2(3,4)])
  show ?case
  proof (cases e)
    case None
    then have "evolves h1 r1 h' r'" using 2(1) [OF s(1) refl refl None] s(2) ev by (simp add: evolves_def)
    then show ?thesis by (rule evolves_trans [OF ev])
  qed (use s(2) ev in auto)
qed (simp add: evolves_refl)

lemma apply_changes_evolves:
  "apply_changes fl cs h d = Some (h', d', err) \<Longrightarrow> heap_ok h \<Longrightarrow> root_ok h (idoc_root d) \<Longrightarrow>
     evolves h (idoc_root d) h' (idoc_root d')"
proof (induction fl cs h d rule: apply_changes.induct)
  case (2 fl c cs h d)
  obtain h1 r1 e where s: "change_execute fl c h (idoc_root d) = Some (h1, r1, e)"
    "(case e of Some e \<Rightarrow> Some (h1, d\<lparr>idoc_root := r1\<rparr>, Some e) | None \<Rightarrow> apply_changes fl cs h1
       (d\<lparr>idoc_root := r1, idoc_change_id := sync_lamport (idoc_change_id d) (id_lamport (ch_id c))\<rparr>)) = Some (h', d', err)"
    using 2(2) by (auto simp: bind_eq_Some_conv Let_def)
  have ev: "evolves h (idoc_root d) h1 r1" by (rule change_execute_evolves [OF s(1) 2(3,4)])
  show ?case
  proof (cases e)
    case None
    then have "evolves h1 r1 h' (idoc_root d')" using 2(1) [OF s(1) refl refl refl None] s(2) ev by (simp add: evolves_def)
    then show ?thesis by (rule evolves_trans [OF ev])
  qed (use s(2) ev in auto)
qed (simp add: evolves_refl)

section \<open>The contract of the snapshot decoder\<close>

text \<open>Decoding makes new elements only, and its result is a new object.\<close>

locale sound_decoder =
  fixes decode :: "'c snapshot_decoder"
  assumes decode_grows: "decode bs h = Some (Inr (h', obj)) \<Longrightarrow>
    grows h h' \<and> next_ref h \<le> obj \<and> obj < next_ref h' \<and> elem_kind_at h' obj = Object_Kind"
begin

lemma apply_snapshot_ok:
  assumes "apply_snapshot decode fl bs sq h d = Some (h', d', err)" "heap_ok h" "root_ok h (idoc_root d)"
  shows "heap_ok h' \<and> hext h h' \<and> root_ok h' (idoc_root d')"
proof (cases "\<exists>e. decode (Some bs) h = Some (Inl e)")
  case True
  then show ?thesis using assms by (auto simp: apply_snapshot_def)
next
  case False
  then obtain h1 obj r h2 r2 e where s: "decode (Some bs) h = Some (Inr (h1, obj))" "new_root h1 obj = Some r"
    "execute_changes fl (idoc_local_changes d) h1 r = Some (h2, r2, e)" "h' = h2" "idoc_root d' = r2"
    using assms(1) by (auto simp: apply_snapshot_def Let_def bind_eq_Some_conv split: option.splits sum.splits)
  note g = decode_grows [OF s(1)]
  have ok: "heap_ok h1" using heap_ok_grows assms(2) g by blast
  have "root_ok h1 r" using new_root_ok(1) [OF s(2) ok] g by simp
  then have "evolves h1 r h2 r2" by (rule execute_changes_evolves [OF s(3) ok])
  then show ?thesis using g grows_hext [of h h1] hext_trans by (auto simp: s(4,5) evolves_def)
qed

lemma doc_apply_remote_ok:
  assumes "doc_apply_remote decode fl p h d = Some (h', d', err)" "doc_ok h d"
  shows "doc_ok h' d' \<and> hext h h'"
proof (cases "length (pk_snapshot p) > 0")
  case True
  then obtain i where i: "apply_snapshot decode fl (pk_snapshot p) (cp_server_seq (pk_checkpoint p)) h (doc_internal d) =
      Some (h', i, err)" "d' = \<lparr>doc_internal = i, doc_clone = None\<rparr>"
    using assms(1) by (auto simp: doc_apply_remote_def bind_eq_Some_conv)
  show ?thesis using apply_snapshot_ok [OF i(1) doc_okD(1,2) [OF assms(2)]] by (simp add: doc_ok_def i(2))
next
  case False
  obtain h1 d1 c h2 c2 e where s: "ensure_clone h d = Some (h1, d1, c)"
    "execute_changes fl (pk_changes p) h1 c = Some (h2, c2, e)"
    and rest: "(case e of Some e \<Rightarrow> Some (h2, d1\<lparr>doc_clone := Some c2\<rparr>, Some (Operation_Error e)) | None \<Rightarrow> do {
       (h, i, err) \<leftarrow> apply_changes fl (pk_changes p) h2 (doc_internal d1);
       Some (h, d1\<lparr>doc_clone := Some c2, doc_internal := i\<rparr>, map_option Operation_Error err) }) = Some (h', d', err)"
    using assms(1) False by (auto simp: doc_apply_remote_def bind_eq_Some_conv Let_def)
  note c = ensure_clone_ok [OF s(1) assms(2)]
  have ev: "evolves h1 c h2 c2" by (rule execute_changes_evolves [OF s(2) doc_okD(1) [OF c(1)] c(3)])
  then have 2: "heap_ok h2" "root_ok h2 (idoc_root (doc_internal d1))" "hext h h2" "root_ok h2 c2"
    using root_ok_hext doc_okD(2) [OF c(1)] hext_trans [OF c(2)] by (auto simp: evolves_def)
  show ?thesis
  proof (cases e)
    case None
    then obtain i err' where i: "apply_changes fl (pk_changes p) h2 (doc_internal d1) = Some (h', i, err')"
      "d' = d1\<lparr>doc_clone := Some c2, doc_internal := i\<rparr>"
      using rest by (auto simp: bind_eq_Some_conv)
    have "evolves h2 (idoc_root (doc_internal d1)) h' (idoc_root i)" by (rule apply_changes_evolves [OF i(1) 2(1,2)])
    then show ?thesis using root_ok_hext 2(4) hext_trans [OF 2(3)] by (auto simp: doc_ok_def evolves_def i(2))
  qed (use rest 2 in \<open>auto simp: doc_ok_def\<close>)
qed

end

lemma doc_garbage_collect_ok:
  assumes "doc_garbage_collect t h d = Some (h', d', n)" "doc_ok h d"
  shows "doc_ok h' d' \<and> hext h h'"
proof -
  obtain h1 c r where s: "(case doc_clone d of None \<Rightarrow> Some (h, None) | Some r \<Rightarrow> do { (h, r, _) \<leftarrow> collect_garbage t h r; Some (h, Some r) }) = Some (h1, c)"
    "collect_garbage t h1 (idoc_root (doc_internal d)) = Some (h', r, n)"
    "d' = \<lparr>doc_internal = (doc_internal d)\<lparr>idoc_root := r\<rparr>, doc_clone = c\<rparr>"
    using assms(1) by (auto simp: doc_garbage_collect_def idoc_garbage_collect_def bind_eq_Some_conv)
  have 1: "heap_ok h1 \<and> hext h h1 \<and> (case c of None \<Rightarrow> True | Some r \<Rightarrow> root_ok h1 r)"
    using s(1) doc_okD [OF assms(2)] collect_garbage_evolves [of t h]
    by (fastforce simp: bind_eq_Some_conv evolves_def split: option.splits)
  have "root_ok h1 (idoc_root (doc_internal d))" using root_ok_hext doc_okD(2) [OF assms(2)] 1 by blast
  then have "evolves h1 (idoc_root (doc_internal d)) h' r" using collect_garbage_evolves [OF s(2)] 1 by simp
  then show ?thesis using 1 root_ok_hext hext_trans [of h h1 h'] by (auto simp: doc_ok_def evolves_def s(3) split: option.splits)
qed

context sound_decoder
begin

lemma doc_apply_change_pack_ok:
  assumes "doc_apply_change_pack decode fl p h d = Some (h', d', err)" "doc_ok h d"
  shows "doc_ok h' d' \<and> hext h h'"
proof -
  obtain h1 d1 e where s: "doc_apply_remote decode fl p h d = Some (h1, d1, e)"
    "(case e of Some e \<Rightarrow> Some (h1, d1, Some e) | None \<Rightarrow> do {
       (h, d, _) \<leftarrow> doc_garbage_collect (pk_min_synced p) h1 (d1\<lparr>doc_internal := idoc_finish_pack p (doc_internal d1)\<rparr>);
       Some (h, d, None) }) = Some (h', d', err)"
    using assms(1) by (auto simp: doc_apply_change_pack_def bind_eq_Some_conv)
  have 1: "doc_ok h1 d1 \<and> hext h h1" by (rule doc_apply_remote_ok [OF s(1) assms(2)])
  then have "doc_ok h1 (d1\<lparr>doc_internal := idoc_finish_pack p (doc_internal d1)\<rparr>)"
    by (simp add: doc_ok_def idoc_finish_pack_def)
  then show ?thesis
    using s(2) 1 doc_garbage_collect_ok hext_trans [of h h1] by (fastforce simp: bind_eq_Some_conv split: option.splits)
qed

end

section \<open>The converter satisfies the contract\<close>

lemma heap_new_at_grows:
  assumes "heap_new_at tm b h1 = ok (h', e)" "grows h h1" "body_refs b \<subseteq> {next_ref h..<next_ref h1}"
  shows "grows h h'" "next_ref h \<le> e" "e < next_ref h'" "elem_kind_at h' e = kind_of b"
  using assms grows_alloc_after [OF assms(2)] growsD(1) [OF assms(2)]
  by (auto simp: heap_new_at_def alloc_copy_def ok_def split: prod.splits)

lemma panics_ok: "panics m f = ok b \<longleftrightarrow> (\<exists>a. m = Some a \<and> f a = ok b)"
  by (cases m) auto

lemma from_leaf_grows:
  "from_json_primitive ty bs tm h = ok (h', e) \<Longrightarrow> grows h h' \<and> next_ref h \<le> e \<and> e < next_ref h'"
  "from_json_counter ty bs tm h = ok (h', e) \<Longrightarrow> grows h h' \<and> next_ref h \<le> e \<and> e < next_ref h'"
  "from_json_text tns tm h = ok (h', e) \<Longrightarrow> grows h h' \<and> next_ref h \<le> e \<and> e < next_ref h'"
  "from_json_rich_text rns tm h = ok (h', e) \<Longrightarrow> grows h h' \<and> next_ref h \<le> e \<and> e < next_ref h'"
  using heap_new_at_grows [OF _ grows_refl]
  by (auto simp: from_json_primitive_def from_json_counter_def from_json_text_def from_json_rich_text_def
      checked_ok panics_ok)

lemma from_json_grows:
  "from_json_element p h = ok (h', e) \<Longrightarrow> grows h h' \<and> next_ref h \<le> e \<and> e < next_ref h'"
  "from_rht_nodes ns m h = ok (h', m') \<Longrightarrow> grows h0 h \<Longrightarrow> pm_refs m \<subseteq> {next_ref h0..<next_ref h} \<Longrightarrow>
     grows h0 h' \<and> pm_refs m' \<subseteq> {next_ref h0..<next_ref h'}"
  "from_rga_nodes rs l h = ok (h', l') \<Longrightarrow> grows h0 h \<Longrightarrow> range (rl_elem l) \<subseteq> {next_ref h0..<next_ref h} \<Longrightarrow>
     grows h0 h' \<and> range (rl_elem l') \<subseteq> {next_ref h0..<next_ref h'}"
proof (induction p h and ns m h and rs l h arbitrary: h' e and h' m' h0 and h' l' h0
    rule: from_json_element_from_rht_nodes_from_rga_nodes.induct)
  case (2 ns tm h)
  then obtain h1 m x where s: "from_rht_nodes ns new_pq_map h = ok (h1, m)" "heap_new_at x (Object_Body m) h1 = ok (h', e)"
    by (auto simp: checked_ok)
  have "grows h h1 \<and> pm_refs m \<subseteq> {next_ref h..<next_ref h1}"
    by (rule 2(1) [OF s(1)]) (simp_all add: pm_refs_def pm_nodes_def new_pq_map_def)
  then show ?case using heap_new_at_grows [OF s(2), of h] by simp
next
  case (3 ns tm h)
  let ?d = "new_rga_tree_list dummy_body h"
  obtain h1 l x where s: "from_rga_nodes ns (snd ?d) (fst ?d) = ok (h1, l)" "heap_new_at x (Array_Body l) h1 = ok (h', e)"
    using 3(2) by (auto simp: checked_ok split: prod.splits)
  have d: "grows h (fst ?d)" "range (rl_elem (snd ?d)) \<subseteq> {next_ref h..<next_ref (fst ?d)}"
    using new_list_grows by blast+
  have "grows h h1 \<and> range (rl_elem l) \<subseteq> {next_ref h..<next_ref h1}"
    by (rule 3(1) [OF _ _ s(1) d]) simp_all
  then show ?case using heap_new_at_grows [OF s(2), of h] by simp
next
  case (9 k p ns m h)
  then obtain h1 v where s: "from_json_element p h = ok (h1, v)" "from_rht_nodes ns (pm_set_internal h1 m k v) h1 = ok (h', m')"
    by (auto simp: checked_ok)
  have g: "grows h h1" "next_ref h \<le> v" "v < next_ref h1" using 9(1) [OF s(1)] by auto
  have "pm_refs (pm_set_internal h1 m k v) \<subseteq> {next_ref h0..<next_ref h1}"
    by (rule insert_interval [OF pm_set_internal_refs 9(5)]) (use g growsD(1) [OF 9(4)] growsD(1) [OF g(1)] in auto)
  then show ?case using 9(2) [OF s(2) grows_trans [OF 9(4) g(1)]] by blast
next
  case (12 p ns l h)
  then obtain h1 v l1 where s: "from_json_element p h = ok (h1, v)" "rga_add h1 l v = Some l1"
    "from_rga_nodes ns l1 h1 = ok (h', l')"
    by (auto simp: checked_ok panics_ok)
  have g: "grows h h1" "next_ref h \<le> v" "v < next_ref h1" using 12(1) [OF s(1)] by auto
  have "range (rl_elem l1) \<subseteq> insert v (range (rl_elem l))" using rga_insert_range s(2) unfolding rga_add_def by blast
  then have "range (rl_elem l1) \<subseteq> {next_ref h0..<next_ref h1}"
    by (rule insert_interval [OF _ 12(5)]) (use g growsD(1) [OF 12(4)] growsD(1) [OF g(1)] in auto)
  then show ?case using 12(2) [OF s(3) grows_trans [OF 12(4) g(1)]] by blast
qed (use from_leaf_grows in \<open>auto simp: fail_def ok_def\<close>)

lemma from_json_object_kind: "from_json_element (Pb_Object_Element ns tm) h = ok (h', e) \<Longrightarrow> elem_kind_at h' e = Object_Kind"
  by (auto simp: checked_ok heap_new_at_def alloc_copy_def)

lemma bytes_to_object_grows:
  assumes "bytes_to_object unmarshal bs h = Some (Inr (h', obj))"
  shows "grows h h' \<and> next_ref h \<le> obj \<and> obj < next_ref h' \<and> elem_kind_at h' obj = Object_Kind"
proof (cases bs)
  case None
  have "grows h (snd (new_object initial_ticket h))" unfolding new_object_def new_element_def
    by (rule grows_alloc) (simp add: new_cell_def new_pq_map_def pm_refs_def pm_nodes_def)
  then show ?thesis using assms None
    by (auto simp: bytes_to_object_def new_object_def new_element_def new_cell_def ok_def case_prod_beta)
next
  case (Some b)
  then obtain ns tm where "from_json_element (Pb_Object_Element ns tm) h = ok (h', obj)"
    using assms by (auto simp: bytes_to_object_def fail_def ok_def split: option.splits pb_element.splits)
  then show ?thesis using from_json_grows(1) from_json_object_kind by blast
qed

interpretation protobuf: sound_decoder "bytes_to_object unmarshal" for unmarshal
  by unfold_locales (rule bytes_to_object_grows)

section \<open>Properties\<close>

text \<open>C3: Whatever pack a document is given, with changes or with a snapshot that the converter decodes,
  and whether it is applied or ends in an error: the heap stays free of dangling references and
  cycles, the tables of the document and of its clone stay right, and no element loses its creation
  time, its type or its removal.\<close>
theorem document_invariant:
  assumes "doc_ok h d" "doc_apply_change_pack (bytes_to_object unmarshal) fl p h d = Some (h', d', err)"
  shows "doc_ok h' d' \<and> hext h h'"
  using protobuf.doc_apply_change_pack_ok [OF assms(2,1)] .

text \<open>The sample: an empty pack for a new document.\<close>

definition empty_json :: json_heap where
  "empty_json = \<lparr>cells = (\<lambda>_. new_cell initial_ticket dummy_body), next_ref = 0\<rparr>"

definition empty_pack :: pack where
  "empty_pack = new_pack \<lparr>collection = ''c'', document = ''d''\<rparr> initial_checkpoint [] []"

lemma sample_apply:
  "(case new_document ''c'' ''d'' empty_json of None \<Rightarrow> False | Some (h1, d1) \<Rightarrow>
     (case doc_apply_change_pack (bytes_to_object (\<lambda>_. None)) sample_float empty_pack h1 d1 of
        Some (h2, d2, None :: (conv_error, unit) doc_error option) \<Rightarrow> True | _ \<Rightarrow> False))"
  by code_simp

theorem document_invariant_witness:
  "\<exists>h1 d1 h2 d2. new_document ''c'' ''d'' empty_json = Some (h1, d1) \<and>
     doc_apply_change_pack (bytes_to_object (\<lambda>_. None)) sample_float empty_pack h1 d1 =
       Some (h2, d2, None :: (conv_error, unit) doc_error option) \<and> doc_ok h2 d2"
proof -
  obtain h1 d1 h2 d2 where s: "new_document ''c'' ''d'' empty_json = Some (h1, d1)"
    "doc_apply_change_pack (bytes_to_object (\<lambda>_. None)) sample_float empty_pack h1 d1 =
       Some (h2, d2, None :: (conv_error, unit) doc_error option)"
    using sample_apply by (fastforce split: option.splits prod.splits)
  have "heap_ok empty_json" by (simp add: heap_ok_def heap_ranked_def empty_json_def)
  then have "doc_ok h1 d1" using new_document_ok [OF s(1)] by blast
  then show ?thesis using s document_invariant [OF _ s(2)] by blast
qed

end
