(* ===== verification/Garbage_Facts.thy ===== *)
theory Garbage_Facts
  imports Document_Facts
begin

text \<open>
  What the collection of garbage (\<open>GarbageCollect\<close> of \<open>src/pkg/document/json/root.go\<close>) takes out of
  the tables of a root: everything that is due, and nothing but what is due or inside of it.
\<close>

section \<open>Lookups after a collection\<close>

definition ref_below :: "json_heap \<Rightarrow> (ref \<times> ref) set" where
  "ref_below h = {(r, c). c \<in> refs_at h r}\<^sup>+"

lemma ref_below_touches: "touches r {} h h' \<Longrightarrow> ref_below h' \<subseteq> ref_below h"
  unfolding ref_below_def using touchesD(3) by (fastforce intro: trancl_mono)

lemma fold_deregister_lookup:
  "map_of (root_elements (fold (deregister_element h) es r)) k =
     (if k \<in> elem_key h ` set es then None else map_of (root_elements r) k)"
  "map_of (root_removed_pairs (fold (deregister_element h) es r)) k =
     (if k \<in> elem_key h ` set es then None else map_of (root_removed_pairs r) k)"
  by (induction es arbitrary: r) (auto simp: deregister_element_def AList.delete_conv')

lemma descendants_ref_below:
  "descendants n h r = Some ds \<Longrightarrow> fst ` set ds \<subseteq> ref_below h `` {r}"
proof (induction n arbitrary: r ds)
  case (Suc n)
  define f where "f e = do { ds \<leftarrow> (if is_container h e then descendants n h e else Some []); Some ((e, r) # ds) }" for e
  have eq: "concat_options (map f (children h r)) = Some ds" using Suc.prems by (simp add: f_def [abs_def])
  have "fst ` set (the (f c)) \<subseteq> ref_below h `` {r}" if c: "c \<in> set (children h r)" for c
  proof -
    have rc: "(r, c) \<in> {(r, c). c \<in> refs_at h r}" using children_refs c by blast
    then have sub: "insert c (ref_below h `` {c}) \<subseteq> ref_below h `` {r}"
      unfolding ref_below_def by (auto intro: trancl_into_trancl2)
    have "f c \<noteq> None" using concat_options_set [OF eq] c by blast
    then obtain cs where cs: "(if is_container h c then descendants n h c else Some []) = Some cs"
      by (cases "if is_container h c then descendants n h c else Some []") (auto simp: f_def)
    then have "fst ` set cs \<subseteq> ref_below h `` {c}" using Suc.IH [of c cs] by (auto split: if_splits)
    moreover have "fst ` set (the (f c)) = insert c (fst ` set cs)" by (simp add: f_def cs)
    ultimately show ?thesis using sub by blast
  qed
  then show ?case using concat_options_set [OF eq] by (simp add: image_UN UN_subset_iff)
qed simp

text \<open>The elements of one collection: the due element and what is below it.\<close>

lemma collect_element_lookup:
  assumes "collect_element h e r = Some (r', n)"
  obtains es where "e \<in> es" "es \<subseteq> insert e (ref_below h `` {e})"
    "\<And>k. map_of (root_elements r') k = (if k \<in> elem_key h ` es then None else map_of (root_elements r) k)"
    "\<And>k. map_of (root_removed_pairs r') k = (if k \<in> elem_key h ` es then None else map_of (root_removed_pairs r) k)"
proof -
  obtain ds where ds: "(if is_container h e then descendants (depth_of h) h e else Some []) = Some ds"
    "r' = fold (deregister_element h) (e # map fst ds) r"
    using collect_element_fold [OF assms] by blast
  have "fst ` set ds \<subseteq> ref_below h `` {e}" using ds(1) descendants_ref_below by (auto split: if_splits)
  then show ?thesis
    by (intro that [of "set (e # map fst ds)"]) (auto simp only: ds(2) fold_deregister_lookup list.set set_map)
qed

lemma container_purge_times:
  assumes "container_purge p e h = Some h'"
  shows "removed_at (cells h' x) = removed_at (cells h x)" "created_at (cells h' x) = created_at (cells h x)"
  using assms by (auto simp: container_purge_def object_purge_def array_purge_def bind_eq_Some_conv set_body_def
      split: body.splits)

text \<open>What is due in a root.\<close>

definition due_pair :: "ticket \<Rightarrow> json_heap \<Rightarrow> root \<Rightarrow> string \<Rightarrow> ref \<Rightarrow> bool" where
  "due_pair t h r k e \<longleftrightarrow> (\<exists>p. map_of (root_removed_pairs r) k = Some (p, e)) \<and> removed_before h t e = Some True"

definition in_due :: "ticket \<Rightarrow> json_heap \<Rightarrow> root \<Rightarrow> string \<Rightarrow> bool" where
  "in_due t h r k \<longleftrightarrow> (\<exists>k' e x. due_pair t h r k' e \<and> (x = e \<or> (e, x) \<in> ref_below h) \<and> k = elem_key h x)"

text \<open>A collection of \<open>ks\<close>: what was removed from one table was removed from the other, only what is in
  something due was removed, and what is due under a key of \<open>ks\<close> was.\<close>

definition collected :: "ticket \<Rightarrow> string set \<Rightarrow> json_heap \<Rightarrow> root \<Rightarrow> root \<Rightarrow> bool" where
  "collected t ks h r r' \<longleftrightarrow>
     (\<forall>k. (map_of (root_elements r') k = map_of (root_elements r) k \<and>
             map_of (root_removed_pairs r') k = map_of (root_removed_pairs r) k) \<or>
          (map_of (root_elements r') k = None \<and> map_of (root_removed_pairs r') k = None \<and> in_due t h r k)) \<and>
     (\<forall>k\<in>ks. \<forall>e. due_pair t h r k e \<longrightarrow> map_of (root_removed_pairs r') k = None)"

lemma collectedD:
  assumes "collected t ks h r r'"
  shows "(map_of (root_elements r') k = map_of (root_elements r) k \<and>
      map_of (root_removed_pairs r') k = map_of (root_removed_pairs r) k) \<or>
    (map_of (root_elements r') k = None \<and> map_of (root_removed_pairs r') k = None \<and> in_due t h r k)"
    "k \<in> ks \<Longrightarrow> due_pair t h r k e \<Longrightarrow> map_of (root_removed_pairs r') k = None"
  using assms unfolding collected_def by blast+

lemma collectedI:
  assumes "\<And>k. (map_of (root_elements r') k = map_of (root_elements r) k \<and>
      map_of (root_removed_pairs r') k = map_of (root_removed_pairs r) k) \<or>
    (map_of (root_elements r') k = None \<and> map_of (root_removed_pairs r') k = None \<and> in_due t h r k)"
    "\<And>k e. k \<in> ks \<Longrightarrow> due_pair t h r k e \<Longrightarrow> map_of (root_removed_pairs r') k = None"
  shows "collected t ks h r r'"
  using assms unfolding collected_def by blast

lemma collected_refl: "collected t {} h r r"
  by (simp add: collected_def)

lemma in_due_later:
  assumes "ref_below h' \<subseteq> ref_below h" "\<And>x. removed_at (cells h' x) = removed_at (cells h x)"
    "\<And>x. created_at (cells h' x) = created_at (cells h x)"
    "\<And>k. map_of (root_removed_pairs r') k = map_of (root_removed_pairs r) k \<or> map_of (root_removed_pairs r') k = None"
  shows "in_due t h' r' k \<Longrightarrow> in_due t h r k"
proof -
  have "due_pair t h' r' k' e \<Longrightarrow> due_pair t h r k' e" for k' e
    using assms(2) assms(4) [of k'] by (auto simp: due_pair_def removed_before_def)
  then show "in_due t h' r' k \<Longrightarrow> in_due t h r k"
    using assms(1,3) unfolding in_due_def elem_key_def by (metis subset_iff)
qed

lemma collected_step:
  assumes "container_purge p e h = Some h1" "collect_element h1 e r = Some (r1, m)" "due_pair t h r k e"
    "k = elem_key h e" "collected t ks h1 r1 r'"
  shows "collected t (insert k ks) h r r'"
proof -
  note times = container_purge_times [OF assms(1)]
  have below: "ref_below h1 \<subseteq> ref_below h" by (rule ref_below_touches [OF container_purge_touches [OF assms(1)]])
  have key: "elem_key h1 x = elem_key h x" for x by (simp add: elem_key_def times)
  obtain es where es: "e \<in> es" "es \<subseteq> insert e (ref_below h1 `` {e})"
    "\<And>k. map_of (root_elements r1) k = (if k \<in> elem_key h1 ` es then None else map_of (root_elements r) k)"
    "\<And>k. map_of (root_removed_pairs r1) k = (if k \<in> elem_key h1 ` es then None else map_of (root_removed_pairs r) k)"
    using collect_element_lookup [OF assms(2)] by blast
  have due: "in_due t h r x" if "x \<in> elem_key h1 ` es" for x
    using that es(2) below assms(3) unfolding in_due_def key by blast
  have later: "in_due t h1 r1 x \<Longrightarrow> in_due t h r x" for x
    by (rule in_due_later [OF below times]) (simp_all add: es(4))
  have step: "map_of (root_elements r1) x = map_of (root_elements r) x \<and>
      map_of (root_removed_pairs r1) x = map_of (root_removed_pairs r) x \<or>
      map_of (root_elements r1) x = None \<and> map_of (root_removed_pairs r1) x = None \<and> in_due t h r x" for x
    using due [of x] by (simp add: es(3,4))
  have tail: "map_of (root_elements r') x = map_of (root_elements r1) x \<and>
      map_of (root_removed_pairs r') x = map_of (root_removed_pairs r1) x \<or>
      map_of (root_elements r') x = None \<and> map_of (root_removed_pairs r') x = None \<and> in_due t h1 r1 x" for x
    using collectedD(1) [OF assms(5), of x] .
  have tables: "map_of (root_elements r') x = map_of (root_elements r) x \<and>
      map_of (root_removed_pairs r') x = map_of (root_removed_pairs r) x \<or>
      map_of (root_elements r') x = None \<and> map_of (root_removed_pairs r') x = None \<and> in_due t h r x" for x
  proof (cases "map_of (root_elements r') x = map_of (root_elements r1) x \<and>
      map_of (root_removed_pairs r') x = map_of (root_removed_pairs r1) x")
    case True
    then show ?thesis using step [of x] by simp
  next
    case False
    then show ?thesis using tail [of x] later [of x] by blast
  qed
  have "map_of (root_removed_pairs r') x = None" if x: "x \<in> insert k ks" "due_pair t h r x e'" for x e'
  proof (cases "map_of (root_removed_pairs r1) x = None")
    case True
    then show ?thesis using tail [of x] by auto
  next
    case False
    then have "map_of (root_removed_pairs r1) x = map_of (root_removed_pairs r) x" using step [of x] by metis
    then have "due_pair t h1 r1 x e'" using x(2) by (simp add: due_pair_def removed_before_def times)
    moreover have "k \<in> elem_key h1 ` es" using imageI [OF es(1), of "elem_key h1"] assms(4) key by simp
    then have "x \<noteq> k" using False es(4) by auto
    ultimately show ?thesis using x(1) collectedD(2) [OF assms(5), of x e'] by simp
  qed
  then show ?thesis using collectedI [OF tables] by blast
qed

lemma collected_skip:
  assumes "collected t ks h r r'" "\<And>e. \<not> due_pair t h r k e"
  shows "collected t (insert k ks) h r r'"
  using assms unfolding collected_def by blast

lemma collect_pairs_collected:
  "collect_pairs t ks h r cnt = Some (h', r', n) \<Longrightarrow> heap_ok h \<Longrightarrow> root_ok h r \<Longrightarrow> collected t (set ks) h r r'"
proof (induction t ks h r cnt rule: collect_pairs.induct)
  case (2 t k ks h r cnt)
  show ?case
  proof (cases "map_of (root_removed_pairs r) k")
    case None
    then show ?thesis using 2 collected_skip by (simp add: due_pair_def)
  next
    case (Some pe)
    obtain p e where pe: "pe = (p, e)" by (cases pe)
    obtain due where due: "removed_before h t e = Some due" using 2(4) Some pe by (auto simp: bind_eq_Some_conv)
    have k: "k = elem_key h e" using 2(6) Some pe by (auto simp: root_ok_def dest!: map_of_SomeD)
    show ?thesis
    proof (cases due)
      case True
      obtain h1 r1 m where s: "container_purge p e h = Some h1" "collect_element h1 e r = Some (r1, m)"
        "collect_pairs t ks h1 r1 (cnt + m) = Some (h', r', n)"
        using 2(4) Some pe due True by (auto simp: bind_eq_Some_conv)
      have "evolves h r h1 r" by (rule evolves_touches [OF 2(5,6) container_purge_touches [OF s(1)]])
      then have "heap_ok h1" "root_ok h1 r1" using collect_element_ok [OF s(2)] by (simp_all add: evolves_def)
      then have "collected t (set ks) h1 r1 r'" by (rule 2(2) [OF Some pe [symmetric] due True s(1,2) refl s(3)])
      moreover have "due_pair t h r k e" using Some pe due True by (simp add: due_pair_def)
      ultimately show ?thesis using collected_step [OF s(1,2) _ k] by simp
    next
      case False
      then have "collect_pairs t ks h r cnt = Some (h', r', n)" using 2(4) Some pe due by simp
      then have "collected t (set ks) h r r'" by (rule 2(3) [OF Some pe [symmetric] due False _ 2(5,6)])
      moreover have "\<not> due_pair t h r k x" for x using Some pe due False by (auto simp: due_pair_def)
      ultimately show ?thesis using collected_skip by simp
    qed
  qed
qed (simp add: collected_refl)

lemma collect_texts_tables:
  "collect_texts t es h r cnt = Some (h', r', n) \<Longrightarrow>
     root_elements r' = root_elements r \<and> root_removed_pairs r' = root_removed_pairs r"
  by (induction t es h r cnt rule: collect_texts.induct) (fastforce simp: bind_eq_Some_conv Let_def split: if_splits)+

section \<open>Properties\<close>

text \<open>C10: A collection of garbage removes exactly what is due: an element whose removal is not after the
  ticket is in neither table afterwards, and a key whose entries changed is the key of such an
  element or of something inside one.\<close>
theorem garbage_collection_exact:
  assumes "heap_ok h" "root_ok h r" "root_garbage_collect t h r = Some (h', r', n)"
  shows "(due_pair t h r k e \<longrightarrow> map_of (root_elements r') k = None \<and> map_of (root_removed_pairs r') k = None) \<and>
    (\<not> in_due t h r k \<longrightarrow> map_of (root_elements r') k = map_of (root_elements r) k \<and>
       map_of (root_removed_pairs r') k = map_of (root_removed_pairs r) k)"
proof -
  obtain h1 r1 m where s: "collect_pairs t (map fst (root_removed_pairs r)) h r 0 = Some (h1, r1, m)"
    "collect_texts t (root_removed_texts r1) h1 r1 m = Some (h', r', n)"
    using assms(3) by (auto simp: root_garbage_collect_def bind_eq_Some_conv)
  have c: "collected t (set (map fst (root_removed_pairs r))) h r r'"
    using collect_pairs_collected [OF s(1) assms(1,2)] collect_texts_tables [OF s(2)] by (simp add: collected_def)
  have "k \<in> set (map fst (root_removed_pairs r))" if "due_pair t h r k e"
    using that by (auto simp: due_pair_def dest!: map_of_SomeD intro: rev_image_eqI)
  then show ?thesis using collectedD [OF c, of k] unfolding due_pair_def by (metis option.distinct(1))
qed

text \<open>The sample: the member of the object of \<open>sample_json\<close> was removed at time 5.\<close>

definition sample_due :: json_heap where
  "sample_due = sample_json\<lparr>cells := (cells sample_json)(0 := (cells sample_json 0)\<lparr>removed_at := Some (sample_ticket 5)\<rparr>)\<rparr>"

definition sample_due_root :: root where
  "sample_due_root = sample_json_root\<lparr>root_removed_pairs := [(ticket_key (sample_ticket 2), 1, 0)]\<rparr>"

lemma sample_due_ok: "heap_ok sample_due" "root_ok sample_due sample_due_root"
proof -
  show "heap_ok sample_due"
    by (rule heap_ok_less_refs [OF sample_json_ok]) (simp_all add: sample_due_def)
  show "root_ok sample_due sample_due_root"
    by (simp add: root_ok_def sample_due_root_def sample_json_root_def sample_due_def sample_json_def elem_key_def
        new_cell_def is_container_def)
qed

lemma sample_due_collected:
  "map_option (\<lambda>(h, r, n). n) (root_garbage_collect (sample_ticket 9) sample_due sample_due_root) = Some 1"
  by code_simp

theorem garbage_collection_exact_witness:
  "\<exists>h r. root_garbage_collect (sample_ticket 9) sample_due sample_due_root = Some (h, r, 1) \<and>
     map_of (root_elements r) (ticket_key (sample_ticket 2)) = None"
proof -
  obtain h r where gc: "root_garbage_collect (sample_ticket 9) sample_due sample_due_root = Some (h, r, 1)"
    using sample_due_collected by auto
  have "due_pair (sample_ticket 9) sample_due sample_due_root (ticket_key (sample_ticket 2)) 0"
    by (simp add: due_pair_def sample_due_root_def removed_before_def sample_due_def) code_simp
  then show ?thesis using garbage_collection_exact [OF sample_due_ok gc] gc by blast
qed

end
