(* ===== verification/Converter_Facts.thy ===== *)
theory Converter_Facts
  imports Heap_Facts Converter
begin

text \<open>
  Round trips of the converter (\<open>src/api/converter/to_pb.go\<close>, \<open>from_pb.go\<close>): the changes that are
  read back from the messages of a change pack against the changes that were sent, and which
  positions survive the 32 bits a message has for an offset.
\<close>

section \<open>Tickets and positions\<close>

lemma decode_actor_bytes [simp]:
  "decode_actor (actor_id_bytes None) = ok None"
  "wf_actor b \<Longrightarrow> decode_actor (actor_id_bytes (Some b)) = ok (Some b)"
  by (auto simp: decode_actor_def actor_id_bytes_def actor_id_from_bytes_def wf_actor_def actor_id_size_def)

lemma decode_actor_wf: "decode_actor bs = ok (Some a) \<Longrightarrow> wf_actor a"
  by (auto simp: decode_actor_def actor_id_from_bytes_def wf_actor_def split: if_splits)

lemma from_to_time_ticket:
  "from_time_ticket (to_time_ticket None) = ok None"
  "wf_ticket t \<Longrightarrow> from_time_ticket (to_time_ticket (Some t)) = ok (Some t)"
  by (simp add: from_time_ticket_def to_time_ticket_def)
    (cases t, auto simp: from_time_ticket_def to_time_ticket_def wf_ticket_def split: option.splits)

lemma needed_to_time_ticket [simp]: "wf_ticket t \<Longrightarrow> needed_ticket (to_time_ticket (Some t)) = ok t"
  by (simp add: needed_ticket_def from_to_time_ticket)

lemma needed_ticket_wf: "needed_ticket p = ok t \<Longrightarrow> wf_ticket t"
  by (auto simp: needed_ticket_def from_time_ticket_def checked_ok wf_ticket_def panics_def
      split: option.splits dest!: decode_actor_wf)

definition fits_int32 :: "int \<Rightarrow> bool" where
  "fits_int32 i \<longleftrightarrow> - (2 ^ 31) \<le> i \<and> i < 2 ^ 31"

lemma sint_word_of_int32: "sint (word_of_int i :: 32 word) = i \<longleftrightarrow> fits_int32 i"
proof
  show "sint (word_of_int i :: 32 word) = i \<Longrightarrow> fits_int32 i"
    using sint_range_size [of "word_of_int i :: 32 word"] by (auto simp: fits_int32_def word_size)
  show "fits_int32 i \<Longrightarrow> sint (word_of_int i :: 32 word) = i"
    by (simp add: fits_int32_def sint_sbintrunc' signed_take_bit_int_eq_self)
qed

definition wf_pos :: "node_pos \<Rightarrow> bool" where
  "wf_pos p \<longleftrightarrow> wf_ticket (id_created (pos_id p)) \<and> fits_int32 (id_offset (pos_id p)) \<and> fits_int32 (pos_relative p)"

lemma from_to_text_node_pos: "from_text_node_pos (Some (to_text_node_pos p)) = ok p \<longleftrightarrow> wf_pos p"
proof (cases "wf_ticket (id_created (pos_id p))")
  case True
  then show ?thesis
    by (cases p; cases "pos_id p") (auto simp: from_text_node_pos_def to_text_node_pos_def message_def
        wf_pos_def sint_word_of_int32)
next
  case False
  then have "needed_ticket (to_time_ticket (Some (id_created (pos_id p)))) \<noteq> ok (id_created (pos_id p))"
    using needed_ticket_wf by blast
  then show ?thesis
    using False
    by (cases p; cases "pos_id p") (auto simp: from_text_node_pos_def to_text_node_pos_def message_def wf_pos_def checked_ok)
qed

definition wf_latest :: "(string \<times> ticket) list option \<Rightarrow> bool" where
  "wf_latest m \<longleftrightarrow> (case m of None \<Rightarrow> True | Some m \<Rightarrow> list_all (\<lambda>(k, t). wf_ticket t) m)"

lemma from_to_created_at_map:
  "wf_latest m \<Longrightarrow> from_created_at_map (to_created_at_map m) = ok (case m of None \<Rightarrow> [] | Some m \<Rightarrow> m)"
proof -
  have "list_all (\<lambda>(k, t). wf_ticket t) m \<Longrightarrow>
      checked_map (\<lambda>(k, p). checked (needed_ticket p) (\<lambda>t. ok (k, t))) (map (\<lambda>(k, t). (k, to_time_ticket (Some t))) m) = ok m"
    for m :: "(string \<times> ticket) list"
    by (induction m) auto
  then show "wf_latest m \<Longrightarrow> from_created_at_map (to_created_at_map m) = ok (case m of None \<Rightarrow> [] | Some m \<Rightarrow> m)"
    by (auto simp: from_created_at_map_def to_created_at_map_def wf_latest_def split: option.splits)
qed

section \<open>Values\<close>

text \<open>A value as the proxies make it.\<close>

definition sendable_value :: "json_heap \<Rightarrow> ref \<Rightarrow> bool" where
  "sendable_value h v \<longleftrightarrow> wf_ticket (created_at (cells h v)) \<and>
     (case body (cells h v) of
        Primitive_Body p \<Rightarrow> \<exists>g. new_primitive g = Some p
      | Counter_Body c \<Rightarrow> \<exists>g. new_counter g = Some c
      | Rich_Text_Body t \<Rightarrow> \<exists>s x. new_rga_tree_split rich_ops initial_rich_text_node = Some s \<and>
          new_initial_rich_text s (created_at (cells h v)) = Some x
      | _ \<Rightarrow> True)"

text \<open>A date is sent as its seconds, in 64 bits; every other value as it is.\<close>

fun sent_value :: "go_value \<Rightarrow> go_value" where
  "sent_value (Go_Time sec nsec) = Go_Time (sint (word_of_int sec :: 64 word)) 0"
| "sent_value v = v"

text \<open>Everything that was there still is as it was.\<close>

definition heap_kept :: "json_heap \<Rightarrow> json_heap \<Rightarrow> bool" where
  "heap_kept h h' \<longleftrightarrow> next_ref h \<le> next_ref h' \<and> (\<forall>r < next_ref h. cells h' r = cells h r)"

lemma heap_kept_grows: "heap_kept h h1 \<Longrightarrow> grows h1 h2 \<Longrightarrow> heap_kept h h2"
  by (simp add: heap_kept_def growsD) (metis growsD(1,2) order.strict_trans2 order.trans)

text \<open>What a value arrives as in a heap that has grown to \<open>h\<close> since: a primitive and a counter with
  their type and value, a container empty, as its constructor makes it.\<close>

fun same_body :: "json_heap \<Rightarrow> ticket \<Rightarrow> body \<Rightarrow> body \<Rightarrow> bool" where
  "same_body h t (Primitive_Body p) b \<longleftrightarrow>
     b = Primitive_Body \<lparr>value_type = value_type p, prim_value = sent_value (prim_value p)\<rparr>"
| "same_body h t (Counter_Body c) b \<longleftrightarrow> b = Counter_Body c"
| "same_body h t (Object_Body m) b \<longleftrightarrow> b = Object_Body new_pq_map"
| "same_body h t (Array_Body l) b \<longleftrightarrow>
     (\<exists>h0 h1 l1. new_rga_tree_list dummy_body h0 = (h1, l1) \<and> heap_kept h1 h \<and> b = Array_Body l1)"
| "same_body h t (Text_Body x) b \<longleftrightarrow>
     (\<exists>s. new_rga_tree_split text_ops initial_text_node = Some s \<and> b = Text_Body (new_text s))"
| "same_body h t (Rich_Text_Body x) b \<longleftrightarrow>
     (\<exists>s y. new_rga_tree_split rich_ops initial_rich_text_node = Some s \<and> new_initial_rich_text s t = Some y \<and>
        b = Rich_Text_Body y)"

definition same_value :: "json_heap \<Rightarrow> ref \<Rightarrow> json_heap \<Rightarrow> ref \<Rightarrow> bool" where
  "same_value h v h1 v1 \<longleftrightarrow> v1 < next_ref h1 \<and> (\<exists>b. cells h1 v1 = new_cell (created_at (cells h v)) b \<and>
     same_body h1 (created_at (cells h v)) (body (cells h v)) b)"

lemma same_body_grows: "same_body h t b b' \<Longrightarrow> grows h h' \<Longrightarrow> same_body h' t b b'"
  using heap_kept_grows by (cases b) fastforce+

lemma same_value_grows: "same_value h v h1 v1 \<Longrightarrow> grows h1 h2 \<Longrightarrow> same_value h v h2 v1"
  using same_body_grows growsD(1) [of h1 h2] growsD(2) [of h1 h2] by (fastforce simp: same_value_def)

lemma primitive_again:
  assumes "new_primitive g = Some p" "primitive_bytes p = Some bs"
  obtains w q where "value_from_bytes (value_type p) bs = Some w" "new_primitive w = Some q"
    "value_type q = value_type p" "primitive_bytes q = Some bs" "prim_value q = sent_value (prim_value p)"
proof (cases "\<exists>sec nsec. g = Go_Time sec nsec")
  case True
  then show ?thesis using assms that get_put_uint64
    by (auto simp: new_primitive_def primitive_bytes_def value_from_bytes_def)
next
  case False
  have "value_from_bytes (value_type p) bs = Some (prim_value p) \<and> new_primitive (prim_value p) = Some p"
    using assms False get_put_uint64 get_put_int32
    by (auto simp: new_primitive_def primitive_bytes_def value_from_bytes_def split: go_value.splits if_splits)
  moreover have "sent_value (prim_value p) = prim_value p"
    using assms(1) False by (cases g) (auto simp: new_primitive_def split: if_splits)
  ultimately show ?thesis using that assms(2) by simp
qed

lemma counter_again:
  assumes "new_counter g = Some c" "counter_bytes c = Some bs"
  shows "counter_value_from_bytes (counter_type c) bs = Some (counter_value c)" "new_counter (counter_value c) = Some c"
  using assms get_put_uint64 get_put_int32
  by (auto simp: new_counter_def counter_bytes_def counter_value_from_bytes_def split: go_value.splits if_splits)

lemma new_text_exists: "new_rga_tree_split text_ops initial_text_node \<noteq> None"
  by code_simp

text \<open>The value that is read back is sent as the same message.\<close>

lemma to_element_simple_grows:
  "grows h h' \<Longrightarrow> v < next_ref h \<Longrightarrow> to_element_simple h' v = to_element_simple h v"
  by (simp add: to_element_simple_def growsD)

lemma to_element_simple_new:
  "to_element_simple (snd (alloc c h)) (next_ref h) = to_element_simple \<lparr>cells = (\<lambda>_. c), next_ref = n\<rparr> r"
  by (simp add: to_element_simple_def)

lemma from_element_again:
  assumes "sendable_value h v" "to_element_simple h v = Some p"
  shows "\<exists>h1 v1. from_element (Some p) h0 = ok (h1, v1) \<and> grows h0 h1 \<and> same_value h v h1 v1 \<and>
    to_element_simple h1 v1 = Some p"
proof -
  let ?t = "created_at (cells h v)"
  have t: "wf_ticket ?t" using assms(1) by (simp add: sendable_value_def)
  have new: "\<exists>h1 v1. heap_new ?t b h2 = ok (h1, v1) \<and> grows h0 h1 \<and> same_value h v h1 v1 \<and>
      to_element_simple h1 v1 = Some p"
    if "grows h0 h2" "body_refs b \<subseteq> {next_ref h0..<next_ref h2}"
      "to_element_simple \<lparr>cells = (\<lambda>_. new_cell ?t b), next_ref = 0\<rparr> 0 = Some p"
      "same_body (snd (alloc (new_cell ?t b) h2)) ?t (body (cells h v)) b" for b h2
    using grows_alloc_after [OF that(1), of "new_cell ?t b"] that(2-)
    by (simp add: heap_new_def alloc_copy_def same_value_def to_element_simple_new [where n = 0 and r = 0] new_cell_def)
  note defs = to_element_simple_def from_element_def message_def sendable_value_def new_cell_def
  show ?thesis
  proof (cases "body (cells h v)")
    case (Primitive_Body q)
    then obtain g bs where g: "new_primitive g = Some q" "primitive_bytes q = Some bs"
      "p = \<lparr>ps_created_at = to_time_ticket (Some ?t), ps_type = to_value_type (value_type q), ps_value = bs\<rparr>"
      using assms by (auto simp: defs Let_def)
    obtain w q' where w: "value_from_bytes (value_type q) bs = Some w" "new_primitive w = Some q'"
      "value_type q' = value_type q" "primitive_bytes q' = Some bs" "prim_value q' = sent_value (prim_value q)"
      by (rule primitive_again [OF g(1,2)])
    have "from_element (Some p) h0 = heap_new ?t (Primitive_Body q') h0"
      using t w by (cases "value_type q") (simp_all add: defs g(3))
    then show ?thesis using new [OF grows_refl, of "Primitive_Body q'"] w(3-) Primitive_Body
      by (simp add: defs Let_def g(3))
  next
    case (Counter_Body c)
    then obtain g bs where g: "new_counter g = Some c" "counter_bytes c = Some bs"
      "p = \<lparr>ps_created_at = to_time_ticket (Some ?t), ps_type = to_counter_type (counter_type c), ps_value = bs\<rparr>"
      using assms by (auto simp: defs Let_def)
    have "from_element (Some p) h0 = heap_new ?t (Counter_Body c) h0"
      using t counter_again [OF g(1,2)] by (cases "counter_type c") (simp_all add: defs g(3))
    then show ?thesis using new [OF grows_refl, of "Counter_Body c"] g Counter_Body by (simp add: defs Let_def)
  next
    case (Object_Body m)
    then have p: "p = \<lparr>ps_created_at = to_time_ticket (Some ?t), ps_type = Pb_Json_Object, ps_value = []\<rparr>"
      using assms(2) by (simp add: defs Let_def)
    then have "from_element (Some p) h0 = heap_new ?t (Object_Body new_pq_map) h0" using t by (simp add: defs)
    then show ?thesis using new [OF grows_refl, of "Object_Body new_pq_map"] Object_Body
      by (simp add: defs p Let_def pm_refs_def pm_nodes_def new_pq_map_def)
  next
    case (Array_Body l)
    let ?d = "new_rga_tree_list dummy_body h0"
    have p: "p = \<lparr>ps_created_at = to_time_ticket (Some ?t), ps_type = Pb_Json_Array, ps_value = []\<rparr>"
      using assms(2) Array_Body by (simp add: defs Let_def)
    then have "from_element (Some p) h0 = heap_new ?t (Array_Body (snd ?d)) (fst ?d)"
      using t by (simp add: defs case_prod_beta)
    moreover have "heap_kept (fst ?d) (snd (alloc (new_cell ?t (Array_Body (snd ?d))) (fst ?d)))"
      by (simp add: heap_kept_def alloc_def)
    then have "same_body (snd (alloc (new_cell ?t (Array_Body (snd ?d))) (fst ?d))) ?t (body (cells h v)) (Array_Body (snd ?d))"
      using Array_Body by (metis prod.collapse same_body.simps(4))
    ultimately show ?thesis using new [OF new_list_grows(1), of "Array_Body (snd ?d)"] new_list_grows(2)
      by (simp add: defs p Let_def)
  next
    case (Text_Body x)
    then have p: "p = \<lparr>ps_created_at = to_time_ticket (Some ?t), ps_type = Pb_Text, ps_value = []\<rparr>"
      using assms(2) by (simp add: defs Let_def)
    obtain s where s: "new_rga_tree_split text_ops initial_text_node = Some s" using new_text_exists by blast
    then have "from_element (Some p) h0 = heap_new ?t (Text_Body (new_text s)) h0" using t by (simp add: defs p)
    then show ?thesis using new [OF grows_refl, of "Text_Body (new_text s)"] s Text_Body by (simp add: defs p Let_def)
  next
    case (Rich_Text_Body x)
    then have p: "p = \<lparr>ps_created_at = to_time_ticket (Some ?t), ps_type = Pb_Rich_Text, ps_value = []\<rparr>"
      using assms(2) by (simp add: defs Let_def)
    obtain s y where s: "new_rga_tree_split rich_ops initial_rich_text_node = Some s" "new_initial_rich_text s ?t = Some y"
      using assms(1) Rich_Text_Body by (auto simp: sendable_value_def)
    then have "from_element (Some p) h0 = heap_new ?t (Rich_Text_Body y) h0" using t by (simp add: defs p)
    then show ?thesis using new [OF grows_refl, of "Rich_Text_Body y"] s Rich_Text_Body by (simp add: defs p Let_def)
  qed
qed

section \<open>Operations, changes and packs\<close>

fun sendable_op :: "json_heap \<Rightarrow> operation \<Rightarrow> bool" where
  "sendable_op h (Set_Op c) \<longleftrightarrow> wf_ticket (set_parent c) \<and> wf_ticket (set_executed c) \<and> sendable_value h (set_value c)"
| "sendable_op h (Add_Op c) \<longleftrightarrow> wf_ticket (add_parent c) \<and> wf_ticket (add_prev c) \<and> wf_ticket (add_executed c) \<and>
     sendable_value h (add_value c)"
| "sendable_op h (Move_Op c) \<longleftrightarrow> wf_ticket (move_parent c) \<and> wf_ticket (move_prev c) \<and> wf_ticket (move_created c) \<and>
     wf_ticket (move_executed c)"
| "sendable_op h (Remove_Op c) \<longleftrightarrow> wf_ticket (remove_parent c) \<and> wf_ticket (remove_created c) \<and> wf_ticket (remove_executed c)"
| "sendable_op h (Increase_Op c) \<longleftrightarrow> wf_ticket (increase_parent c) \<and> wf_ticket (increase_executed c) \<and>
     sendable_value h (increase_value c)"
| "sendable_op h (Edit_Op c) \<longleftrightarrow> wf_ticket (edit_parent c) \<and> wf_pos (edit_from c) \<and> wf_pos (edit_to c) \<and>
     wf_latest (edit_latest c) \<and> wf_ticket (edit_executed c)"
| "sendable_op h (Rich_Edit_Op c) \<longleftrightarrow> wf_ticket (redit_parent c) \<and> wf_pos (redit_from c) \<and> wf_pos (redit_to c) \<and>
     wf_latest (redit_latest c) \<and> wf_ticket (redit_executed c)"
| "sendable_op h (Select_Op c) \<longleftrightarrow> wf_ticket (select_parent c) \<and> wf_pos (select_from c) \<and> wf_pos (select_to c) \<and>
     wf_ticket (select_executed c)"
| "sendable_op h (Style_Op c) \<longleftrightarrow> wf_ticket (style_parent c) \<and> wf_pos (style_from c) \<and> wf_pos (style_to c) \<and>
     wf_ticket (style_executed c)"

definition sendable_change :: "json_heap \<Rightarrow> change \<Rightarrow> bool" where
  "sendable_change h c \<longleftrightarrow> (case id_actor (ch_id c) of None \<Rightarrow> True | Some a \<Rightarrow> wf_actor a) \<and>
     list_all (sendable_op h) (ch_operations c)"

definition sendable_pack :: "json_heap \<Rightarrow> pack \<Rightarrow> bool" where
  "sendable_pack h p \<longleftrightarrow> (case pk_min_synced p of None \<Rightarrow> True | Some t \<Rightarrow> wf_ticket t) \<and>
     list_all (sendable_change h) (pk_changes p)"

text \<open>What an operation is sent as, in this heap and in every later one.\<close>

definition sent_as :: "(json_heap \<Rightarrow> 'a \<Rightarrow> 'b option) \<Rightarrow> json_heap \<Rightarrow> 'a \<Rightarrow> 'b \<Rightarrow> bool" where
  "sent_as to h c p \<longleftrightarrow> (\<forall>h'. grows h h' \<longrightarrow> to h' c = Some p)"

lemma sent_as_self: "sent_as to h c p \<Longrightarrow> to h c = Some p"
  by (simp add: sent_as_def)

lemma sent_as_grows: "sent_as to h c p \<Longrightarrow> grows h h' \<Longrightarrow> sent_as to h' c p"
  unfolding sent_as_def using grows_trans by blast

lemma to_latest_again [simp]:
  "to_created_at_map (Some (case m of None \<Rightarrow> [] | Some m \<Rightarrow> m)) = to_created_at_map m"
  by (cases m) (simp_all add: to_created_at_map_def)

lemma from_element_sent:
  assumes "sendable_value h v" "to_element_simple h v = Some p"
  obtains h1 v1 where "from_element (Some p) h0 = ok (h1, v1)" "grows h0 h1" "same_value h v h1 v1"
    "\<And>h'. grows h1 h' \<Longrightarrow> to_element_simple h' v1 = Some p"
  using from_element_again [OF assms, of h0] to_element_simple_grows same_value_def by metis

text \<open>What an operation arrives as: itself, with the value that was made for it; a nil map of latest
  creation times arrives empty.\<close>

definition arrived_latest :: "(string \<times> ticket) list option \<Rightarrow> (string \<times> ticket) list option" where
  "arrived_latest m = Some (case m of None \<Rightarrow> [] | Some m \<Rightarrow> m)"

fun same_op :: "json_heap \<Rightarrow> operation \<Rightarrow> json_heap \<Rightarrow> operation \<Rightarrow> bool" where
  "same_op h (Set_Op c) h1 d \<longleftrightarrow> (\<exists>v. d = Set_Op (c\<lparr>set_value := v\<rparr>) \<and> same_value h (set_value c) h1 v)"
| "same_op h (Add_Op c) h1 d \<longleftrightarrow> (\<exists>v. d = Add_Op (c\<lparr>add_value := v\<rparr>) \<and> same_value h (add_value c) h1 v)"
| "same_op h (Increase_Op c) h1 d \<longleftrightarrow>
     (\<exists>v. d = Increase_Op (c\<lparr>increase_value := v\<rparr>) \<and> same_value h (increase_value c) h1 v)"
| "same_op h (Edit_Op c) h1 d \<longleftrightarrow> d = Edit_Op (c\<lparr>edit_latest := arrived_latest (edit_latest c)\<rparr>)"
| "same_op h (Rich_Edit_Op c) h1 d \<longleftrightarrow> d = Rich_Edit_Op (c\<lparr>redit_latest := arrived_latest (redit_latest c)\<rparr>)"
| "same_op h (Move_Op c) h1 d \<longleftrightarrow> d = Move_Op c"
| "same_op h (Remove_Op c) h1 d \<longleftrightarrow> d = Remove_Op c"
| "same_op h (Select_Op c) h1 d \<longleftrightarrow> d = Select_Op c"
| "same_op h (Style_Op c) h1 d \<longleftrightarrow> d = Style_Op c"

definition same_change :: "json_heap \<Rightarrow> json_heap \<Rightarrow> change \<Rightarrow> change \<Rightarrow> bool" where
  "same_change h h1 c c1 \<longleftrightarrow> ch_id c1 = ch_id c \<and> ch_message c1 = ch_message c \<and>
     list_all2 (\<lambda>x y. same_op h x h1 y) (ch_operations c) (ch_operations c1)"

lemma same_op_grows: "same_op h c h1 c1 \<Longrightarrow> grows h1 h2 \<Longrightarrow> same_op h c h2 c1"
  using same_value_grows by (cases c) fastforce+

lemma same_ops_grows:
  "list_all2 (\<lambda>x y. same_op h x h1 y) cs cs1 \<Longrightarrow> grows h1 h2 \<Longrightarrow> list_all2 (\<lambda>x y. same_op h x h2 y) cs cs1"
  using same_op_grows by (auto elim: list_all2_mono)

lemma from_to_operation:
  assumes "sendable_op h c" "to_operation h c = Some p"
  shows "\<exists>h1 c1. from_operation p h0 = ok (h1, c1) \<and> grows h0 h1 \<and> same_op h c h1 c1 \<and>
    sent_as to_operation h1 c1 p"
proof (cases c)
  case (Set_Op x)
  then obtain e where e: "to_element_simple h (set_value x) = Some e"
    using assms(2) by (auto simp: to_set_def bind_eq_Some_conv)
  have "sendable_value h (set_value x)" using assms(1) Set_Op by simp
  from from_element_sent [OF this e] obtain h1 v1 where "from_element (Some e) h0 = ok (h1, v1)" "grows h0 h1"
    "same_value h (set_value x) h1 v1" "\<And>h'. grows h1 h' \<Longrightarrow> to_element_simple h' v1 = Some e" by blast
  moreover let ?d = "Set_Op (x\<lparr>set_value := v1\<rparr>)"
  have "from_operation p h0 = ok (h1, ?d)"
    using assms e Set_Op calculation(1) by (auto simp: to_set_def from_set_def)
  moreover have "same_op h c h1 ?d" using calculation(3) Set_Op by auto
  moreover have "sent_as to_operation h1 ?d p" using assms(2) e Set_Op calculation(4) by (auto simp: to_set_def sent_as_def)
  ultimately show ?thesis by blast
next
  case (Add_Op x)
  then obtain e where e: "to_element_simple h (add_value x) = Some e"
    using assms(2) by (auto simp: to_add_def bind_eq_Some_conv)
  have "sendable_value h (add_value x)" using assms(1) Add_Op by simp
  from from_element_sent [OF this e] obtain h1 v1 where "from_element (Some e) h0 = ok (h1, v1)" "grows h0 h1"
    "same_value h (add_value x) h1 v1" "\<And>h'. grows h1 h' \<Longrightarrow> to_element_simple h' v1 = Some e" by blast
  moreover let ?d = "Add_Op (x\<lparr>add_value := v1\<rparr>)"
  have "from_operation p h0 = ok (h1, ?d)"
    using assms e Add_Op calculation(1) by (auto simp: to_add_def from_add_def)
  moreover have "same_op h c h1 ?d" using calculation(3) Add_Op by auto
  moreover have "sent_as to_operation h1 ?d p" using assms(2) e Add_Op calculation(4) by (auto simp: to_add_def sent_as_def)
  ultimately show ?thesis by blast
next
  case (Increase_Op x)
  then obtain e where e: "to_element_simple h (increase_value x) = Some e"
    using assms(2) by (auto simp: to_increase_def bind_eq_Some_conv)
  have "sendable_value h (increase_value x)" using assms(1) Increase_Op by simp
  from from_element_sent [OF this e] obtain h1 v1 where "from_element (Some e) h0 = ok (h1, v1)" "grows h0 h1"
    "same_value h (increase_value x) h1 v1" "\<And>h'. grows h1 h' \<Longrightarrow> to_element_simple h' v1 = Some e" by blast
  moreover let ?d = "Increase_Op (x\<lparr>increase_value := v1\<rparr>)"
  have "from_operation p h0 = ok (h1, ?d)"
    using assms e Increase_Op calculation(1) by (auto simp: to_increase_def from_increase_def)
  moreover have "same_op h c h1 ?d" using calculation(3) Increase_Op by auto
  moreover have "sent_as to_operation h1 ?d p" using assms(2) e Increase_Op calculation(4) by (auto simp: to_increase_def sent_as_def)
  ultimately show ?thesis by blast
qed (use assms in \<open>auto simp: sent_as_def arrived_latest_def to_move_def from_move_def to_remove_def from_remove_def
  to_edit_def from_edit_def to_rich_edit_def from_rich_edit_def to_select_def from_select_def
  to_style_def from_style_def from_to_text_node_pos [THEN iffD2] from_to_created_at_map\<close>)

lemma from_to_operations:
  "list_all (sendable_op h) cs \<Longrightarrow> to_operations h cs = Some ps \<Longrightarrow>
     \<exists>h1 cs1. from_operations ps h0 = ok (h1, cs1) \<and> grows h0 h1 \<and>
       list_all2 (\<lambda>x y. same_op h x h1 y) cs cs1 \<and> sent_as to_operations h1 cs1 ps"
proof (induction cs arbitrary: ps h0)
  case (Cons c cs)
  then obtain p ps' where p: "to_operation h c = Some p" "to_operations h cs = Some ps'" "ps = p # ps'"
    by (auto simp: bind_eq_Some_conv)
  obtain h1 c1 where 1: "from_operation p h0 = ok (h1, c1)" "grows h0 h1" "same_op h c h1 c1" "sent_as to_operation h1 c1 p"
    using from_to_operation [OF _ p(1), of h0] Cons.prems(1) by auto
  obtain h2 cs2 where 2: "from_operations ps' h1 = ok (h2, cs2)" "grows h1 h2" "list_all2 (\<lambda>x y. same_op h x h2 y) cs cs2"
      "sent_as to_operations h2 cs2 ps'"
    using Cons.IH [OF _ p(2), of h1] Cons.prems(1) by auto
  have "sent_as to_operations h2 (c1 # cs2) ps"
    using sent_as_grows [OF 1(4) 2(2)] 2(4) by (simp add: sent_as_def p(3))
  then show ?case using 1 2 grows_trans [OF 1(2) 2(2)] same_op_grows [OF 1(3) 2(2)] by (auto simp: p(3))
qed (auto simp: sent_as_def)

lemma from_to_changes:
  "list_all (sendable_change h) cs \<Longrightarrow> to_changes h cs = Some ps \<Longrightarrow>
     \<exists>h1 cs1. from_changes ps h0 = ok (h1, cs1) \<and> grows h0 h1 \<and> sent_as to_changes h1 cs1 ps \<and>
       list_all2 (same_change h h1) cs cs1 \<and>
       map ch_id cs1 = map ch_id cs \<and> map ch_server_seq cs1 = map (\<lambda>_. None) cs"
proof (induction cs arbitrary: ps h0)
  case (Cons c cs)
  then obtain ops ps' where p: "to_operations h (ch_operations c) = Some ops" "to_changes h cs = Some ps'"
    "ps = \<lparr>pch_id = Some (to_change_id (ch_id c)), pch_message = ch_message c, pch_operations = ops\<rparr> # ps'"
    by (auto simp: bind_eq_Some_conv)
  obtain h1 ops1 where 1: "from_operations ops h0 = ok (h1, ops1)" "grows h0 h1" "sent_as to_operations h1 ops1 ops"
    "list_all2 (\<lambda>x y. same_op h x h1 y) (ch_operations c) ops1"
    using from_to_operations [OF _ p(1), of h0] Cons.prems(1) by (auto simp: sendable_change_def)
  obtain h2 cs2 where 2: "from_changes ps' h1 = ok (h2, cs2)" "grows h1 h2" "sent_as to_changes h2 cs2 ps'"
    "list_all2 (same_change h h2) cs cs2" "map ch_id cs2 = map ch_id cs" "map ch_server_seq cs2 = map (\<lambda>_. None) cs"
    using Cons.IH [OF _ p(2), of h1] Cons.prems(1) by auto
  have id: "from_change_id (to_change_id (ch_id c)) = ok (ch_id c)"
    using Cons.prems(1) by (cases "ch_id c") (auto simp: from_change_id_def to_change_id_def sendable_change_def new_id_def split: option.splits)
  have "sent_as to_changes h2 (new_change (ch_id c) (ch_message c) ops1 # cs2) ps"
    using sent_as_grows [OF 1(3) 2(2)] 2(3) by (simp add: sent_as_def p(3) new_change_def)
  then show ?case using 1 2 id grows_trans [OF 1(2) 2(2)] same_ops_grows [OF 1(4) 2(2)]
    by (simp add: p(3) message_def new_change_def) (simp add: same_change_def)
qed (auto simp: sent_as_def)

section \<open>Properties\<close>

text \<open>C11: A change pack that was sent is read without error, and the pack that is read has the same key,
  checkpoint, snapshot and minimal ticket and the same changes: each with its id and message, and its
  operations one by one with all their fields.  A value arrives as a new element of the same creation
  time: a primitive with its type and value (a date without the fraction of the second), a counter
  with its type and value, a container empty.  A nil map of latest creation times arrives empty, the
  server sequences of the changes are not sent.  What was read is sent as the same message again.\<close>
theorem change_pack_roundtrip:
  assumes "sendable_pack h p" "to_change_pack h p = Some m"
  shows "\<exists>h' p'. from_change_pack (Some m) h0 = ok (h', p') \<and> to_change_pack h' p' = Some m \<and>
    grows h0 h' \<and> list_all2 (same_change h h') (pk_changes p) (pk_changes p') \<and>
    pk_key p' = pk_key p \<and> pk_checkpoint p' = pk_checkpoint p \<and> pk_snapshot p' = pk_snapshot p \<and>
    pk_min_synced p' = pk_min_synced p \<and> map ch_id (pk_changes p') = map ch_id (pk_changes p) \<and>
    map ch_server_seq (pk_changes p') = map (\<lambda>_. None) (pk_changes p)"
proof -
  obtain cs where m: "to_changes h (pk_changes p) = Some cs"
    "m = \<lparr>ppk_document_key = Some (to_document_key (pk_key p)), ppk_checkpoint = Some (to_checkpoint (pk_checkpoint p)),
       ppk_snapshot = pk_snapshot p, ppk_changes = cs, ppk_min_synced = to_time_ticket (pk_min_synced p)\<rparr>"
    using assms(2) by (auto simp: to_change_pack_def bind_eq_Some_conv)
  obtain h1 cs1 where c: "from_changes cs h0 = ok (h1, cs1)" "sent_as to_changes h1 cs1 cs"
    "grows h0 h1" "list_all2 (same_change h h1) (pk_changes p) cs1" "map ch_id cs1 = map ch_id (pk_changes p)" "map ch_server_seq cs1 = map (\<lambda>_. None) (pk_changes p)"
    using from_to_changes [OF _ m(1), of h0] assms(1) by (auto simp: sendable_pack_def)
  have t: "from_time_ticket (to_time_ticket (pk_min_synced p)) = ok (pk_min_synced p)"
    using assms(1) from_to_time_ticket by (cases "pk_min_synced p") (auto simp: sendable_pack_def)
  have k: "from_document_key (to_document_key k) = k" "from_checkpoint (to_checkpoint cp) = cp" for k cp
    by (simp_all add: from_document_key_def to_document_key_def from_checkpoint_def to_checkpoint_def new_checkpoint_def)
  show ?thesis using c t k sent_as_self [OF c(2)]
    by (simp add: from_change_pack_def m(2) message_def to_change_pack_def)
qed

text \<open>C40: A position in a text survives the trip through a message exactly when its ticket is well formed
  and both its offsets fit in 32 bits.\<close>
theorem position_survives_int32:
  "from_text_node_pos (Some (to_text_node_pos p)) = ok p \<longleftrightarrow> wf_pos p"
  by (rule from_to_text_node_pos)

text \<open>The sample: a pack whose change sets a member to the integer of \<open>sample_json\<close> and edits a text.\<close>

definition sample_pos :: node_pos where
  "sample_pos = Node_Pos (Node_Id (sample_ticket 1) 0) 0"

definition sample_edit :: edit_op where
  "sample_edit = \<lparr>edit_parent = sample_ticket 1, edit_from = sample_pos, edit_to = sample_pos, edit_latest = None,
     edit_content = [97, 98], edit_executed = sample_ticket 2\<rparr>"

definition sample_sent :: pack where
  "sample_sent = new_pack \<lparr>collection = ''c'', document = ''d''\<rparr> (new_checkpoint 0 1)
     [new_change (next_id initial_id) ''m'' [Set_Op \<lparr>set_parent = sample_ticket 1, set_key = ''k'', set_value = 0,
        set_executed = sample_ticket 2\<rparr>, Edit_Op sample_edit]] []"

theorem change_pack_roundtrip_witness:
  "\<exists>m h' p' c v. to_change_pack sample_json sample_sent = Some m \<and> from_change_pack (Some m) sample_json = ok (h', p') \<and>
     to_change_pack h' p' = Some m \<and> pk_changes p' = [c] \<and> ch_message c = ''m'' \<and>
     ch_operations c = [Set_Op \<lparr>set_parent = sample_ticket 1, set_key = ''k'', set_value = v, set_executed = sample_ticket 2\<rparr>,
       Edit_Op (sample_edit\<lparr>edit_latest := Some []\<rparr>)] \<and>
     body (cells h' v) = Primitive_Body \<lparr>value_type = Integer_Type, prim_value = Go_Int 7\<rparr>"
proof -
  have t: "wf_ticket (sample_ticket n)" for n by (simp add: wf_ticket_def sample_ticket_def wf_actor_def initial_actor_id_def)
  have "new_primitive (Go_Int 7) = Some \<lparr>value_type = Integer_Type, prim_value = Go_Int 7\<rparr>" by code_simp
  then have v: "sendable_value sample_json 0" using t by (auto simp: sendable_value_def sample_json_def new_cell_def)
  have "id_actor (next_id initial_id) = None \<or> id_actor (next_id initial_id) = Some initial_actor_id" by code_simp
  moreover have "sendable_op sample_json (Edit_Op sample_edit)"
    using t by (simp add: sample_edit_def sample_pos_def wf_pos_def fits_int32_def wf_latest_def)
  ultimately have "sendable_pack sample_json sample_sent"
    using v t by (auto simp: sendable_pack_def sendable_change_def sample_sent_def new_pack_def new_change_def
        wf_actor_def initial_actor_id_def split: option.splits)
  moreover obtain m where "to_change_pack sample_json sample_sent = Some m"
    by (simp add: to_change_pack_def sample_sent_def new_pack_def new_change_def to_set_def to_element_simple_def
        sample_json_def new_cell_def primitive_bytes_def)
  ultimately obtain h' p' where p: "from_change_pack (Some m) sample_json = ok (h', p')" "to_change_pack h' p' = Some m"
    "list_all2 (same_change sample_json h') (pk_changes sample_sent) (pk_changes p')" "to_change_pack sample_json sample_sent = Some m"
    using change_pack_roundtrip [of sample_json sample_sent m sample_json] by blast
  then obtain c v where "pk_changes p' = [c]" "ch_message c = ''m''" "same_value sample_json 0 h' v"
    "ch_operations c = [Set_Op \<lparr>set_parent = sample_ticket 1, set_key = ''k'', set_value = v, set_executed = sample_ticket 2\<rparr>,
       Edit_Op (sample_edit\<lparr>edit_latest := Some []\<rparr>)]"
    by (auto simp: sample_sent_def new_pack_def new_change_def same_change_def list_all2_Cons1 arrived_latest_def
        sample_edit_def)
  moreover from this(3) have "body (cells h' v) = Primitive_Body \<lparr>value_type = Integer_Type, prim_value = Go_Int 7\<rparr>"
    by (auto simp: same_value_def sample_json_def new_cell_def)
  ultimately show ?thesis using p by blast
qed

end
