(* ===== verification/Mongo_Client.thy ===== *)
theory Mongo_Client
  imports Server
begin

text \<open>
  The database of the server, \<open>src/yorkie/backend/db/mongo\<close>: every method of \<open>Client\<close> that reads or
  writes a collection, with the filters and updates it sends as data.  MongoDB and its driver are
  the record \<open>mongo\<close>, an argument: the operations on a collection, the conversions of object ids
  and the reading of one field of a result into a Go variable.  Timeouts and logging
  are left out; a wall clock time in a document is the value \<open>B_Time\<close>.
\<close>

section \<open>Documents, filters and updates\<close>

type_synonym object_id = "byte list"

datatype bson =
    B_Id object_id | B_Str string | B_Num int | B_Bytes "byte list" | B_Array "bson list"
  | B_Doc "(string \<times> bson) list" | B_Time

type_synonym bson_doc = "(string \<times> bson) list"

text \<open>A field is compared with a value, or must be in a range (\<open>$gte\<close> and \<open>$lte\<close>).\<close>

datatype condition = Equals bson | In_Range int int

type_synonym mongo_filter = "(string \<times> condition) list"

record mongo_update =
  up_set :: bson_doc
  up_max :: bson_doc

definition set_fields :: "bson_doc \<Rightarrow> mongo_update" where
  "set_fields d = \<lparr>up_set = d, up_max = []\<rparr>"

record update_result =
  ur_matched_count :: nat
  ur_upserted_count :: nat
  ur_upserted_id :: bson

record index_model =
  ix_keys :: "(string \<times> int) list"
  ix_unique :: bool

section \<open>The driver\<close>

text \<open>A result of \<open>FindOne\<close>: the error of the driver, no document, or the document.\<close>

type_synonym 'e single_result = "'e + bson_doc option"

text \<open>The fields \<open>dec_\<close> read a tagged field into a variable of its type; \<open>dec_client_rest\<close> is what a
  failed \<open>Decode\<close> leaves in the client record.\<close>

record ('s, 'e) mongo =
  oid_from_hex :: "string \<Rightarrow> object_id option"
  oid_hex :: "object_id \<Rightarrow> string"
  mg_connect :: "string \<Rightarrow> 's \<Rightarrow> 's \<times> ('e + unit)"
  mg_ping :: "'s \<Rightarrow> 's \<times> ('e + unit)"
  mg_disconnect :: "'s \<Rightarrow> 's \<times> ('e + unit)"
  mg_create_indexes :: "string \<Rightarrow> index_model list \<Rightarrow> 's \<Rightarrow> 's \<times> ('e + unit)"
  mg_update_one :: "string \<Rightarrow> mongo_filter \<Rightarrow> mongo_update \<Rightarrow> bool \<Rightarrow> 's \<Rightarrow> 's \<times> ('e + update_result)"
  mg_find_one :: "string \<Rightarrow> mongo_filter \<Rightarrow> (string \<times> int) list \<Rightarrow> 's \<Rightarrow> 's \<times> 'e single_result"
  mg_find_one_and_update :: "string \<Rightarrow> mongo_filter \<Rightarrow> mongo_update \<Rightarrow> 's \<Rightarrow> 's \<times> 'e single_result"
  mg_find :: "string \<Rightarrow> mongo_filter \<Rightarrow> 's \<Rightarrow> 's \<times> ('e + bson_doc list \<times> 'e option)"
  mg_bulk_write :: "string \<Rightarrow> (mongo_filter \<times> mongo_update \<times> bool) list \<Rightarrow> 's \<Rightarrow> 's \<times> ('e + unit)"
  mg_insert_one :: "string \<Rightarrow> bson_doc \<Rightarrow> 's \<Rightarrow> 's \<times> ('e + unit)"
  mg_delete_one :: "string \<Rightarrow> mongo_filter \<Rightarrow> 's \<Rightarrow> 's \<times> ('e + unit)"
  dec_id :: "string \<Rightarrow> bson_doc \<Rightarrow> 'e + object_id"
  dec_string :: "string \<Rightarrow> bson_doc \<Rightarrow> 'e + string"
  dec_uint64 :: "string \<Rightarrow> bson_doc \<Rightarrow> 'e + 64 word"
  dec_uint32 :: "string \<Rightarrow> bson_doc \<Rightarrow> 'e + 32 word"
  dec_bytes :: "string \<Rightarrow> bson_doc \<Rightarrow> 'e + byte list option"
  dec_bytes_list :: "string \<Rightarrow> bson_doc \<Rightarrow> 'e + byte list list"
  dec_docs :: "string \<Rightarrow> bson_doc \<Rightarrow> 'e + (string \<times> bson_doc) list"
  dec_client_rest :: "bson_doc \<Rightarrow> client_info"

datatype 'e mongo_error =
    Client_Not_Found string | Document_Not_Found string | Conflict_On_Update string | Invalid_Id string
  | No_Documents | Driver_Error 'e | Encode_Error | Record_Error "unit server_error" | Change_Error conv_error

type_synonym ('s, 'e, 'a) mongo_io = "('s, 'e mongo_error, 'a) io"

definition driver :: "('s \<Rightarrow> 's \<times> ('e + 'a)) \<Rightarrow> ('s, 'e, 'a) mongo_io" where
  "driver f = (\<lambda>s. case f s of (s, Inl e) \<Rightarrow> Some (s, Inl (Driver_Error e)) | (s, Inr a) \<Rightarrow> Some (s, Inr a))"

definition single :: "('s \<Rightarrow> 's \<times> 'e single_result) \<Rightarrow> ('s, 'e, 'e single_result) mongo_io" where
  "single f = (\<lambda>s. case f s of (s, r) \<Rightarrow> Some (s, Inr r))"

text \<open>A computation without the database, and the error it returns.\<close>

definition step_of :: "('f \<Rightarrow> 'e mongo_error) \<Rightarrow> ('f, 'a) result \<Rightarrow> ('s, 'e, 'a) mongo_io" where
  "step_of g r = (\<lambda>s. case r of None \<Rightarrow> None | Some (Inl e) \<Rightarrow> Some (s, Inl (g e)) | Some (Inr a) \<Rightarrow> Some (s, Inr a))"

definition sum_of :: "'e mongo_error + 'a \<Rightarrow> ('s, 'e, 'a) mongo_io" where
  "sum_of r = step_of id (Some r)"

text \<open>\<open>result.Err()\<close>\<close>

definition result_err :: "'e single_result \<Rightarrow> 'e mongo_error option" where
  "result_err r = (case r of Inl e \<Rightarrow> Some (Driver_Error e) | Inr None \<Rightarrow> Some No_Documents | Inr (Some _) \<Rightarrow> None)"

section \<open>Collections and indexes\<close>

definition col_clients :: string where "col_clients = ''clients''"
definition col_documents :: string where "col_documents = ''documents''"
definition col_changes :: string where "col_changes = ''changes''"
definition col_snapshots :: string where "col_snapshots = ''snapshots''"
definition col_synced_seqs :: string where "col_synced_seqs = ''syncedseqs''"

definition idx_client_infos :: "index_model list" where
  "idx_client_infos = [\<lparr>ix_keys = [(''key'', 1)], ix_unique = True\<rparr>]"

definition idx_doc_infos :: "index_model list" where
  "idx_doc_infos = [\<lparr>ix_keys = [(''key'', 1)], ix_unique = True\<rparr>]"

definition idx_changes :: "index_model list" where
  "idx_changes = [\<lparr>ix_keys = [(''doc_id'', 1), (''server_seq'', 1)], ix_unique = True\<rparr>]"

definition idx_snapshots :: "index_model list" where
  "idx_snapshots = [\<lparr>ix_keys = [(''doc_id'', 1), (''server_seq'', 1)], ix_unique = True\<rparr>]"

definition idx_synced_seqs :: "index_model list" where
  "idx_synced_seqs = [\<lparr>ix_keys = [(''doc_id'', 1), (''client_id'', 1)], ix_unique = True\<rparr>,
     \<lparr>ix_keys = [(''doc_id'', 1), (''server_seq'', 1)], ix_unique = False\<rparr>]"

definition ensure_indexes :: "('s, 'e) mongo \<Rightarrow> ('s, 'e, unit) mongo_io" where
  "ensure_indexes m =
     io_bind (driver (mg_create_indexes m col_clients idx_client_infos)) (\<lambda>_.
     io_bind (driver (mg_create_indexes m col_documents idx_doc_infos)) (\<lambda>_.
     io_bind (driver (mg_create_indexes m col_changes idx_changes)) (\<lambda>_.
     io_bind (driver (mg_create_indexes m col_snapshots idx_snapshots)) (\<lambda>_.
     driver (mg_create_indexes m col_synced_seqs idx_synced_seqs)))))"

section \<open>The connection\<close>

record mongo_config =
  mc_connection_timeout :: int
  mc_connection_uri :: string
  mc_ping_timeout :: int
  mc_yorkie_database :: string

text \<open>A connection that does not answer, or whose indexes cannot be made, is not closed.\<close>

definition mongo_dial :: "('s, 'e) mongo \<Rightarrow> mongo_config \<Rightarrow> ('s, 'e, unit) mongo_io" where
  "mongo_dial m conf =
     io_bind (driver (mg_connect m (mc_connection_uri conf))) (\<lambda>_.
     io_bind (driver (mg_ping m)) (\<lambda>_.
     ensure_indexes m))"

definition mongo_close :: "('s, 'e) mongo \<Rightarrow> ('s, 'e, unit) mongo_io" where
  "mongo_close m = driver (mg_disconnect m)"

section \<open>Encoding and decoding\<close>

definition encode_id :: "('s, 'e) mongo \<Rightarrow> db_id \<Rightarrow> 'e mongo_error + object_id" where
  "encode_id m i = (case oid_from_hex m i of None \<Rightarrow> Inl (Invalid_Id i) | Some o1 \<Rightarrow> Inr o1)"

text \<open>A nil actor is dereferenced.\<close>

definition encode_actor_id :: "actor_id option \<Rightarrow> object_id option" where
  "encode_actor_id a = a"

definition decode_id :: "('s, 'e) mongo \<Rightarrow> object_id \<Rightarrow> db_id" where
  "decode_id m o1 = oid_hex m o1"

definition bind_sum :: "'e + 'a \<Rightarrow> ('a \<Rightarrow> 'e + 'b) \<Rightarrow> 'e + 'b" where
  "bind_sum r f = (case r of Inl e \<Rightarrow> Inl e | Inr a \<Rightarrow> f a)"

text \<open>\<open>result.Decode\<close> into a structure: an error of the result itself comes first.\<close>

definition decode_single :: "(bson_doc \<Rightarrow> 'e + 'a) \<Rightarrow> 'e single_result \<Rightarrow> 'e mongo_error + 'a" where
  "decode_single f r = (case r of
     Inl e \<Rightarrow> Inl (Driver_Error e)
   | Inr None \<Rightarrow> Inl No_Documents
   | Inr (Some d) \<Rightarrow> (case f d of Inl e \<Rightarrow> Inl (Driver_Error e) | Inr a \<Rightarrow> Inr a))"

definition client_status_of :: "string \<Rightarrow> client_status" where
  "client_status_of s = (if s = ''activated'' then Client_Activated
     else if s = ''deactivated'' then Client_Deactivated else Other_Client_Status s)"

fun client_status_string :: "client_status \<Rightarrow> string" where
  "client_status_string Client_Activated = ''activated''"
| "client_status_string Client_Deactivated = ''deactivated''"
| "client_status_string (Other_Client_Status s) = s"

definition attach_status_of :: "string \<Rightarrow> attach_status" where
  "attach_status_of s = (if s = ''attached'' then Document_Attached
     else if s = ''detached'' then Document_Detached else Other_Attach_Status s)"

fun attach_status_string :: "attach_status \<Rightarrow> string" where
  "attach_status_string Document_Attached = ''attached''"
| "attach_status_string Document_Detached = ''detached''"
| "attach_status_string (Other_Attach_Status s) = s"

definition decode_client_doc_info :: "('s, 'e) mongo \<Rightarrow> bson_doc \<Rightarrow> 'e + client_doc_info" where
  "decode_client_doc_info m d =
     bind_sum (dec_string m ''status'' d) (\<lambda>st.
     bind_sum (dec_uint64 m ''server_seq'' d) (\<lambda>s.
     bind_sum (dec_uint32 m ''client_seq'' d) (\<lambda>c.
     Inr \<lparr>cdi_status = attach_status_of st, cdi_server_seq = s, cdi_client_seq = c\<rparr>)))"

fun map_sum_list :: "('a \<Rightarrow> 'e + 'b) \<Rightarrow> 'a list \<Rightarrow> 'e + 'b list" where
  "map_sum_list f [] = Inr []"
| "map_sum_list f (x # xs) = bind_sum (f x) (\<lambda>y. bind_sum (map_sum_list f xs) (\<lambda>ys. Inr (y # ys)))"

definition decode_client_info :: "('s, 'e) mongo \<Rightarrow> 'e single_result \<Rightarrow> 'e mongo_error + client_info" where
  "decode_client_info m = decode_single (\<lambda>d.
     bind_sum (dec_id m ''_id'' d) (\<lambda>i.
     bind_sum (dec_string m ''key'' d) (\<lambda>k.
     bind_sum (dec_string m ''status'' d) (\<lambda>st.
     bind_sum (dec_docs m ''documents'' d) (\<lambda>ds.
     bind_sum (map_sum_list (\<lambda>(i, e). map_sum id (Pair i) (decode_client_doc_info m e)) ds) (\<lambda>docs.
     Inr \<lparr>ci_id = decode_id m i, ci_key = k, ci_status = client_status_of st, ci_documents = docs\<rparr>))))))"

definition decode_doc_info :: "('s, 'e) mongo \<Rightarrow> 'e single_result \<Rightarrow> 'e mongo_error + doc_info" where
  "decode_doc_info m = decode_single (\<lambda>d.
     bind_sum (dec_id m ''_id'' d) (\<lambda>i.
     bind_sum (dec_id m ''owner'' d) (\<lambda>w.
     bind_sum (dec_string m ''key'' d) (\<lambda>k.
     bind_sum (dec_uint64 m ''server_seq'' d) (\<lambda>s.
     Inr \<lparr>di_id = decode_id m i, di_key = k, di_server_seq = s, di_owner = decode_id m w\<rparr>)))))"

definition decode_change_info :: "('s, 'e) mongo \<Rightarrow> 'e single_result \<Rightarrow> 'e mongo_error + change_info" where
  "decode_change_info m = decode_single (\<lambda>d.
     bind_sum (dec_id m ''actor'' d) (\<lambda>a.
     bind_sum (dec_uint64 m ''server_seq'' d) (\<lambda>s.
     bind_sum (dec_uint32 m ''client_seq'' d) (\<lambda>c.
     bind_sum (dec_uint64 m ''lamport'' d) (\<lambda>l.
     bind_sum (dec_string m ''message'' d) (\<lambda>msg.
     bind_sum (dec_bytes_list m ''operations'' d) (\<lambda>ops.
     Inr \<lparr>chi_server_seq = s, chi_client_seq = c, chi_lamport = l, chi_actor = decode_id m a,
       chi_message = msg, chi_operations = ops\<rparr>)))))))"

record synced_seq_info =
  ssi_doc_id :: db_id
  ssi_client_id :: db_id
  ssi_server_seq :: "64 word"

definition decode_synced_seq_info :: "('s, 'e) mongo \<Rightarrow> 'e single_result \<Rightarrow> 'e mongo_error + synced_seq_info" where
  "decode_synced_seq_info m = decode_single (\<lambda>d.
     bind_sum (dec_id m ''doc_id'' d) (\<lambda>i.
     bind_sum (dec_id m ''client_id'' d) (\<lambda>c.
     bind_sum (dec_uint64 m ''server_seq'' d) (\<lambda>s.
     Inr \<lparr>ssi_doc_id = decode_id m i, ssi_client_id = decode_id m c, ssi_server_seq = s\<rparr>))))"

definition decode_snapshot_info :: "('s, 'e) mongo \<Rightarrow> 'e single_result \<Rightarrow> 'e mongo_error + snapshot_info" where
  "decode_snapshot_info m = decode_single (\<lambda>d.
     bind_sum (dec_id m ''_id'' d) (\<lambda>_.
     bind_sum (dec_id m ''doc_id'' d) (\<lambda>_.
     bind_sum (dec_uint64 m ''server_seq'' d) (\<lambda>s.
     bind_sum (dec_bytes m ''snapshot'' d) (\<lambda>bs.
     Inr \<lparr>si_server_seq = s, si_snapshot = bs\<rparr>)))))"

section \<open>Clients\<close>

definition mongo_activate_client :: "('s, 'e) mongo \<Rightarrow> string \<Rightarrow> ('s, 'e, client_info) mongo_io" where
  "mongo_activate_client m key =
     io_bind (driver (mg_update_one m col_clients [(''key'', Equals (B_Str key))]
       (set_fields [(''status'', B_Str (client_status_string Client_Activated)), (''updated_at'', B_Time)]) True)) (\<lambda>res.
     io_bind (single (if ur_upserted_count res > 0
       then mg_find_one_and_update m col_clients [(''_id'', Equals (ur_upserted_id res))]
         (set_fields [(''created_at'', B_Time)])
       else mg_find_one m col_clients [(''key'', Equals (B_Str key))] [])) (\<lambda>r.
     sum_of (decode_client_info m r)))"

definition mongo_deactivate_client :: "('s, 'e) mongo \<Rightarrow> db_id \<Rightarrow> ('s, 'e, client_info) mongo_io" where
  "mongo_deactivate_client m i =
     io_bind (sum_of (encode_id m i)) (\<lambda>o1.
     io_bind (single (mg_find_one_and_update m col_clients [(''_id'', Equals (B_Id o1))]
       (set_fields [(''status'', B_Str (client_status_string Client_Deactivated)), (''updated_at'', B_Time)]))) (\<lambda>r.
     case decode_client_info m r of
       Inl e \<Rightarrow> io_fail (if e = No_Documents then Client_Not_Found i else e)
     | Inr ci \<Rightarrow> io_return ci))"

text \<open>The zero value of the record, which is what is left when nothing was decoded.\<close>

definition zero_client_info :: client_info where
  "zero_client_info = \<lparr>ci_id = [], ci_key = [], ci_status = Other_Client_Status [], ci_documents = []\<rparr>"

definition mongo_find_client :: "('s, 'e) mongo \<Rightarrow> db_id \<Rightarrow> ('s, 'e, client_info) mongo_io" where
  "mongo_find_client m i =
     io_bind (sum_of (encode_id m i)) (\<lambda>o1.
     io_bind (single (mg_find_one m col_clients [(''_id'', Equals (B_Id o1))] [])) (\<lambda>r.
     case decode_client_info m r of
       Inr ci \<Rightarrow> io_return ci
     | Inl e \<Rightarrow> if e = No_Documents then io_fail (Client_Not_Found i)
         else io_return (case r of Inr (Some d) \<Rightarrow> dec_client_rest m d | _ \<Rightarrow> zero_client_info)))"

text \<open>The record of the document in the client is read before it is checked to be there.\<close>

definition mongo_update_client :: "('s, 'e) mongo \<Rightarrow> client_info \<Rightarrow> doc_info \<Rightarrow> ('s, 'e, unit) mongo_io" where
  "mongo_update_client m ci di =
     (let k = ''documents.'' @ di_id di @ ''.'' in
      case map_of (ci_documents ci) (di_id di) of
        None \<Rightarrow> (\<lambda>_. None)
      | Some cdi \<Rightarrow>
        io_bind (step_of Record_Error (Some (client_is_attached (di_id di) ci))) (\<lambda>attached.
        io_bind (single (mg_find_one_and_update m col_clients [(''key'', Equals (B_Str (ci_key ci)))]
          (if attached
           then \<lparr>up_set = [(k @ ''status'', B_Str (attach_status_string (cdi_status cdi))), (''updated_at'', B_Time)],
             up_max = [(k @ ''server_seq'', B_Num (uint (cdi_server_seq cdi))),
               (k @ ''client_seq'', B_Num (uint (cdi_client_seq cdi)))]\<rparr>
           else set_fields [(k @ ''server_seq'', B_Num 0), (k @ ''client_seq'', B_Num 0),
             (k @ ''status'', B_Str (attach_status_string (cdi_status cdi))), (''updated_at'', B_Time)]))) (\<lambda>r.
        case result_err r of
          None \<Rightarrow> io_return ()
        | Some e \<Rightarrow> io_fail (if e = No_Documents then Client_Not_Found (ci_key ci) else e))))"

section \<open>Documents and changes\<close>

definition mongo_find_doc :: "('s, 'e) mongo \<Rightarrow> client_info \<Rightarrow> string \<Rightarrow> bool \<Rightarrow> ('s, 'e, doc_info) mongo_io" where
  "mongo_find_doc m ci key create =
     io_bind (sum_of (encode_id m (ci_id ci))) (\<lambda>owner.
     io_bind (driver (mg_update_one m col_documents [(''key'', Equals (B_Str key))]
       (set_fields [(''accessed_at'', B_Time)]) create)) (\<lambda>res.
     io_bind (if ur_upserted_count res > 0
       then single (mg_find_one_and_update m col_documents [(''_id'', Equals (ur_upserted_id res))]
         (set_fields [(''owner'', B_Id owner), (''server_seq'', B_Num 0), (''created_at'', B_Time)]))
       else io_bind (single (mg_find_one m col_documents [(''key'', Equals (B_Str key))] [])) (\<lambda>r.
         case result_err r of
           None \<Rightarrow> io_return r
         | Some e \<Rightarrow> io_fail (if e = No_Documents then Document_Not_Found key else e))) (\<lambda>r.
     sum_of (decode_doc_info m r))))"

definition change_filter :: "object_id \<Rightarrow> 64 word \<Rightarrow> mongo_filter" where
  "change_filter d s = [(''doc_id'', Equals (B_Id d)), (''server_seq'', Equals (B_Num (uint s)))]"

text \<open>The write of one change.  The outer \<open>None\<close> is a nil server sequence or actor.\<close>

definition change_model :: "op_codec \<Rightarrow> json_heap \<Rightarrow> object_id \<Rightarrow> change \<Rightarrow>
    (unit, mongo_filter \<times> mongo_update \<times> bool) result" where
  "change_model codec h d c =
     checked (encode_operations codec h (ch_operations c)) (\<lambda>ops.
     panics (change_server_seq c) (\<lambda>s.
     panics (encode_actor_id (id_actor (ch_id c))) (\<lambda>a.
     ok (change_filter d s, set_fields [(''actor'', B_Id a),
       (''client_seq'', B_Num (uint (id_client_seq (ch_id c)))),
       (''lamport'', B_Num (uint (id_lamport (ch_id c)))),
       (''message'', B_Str (ch_message c)),
       (''operations'', B_Array (map B_Bytes ops))], True))))"

text \<open>The two phases of \<open>StoreChangeInfos\<close>: the changes are written, then the sequence of the document
  is moved forward if it is still the one the push started from.\<close>

definition write_changes :: "('s, 'e) mongo \<Rightarrow> op_codec \<Rightarrow> json_heap \<Rightarrow> object_id \<Rightarrow> change list \<Rightarrow>
    ('s, 'e, unit) mongo_io" where
  "write_changes m codec h d cs =
     io_bind (step_of (\<lambda>_. Encode_Error) (checked_map (change_model codec h d) cs)) (\<lambda>models.
     driver (mg_bulk_write m col_changes models))"

definition advance_server_seq :: "('s, 'e) mongo \<Rightarrow> object_id \<Rightarrow> doc_info \<Rightarrow> 64 word \<Rightarrow> ('s, 'e, unit) mongo_io" where
  "advance_server_seq m d di initial =
     io_bind (driver (mg_update_one m col_documents
       [(''_id'', Equals (B_Id d)), (''server_seq'', Equals (B_Num (uint initial)))]
       (set_fields [(''server_seq'', B_Num (uint (di_server_seq di))), (''updated_at'', B_Time)]) False)) (\<lambda>res.
     if ur_matched_count res = 0 then io_fail (Conflict_On_Update (di_id di)) else io_return ())"

definition mongo_store_changes :: "('s, 'e) mongo \<Rightarrow> op_codec \<Rightarrow> json_heap \<Rightarrow> doc_info \<Rightarrow> 64 word \<Rightarrow> change list \<Rightarrow>
    ('s, 'e, unit) mongo_io" where
  "mongo_store_changes m codec h di initial cs =
     io_bind (sum_of (encode_id m (di_id di))) (\<lambda>d.
     io_bind (write_changes m codec h d cs) (\<lambda>_.
     advance_server_seq m d di initial))"

definition mongo_create_snapshot :: "('s, 'e) mongo \<Rightarrow> (pb_element \<Rightarrow> 8 word list option) \<Rightarrow> json_heap \<Rightarrow> db_id \<Rightarrow>
    internal_document \<Rightarrow> ('s, 'e, unit) mongo_io" where
  "mongo_create_snapshot m marshal h i doc =
     io_bind (sum_of (encode_id m i)) (\<lambda>d.
     io_bind (step_of Change_Error (object_to_bytes marshal h (root_object (idoc_root doc)))) (\<lambda>bs.
     driver (mg_insert_one m col_snapshots [(''doc_id'', B_Id d),
       (''server_seq'', B_Num (uint (cp_server_seq (idoc_checkpoint doc)))),
       (''snapshot'', B_Bytes bs), (''created_at'', B_Time)])))"

text \<open>The loop over the cursor.\<close>

fun read_changes :: "('s, 'e) mongo \<Rightarrow> op_codec \<Rightarrow> bson_doc list \<Rightarrow> json_heap \<Rightarrow>
    ('e mongo_error, json_heap \<times> change list) result" where
  "read_changes m codec [] h = ok (h, [])"
| "read_changes m codec (d # ds) h =
     (case decode_change_info m (Inr (Some d)) of
        Inl e \<Rightarrow> fail e
      | Inr i \<Rightarrow> (case info_to_change codec i h of
          None \<Rightarrow> None
        | Some (Inl e) \<Rightarrow> fail (Change_Error e)
        | Some (Inr (h, c)) \<Rightarrow> checked (read_changes m codec ds h) (\<lambda>(h, cs). ok (h, c # cs))))"

definition mongo_find_changes :: "('s, 'e) mongo \<Rightarrow> op_codec \<Rightarrow> db_id \<Rightarrow> 64 word \<Rightarrow> 64 word \<Rightarrow> json_heap \<Rightarrow>
    ('s, 'e, json_heap \<times> change list) mongo_io" where
  "mongo_find_changes m codec i from to h =
     io_bind (sum_of (encode_id m i)) (\<lambda>d.
     io_bind (driver (mg_find m col_changes
       [(''doc_id'', Equals (B_Id d)), (''server_seq'', In_Range (uint from) (uint to))])) (\<lambda>(ds, err).
     io_bind (step_of id (read_changes m codec ds h)) (\<lambda>(h, cs).
     case err of None \<Rightarrow> io_return (h, cs) | Some e \<Rightarrow> io_fail (Driver_Error e))))"

section \<open>Synced sequences and snapshots\<close>

definition max_delimiter :: "32 word" where
  "max_delimiter = 2 ^ 32 - 1"

definition find_ticket_by_server_seq :: "('s, 'e) mongo \<Rightarrow> db_id \<Rightarrow> 64 word \<Rightarrow> ('s, 'e, ticket) mongo_io" where
  "find_ticket_by_server_seq m i s =
     io_bind (sum_of (encode_id m i)) (\<lambda>d.
     io_bind (single (mg_find_one m col_changes (change_filter d s) [])) (\<lambda>r.
     case result_err r of
       Some e \<Rightarrow> io_fail (if e = No_Documents then Document_Not_Found i else e)
     | None \<Rightarrow>
       io_bind (sum_of (decode_change_info m r)) (\<lambda>ci.
       io_bind (step_of (\<lambda>e. Change_Error (Actor_Error e)) (Some (actor_id_from_hex (chi_actor ci)))) (\<lambda>a.
       io_return (Ticket (chi_lamport ci) max_delimiter a)))))"

definition synced_seq_filter :: "object_id \<Rightarrow> object_id \<Rightarrow> mongo_filter" where
  "synced_seq_filter d c = [(''doc_id'', Equals (B_Id d)), (''client_id'', Equals (B_Id c))]"

text \<open>Step 01: the sequence of the client is set, or removed when the document is not attached.\<close>

definition update_synced_seq :: "('s, 'e) mongo \<Rightarrow> client_info \<Rightarrow> db_id \<Rightarrow> 64 word \<Rightarrow> ('s, 'e, unit) mongo_io" where
  "update_synced_seq m ci i s =
     io_bind (sum_of (encode_id m i)) (\<lambda>d.
     io_bind (sum_of (encode_id m (ci_id ci))) (\<lambda>c.
     io_bind (step_of Record_Error (Some (client_is_attached i ci))) (\<lambda>attached.
     if attached
     then io_bind (driver (mg_update_one m col_synced_seqs (synced_seq_filter d c)
       (set_fields [(''server_seq'', B_Num (uint s))]) True)) (\<lambda>_. io_return ())
     else driver (mg_delete_one m col_synced_seqs (synced_seq_filter d c)))))"

text \<open>Steps 02 and 03: the least of the sequences of the document, and the ticket of its change.\<close>

definition find_min_synced_ticket :: "('s, 'e) mongo \<Rightarrow> db_id \<Rightarrow> ('s, 'e, ticket) mongo_io" where
  "find_min_synced_ticket m i =
     io_bind (sum_of (encode_id m i)) (\<lambda>d.
     io_bind (single (mg_find_one m col_synced_seqs [(''doc_id'', Equals (B_Id d))] [(''server_seq'', 1)])) (\<lambda>r.
     case result_err r of
       Some e \<Rightarrow> if e = No_Documents then io_return initial_ticket else io_fail e
     | None \<Rightarrow>
       io_bind (sum_of (decode_synced_seq_info m r)) (\<lambda>ssi.
       if ssi_server_seq ssi = 0 then io_return initial_ticket
       else find_ticket_by_server_seq m i (ssi_server_seq ssi))))"

definition update_and_find_min_synced_ticket :: "('s, 'e) mongo \<Rightarrow> client_info \<Rightarrow> db_id \<Rightarrow> 64 word \<Rightarrow>
    ('s, 'e, ticket) mongo_io" where
  "update_and_find_min_synced_ticket m ci i s =
     io_bind (update_synced_seq m ci i s) (\<lambda>_. find_min_synced_ticket m i)"

definition mongo_last_snapshot :: "('s, 'e) mongo \<Rightarrow> db_id \<Rightarrow> ('s, 'e, snapshot_info) mongo_io" where
  "mongo_last_snapshot m i =
     io_bind (sum_of (encode_id m i)) (\<lambda>d.
     io_bind (single (mg_find_one m col_snapshots [(''doc_id'', Equals (B_Id d))] [(''server_seq'', -1)])) (\<lambda>r.
     case result_err r of
       Some e \<Rightarrow> if e = No_Documents then io_return \<lparr>si_server_seq = 0, si_snapshot = None\<rparr> else io_fail e
     | None \<Rightarrow> sum_of (decode_snapshot_info m r)))"

text \<open>The client as the database of the server.\<close>

definition mongo_db :: "('s, 'e) mongo \<Rightarrow> op_codec \<Rightarrow> (pb_element \<Rightarrow> 8 word list option) \<Rightarrow> ('s, 'e mongo_error) db_ops" where
  "mongo_db m codec marshal = \<lparr>
     db_activate_client = mongo_activate_client m,
     db_deactivate_client = mongo_deactivate_client m,
     db_find_client = mongo_find_client m,
     db_update_client = mongo_update_client m,
     db_find_doc = mongo_find_doc m,
     db_store_changes = mongo_store_changes m codec,
     db_create_snapshot = mongo_create_snapshot m marshal,
     db_find_changes = mongo_find_changes m codec,
     db_min_synced = update_and_find_min_synced_ticket m,
     db_last_snapshot = mongo_last_snapshot m\<rparr>"

end
