(* ===== verification/Mongo_Facts.thy ===== *)
theory Mongo_Facts
  imports Mongo_Client Converter_Facts
begin

text \<open>
  What the methods of \<open>src/yorkie/backend/db/mongo/client.go\<close> do to the stored documents, given the
  documented behaviour of MongoDB.  The collections are lists of documents, \<open>ref_update_one\<close> and the
  definitions before it are the meaning of the filters and updates the code sends, and \<open>documented\<close>
  says that the driver does that when it reports no error.  \<open>mem_mongo\<close>, which keeps the
  collections in memory, shows that this can hold.
\<close>

section \<open>The documented behaviour\<close>

fun holds :: "condition \<Rightarrow> bson \<Rightarrow> bool" where
  "holds (Equals b) v \<longleftrightarrow> v = b"
| "holds (In_Range lo hi) (B_Num n) \<longleftrightarrow> lo \<le> n \<and> n \<le> hi"
| "holds (In_Range lo hi) _ \<longleftrightarrow> False"

definition matches :: "mongo_filter \<Rightarrow> bson_doc \<Rightarrow> bool" where
  "matches f d \<longleftrightarrow> list_all (\<lambda>(k, c). case map_of d k of None \<Rightarrow> False | Some v \<Rightarrow> holds c v) f"

text \<open>A field name with dots is a path into embedded documents.\<close>

fun split_dots :: "string \<Rightarrow> string list" where
  "split_dots [] = [[]]"
| "split_dots (c # s) =
     (if c = CHR ''.'' then [] # split_dots s
      else case split_dots s of [] \<Rightarrow> [[c]] | p # ps \<Rightarrow> (c # p) # ps)"

definition embedded :: "string \<Rightarrow> bson_doc \<Rightarrow> bson_doc" where
  "embedded k d = (case map_of d k of Some (B_Doc e) \<Rightarrow> e | _ \<Rightarrow> [])"

fun get_path :: "string list \<Rightarrow> bson_doc \<Rightarrow> bson option" where
  "get_path [] d = None"
| "get_path [k] d = map_of d k"
| "get_path (k # p) d = get_path p (embedded k d)"

fun put_path :: "string list \<Rightarrow> bson \<Rightarrow> bson_doc \<Rightarrow> bson_doc" where
  "put_path [] v d = d"
| "put_path [k] v d = AList.update k v d"
| "put_path (k # p) v d = AList.update k (B_Doc (put_path p v (embedded k d))) d"

fun greater :: "bson \<Rightarrow> bson option \<Rightarrow> bool" where
  "greater (B_Num n) (Some (B_Num k)) \<longleftrightarrow> k < n"
| "greater v None \<longleftrightarrow> True"
| "greater v (Some w) \<longleftrightarrow> False"

definition put_max :: "string list \<Rightarrow> bson \<Rightarrow> bson_doc \<Rightarrow> bson_doc" where
  "put_max p v d = (if greater v (get_path p d) then put_path p v d else d)"

definition apply_update :: "mongo_update \<Rightarrow> bson_doc \<Rightarrow> bson_doc" where
  "apply_update u d =
     fold (\<lambda>(k, v). put_max (split_dots k) v) (up_max u)
       (fold (\<lambda>(k, v). put_path (split_dots k) v) (up_set u) d)"

fun update_first :: "mongo_filter \<Rightarrow> mongo_update \<Rightarrow> bson_doc list \<Rightarrow> bson_doc list" where
  "update_first f u [] = []"
| "update_first f u (d # ds) = (if matches f d then apply_update u d # ds else d # update_first f u ds)"

fun delete_first :: "mongo_filter \<Rightarrow> bson_doc list \<Rightarrow> bson_doc list" where
  "delete_first f [] = []"
| "delete_first f (d # ds) = (if matches f d then ds else d # delete_first f ds)"

text \<open>The document an upsert starts from: its id and the fields the filter fixes.\<close>

fun fixed_fields :: "mongo_filter \<Rightarrow> bson_doc" where
  "fixed_fields [] = []"
| "fixed_fields ((k, Equals b) # f) = (k, b) # fixed_fields f"
| "fixed_fields ((k, In_Range lo hi) # f) = fixed_fields f"

definition ref_update_one :: "mongo_filter \<Rightarrow> mongo_update \<Rightarrow> bool \<Rightarrow> object_id \<Rightarrow> bson_doc list \<Rightarrow>
    bson_doc list \<times> update_result" where
  "ref_update_one f u upsert i ds =
     (if list_ex (matches f) ds
      then (update_first f u ds, \<lparr>ur_matched_count = 1, ur_upserted_count = 0, ur_upserted_id = B_Id []\<rparr>)
      else if upsert
      then (ds @ [apply_update u ((''_id'', B_Id i) # fixed_fields f)],
        \<lparr>ur_matched_count = 0, ur_upserted_count = 1, ur_upserted_id = B_Id i\<rparr>)
      else (ds, \<lparr>ur_matched_count = 0, ur_upserted_count = 0, ur_upserted_id = B_Id []\<rparr>))"

fun ref_bulk_write :: "(mongo_filter \<times> mongo_update \<times> bool) list \<Rightarrow> object_id list \<Rightarrow> bson_doc list \<Rightarrow> bson_doc list" where
  "ref_bulk_write ((f, u, b) # ms) (i # ids) ds = ref_bulk_write ms ids (fst (ref_update_one f u b i ds))"
| "ref_bulk_write _ _ ds = ds"

definition number_in :: "string \<Rightarrow> bson_doc \<Rightarrow> int option" where
  "number_in k d = (case map_of d k of Some (B_Num n) \<Rightarrow> Some n | _ \<Rightarrow> None)"

text \<open>The order \<open>SetSort\<close> asks for, on documents that have a number in the field.\<close>

fun sorted_before :: "(string \<times> int) list \<Rightarrow> bson_doc \<Rightarrow> bson_doc \<Rightarrow> bool" where
  "sorted_before [(k, dir)] d e \<longleftrightarrow>
     (case (number_in k d, number_in k e) of (Some a, Some b) \<Rightarrow> dir * a \<le> dir * b | _ \<Rightarrow> True)"
| "sorted_before _ d e \<longleftrightarrow> True"

text \<open>The rows of every collection but one are kept.\<close>

definition others_kept :: "('s \<Rightarrow> string \<Rightarrow> bson_doc list) \<Rightarrow> string \<Rightarrow> 's \<Rightarrow> 's \<Rightarrow> bool" where
  "others_kept rows c s s' \<longleftrightarrow> (\<forall>c'. c' \<noteq> c \<longrightarrow> rows s' c' = rows s c')"

definition documented_writes :: "('s, 'e) mongo \<Rightarrow> ('s \<Rightarrow> string \<Rightarrow> bson_doc list) \<Rightarrow> bool" where
  "documented_writes m rows \<longleftrightarrow>
     (\<forall>c f u b s s' r. mg_update_one m c f u b s = (s', Inr r) \<longrightarrow> others_kept rows c s s' \<and>
        (\<exists>i. (rows s' c, r) = ref_update_one f u b i (rows s c) \<and>
           list_all (\<lambda>d. map_of d ''_id'' \<noteq> Some (B_Id i)) (rows s c))) \<and>
     (\<forall>c ms s s'. mg_bulk_write m c ms s = (s', Inr ()) \<longrightarrow> others_kept rows c s s' \<and>
        (\<exists>ids. length ids = length ms \<and> rows s' c = ref_bulk_write ms ids (rows s c))) \<and>
     (\<forall>c f s s'. mg_delete_one m c f s = (s', Inr ()) \<longrightarrow> others_kept rows c s s' \<and>
        rows s' c = delete_first f (rows s c)) \<and>
     (\<forall>c f u s s' r. mg_find_one_and_update m c f u s = (s', Inr r) \<longrightarrow> others_kept rows c s s' \<and>
        rows s' c = update_first f u (rows s c) \<and> r = find (matches f) (rows s c))"

definition documented_reads :: "('s, 'e) mongo \<Rightarrow> ('s \<Rightarrow> string \<Rightarrow> bson_doc list) \<Rightarrow> bool" where
  "documented_reads m rows \<longleftrightarrow>
     (\<forall>c f srt s s' r. mg_find_one m c f srt s = (s', Inr r) \<longrightarrow> rows s' = rows s \<and> (case r of
          None \<Rightarrow> \<not> list_ex (matches f) (rows s c)
        | Some d \<Rightarrow> d \<in> set (rows s c) \<and> matches f d \<and>
            list_all (\<lambda>e. matches f e \<longrightarrow> sorted_before srt d e) (rows s c))) \<and>
     (\<forall>c f s s' ds err. mg_find m c f s = (s', Inr (ds, err)) \<longrightarrow> rows s' = rows s \<and>
        set ds \<subseteq> set (filter (matches f) (rows s c)) \<and>
        (err = None \<longrightarrow> mset ds = mset (filter (matches f) (rows s c))))"

definition documented_decoding :: "('s, 'e) mongo \<Rightarrow> bool" where
  "documented_decoding m \<longleftrightarrow>
     (\<forall>i. oid_hex m i = hex_encode i) \<and>
     (\<forall>s. oid_from_hex m s = (case hex_decode s of None \<Rightarrow> None | Some i \<Rightarrow> if length i = 12 then Some i else None)) \<and>
     (\<forall>k d i. map_of d k = Some (B_Id i) \<longrightarrow> dec_id m k d = Inr i) \<and>
     (\<forall>k d. map_of d k = None \<longrightarrow> dec_id m k d = Inr (replicate 12 0)) \<and>
     (\<forall>k d s. map_of d k = Some (B_Str s) \<longrightarrow> dec_string m k d = Inr s) \<and>
     (\<forall>k d n. map_of d k = Some (B_Num (uint n)) \<longrightarrow> dec_uint64 m k d = Inr n) \<and>
     (\<forall>k d. map_of d k = None \<longrightarrow> dec_uint64 m k d = Inr 0) \<and>
     (\<forall>k d n. map_of d k = Some (B_Num (uint n)) \<longrightarrow> dec_uint32 m k d = Inr n) \<and>
     (\<forall>k d bs. map_of d k = Some (B_Array (map B_Bytes bs)) \<longrightarrow> dec_bytes_list m k d = Inr bs)"

definition documented :: "('s, 'e) mongo \<Rightarrow> ('s \<Rightarrow> string \<Rightarrow> bson_doc list) \<Rightarrow> bool" where
  "documented m rows \<longleftrightarrow> documented_writes m rows \<and> documented_reads m rows \<and> documented_decoding m"

section \<open>Collections in memory\<close>

record mem_store =
  mem_rows :: "string \<Rightarrow> bson_doc list"
  mem_next :: "8 word"

definition mem_id :: "8 word \<Rightarrow> object_id" where
  "mem_id n = replicate 11 0 @ [n]"

definition mem_update_one :: "string \<Rightarrow> mongo_filter \<Rightarrow> mongo_update \<Rightarrow> bool \<Rightarrow> mem_store \<Rightarrow>
    mem_store \<times> (unit + update_result)" where
  "mem_update_one c f u b s =
     (let i = mem_id (mem_next s) in
      if list_ex (\<lambda>d. map_of d ''_id'' = Some (B_Id i)) (mem_rows s c) then (s, Inl ())
      else let (ds, r) = ref_update_one f u b i (mem_rows s c)
        in (\<lparr>mem_rows = (mem_rows s)(c := ds), mem_next = mem_next s + 1\<rparr>, Inr r))"

fun mem_bulk_write :: "string \<Rightarrow> (mongo_filter \<times> mongo_update \<times> bool) list \<Rightarrow> mem_store \<Rightarrow> mem_store \<times> (unit + unit)" where
  "mem_bulk_write c [] s = (s, Inr ())"
| "mem_bulk_write c ((f, u, b) # ms) s =
     (case mem_update_one c f u b s of (s, Inl e) \<Rightarrow> (s, Inl e) | (s, Inr _) \<Rightarrow> mem_bulk_write c ms s)"

fun first_sorted :: "(string \<times> int) list \<Rightarrow> bson_doc list \<Rightarrow> bson_doc option" where
  "first_sorted srt [] = None"
| "first_sorted [(k, dir)] (d # ds) =
     (case filter (\<lambda>d. number_in k d \<noteq> None) (d # ds) of
        [] \<Rightarrow> Some d
      | es \<Rightarrow> Some (arg_min_list (\<lambda>d. dir * the (number_in k d)) es))"
| "first_sorted _ (d # ds) = Some d"

definition mem_change_rows :: "string \<Rightarrow> (bson_doc list \<Rightarrow> bson_doc list) \<Rightarrow> mem_store \<Rightarrow> mem_store" where
  "mem_change_rows c g s = s\<lparr>mem_rows := (mem_rows s)(c := g (mem_rows s c))\<rparr>"

text \<open>The field as a Go variable of the type of \<open>zero\<close>, whose value an absent field gives.\<close>

definition mem_field :: "(bson \<Rightarrow> 'a option) \<Rightarrow> 'a \<Rightarrow> string \<Rightarrow> bson_doc \<Rightarrow> unit + 'a" where
  "mem_field g zero k d = (case map_of d k of
     None \<Rightarrow> Inr zero
   | Some b \<Rightarrow> (case g b of None \<Rightarrow> Inl () | Some a \<Rightarrow> Inr a))"

fun as_id :: "bson \<Rightarrow> object_id option" where
  "as_id (B_Id i) = Some i" | "as_id _ = None"

fun as_string :: "bson \<Rightarrow> string option" where
  "as_string (B_Str s) = Some s" | "as_string _ = None"

fun as_num :: "bson \<Rightarrow> ('a :: len word) option" where
  "as_num (B_Num n) = Some (word_of_int n)" | "as_num _ = None"

fun as_bytes :: "bson \<Rightarrow> byte list option" where
  "as_bytes (B_Bytes bs) = Some bs" | "as_bytes _ = None"

fun all_some :: "'a option list \<Rightarrow> 'a list option" where
  "all_some [] = Some []"
| "all_some (x # xs) = (case (x, all_some xs) of (Some y, Some ys) \<Rightarrow> Some (y # ys) | _ \<Rightarrow> None)"

fun as_bytes_list :: "bson \<Rightarrow> byte list list option" where
  "as_bytes_list (B_Array bs) = all_some (map as_bytes bs)" | "as_bytes_list _ = None"

fun as_doc :: "bson \<Rightarrow> bson_doc option" where
  "as_doc (B_Doc d) = Some d" | "as_doc _ = None"

fun as_docs :: "bson \<Rightarrow> (string \<times> bson_doc) list option" where
  "as_docs (B_Doc d) = all_some (map (\<lambda>(k, b). map_option (Pair k) (as_doc b)) d)" | "as_docs _ = None"

definition mem_mongo :: "(mem_store, unit) mongo" where
  "mem_mongo = \<lparr>
     oid_from_hex = (\<lambda>s. case hex_decode s of None \<Rightarrow> None | Some i \<Rightarrow> if length i = 12 then Some i else None),
     oid_hex = hex_encode,
     mg_connect = (\<lambda>uri s. (s, Inr ())),
     mg_ping = (\<lambda>s. (s, Inr ())),
     mg_disconnect = (\<lambda>s. (s, Inr ())),
     mg_create_indexes = (\<lambda>c ixs s. (s, Inr ())),
     mg_update_one = mem_update_one,
     mg_find_one = (\<lambda>c f srt s. (s, Inr (first_sorted srt (filter (matches f) (mem_rows s c))))),
     mg_find_one_and_update = (\<lambda>c f u s.
       (mem_change_rows c (update_first f u) s, Inr (find (matches f) (mem_rows s c)))),
     mg_find = (\<lambda>c f s. (s, Inr (filter (matches f) (mem_rows s c), None))),
     mg_bulk_write = mem_bulk_write,
     mg_insert_one = (\<lambda>c d s. (mem_change_rows c (\<lambda>ds. ds @ [d]) s, Inr ())),
     mg_delete_one = (\<lambda>c f s. (mem_change_rows c (delete_first f) s, Inr ())),
     dec_id = mem_field as_id (replicate 12 0),
     dec_string = mem_field as_string [],
     dec_uint64 = mem_field as_num 0,
     dec_uint32 = mem_field as_num 0,
     dec_bytes = mem_field (map_option Some \<circ> as_bytes) None,
     dec_bytes_list = mem_field as_bytes_list [],
     dec_docs = mem_field as_docs [],
     dec_client_rest = (\<lambda>d. zero_client_info)\<rparr>"

lemma mem_update_one_spec:
  assumes "mem_update_one c f u b s = (s', Inr r)"
  shows "others_kept mem_rows c s s' \<and> (\<exists>i. (mem_rows s' c, r) = ref_update_one f u b i (mem_rows s c) \<and>
      list_all (\<lambda>d. map_of d ''_id'' \<noteq> Some (B_Id i)) (mem_rows s c))"
proof -
  let ?i = "mem_id (mem_next s)"
  have "others_kept mem_rows c s s' \<and> (mem_rows s' c, r) = ref_update_one f u b ?i (mem_rows s c) \<and>
      list_all (\<lambda>d. map_of d ''_id'' \<noteq> Some (B_Id ?i)) (mem_rows s c)"
    using assms
    by (auto simp: mem_update_one_def others_kept_def Let_def list_ex_iff list_all_iff
        split: if_splits prod.splits)
  then show ?thesis by blast
qed

lemma mem_bulk_write_spec:
  "mem_bulk_write c ms s = (s', Inr ()) \<Longrightarrow>
     others_kept mem_rows c s s' \<and> (\<exists>ids. length ids = length ms \<and> mem_rows s' c = ref_bulk_write ms ids (mem_rows s c))"
proof (induction c ms s rule: mem_bulk_write.induct)
  case (2 c f u b ms s)
  obtain v r where v: "mem_update_one c f u b s = (v, Inr r)" "mem_bulk_write c ms v = (s', Inr ())"
    using "2.prems" by (auto split: prod.splits sum.splits)
  obtain i where i: "(mem_rows v c, r) = ref_update_one f u b i (mem_rows s c)"
    using mem_update_one_spec [OF v(1)] by blast
  obtain ids where ids: "others_kept mem_rows c v s'" "length ids = length ms"
    "mem_rows s' c = ref_bulk_write ms ids (mem_rows v c)"
    using "2.IH" [OF v(1) [symmetric] refl v(2)] by blast
  have "mem_rows v c = fst (ref_update_one f u b i (mem_rows s c))" using i by (metis fst_conv)
  then have "length (i # ids) = length ((f, u, b) # ms) \<and>
      mem_rows s' c = ref_bulk_write ((f, u, b) # ms) (i # ids) (mem_rows s c)"
    using ids by simp
  moreover have "others_kept mem_rows c s s'"
    using mem_update_one_spec [OF v(1)] ids(1) by (simp add: others_kept_def)
  ultimately show ?case by blast
qed (simp add: others_kept_def)

lemma arg_min_list_least:
  assumes "x \<in> set xs"
  shows "f (arg_min_list f xs) \<le> (f x :: int)"
proof -
  have "xs \<noteq> []" using assms by auto
  then show ?thesis using assms by (simp add: f_arg_min_list_f)
qed

lemma first_sorted_spec:
  "(case first_sorted srt ds of None \<Rightarrow> ds = []
    | Some d \<Rightarrow> d \<in> set ds \<and> list_all (sorted_before srt d) ds)"
proof (induction srt ds rule: first_sorted.induct)
  case (2 k dir d ds)
  define es where "es = filter (\<lambda>d. number_in k d \<noteq> None) (d # ds)"
  show ?case
  proof (cases "es = []")
    case True
    then show ?thesis
      by (auto simp: es_def list_all_iff filter_empty_conv split: if_splits)
  next
    case False
    let ?f = "\<lambda>d. dir * the (number_in k d)"
    have r: "first_sorted [(k, dir)] (d # ds) = Some (arg_min_list ?f es)"
      unfolding first_sorted.simps es_def [symmetric] using False by (cases es) simp_all
    have i: "arg_min_list ?f es \<in> set es" by (rule arg_min_list_in [OF False])
    then have "arg_min_list ?f es \<in> set (d # ds)" by (auto simp: es_def split: if_splits)
    moreover have "sorted_before [(k, dir)] (arg_min_list ?f es) e" if "e \<in> set (d # ds)" for e
    proof (cases "number_in k e")
      case (Some b)
      then have "e \<in> set es" using that by (auto simp: es_def)
      then have "?f (arg_min_list ?f es) \<le> ?f e" by (rule arg_min_list_least)
      then show ?thesis using Some by (auto split: option.split)
    qed (auto split: option.split)
    ultimately show ?thesis unfolding r by (simp add: list_all_iff)
  qed
qed (auto simp: list_all_iff)

lemma all_some_map: "all_some (map (\<lambda>x. Some (f x)) xs) = Some (map f xs)"
  by (induction xs) auto

lemma mem_mongo_documented: "documented mem_mongo mem_rows"
proof -
  have "documented_writes mem_mongo mem_rows"
    unfolding documented_writes_def
    by (intro conjI allI impI)
      (auto simp: mem_mongo_def mem_change_rows_def others_kept_def
        dest: mem_update_one_spec mem_bulk_write_spec simp: others_kept_def)
  moreover have "documented_reads mem_mongo mem_rows"
  proof -
    have "case first_sorted srt (filter (matches f) ds) of
          None \<Rightarrow> \<not> list_ex (matches f) ds
        | Some d \<Rightarrow> d \<in> set ds \<and> matches f d \<and> list_all (\<lambda>e. matches f e \<longrightarrow> sorted_before srt d e) ds"
      for srt :: "(string \<times> int) list" and f ds
      using first_sorted_spec [of "filter (matches f) ds" srt]
      by (auto simp: filter_empty_conv list_ex_iff list_all_iff split: option.splits)
    then show ?thesis by (simp add: documented_reads_def mem_mongo_def)
  qed
  moreover have "documented_decoding mem_mongo"
    by (auto simp: documented_decoding_def mem_mongo_def mem_field_def all_some_map comp_def)
  ultimately show ?thesis by (simp add: documented_def)
qed

section \<open>Steps\<close>

lemma mongo_steps:
  "driver f s = Some (s', Inr a) \<longleftrightarrow> f s = (s', Inr a)"
  "single g s = Some (s', Inr r) \<longleftrightarrow> g s = (s', r)"
  "step_of e p s = Some (s', Inr b) \<longleftrightarrow> s' = s \<and> p = Some (Inr b)"
  "sum_of q s = Some (s', Inr c) \<longleftrightarrow> s' = s \<and> q = Inr c"
  "io_fail x s \<noteq> Some (s', Inr d)"
  by (auto simp: driver_def single_def step_of_def sum_of_def io_fail_def id_def
      split: prod.splits sum.splits option.splits)

lemma documented_update:
  assumes "documented m rows" "mg_update_one m c f u b s = (s', Inr r)"
  shows "\<exists>i. (rows s' c, r) = ref_update_one f u b i (rows s c) \<and>
           list_all (\<lambda>d. map_of d ''_id'' \<noteq> Some (B_Id i)) (rows s c)"
    and "c' \<noteq> c \<Longrightarrow> rows s' c' = rows s c'"
  using assms by (auto simp: documented_def documented_writes_def others_kept_def)

lemma documented_bulk:
  assumes "documented m rows" "mg_bulk_write m c ms s = (s', Inr ())"
  shows "\<exists>ids. length ids = length ms \<and> rows s' c = ref_bulk_write ms ids (rows s c)"
    and "c' \<noteq> c \<Longrightarrow> rows s' c' = rows s c'"
  using assms by (auto simp: documented_def documented_writes_def others_kept_def)

lemma documented_find_one_and_update:
  assumes "documented m rows" "mg_find_one_and_update m c f u s = (s', Inr r)"
  shows "rows s' c = update_first f u (rows s c)" and "r = find (matches f) (rows s c)"
    and "c' \<noteq> c \<Longrightarrow> rows s' c' = rows s c'"
  using assms by (auto simp: documented_def documented_writes_def others_kept_def)

lemma documented_find_one:
  assumes "documented m rows" "mg_find_one m c f srt s = (s', Inr r)"
  shows "rows s' = rows s"
    and "r = None \<Longrightarrow> d \<in> set (rows s c) \<Longrightarrow> \<not> matches f d"
    and "r = Some d \<Longrightarrow> d \<in> set (rows s c) \<and> matches f d"
    and "r = Some d \<Longrightarrow> e \<in> set (rows s c) \<Longrightarrow> matches f e \<Longrightarrow> sorted_before srt d e"
proof -
  have "rows s' = rows s \<and> (case r of
          None \<Rightarrow> \<not> list_ex (matches f) (rows s c)
        | Some d \<Rightarrow> d \<in> set (rows s c) \<and> matches f d \<and>
            list_all (\<lambda>e. matches f e \<longrightarrow> sorted_before srt d e) (rows s c))"
    using assms unfolding documented_def documented_reads_def by blast
  then show "rows s' = rows s"
    and "r = None \<Longrightarrow> d \<in> set (rows s c) \<Longrightarrow> \<not> matches f d"
    and "r = Some d \<Longrightarrow> d \<in> set (rows s c) \<and> matches f d"
    and "r = Some d \<Longrightarrow> e \<in> set (rows s c) \<Longrightarrow> matches f e \<Longrightarrow> sorted_before srt d e"
    by (auto simp: list_ex_iff list_all_iff)
qed

lemma documented_find:
  assumes "documented m rows" "mg_find m c f s = (s', Inr (ds, err))"
  shows "rows s' = rows s" and "set ds \<subseteq> set (filter (matches f) (rows s c))"
    and "err = None \<Longrightarrow> mset ds = mset (filter (matches f) (rows s c))"
proof -
  have "rows s' = rows s \<and> set ds \<subseteq> set (filter (matches f) (rows s c)) \<and>
      (err = None \<longrightarrow> mset ds = mset (filter (matches f) (rows s c)))"
    using assms unfolding documented_def documented_reads_def by blast
  then show "rows s' = rows s" "set ds \<subseteq> set (filter (matches f) (rows s c))"
    "err = None \<Longrightarrow> mset ds = mset (filter (matches f) (rows s c))" by auto
qed

lemma documented_fields:
  assumes "documented m rows"
  shows "map_of d k = Some (B_Id i) \<Longrightarrow> dec_id m k d = Inr i"
    and "map_of d k = Some (B_Str t) \<Longrightarrow> dec_string m k d = Inr t"
    and "map_of d k = Some (B_Num (uint n)) \<Longrightarrow> dec_uint64 m k d = Inr n"
    and "map_of d k = Some (B_Num (uint l)) \<Longrightarrow> dec_uint32 m k d = Inr l"
    and "map_of d k = Some (B_Array (map B_Bytes bs)) \<Longrightarrow> dec_bytes_list m k d = Inr bs"
    and "oid_hex m i = hex_encode i"
  using assms by (simp_all add: documented_def documented_decoding_def)

lemma put_field: "CHR ''.'' \<notin> set k \<Longrightarrow> put_path (split_dots k) v d = AList.update k v d"
proof -
  assume "CHR ''.'' \<notin> set k"
  then have "split_dots k = [k]" by (induction k) auto
  then show ?thesis by simp
qed

lemma apply_set_fields:
  "list_all (\<lambda>(k, v). CHR ''.'' \<notin> set k) ds \<Longrightarrow>
     map_of (apply_update (set_fields ds) d) = map_of d ++ map_of (rev ds)"
proof (induction ds arbitrary: d)
  case (Cons x ds)
  obtain k v where x: "x = (k, v)" by (cases x)
  have "apply_update (set_fields (x # ds)) d = apply_update (set_fields ds) (AList.update k v d)"
    using Cons.prems by (simp add: apply_update_def set_fields_def x put_field)
  then show ?case using Cons by (simp add: x update_conv' map_add_assoc [symmetric] map_add_upd_left)
qed (simp add: apply_update_def set_fields_def)

lemma update_first_cases:
  "e \<in> set (update_first f u ds) \<Longrightarrow> e \<in> set ds \<or> (\<exists>d\<in>set ds. matches f d \<and> e = apply_update u d)"
  by (induction ds) (auto split: if_splits)

lemma update_first_hit:
  "d \<in> set ds \<Longrightarrow> matches f d \<Longrightarrow> \<exists>e\<in>set ds. matches f e \<and> apply_update u e \<in> set (update_first f u ds)"
  by (induction ds) auto

text \<open>An upsert leaves a document the update was applied to, and changes no other.\<close>

lemma ref_update_one_cases:
  assumes "(ds', r) = ref_update_one f u b i ds" "e \<in> set ds'"
  shows "e \<in> set ds \<or> (\<exists>d\<in>set ds. matches f d \<and> e = apply_update u d) \<or>
    e = apply_update u ((''_id'', B_Id i) # fixed_fields f)"
  using assms update_first_cases [of e f u ds] by (auto simp: ref_update_one_def split: if_splits)

lemma ref_upsert_hit:
  assumes "(ds', r) = ref_update_one f u True i ds" "matches f ((''_id'', B_Id i) # fixed_fields f)"
  shows "\<exists>d. matches f d \<and> apply_update u d \<in> set ds'"
proof (cases "list_ex (matches f) ds")
  case True
  then obtain d where "d \<in> set ds" "matches f d" by (auto simp: list_ex_iff)
  then show ?thesis using assms True update_first_hit [of d ds f u] by (auto simp: ref_update_one_def)
next
  case False
  then have "apply_update u ((''_id'', B_Id i) # fixed_fields f) \<in> set ds'"
    using assms(1) by (simp add: ref_update_one_def)
  then show ?thesis using assms(2) by blast
qed

section \<open>The least synced sequence\<close>

definition seq_of :: "bson_doc \<Rightarrow> 64 word" where
  "seq_of d = (case number_in ''server_seq'' d of None \<Rightarrow> 0 | Some n \<Rightarrow> word_of_int n)"

definition has_seq :: "bson_doc \<Rightarrow> bool" where
  "has_seq d \<longleftrightarrow> map_of d ''server_seq'' = Some (B_Num (uint (seq_of d)))"

definition synced_seqs :: "mongo_filter \<Rightarrow> bson_doc list \<Rightarrow> 64 word list" where
  "synced_seqs f ds = map seq_of (filter (matches f) ds)"

definition doc_filter :: "object_id \<Rightarrow> mongo_filter" where
  "doc_filter d = [(''doc_id'', Equals (B_Id d))]"

text \<open>The ticket of a stored change.\<close>

definition ticket_of_row :: "('s, 'e) mongo \<Rightarrow> bson_doc \<Rightarrow> ticket \<Rightarrow> bool" where
  "ticket_of_row m r t \<longleftrightarrow> (case decode_change_info m (Inr (Some r)) of
     Inl e \<Rightarrow> False
   | Inr i \<Rightarrow> (case actor_id_from_hex (chi_actor i) of
       Inl e \<Rightarrow> False
     | Inr a \<Rightarrow> t = Ticket (chi_lamport i) max_delimiter a))"

lemma has_seqI: "map_of d ''server_seq'' = Some (B_Num (uint (s :: 64 word))) \<Longrightarrow> has_seq d \<and> seq_of d = s"
  by (simp add: has_seq_def seq_of_def number_in_def)

lemma sorted_before_seq:
  assumes "has_seq d" "has_seq e" "sorted_before [(''server_seq'', 1)] d e"
  shows "seq_of d \<le> seq_of e"
proof -
  have "uint (seq_of d) \<le> uint (seq_of e)"
    using assms by (simp add: has_seq_def number_in_def)
  then show ?thesis by (simp add: word_le_def)
qed

lemma find_ticket_spec:
  assumes "documented m rows" "encode_id m i = Inr d" "find_ticket_by_server_seq m i s w = Some (w', Inr t)"
  shows "rows w' = rows w \<and> (\<exists>r\<in>set (rows w col_changes). matches (change_filter d s) r \<and> ticket_of_row m r t)"
proof -
  obtain r where find: "mg_find_one m col_changes (change_filter d s) [] w = (w', r)"
    and rest: "result_err r = None" "\<exists>ci a. decode_change_info m r = Inr ci \<and>
      actor_id_from_hex (chi_actor ci) = Inr a \<and> t = Ticket (chi_lamport ci) max_delimiter a"
    using assms(2,3)
    by (auto simp: find_ticket_by_server_seq_def io_bind_ok mongo_steps split: option.splits sum.splits)
  then obtain e where r: "r = Inr (Some e)" by (auto simp: result_err_def split: sum.splits option.splits)
  show ?thesis
    using documented_find_one(1,3) [OF assms(1) find [unfolded r]] rest(2)
    by (auto simp: ticket_of_row_def r intro!: bexI [of _ e])
qed

definition min_ticket :: "('s, 'e) mongo \<Rightarrow> ('s \<Rightarrow> string \<Rightarrow> bson_doc list) \<Rightarrow> 's \<Rightarrow> object_id \<Rightarrow> ticket \<Rightarrow> bool" where
  "min_ticket m rows w d t \<longleftrightarrow>
     (let qs = set (synced_seqs (doc_filter d) (rows w col_synced_seqs)) in
      if qs = {} \<or> Min qs = 0 then t = initial_ticket
      else \<exists>r\<in>set (rows w col_changes). matches (change_filter d (Min qs)) r \<and> ticket_of_row m r t)"

lemma find_min_synced_ticket_spec:
  assumes doc: "documented m rows" and enc: "encode_id m i = Inr d"
    and seqs: "list_all has_seq (rows w col_synced_seqs)"
    and run: "find_min_synced_ticket m i w = Some (w', Inr t)"
  shows "rows w' = rows w \<and> min_ticket m rows w' d t"
proof -
  let ?rs = "rows w col_synced_seqs" and ?srt = "[(''server_seq'', 1)]"
  let ?qs = "set (synced_seqs (doc_filter d) ?rs)"
  obtain v r where find: "mg_find_one m col_synced_seqs (doc_filter d) ?srt w = (v, r)"
    using enc run by (cases "mg_find_one m col_synced_seqs (doc_filter d) ?srt w") blast
  then have rest: "(case result_err r of
       Some e \<Rightarrow> if e = No_Documents then io_return initial_ticket else io_fail e
     | None \<Rightarrow>
       io_bind (sum_of (decode_synced_seq_info m r)) (\<lambda>ssi.
       if ssi_server_seq ssi = 0 then io_return initial_ticket
       else find_ticket_by_server_seq m i (ssi_server_seq ssi))) v = Some (w', Inr t)"
    using enc run by (auto simp: find_min_synced_ticket_def io_bind_ok mongo_steps doc_filter_def)
  show ?thesis
  proof (cases r)
    case (Inl e)
    then show ?thesis using rest by (simp add: result_err_def mongo_steps)
  next
    case (Inr x)
    note frame = documented_find_one(1) [OF doc find [unfolded Inr]]
    show ?thesis
    proof (cases x)
      case None
      then have "?qs = {}"
        using documented_find_one(2) [OF doc find [unfolded Inr]] by (auto simp: synced_seqs_def)
      then show ?thesis using rest frame by (simp add: Inr None result_err_def min_ticket_def)
    next
      case (Some e)
      have e: "e \<in> set ?rs" "matches (doc_filter d) e"
        using documented_find_one(3) [OF doc find [unfolded Inr]] Some by auto
      have typed: "has_seq e'" if "e' \<in> set ?rs" for e' using seqs that by (simp add: list_all_iff)
      have least: "seq_of e \<le> q" if "q \<in> ?qs" for q
        using documented_find_one(4) [OF doc find [unfolded Inr]] Some that sorted_before_seq typed e(1)
        by (auto simp: synced_seqs_def)
      have ne: "?qs \<noteq> {}" using e by (auto simp: synced_seqs_def)
      have min: "Min ?qs = seq_of e"
        using e least by (intro Min_eqI) (auto simp: synced_seqs_def)
      obtain ssi where ssi: "decode_synced_seq_info m r = Inr ssi"
        and rest': "(if ssi_server_seq ssi = 0 then io_return initial_ticket
          else find_ticket_by_server_seq m i (ssi_server_seq ssi)) v = Some (w', Inr t)"
        using rest by (auto simp: Inr Some result_err_def io_bind_ok mongo_steps)
      have "ssi_server_seq ssi = seq_of e"
        using ssi documented_fields(3) [OF doc typed [OF e(1), unfolded has_seq_def]]
        by (auto simp: decode_synced_seq_info_def decode_single_def Inr Some bind_sum_def split: sum.splits)
      then show ?thesis
        using rest' ne frame find_ticket_spec [OF doc enc, of "seq_of e" v w' t]
        by (auto simp: min_ticket_def min Let_def split: if_splits)
    qed
  qed
qed

lemma delete_first_subset: "set (delete_first f ds) \<subseteq> set ds"
  by (induction ds) auto

lemma update_synced_seq_spec:
  assumes doc: "documented m rows" and enc: "encode_id m i = Inr d" "encode_id m (ci_id ci) = Inr c"
    and att: "client_is_attached i ci = (Inr b :: unit server_error + bool)"
    and seqs: "list_all has_seq (rows w col_synced_seqs)"
    and run: "update_synced_seq m ci i s w = Some (w', Inr ())"
  shows "list_all has_seq (rows w' col_synced_seqs) \<and>
    (b \<longrightarrow> s \<in> set (synced_seqs (synced_seq_filter d c) (rows w' col_synced_seqs)))"
proof (cases b)
  case True
  let ?f = "synced_seq_filter d c" and ?u = "set_fields [(''server_seq'', B_Num (uint s))]"
  obtain res where upd: "mg_update_one m col_synced_seqs ?f ?u True w = (w', Inr res)"
    using run True by (auto simp: update_synced_seq_def enc att io_bind_ok mongo_steps)
  obtain k where k: "(rows w' col_synced_seqs, res) = ref_update_one ?f ?u True k (rows w col_synced_seqs)"
    using documented_update(1) [OF doc upd] by blast
  have u: "map_of (apply_update ?u e) = (map_of e)(''server_seq'' \<mapsto> B_Num (uint s))" for e
    by (simp add: apply_set_fields)
  have new: "has_seq (apply_update ?u e) \<and> seq_of (apply_update ?u e) = s" for e
    by (rule has_seqI) (simp add: u)
  have "list_all has_seq (rows w' col_synced_seqs)"
    using seqs ref_update_one_cases [OF k] new by (auto simp: list_all_iff)
  moreover have "matches ?f ((''_id'', B_Id k) # fixed_fields ?f)"
    by (simp add: synced_seq_filter_def matches_def)
  then obtain e where e: "matches ?f e" "apply_update ?u e \<in> set (rows w' col_synced_seqs)"
    using ref_upsert_hit [OF k] by blast
  have "matches ?f (apply_update ?u e)" using e(1) by (simp add: synced_seq_filter_def matches_def u)
  then have "s \<in> set (synced_seqs ?f (rows w' col_synced_seqs))"
    using e(2) new [of e] by (force simp: synced_seqs_def)
  ultimately show ?thesis by simp
next
  case False
  then have "mg_delete_one m col_synced_seqs (synced_seq_filter d c) w = (w', Inr ())"
    using run by (auto simp: update_synced_seq_def enc att io_bind_ok mongo_steps)
  then have "rows w' col_synced_seqs = delete_first (synced_seq_filter d c) (rows w col_synced_seqs)"
    using doc by (auto simp: documented_def documented_writes_def)
  then show ?thesis using False seqs delete_first_subset by (fastforce simp: list_all_iff)
qed

text \<open>C6: the ticket up to which garbage may be collected is that of the change with the least server
  sequence any client of the document has synchronised, after the sequence of the client that asks
  has been recorded (or removed, when it has detached the document); it is the initial ticket when
  no client is left or one has synchronised nothing.\<close>
theorem min_synced_ticket_safe:
  assumes "documented m rows" "encode_id m i = Inr d" "encode_id m (ci_id ci) = Inr c"
    and "client_is_attached i ci = (Inr b :: unit server_error + bool)"
    and "list_all has_seq (rows w col_synced_seqs)"
    and "update_and_find_min_synced_ticket m ci i s w = Some (w', Inr t)"
  shows "min_ticket m rows w' d t \<and>
    (b \<longrightarrow> s \<in> set (synced_seqs (synced_seq_filter d c) (rows w' col_synced_seqs)))"
proof -
  obtain v where v: "update_synced_seq m ci i s w = Some (v, Inr ())" "find_min_synced_ticket m i v = Some (w', Inr t)"
    using assms(6) by (auto simp: update_and_find_min_synced_ticket_def io_bind_ok)
  have "list_all has_seq (rows v col_synced_seqs)"
    "b \<longrightarrow> s \<in> set (synced_seqs (synced_seq_filter d c) (rows v col_synced_seqs))"
    using update_synced_seq_spec [OF assms(1-5) v(1)] by blast+
  then show ?thesis using find_min_synced_ticket_spec [OF assms(1,2) _ v(2)] by simp
qed

lemma io_runs: "(case r of None \<Rightarrow> False | Some (w, x) \<Rightarrow> x = y) \<Longrightarrow> \<exists>w. r = Some (w, y)"
  by (cases r) auto

definition oid :: "8 word \<Rightarrow> object_id" where
  "oid n = replicate 12 n"

definition sample_store :: mem_store where
  "sample_store = \<lparr>mem_rows = (\<lambda>_. [])(
     col_clients := [[(''_id'', B_Id (oid 1)), (''key'', B_Str ''k''), (''status'', B_Str ''activated'')]],
     col_documents := [[(''_id'', B_Id (oid 9)), (''key'', B_Str ''c$d''), (''server_seq'', B_Num 1)]],
     col_synced_seqs := [
       [(''_id'', B_Id (oid 20)), (''doc_id'', B_Id (oid 9)), (''client_id'', B_Id (oid 2)), (''server_seq'', B_Num 3)],
       [(''_id'', B_Id (oid 21)), (''doc_id'', B_Id (oid 9)), (''client_id'', B_Id (oid 1)), (''server_seq'', B_Num 1)]],
     col_changes := [[(''_id'', B_Id (oid 30)), (''doc_id'', B_Id (oid 9)), (''server_seq'', B_Num 1),
       (''actor'', B_Id (oid 1)), (''client_seq'', B_Num 1), (''lamport'', B_Num 7), (''message'', B_Str ''m''),
       (''operations'', B_Array [])]]),
     mem_next = 0\<rparr>"

definition sample_attached :: client_info where
  "sample_attached = \<lparr>ci_id = hex_encode (oid 2), ci_key = ''k'', ci_status = Client_Activated,
     ci_documents = [(hex_encode (oid 9), \<lparr>cdi_status = Document_Attached, cdi_server_seq = 3, cdi_client_seq = 1\<rparr>)]\<rparr>"

lemma sample_min_synced:
  "case update_and_find_min_synced_ticket mem_mongo sample_attached (hex_encode (oid 9)) 5 sample_store of
     None \<Rightarrow> False | Some (w, r) \<Rightarrow> r = Inr (Ticket 7 max_delimiter (Some (oid 1)))"
  by code_simp

theorem min_synced_ticket_safe_witness:
  "\<exists>w. update_and_find_min_synced_ticket mem_mongo sample_attached (hex_encode (oid 9)) 5 sample_store =
       Some (w, Inr (Ticket 7 max_delimiter (Some (oid 1)))) \<and>
     min_ticket mem_mongo mem_rows w (oid 9) (Ticket 7 max_delimiter (Some (oid 1))) \<and>
     5 \<in> set (synced_seqs (synced_seq_filter (oid 9) (oid 2)) (mem_rows w col_synced_seqs))"
proof -
  obtain w where w: "update_and_find_min_synced_ticket mem_mongo sample_attached (hex_encode (oid 9)) 5 sample_store =
      Some (w, Inr (Ticket 7 max_delimiter (Some (oid 1))))"
    using io_runs [OF sample_min_synced] by blast
  have "encode_id mem_mongo (hex_encode (oid 9)) = Inr (oid 9)"
    "encode_id mem_mongo (ci_id sample_attached) = Inr (oid 2)"
    "client_is_attached (hex_encode (oid 9)) sample_attached = (Inr True :: unit server_error + bool)"
    "list_all has_seq (mem_rows sample_store col_synced_seqs)"
    by code_simp+
  then show ?thesis using w min_synced_ticket_safe [OF mem_mongo_documented _ _ _ _ w, of "oid 9" "oid 2" True] by simp
qed

end
