(* ===== verification/Mongo_Clients.thy ===== *)
theory Mongo_Clients
  imports Mongo_Facts
begin

text \<open>
  The stored clients (\<open>ActivateClient\<close>, \<open>FindClientInfoByID\<close> and \<open>UpdateClientInfoAfterPushPull\<close> of
  \<open>src/yorkie/backend/db/mongo/client.go\<close>), given the documented behaviour of MongoDB.
\<close>

section \<open>Embedded documents\<close>

lemma embedded_update [simp]:
  "embedded k (AList.update k (B_Doc e) d) = e"
  "k \<noteq> j \<Longrightarrow> embedded k (AList.update j v d) = embedded k d"
  by (simp_all add: embedded_def update_conv')

text \<open>The field of a document in a client row.\<close>

definition client_doc_field :: "db_id \<Rightarrow> string \<Rightarrow> bson_doc \<Rightarrow> bson option" where
  "client_doc_field i f e = map_of (embedded i (embedded ''documents'' e)) f"

lemma split_dots_plain: "CHR ''.'' \<notin> set s \<Longrightarrow> split_dots s = [s]"
  by (induction s) auto

lemma split_dots_append: "CHR ''.'' \<notin> set s \<Longrightarrow> split_dots (s @ CHR ''.'' # t) = s # split_dots t"
  by (induction s) auto

lemma split_client_path:
  assumes "CHR ''.'' \<notin> set i" "CHR ''.'' \<notin> set f"
  shows "split_dots (''documents.'' @ i @ ''.'' @ f) = [''documents'', i, f]"
proof -
  have "''documents.'' @ i @ ''.'' @ f = ''documents'' @ CHR ''.'' # i @ CHR ''.'' # f" by simp
  then show ?thesis
    using assms split_dots_append [of "''documents''"] split_dots_append [of i f] split_dots_plain [of f] by simp
qed

lemma client_doc_field_put:
  "client_doc_field i f (put_path [''documents'', j, g] v e) =
     (if i = j \<and> f = g then Some v else client_doc_field i f e)"
  by (cases "i = j") (simp_all add: client_doc_field_def update_conv')

lemma client_doc_field_get: "get_path [''documents'', j, g] e = client_doc_field j g e"
  by (simp add: client_doc_field_def)

lemma client_doc_field_max:
  "client_doc_field i f (put_max [''documents'', j, g] v e) =
     (if i = j \<and> f = g \<and> greater v (client_doc_field i f e) then Some v else client_doc_field i f e)"
  unfolding put_max_def client_doc_field_get by (auto simp: client_doc_field_put simp del: put_path.simps)

lemma client_doc_field_time:
  "client_doc_field i f (put_path [''updated_at''] v e) = client_doc_field i f e"
  by (simp add: client_doc_field_def)

lemma row_field_put:
  "k \<noteq> ''documents'' \<Longrightarrow> map_of (put_path [''documents'', j, g] v e) k = map_of e k"
  "k \<noteq> ''documents'' \<Longrightarrow> map_of (put_max [''documents'', j, g] v e) k = map_of e k"
  "k \<noteq> ''updated_at'' \<Longrightarrow> map_of (put_path [''updated_at''] v e) k = map_of e k"
  by (simp_all add: put_max_def update_conv')

section \<open>After a push-pull\<close>

text \<open>What a stored sequence becomes.\<close>

fun sequence_after :: "bool \<Rightarrow> int \<Rightarrow> bson option \<Rightarrow> bson option" where
  "sequence_after False n old = Some (B_Num 0)"
| "sequence_after True n None = Some (B_Num n)"
| "sequence_after True n (Some (B_Num k)) = Some (B_Num (max k n))"
| "sequence_after True n (Some v) = Some v"

lemma sequence_after_max:
  "(if greater (B_Num n) old then Some (B_Num n) else old) = sequence_after True n old"
  by (cases "(True, n, old)" rule: sequence_after.cases) (auto simp: max_def)

definition client_update :: "db_id \<Rightarrow> client_doc_info \<Rightarrow> mongo_update" where
  "client_update i cdi =
     (let k = ''documents.'' @ i @ ''.'' in
      if cdi_status cdi = Document_Attached
      then \<lparr>up_set = [(k @ ''status'', B_Str (attach_status_string (cdi_status cdi))), (''updated_at'', B_Time)],
         up_max = [(k @ ''server_seq'', B_Num (uint (cdi_server_seq cdi))),
           (k @ ''client_seq'', B_Num (uint (cdi_client_seq cdi)))]\<rparr>
      else set_fields [(k @ ''server_seq'', B_Num 0), (k @ ''client_seq'', B_Num 0),
         (k @ ''status'', B_Str (attach_status_string (cdi_status cdi))), (''updated_at'', B_Time)])"

lemma client_update_row:
  assumes "CHR ''.'' \<notin> set i"
  shows "client_doc_field i ''server_seq'' (apply_update (client_update i cdi) e) =
      sequence_after (cdi_status cdi = Document_Attached) (uint (cdi_server_seq cdi)) (client_doc_field i ''server_seq'' e)"
    and "client_doc_field i ''client_seq'' (apply_update (client_update i cdi) e) =
      sequence_after (cdi_status cdi = Document_Attached) (uint (cdi_client_seq cdi)) (client_doc_field i ''client_seq'' e)"
    and "client_doc_field i ''status'' (apply_update (client_update i cdi) e) =
      Some (B_Str (attach_status_string (cdi_status cdi)))"
    and "j \<noteq> i \<Longrightarrow> client_doc_field j f (apply_update (client_update i cdi) e) = client_doc_field j f e"
    and "k \<noteq> ''documents'' \<Longrightarrow> k \<noteq> ''updated_at'' \<Longrightarrow>
      map_of (apply_update (client_update i cdi) e) k = map_of e k"
proof -
  have p: "split_dots (''documents.'' @ i @ ''.'' @ ''server_seq'') = [''documents'', i, ''server_seq'']"
    "split_dots (''documents.'' @ i @ ''.'' @ ''client_seq'') = [''documents'', i, ''client_seq'']"
    "split_dots (''documents.'' @ i @ ''.'' @ ''status'') = [''documents'', i, ''status'']"
    "split_dots ''updated_at'' = [''updated_at'']"
    using assms by (intro split_client_path split_dots_plain; simp)+
  note d = client_update_def apply_update_def set_fields_def Let_def client_doc_field_put client_doc_field_max
    client_doc_field_time sequence_after_max [symmetric] row_field_put
  show "client_doc_field i ''server_seq'' (apply_update (client_update i cdi) e) =
      sequence_after (cdi_status cdi = Document_Attached) (uint (cdi_server_seq cdi)) (client_doc_field i ''server_seq'' e)"
    "client_doc_field i ''client_seq'' (apply_update (client_update i cdi) e) =
      sequence_after (cdi_status cdi = Document_Attached) (uint (cdi_client_seq cdi)) (client_doc_field i ''client_seq'' e)"
    "client_doc_field i ''status'' (apply_update (client_update i cdi) e) =
      Some (B_Str (attach_status_string (cdi_status cdi)))"
    using p by (simp_all add: d del: put_path.simps)
  show "j \<noteq> i \<Longrightarrow> client_doc_field j f (apply_update (client_update i cdi) e) = client_doc_field j f e"
    "k \<noteq> ''documents'' \<Longrightarrow> k \<noteq> ''updated_at'' \<Longrightarrow>
      map_of (apply_update (client_update i cdi) e) k = map_of e k"
    using p by (simp_all add: d del: put_path.simps)
qed

text \<open>C18: recording a push-pull changes one client row: the sequences of an attached document only
  grow, those of a detached one become 0, its status is stored, and the key, the status and the
  other documents of the client stay as they are.\<close>
theorem update_client_monotone:
  fixes m :: "('s, 'e) mongo"
  assumes "documented m rows" "map_of (ci_documents ci) (di_id di) = Some cdi" "CHR ''.'' \<notin> set (di_id di)"
    and "mongo_update_client m ci di w = Some (w', Inr ())"
  shows "\<exists>as e e' bs. rows w col_clients = as @ e # bs \<and> rows w' col_clients = as @ e' # bs \<and>
    map_of e ''key'' = Some (B_Str (ci_key ci)) \<and> map_of e' ''key'' = map_of e ''key'' \<and>
    map_of e' ''status'' = map_of e ''status'' \<and>
    client_doc_field (di_id di) ''server_seq'' e' = sequence_after (cdi_status cdi = Document_Attached)
      (uint (cdi_server_seq cdi)) (client_doc_field (di_id di) ''server_seq'' e) \<and>
    client_doc_field (di_id di) ''client_seq'' e' = sequence_after (cdi_status cdi = Document_Attached)
      (uint (cdi_client_seq cdi)) (client_doc_field (di_id di) ''client_seq'' e) \<and>
    client_doc_field (di_id di) ''status'' e' = Some (B_Str (attach_status_string (cdi_status cdi))) \<and>
    (\<forall>j f. j \<noteq> di_id di \<longrightarrow> client_doc_field j f e' = client_doc_field j f e)"
proof -
  let ?f = "[(''key'', Equals (B_Str (ci_key ci)))]" and ?u = "client_update (di_id di) cdi"
  have att: "client_is_attached (di_id di) ci = (Inr (cdi_status cdi = Document_Attached) :: unit server_error + bool)"
    using assms(2) by (simp add: client_is_attached_def)
  obtain r where run: "mg_find_one_and_update m col_clients ?f ?u w = (w', r)" and r: "result_err r = None"
    using assms(2,4)
    by (auto simp: mongo_update_client_def att Let_def io_bind_ok mongo_steps client_update_def split: option.splits)
  obtain e0 where e0: "r = Inr (Some e0)" using r by (auto simp: result_err_def split: sum.splits option.splits)
  have upd: "rows w' col_clients = update_first ?f ?u (rows w col_clients)"
    "Some e0 = find (matches ?f) (rows w col_clients)"
    using documented_find_one_and_update(1,2) [OF assms(1) run [unfolded e0]] by auto
  have "\<exists>as bs. ds = as @ e0 # bs \<and> update_first ?f ?u ds = as @ apply_update ?u e0 # bs \<and> matches ?f e0"
    if "find (matches ?f) ds = Some e0" for ds
    using that
  proof (induction ds)
    case (Cons d ds)
    show ?case
    proof (cases "matches ?f d")
      case True
      then show ?thesis using Cons.prems by (intro exI [of _ "[]"] exI [of _ ds]) simp
    next
      case False
      then obtain as bs where "ds = as @ e0 # bs" "update_first ?f ?u ds = as @ apply_update ?u e0 # bs" "matches ?f e0"
        using Cons by auto
      then show ?thesis using False by (intro exI [of _ "d # as"] exI [of _ bs]) simp
    qed
  qed simp
  from this [OF upd(2) [symmetric]] obtain as bs where ab: "rows w col_clients = as @ e0 # bs"
    "rows w' col_clients = as @ apply_update ?u e0 # bs" "matches ?f e0"
    unfolding upd(1) by blast
  have key: "map_of e0 ''key'' = Some (B_Str (ci_key ci))" using ab(3) by (auto simp: matches_def split: option.splits)
  note row = client_update_row [OF assms(3), where cdi = cdi and e = e0]
  show ?thesis
    by (intro exI [of _ as] exI [of _ e0] exI [of _ "apply_update ?u e0"] exI [of _ bs])
      (simp add: ab(1,2) key row)
qed

section \<open>Activation\<close>

definition key_filter :: "string \<Rightarrow> mongo_filter" where
  "key_filter k = [(''key'', Equals (B_Str k))]"

definition has_id :: "bson_doc \<Rightarrow> bool" where
  "has_id e \<longleftrightarrow> (case map_of e ''_id'' of Some (B_Id i) \<Rightarrow> True | _ \<Rightarrow> False)"

lemma has_idE: "has_id e \<Longrightarrow> (\<And>i. map_of e ''_id'' = Some (B_Id i) \<Longrightarrow> P) \<Longrightarrow> P"
  by (auto simp: has_id_def split: option.splits bson.splits)

lemma filter_update_first:
  "(\<And>e. matches f e \<Longrightarrow> matches f (apply_update u e)) \<Longrightarrow>
   filter (matches f) (update_first f u ds) =
     (case filter (matches f) ds of [] \<Rightarrow> [] | e # es \<Rightarrow> apply_update u e # es)"
  by (induction ds) auto

lemma update_first_append:
  "\<not> list_ex (matches f) as \<Longrightarrow> matches f e \<Longrightarrow> update_first f u (as @ e # bs) = as @ apply_update u e # bs"
  by (induction as) auto

lemma find_append:
  "\<not> list_ex (matches f) as \<Longrightarrow> matches f e \<Longrightarrow> find (matches f) (as @ e # bs) = Some e"
  by (induction as) auto

lemma decoded_client:
  assumes "documented m rows" "decode_client_info m (Inr (Some e)) = Inr ci"
    "map_of e ''_id'' = Some (B_Id i)" "map_of e ''key'' = Some (B_Str k)" "map_of e ''status'' = Some (B_Str st)"
  shows "ci_id ci = hex_encode i \<and> ci_key ci = k \<and> ci_status ci = client_status_of st"
  using assms(2) documented_fields(1) [OF assms(1,3)] documented_fields(2) [OF assms(1,4)]
    documented_fields(2) [OF assms(1,5)] documented_fields(6) [OF assms(1)]
  by (auto simp: decode_client_info_def decode_single_def bind_sum_def decode_id_def split: sum.splits)

text \<open>One activation: afterwards there is one row with the key, it is activated, and the answer has
  its id; a row that was there before keeps its id.\<close>

lemma activate_client_row:
  fixes m :: "('s, 'e) mongo"
  assumes doc: "documented m rows" and run: "mongo_activate_client m k w = Some (w', Inr ci)"
    and one: "length (filter (matches (key_filter k)) (rows w col_clients)) \<le> 1"
    and ids: "list_all has_id (rows w col_clients)"
  shows "\<exists>e i. filter (matches (key_filter k)) (rows w' col_clients) = [e] \<and> map_of e ''_id'' = Some (B_Id i) \<and>
    map_of e ''status'' = Some (B_Str ''activated'') \<and> ci_id ci = hex_encode i \<and> ci_key ci = k \<and>
    ci_status ci = Client_Activated \<and> list_all has_id (rows w' col_clients) \<and>
    (\<forall>e0 es. filter (matches (key_filter k)) (rows w col_clients) = e0 # es \<longrightarrow> map_of e0 ''_id'' = Some (B_Id i))"
proof -
  let ?f = "[(''key'', Equals (B_Str k))]" and ?c = "set_fields [(''created_at'', B_Time)]"
  let ?u = "set_fields [(''status'', B_Str ''activated''), (''updated_at'', B_Time)]"
  have u: "map_of (apply_update ?u e) = (map_of e)(''status'' \<mapsto> B_Str ''activated'', ''updated_at'' \<mapsto> B_Time)"
    "map_of (apply_update ?c e) = (map_of e)(''created_at'' \<mapsto> B_Time)" for e
    by (simp_all add: apply_set_fields)
  have keeps: "matches ?f (apply_update ?u e) = matches ?f e" "matches ?f (apply_update ?c e) = matches ?f e"
    "has_id (apply_update ?u e) = has_id e" "has_id (apply_update ?c e) = has_id e" for e
    by (simp_all add: key_filter_def matches_def has_id_def u)
  obtain v res r where upd: "mg_update_one m col_clients ?f ?u True w = (v, Inr res)"
    and get: "(if ur_upserted_count res > 0
       then mg_find_one_and_update m col_clients [(''_id'', Equals (ur_upserted_id res))] ?c
       else mg_find_one m col_clients ?f []) v = (w', r)" "decode_client_info m r = Inr ci"
    using run by (auto simp: mongo_activate_client_def io_bind_ok mongo_steps)
  have stat: "client_status_of ''activated'' = Client_Activated" by (simp add: client_status_of_def)
  obtain e1 where r: "r = Inr (Some e1)"
    using get(2) by (auto simp: decode_client_info_def decode_single_def split: sum.splits option.splits)
  obtain i where i: "(rows v col_clients, res) = ref_update_one ?f ?u True i (rows w col_clients)"
    "list_all (\<lambda>d. map_of d ''_id'' \<noteq> Some (B_Id i)) (rows w col_clients)"
    using documented_update(1) [OF doc upd] by blast
  show ?thesis
  proof (cases "list_ex (matches ?f) (rows w col_clients)")
    case True
    have res: "ur_upserted_count res = 0" "rows v col_clients = update_first ?f ?u (rows w col_clients)"
      using i(1) True by (simp_all add: ref_update_one_def)
    obtain e0 where e0: "filter (matches ?f) (rows w col_clients) = [e0]"
      using True one [unfolded key_filter_def] by (cases "filter (matches ?f) (rows w col_clients)") (auto simp: list_ex_iff filter_empty_conv)
    have new: "filter (matches ?f) (rows v col_clients) = [apply_update ?u e0]"
      using filter_update_first [of ?f ?u] keeps(1) e0 by (simp add: res(2))
    have find: "mg_find_one m col_clients ?f [] v = (w', Inr (Some e1))" using get(1) res(1) r by simp
    have "e1 \<in> set (filter (matches ?f) (rows v col_clients))"
      using documented_find_one(3) [OF doc find refl] by simp
    then have e1: "e1 = apply_update ?u e0" using new by simp
    have mem: "e0 \<in> set (rows w col_clients)" "matches ?f e0"
      using e0 by (metis filter_eq_ConsD in_set_conv_decomp) (metis e0 filter_eq_ConsD)
    obtain o0 where o0: "map_of e0 ''_id'' = Some (B_Id o0)"
      using ids mem(1) has_idE by (auto simp: list_all_iff)
    have key: "map_of e0 ''key'' = Some (B_Str k)" using mem(2) by (auto simp: matches_def key_filter_def split: option.splits)
    have ci: "ci_id ci = hex_encode o0 \<and> ci_key ci = k \<and> ci_status ci = client_status_of ''activated''"
      by (rule decoded_client [OF doc get(2) [unfolded r e1]]) (simp_all add: u o0 key)
    have "list_all has_id (rows v col_clients)"
      using ids update_first_cases [of _ ?f ?u "rows w col_clients"] keeps(3) unfolding list_all_iff res(2) by metis
    then show ?thesis
      using new documented_find_one(1) [OF doc find] e0 o0 ci stat
      by (intro exI [of _ "apply_update ?u e0"] exI [of _ o0]) (simp add: u key_filter_def)
  next
    case False
    define e0 where "e0 = apply_update ?u ((''_id'', B_Id i) # fixed_fields ?f)"
    have res: "ur_upserted_count res = 1" "ur_upserted_id res = B_Id i" "rows v col_clients = rows w col_clients @ [e0]"
      using i(1) False by (simp_all add: ref_update_one_def e0_def)
    have e0: "map_of e0 ''_id'' = Some (B_Id i)" "map_of e0 ''key'' = Some (B_Str k)" "map_of e0 ''status'' = Some (B_Str ''activated'')"
      by (simp_all add: e0_def u key_filter_def)
    let ?g = "[(''_id'', Equals (B_Id i))]"
    have find: "mg_find_one_and_update m col_clients ?g ?c v = (w', Inr (Some e1))" using get(1) res(1,2) r by simp
    have old: "\<not> list_ex (matches ?g) (rows w col_clients)"
      using i(2) by (auto simp: list_ex_iff list_all_iff matches_def split: option.splits)
    have g: "matches ?g e0" by (simp add: matches_def e0)
    have e1: "e1 = e0" "rows w' col_clients = rows w col_clients @ [apply_update ?c e0]"
      using documented_find_one_and_update(1,2) [OF doc find] find_append [OF old g, of "[]"]
        update_first_append [OF old g, of ?c "[]"] by (simp_all add: res(3))
    have ci: "ci_id ci = hex_encode i \<and> ci_key ci = k \<and> ci_status ci = client_status_of ''activated''"
      by (rule decoded_client [OF doc get(2) [unfolded r e1(1)]]) (simp_all add: e0)
    have none: "filter (matches ?f) (rows w col_clients) = []" using False by (auto simp: list_ex_iff filter_empty_conv)
    have "matches ?f e0" by (simp add: matches_def key_filter_def e0)
    then have "filter (matches ?f) (rows w' col_clients) = [apply_update ?c e0]" by (simp add: e1(2) none keeps(2))
    moreover have "list_all has_id (rows w' col_clients)" using ids e0(1) by (simp add: e1(2) has_id_def u)
    ultimately show ?thesis using ci stat e0 none
      by (intro exI [of _ "apply_update ?c e0"] exI [of _ i]) (simp add: u key_filter_def)
  qed
qed

text \<open>C33: activating a client key again gives the same id, and each time an activated client of that
  key.\<close>
theorem activate_client_idempotent:
  fixes m :: "('s, 'e) mongo"
  assumes "documented m rows" "length (filter (matches (key_filter k)) (rows w col_clients)) \<le> 1"
    and "list_all has_id (rows w col_clients)"
    and "mongo_activate_client m k w = Some (w1, Inr ci1)" "mongo_activate_client m k w1 = Some (w2, Inr ci2)"
  shows "ci_id ci2 = ci_id ci1 \<and> ci_key ci1 = k \<and> ci_key ci2 = k \<and>
    ci_status ci1 = Client_Activated \<and> ci_status ci2 = Client_Activated"
proof -
  obtain e i where 1: "filter (matches (key_filter k)) (rows w1 col_clients) = [e]" "map_of e ''_id'' = Some (B_Id i)"
    "ci_id ci1 = hex_encode i" "ci_key ci1 = k" "ci_status ci1 = Client_Activated" "list_all has_id (rows w1 col_clients)"
    using activate_client_row [OF assms(1,4,2,3)] by blast
  then show ?thesis using activate_client_row [OF assms(1,5) _ 1(6)] by auto
qed

section \<open>Samples\<close>

lemma sample_update:
  "case mongo_update_client mem_mongo sample_attached (\<lparr>di_id = hex_encode (oid 9), di_key = ''c$d'', di_server_seq = 4, di_owner = []\<rparr>) sample_store of
     None \<Rightarrow> False | Some (w, r) \<Rightarrow> r = Inr ()"
  by code_simp

theorem update_client_monotone_witness:
  "\<exists>w e e'. mongo_update_client mem_mongo sample_attached \<lparr>di_id = hex_encode (oid 9), di_key = ''c$d'', di_server_seq = 4, di_owner = []\<rparr> sample_store =
       Some (w, Inr ()) \<and> e \<in> set (mem_rows sample_store col_clients) \<and> e' \<in> set (mem_rows w col_clients) \<and>
     client_doc_field (hex_encode (oid 9)) ''server_seq'' e' =
       sequence_after True 3 (client_doc_field (hex_encode (oid 9)) ''server_seq'' e)"
proof -
  let ?d = "\<lparr>di_id = hex_encode (oid 9), di_key = ''c$d'', di_server_seq = 4, di_owner = []\<rparr>"
  obtain w where w: "mongo_update_client mem_mongo sample_attached ?d sample_store = Some (w, Inr ())"
    using io_runs [OF sample_update] by blast
  have c: "map_of (ci_documents sample_attached) (di_id ?d) = Some \<lparr>cdi_status = Document_Attached, cdi_server_seq = 3, cdi_client_seq = 1\<rparr>"
    "CHR ''.'' \<notin> set (di_id ?d)"
    by code_simp+
  obtain as e e' bs where "mem_rows sample_store col_clients = as @ e # bs" "mem_rows w col_clients = as @ e' # bs"
    "client_doc_field (hex_encode (oid 9)) ''server_seq'' e' =
       sequence_after True 3 (client_doc_field (hex_encode (oid 9)) ''server_seq'' e)"
    using update_client_monotone [OF mem_mongo_documented c w] by auto
  then show ?thesis using w by (intro exI [of _ w] exI [of _ e] exI [of _ e']) simp
qed

lemma sample_activation:
  "case mongo_activate_client mem_mongo ''new'' sample_store of
     Some (w, Inr ci) \<Rightarrow> (case mongo_activate_client mem_mongo ''new'' w of Some (v, Inr ci2) \<Rightarrow> True | _ \<Rightarrow> False) | _ \<Rightarrow> False"
  by code_simp

theorem activate_client_idempotent_witness:
  "\<exists>w v ci1 ci2. mongo_activate_client mem_mongo ''new'' sample_store = Some (w, Inr ci1) \<and>
     mongo_activate_client mem_mongo ''new'' w = Some (v, Inr ci2) \<and> ci_id ci2 = ci_id ci1"
proof -
  obtain w v ci1 ci2 where w: "mongo_activate_client mem_mongo ''new'' sample_store = Some (w, Inr ci1)"
    "mongo_activate_client mem_mongo ''new'' w = Some (v, Inr ci2)"
    using sample_activation by (fastforce split: option.splits prod.splits sum.splits)
  have "length (filter (matches (key_filter ''new'')) (mem_rows sample_store col_clients)) \<le> 1"
    "list_all has_id (mem_rows sample_store col_clients)"
    by code_simp+
  then show ?thesis using activate_client_idempotent [OF mem_mongo_documented _ _ w] w by blast
qed

end
