(* ===== verification/Mongo_Changes.thy ===== *)
theory Mongo_Changes
  imports Mongo_Facts
begin

text \<open>
  Storing changes and reading them back (\<open>StoreChangeInfos\<close> and \<open>FindChangeInfosBetweenServerSeqs\<close> of
  \<open>src/yorkie/backend/db/mongo/client.go\<close>): the optimistic update of the document, what a conflict
  leaves behind, and the round trip through the stored bytes.
\<close>

section \<open>The rows of changes\<close>

definition change_row_fields :: "change \<Rightarrow> actor_id \<Rightarrow> 8 word list list \<Rightarrow> bson_doc" where
  "change_row_fields c a ops = [(''actor'', B_Id a), (''client_seq'', B_Num (uint (id_client_seq (ch_id c)))),
     (''lamport'', B_Num (uint (id_lamport (ch_id c)))), (''message'', B_Str (ch_message c)),
     (''operations'', B_Array (map B_Bytes ops))]"

text \<open>A stored document holds this change of the document \<open>d\<close>.\<close>

definition stored_as :: "op_codec \<Rightarrow> json_heap \<Rightarrow> object_id \<Rightarrow> bson_doc \<Rightarrow> change \<Rightarrow> bool" where
  "stored_as codec h d r c \<longleftrightarrow> (case (ch_server_seq c, id_actor (ch_id c), encode_operations codec h (ch_operations c)) of
     (Some s, Some a, Some (Inr ops)) \<Rightarrow> matches (change_filter d s) r \<and>
       list_all (\<lambda>(k, v). map_of r k = Some v) (change_row_fields c a ops)
   | _ \<Rightarrow> False)"

lemma change_model_ok:
  assumes "change_model codec h d c = Some (Inr (f, u, b))"
  obtains s a ops where "ch_server_seq c = Some s" "id_actor (ch_id c) = Some a"
    "encode_operations codec h (ch_operations c) = Some (Inr ops)"
    "f = change_filter d s" "u = set_fields (change_row_fields c a ops)" "b"
proof (cases "encode_operations codec h (ch_operations c)")
  case (Some x)
  then show ?thesis using assms that
    by (cases x) (auto simp: change_model_def change_server_seq_def encode_actor_id_def panics_def
        change_row_fields_def ok_def bind_eq_Some_conv)
qed (use assms in \<open>simp add: change_model_def\<close>)

lemma stored_update:
  assumes "ch_server_seq c = Some s" "id_actor (ch_id c) = Some a"
    "encode_operations codec h (ch_operations c) = Some (Inr ops)" "matches (change_filter d s) r"
  shows "stored_as codec h d (apply_update (set_fields (change_row_fields c a ops)) r) c"
proof -
  have "map_of (apply_update (set_fields (change_row_fields c a ops)) r) =
      map_of r ++ map_of (rev (change_row_fields c a ops))"
    by (rule apply_set_fields) (simp add: change_row_fields_def)
  then show ?thesis using assms
    by (simp add: stored_as_def change_row_fields_def matches_def change_filter_def)
qed

lemma ref_update_one_keeps:
  "(ds', r) = ref_update_one f u b i ds \<Longrightarrow> e \<in> set ds \<Longrightarrow> \<not> matches f e \<Longrightarrow> e \<in> set ds'"
proof -
  have "e \<in> set ds \<Longrightarrow> \<not> matches f e \<Longrightarrow> e \<in> set (update_first f u ds)" by (induction ds) auto
  then show "(ds', r) = ref_update_one f u b i ds \<Longrightarrow> e \<in> set ds \<Longrightarrow> \<not> matches f e \<Longrightarrow> e \<in> set ds'"
    by (auto simp: ref_update_one_def split: if_splits)
qed

lemma change_filter_self: "matches (change_filter d s) ((''_id'', B_Id i) # fixed_fields (change_filter d s))"
  by (simp add: matches_def change_filter_def)

lemma change_filter_seq:
  "matches (change_filter d s) r \<Longrightarrow> matches (change_filter e t) r \<Longrightarrow> s = t"
  by (auto simp: matches_def change_filter_def word_uint_eq_iff split: option.splits)

lemma stored_as_seq: "stored_as codec h d r c \<Longrightarrow> \<exists>s. ch_server_seq c = Some s \<and> matches (change_filter d s) r"
  by (auto simp: stored_as_def split: option.splits sum.splits)

text \<open>Every change is there after the bulk write, new or overwritten.\<close>

lemma bulk_write_stores:
  "checked_map (change_model codec h d) cs = Some (Inr ms) \<Longrightarrow> distinct (map ch_server_seq cs) \<Longrightarrow>
   length ids = length ms \<Longrightarrow> list_all (\<lambda>c. list_ex (\<lambda>r. stored_as codec h d r c) ds) done \<Longrightarrow>
   ch_server_seq ` set done \<inter> ch_server_seq ` set cs = {} \<Longrightarrow>
   list_all (\<lambda>c. list_ex (\<lambda>r. stored_as codec h d r c) (ref_bulk_write ms ids ds)) (done @ cs)"
proof (induction cs arbitrary: ms ids ds "done")
  case (Cons c cs)
  obtain f u b ms' where m: "change_model codec h d c = Some (Inr (f, u, b))"
    "checked_map (change_model codec h d) cs = Some (Inr ms')" "ms = (f, u, b) # ms'"
    using Cons.prems(1) by (auto simp: checked_def ok_def split: option.splits sum.splits prod.splits)
  obtain i ids' where i: "ids = i # ids'" "length ids' = length ms'"
    using Cons.prems(3) m(3) by (cases ids) auto
  obtain s a ops where c: "ch_server_seq c = Some s" "id_actor (ch_id c) = Some a"
    "encode_operations codec h (ch_operations c) = Some (Inr ops)" "f = change_filter d s"
    "u = set_fields (change_row_fields c a ops)" "b"
    by (rule change_model_ok [OF m(1)])
  obtain ds' r where r: "(ds', r) = ref_update_one f u b i ds" by (metis surj_pair)
  obtain e where e: "matches f e" "apply_update u e \<in> set ds'"
    using ref_upsert_hit [of ds' r f u i ds] r c(4,6) change_filter_self by auto
  then have "\<exists>e\<in>set ds'. stored_as codec h d e c"
    using stored_update [OF c(1-3)] c(4,5) by blast
  moreover have "\<exists>e\<in>set ds'. stored_as codec h d e c'" if c': "c' \<in> set done" for c'
  proof -
    obtain e where e: "e \<in> set ds" "stored_as codec h d e c'"
      using Cons.prems(4) c' by (auto simp: list_all_iff list_ex_iff)
    have "ch_server_seq c' \<noteq> Some s" using Cons.prems(5) c' c(1) by force
    then have "\<not> matches f e" using stored_as_seq [OF e(2)] change_filter_seq c(4) by metis
    then show ?thesis using ref_update_one_keeps [OF r e(1)] e(2) by blast
  qed
  ultimately have "list_all (\<lambda>c. list_ex (\<lambda>r. stored_as codec h d r c) ds') (done @ [c])"
    by (auto simp: list_all_iff list_ex_iff)
  moreover have "ch_server_seq ` set (done @ [c]) \<inter> ch_server_seq ` set cs = {}"
    using Cons.prems(2,5) by auto
  ultimately have "list_all (\<lambda>c. list_ex (\<lambda>r. stored_as codec h d r c) (ref_bulk_write ms' ids' ds')) ((done @ [c]) @ cs)"
    using Cons.IH [OF m(2) _ i(2), of ds' "done @ [c]"] Cons.prems(2) by simp
  moreover have "fst (ref_update_one f u b i ds) = ds'" by (metis r fst_conv)
  then have "ref_bulk_write ms ids ds = ref_bulk_write ms' ids' ds'" by (simp add: m(3) i(1))
  ultimately show ?case by simp
qed (simp add: ok_def)

lemma driver_no_conflict: "driver f s \<noteq> Some (s', Inl (Conflict_On_Update x))"
  by (auto simp: driver_def split: prod.splits sum.splits)

lemma io_bind_error:
  "io_bind m f w = Some (w', Inl e) \<longleftrightarrow>
     m w = Some (w', Inl e) \<or> (\<exists>v a. m w = Some (v, Inr a) \<and> f a v = Some (w', Inl e))"
  by (auto simp: io_bind_def split: option.splits sum.splits prod.splits)

section \<open>The optimistic update of the document\<close>

definition doc_at :: "object_id \<Rightarrow> 64 word \<Rightarrow> bson_doc list \<Rightarrow> bool" where
  "doc_at d s ds \<longleftrightarrow> list_ex (matches [(''_id'', Equals (B_Id d)), (''server_seq'', Equals (B_Num (uint s)))]) ds"

lemma write_changes_spec:
  assumes "documented m rows" "write_changes m codec h d cs w = Some (v, Inr ())" "distinct (map ch_server_seq cs)"
  shows "list_all (\<lambda>c. list_ex (\<lambda>r. stored_as codec h d r c) (rows v col_changes)) cs \<and>
    rows v col_documents = rows w col_documents"
proof -
  obtain ms where ms: "checked_map (change_model codec h d) cs = Some (Inr ms)"
    "mg_bulk_write m col_changes ms w = (v, Inr ())"
    using assms(2) by (auto simp: write_changes_def io_bind_ok mongo_steps)
  obtain ids where ids: "length ids = length ms" "rows v col_changes = ref_bulk_write ms ids (rows w col_changes)"
    using documented_bulk(1) [OF assms(1) ms(2)] by blast
  have "rows v col_documents = rows w col_documents"
    by (rule documented_bulk(2) [OF assms(1) ms(2)]) (simp add: col_documents_def col_changes_def)
  then show ?thesis
    using bulk_write_stores [OF ms(1) assms(3) ids(1), of "rows w col_changes" "[]"] by (simp add: ids(2))
qed

lemma update_first_unique:
  assumes "distinct (map (\<lambda>r. map_of r k) ds)" "e \<in> set ds" "matches f e"
    and "\<And>r. matches f r \<Longrightarrow> map_of r k = v"
  shows "\<exists>as bs. ds = as @ e # bs \<and> update_first f u ds = as @ apply_update u e # bs \<and>
    list_all (\<lambda>r. map_of r k \<noteq> v) (as @ bs)"
  using assms
proof (induction ds)
  case (Cons r ds)
  show ?case
  proof (cases "e = r")
    case True
    then have "update_first f u (r # ds) = [] @ apply_update u e # ds" "r # ds = [] @ e # ds"
      using Cons.prems(3) by simp_all
    moreover have "map_of r k = v" using Cons.prems(3,4) True by blast
    moreover have "\<forall>r'\<in>set ds. map_of r' k \<noteq> map_of r k" using Cons.prems(1) by (simp add: image_iff) metis
    ultimately have "list_all (\<lambda>r. map_of r k \<noteq> v) ([] @ ds)" by (simp add: list_all_iff)
    then show ?thesis using \<open>r # ds = [] @ e # ds\<close> \<open>update_first f u (r # ds) = [] @ apply_update u e # ds\<close> by blast
  next
    case False
    then have e: "e \<in> set ds" using Cons.prems(2) by simp
    have "map_of r k \<noteq> map_of e k" using Cons.prems(1) e by auto
    then have "map_of r k \<noteq> v" using Cons.prems(3,4) by metis
    moreover from this have "\<not> matches f r" using Cons.prems(4) by blast
    moreover have "distinct (map (\<lambda>r. map_of r k) ds)" using Cons.prems(1) by simp
    from Cons.IH [OF this e Cons.prems(3,4)]
    obtain as bs where "ds = as @ e # bs" "update_first f u ds = as @ apply_update u e # bs"
      "list_all (\<lambda>r. map_of r k \<noteq> v) (as @ bs)"
      by blast
    ultimately show ?thesis by (intro exI [of _ "r # as"] exI [of _ bs]) simp
  qed
qed simp

lemma advance_server_seq_spec:
  assumes doc: "documented m rows"
    and ids: "distinct (map (\<lambda>r. map_of r ''_id'') (rows w col_documents))"
    and run: "advance_server_seq m d di initial w = Some (w', r)"
    and r: "r = Inr () \<or> r = Inl (Conflict_On_Update (di_id di))"
  shows "rows w' col_changes = rows w col_changes \<and>
    (if r = Inr ()
     then doc_at d initial (rows w col_documents) \<and> doc_at d (di_server_seq di) (rows w' col_documents) \<and>
       (\<forall>s. doc_at d s (rows w' col_documents) \<longrightarrow> s = di_server_seq di)
     else \<not> doc_at d initial (rows w col_documents) \<and> rows w' col_documents = rows w col_documents)"
proof -
  let ?f = "\<lambda>s. [(''_id'', Equals (B_Id d)), (''server_seq'', Equals (B_Num (uint (s :: 64 word))))]"
  let ?u = "set_fields [(''server_seq'', B_Num (uint (di_server_seq di))), (''updated_at'', B_Time)]"
  let ?ds = "rows w col_documents"
  obtain res where upd: "mg_update_one m col_documents (?f initial) ?u False w = (w', Inr res)"
    and res: "r = (if ur_matched_count res = 0 then Inl (Conflict_On_Update (di_id di)) else Inr ())"
    using run r
    by (auto simp: driver_no_conflict advance_server_seq_def io_bind_ok io_bind_error mongo_steps io_return_def io_fail_def
        split: if_splits)
  obtain i where i: "(rows w' col_documents, res) = ref_update_one (?f initial) ?u False i ?ds"
    using documented_update(1) [OF doc upd] by blast
  have frame: "rows w' col_changes = rows w col_changes"
    by (rule documented_update(2) [OF doc upd]) (simp add: col_documents_def col_changes_def)
  show ?thesis
  proof (cases "list_ex (matches (?f initial)) ?ds")
    case True
    then obtain e where e: "e \<in> set ?ds" "matches (?f initial) e" by (auto simp: list_ex_iff)
    have rows: "rows w' col_documents = update_first (?f initial) ?u ?ds" "r = Inr ()"
      using i res True by (simp_all add: ref_update_one_def)
    have id: "matches (?f s) r \<Longrightarrow> map_of r ''_id'' = Some (B_Id d)" for s r
      by (auto simp: matches_def split: option.splits)
    obtain as bs where ab: "rows w' col_documents = as @ apply_update ?u e # bs"
      "list_all (\<lambda>r. map_of r ''_id'' \<noteq> Some (B_Id d)) (as @ bs)"
      using update_first_unique [where u = ?u, OF ids e id [of initial]] unfolding rows(1) by blast
    have u: "map_of (apply_update ?u e) = (map_of e)(''server_seq'' \<mapsto> B_Num (uint (di_server_seq di)), ''updated_at'' \<mapsto> B_Time)"
      by (simp add: apply_set_fields)
    have "matches (?f s) (apply_update ?u e) \<longleftrightarrow> s = di_server_seq di" for s
      using e(2) by (auto simp: matches_def u word_uint_eq_iff)
    moreover have "\<not> matches (?f s) r" if "r \<in> set (as @ bs)" for s r
    proof -
      have "map_of r ''_id'' \<noteq> Some (B_Id d)" using ab(2) that unfolding list_all_iff by blast
      then show ?thesis using id by blast
    qed
    ultimately have "doc_at d s (rows w' col_documents) \<longleftrightarrow> s = di_server_seq di" for s
      by (auto simp: doc_at_def list_ex_iff ab(1))
    then show ?thesis using frame rows(2) True by (simp add: doc_at_def)
  next
    case False
    then show ?thesis using i res frame by (simp add: ref_update_one_def doc_at_def)
  qed
qed

text \<open>C5: a push is stored if and only if the document is still at the sequence the push started
  from, and then the document is at the new sequence and at no other, so that of two pushes from
  the same sequence one is refused; but the refused one has written its changes before, at server
  sequences that belong to the other.\<close>
theorem store_changes_optimistic:
  fixes m :: "('s, 'e) mongo"
  assumes "documented m rows" "encode_id m (di_id di) = Inr d"
    and "distinct (map (\<lambda>r. map_of r ''_id'') (rows w col_documents))" "distinct (map ch_server_seq cs)"
    and "mongo_store_changes m codec h di initial cs w = Some (w', r)"
    and "r = Inr () \<or> r = Inl (Conflict_On_Update (di_id di))"
  shows "list_all (\<lambda>c. list_ex (\<lambda>e. stored_as codec h d e c) (rows w' col_changes)) cs \<and>
    (if r = Inr ()
     then doc_at d initial (rows w col_documents) \<and> doc_at d (di_server_seq di) (rows w' col_documents) \<and>
       (\<forall>s. doc_at d s (rows w' col_documents) \<longrightarrow> s = di_server_seq di)
     else \<not> doc_at d initial (rows w col_documents) \<and> rows w' col_documents = rows w col_documents)"
proof -
  have "write_changes m codec h d cs w \<noteq> Some (w', Inl (Conflict_On_Update (di_id di)))"
    by (auto simp: driver_no_conflict write_changes_def io_bind_error mongo_steps step_of_def
        split: option.splits sum.splits)
  then obtain v where v: "write_changes m codec h d cs w = Some (v, Inr ())"
    "advance_server_seq m d di initial v = Some (w', r)"
    using assms(2,5,6)
    by (auto simp: mongo_store_changes_def io_bind_def sum_of_def step_of_def split: option.splits sum.splits)
  show ?thesis
    using write_changes_spec [OF assms(1) v(1) assms(4)]
      advance_server_seq_spec [OF assms(1) _ v(2) assms(6)] assms(3) by auto
qed

section \<open>Reading changes back\<close>

lemma decode_stored:
  assumes "documented m rows" "stored_as codec h d r c"
  obtains s a ops where "ch_server_seq c = Some s" "id_actor (ch_id c) = Some a"
    "encode_operations codec h (ch_operations c) = Some (Inr ops)"
    "decode_change_info m (Inr (Some r)) = Inr \<lparr>chi_server_seq = s, chi_client_seq = id_client_seq (ch_id c),
      chi_lamport = id_lamport (ch_id c), chi_actor = hex_encode a, chi_message = ch_message c, chi_operations = ops\<rparr>"
proof -
  obtain s a ops where c: "ch_server_seq c = Some s" "id_actor (ch_id c) = Some a"
    "encode_operations codec h (ch_operations c) = Some (Inr ops)" "matches (change_filter d s) r"
    "list_all (\<lambda>(k, v). map_of r k = Some v) (change_row_fields c a ops)"
    using assms(2) by (auto simp: stored_as_def split: option.splits sum.splits)
  have seq: "map_of r ''server_seq'' = Some (B_Num (uint s))"
    using c(4) by (auto simp: matches_def change_filter_def split: option.splits)
  have f: "map_of r ''actor'' = Some (B_Id a)"
    "map_of r ''client_seq'' = Some (B_Num (uint (id_client_seq (ch_id c))))"
    "map_of r ''lamport'' = Some (B_Num (uint (id_lamport (ch_id c))))"
    "map_of r ''message'' = Some (B_Str (ch_message c))"
    "map_of r ''operations'' = Some (B_Array (map B_Bytes ops))"
    using c(5) by (simp_all add: change_row_fields_def)
  show ?thesis
    by (rule that [OF c(1-3)])
      (simp add: decode_change_info_def decode_single_def bind_sum_def decode_id_def
        documented_fields(1) [OF assms(1) f(1)] documented_fields(3) [OF assms(1) seq]
        documented_fields(4) [OF assms(1) f(2)] documented_fields(3) [OF assms(1) f(3)]
        documented_fields(2) [OF assms(1) f(4)] documented_fields(5) [OF assms(1) f(5)]
        documented_fields(6) [OF assms(1)])
qed

definition codec_inverse :: "op_codec \<Rightarrow> bool" where
  "codec_inverse codec \<longleftrightarrow> (\<forall>p bs. op_marshal codec p = Some bs \<longrightarrow> op_unmarshal codec bs = Some p)"

lemma unmarshal_encoded:
  assumes "codec_inverse codec" "encode_operations codec h ops = Some (Inr bss)"
  obtains ps where "to_operations h ops = Some ps"
    "checked_map (\<lambda>bs. case op_unmarshal codec bs of None \<Rightarrow> fail Proto_Error | Some p \<Rightarrow> ok p) bss = ok ps"
proof -
  obtain ps where ps: "to_operations h ops = Some ps"
    "checked_map (\<lambda>p. case op_marshal codec p of None \<Rightarrow> fail () | Some bs \<Rightarrow> ok bs) ps = Some (Inr bss)"
    using assms(2) by (auto simp: encode_operations_def panics_def bind_eq_Some_conv)
  have "checked_map (\<lambda>bs. case op_unmarshal codec bs of None \<Rightarrow> fail Proto_Error | Some p \<Rightarrow> ok p) bss = ok ps"
    using ps(2)
  proof (induction ps arbitrary: bss)
    case (Cons p ps)
    obtain b bs where b: "op_marshal codec p = Some b" "bss = b # bs"
      "checked_map (\<lambda>p. case op_marshal codec p of None \<Rightarrow> fail () | Some bs \<Rightarrow> ok bs) ps = Some (Inr bs)"
      using Cons.prems by (auto simp: checked_def ok_def fail_def split: option.splits sum.splits)
    have "op_unmarshal codec b = Some p" using assms(1) b(1) by (simp add: codec_inverse_def)
    then show ?case using Cons.IH [OF b(3)] by (simp add: b(2))
  qed (simp add: ok_def)
  then show ?thesis using that ps(1) by blast
qed

lemma info_to_change_stored:
  assumes "codec_inverse codec" "encode_operations codec h (ch_operations c) = Some (Inr ops)"
    "id_actor (ch_id c) = Some a" "sendable_change h c"
  obtains h1 ops1 ps where "info_to_change codec \<lparr>chi_server_seq = s, chi_client_seq = id_client_seq (ch_id c),
      chi_lamport = id_lamport (ch_id c), chi_actor = hex_encode a, chi_message = ch_message c, chi_operations = ops\<rparr> h0 =
      ok (h1, set_server_seq s (new_change (ch_id c) (ch_message c) ops1))"
    "grows h0 h1" "to_operations h (ch_operations c) = Some ps" "sent_as to_operations h1 ops1 ps"
    "list_all2 (\<lambda>x y. same_op h x h1 y) (ch_operations c) ops1"
proof -
  obtain ps where ps: "to_operations h (ch_operations c) = Some ps"
    "checked_map (\<lambda>bs. case op_unmarshal codec bs of None \<Rightarrow> fail Proto_Error | Some p \<Rightarrow> ok p) ops = ok ps"
    by (rule unmarshal_encoded [OF assms(1,2)])
  have wf: "wf_actor a" "list_all (sendable_op h) (ch_operations c)"
    using assms(3,4) by (simp_all add: sendable_change_def)
  obtain h1 ops1 where o: "from_operations ps h0 = ok (h1, ops1)" "grows h0 h1" "sent_as to_operations h1 ops1 ps"
    "list_all2 (\<lambda>x y. same_op h x h1 y) (ch_operations c) ops1"
    using from_to_operations [OF wf(2) ps(1), of h0] by blast
  have a: "actor_id_from_hex (hex_encode a) = Inr (Some a)"
    using wf(1) wf_actor_ne [OF wf(1)] by (simp add: actor_id_from_hex_def wf_actor_def actor_id_size_def)
  have "new_id (id_client_seq (ch_id c)) (id_lamport (ch_id c)) (Some a) = ch_id c"
    using assms(3) by (simp add: new_id_def)
  then show ?thesis using that o ps a by (simp add: info_to_change_def)
qed

text \<open>The loop over the cursor returns the changes of the rows, in the order of the rows.\<close>

lemma read_changes_stored:
  assumes "documented m rows" "codec_inverse codec"
  shows "list_all2 (stored_as codec h d) ds cs \<Longrightarrow> list_all (sendable_change h) cs \<Longrightarrow>
    \<exists>h1 cs1 ps. read_changes m codec ds h0 = ok (h1, cs1) \<and> grows h0 h1 \<and> to_changes h cs = Some ps \<and>
      sent_as to_changes h1 cs1 ps \<and> list_all2 (same_change h h1) cs cs1 \<and> map ch_id cs1 = map ch_id cs \<and>
      map ch_server_seq cs1 = map ch_server_seq cs"
proof (induction ds cs arbitrary: h0 rule: list_all2_induct)
  case (Cons r ds c cs)
  obtain s a ops where c: "ch_server_seq c = Some s" "id_actor (ch_id c) = Some a"
    "encode_operations codec h (ch_operations c) = Some (Inr ops)"
    "decode_change_info m (Inr (Some r)) = Inr \<lparr>chi_server_seq = s, chi_client_seq = id_client_seq (ch_id c),
      chi_lamport = id_lamport (ch_id c), chi_actor = hex_encode a, chi_message = ch_message c, chi_operations = ops\<rparr>"
    by (rule decode_stored [OF assms(1) Cons.hyps(1)])
  have sc: "sendable_change h c" "list_all (sendable_change h) cs" using Cons.prems by simp_all
  obtain h1 ops1 ps1 where 1: "info_to_change codec \<lparr>chi_server_seq = s, chi_client_seq = id_client_seq (ch_id c),
      chi_lamport = id_lamport (ch_id c), chi_actor = hex_encode a, chi_message = ch_message c, chi_operations = ops\<rparr> h0 =
      ok (h1, set_server_seq s (new_change (ch_id c) (ch_message c) ops1))"
    "grows h0 h1" "to_operations h (ch_operations c) = Some ps1" "sent_as to_operations h1 ops1 ps1"
    "list_all2 (\<lambda>x y. same_op h x h1 y) (ch_operations c) ops1"
    by (rule info_to_change_stored [OF assms(2) c(3,2) sc(1)])
  obtain h2 cs2 ps2 where 2: "read_changes m codec ds h1 = ok (h2, cs2)" "grows h1 h2" "to_changes h cs = Some ps2"
    "sent_as to_changes h2 cs2 ps2" "map ch_id cs2 = map ch_id cs" "map ch_server_seq cs2 = map ch_server_seq cs"
    "list_all2 (same_change h h2) cs cs2"
    using Cons.IH [OF sc(2), of h1] by blast
  let ?c = "set_server_seq s (new_change (ch_id c) (ch_message c) ops1)"
  let ?p = "\<lparr>pch_id = Some (to_change_id (ch_id c)), pch_message = ch_message c, pch_operations = ps1\<rparr>"
  have "read_changes m codec (r # ds) h0 = ok (h2, ?c # cs2)" using 1(1) 2(1) c(4) by (simp add: ok_def)
  moreover have "to_changes h (c # cs) = Some (?p # ps2)" using 1(3) 2(3) by simp
  moreover have "sent_as to_changes h2 (?c # cs2) (?p # ps2)"
    using sent_as_grows [OF 1(4) 2(2)] 2(4) by (simp add: sent_as_def set_server_seq_def new_change_def)
  moreover have "map ch_id (?c # cs2) = map ch_id (c # cs)" "map ch_server_seq (?c # cs2) = map ch_server_seq (c # cs)"
    using 2(5,6) c(1) by (simp_all add: set_server_seq_def new_change_def)
  moreover have "list_all2 (same_change h h2) (c # cs) (?c # cs2)"
    using 2(7) same_ops_grows [OF 1(5) 2(2)] by simp (simp add: same_change_def set_server_seq_def new_change_def)
  ultimately show ?case using grows_trans [OF 1(2) 2(2)] by blast
qed (simp add: sent_as_def)

text \<open>When the server sequences are new, the bulk write appends one row per change.\<close>

lemma bulk_write_appends:
  "checked_map (change_model codec h d) cs = Some (Inr ms) \<Longrightarrow> distinct (map ch_server_seq cs) \<Longrightarrow>
   length ids = length ms \<Longrightarrow>
   (\<And>r c s. r \<in> set ds \<Longrightarrow> c \<in> set cs \<Longrightarrow> ch_server_seq c = Some s \<Longrightarrow> \<not> matches (change_filter d s) r) \<Longrightarrow>
   \<exists>new. ref_bulk_write ms ids ds = ds @ new \<and> list_all2 (stored_as codec h d) new cs"
proof (induction cs arbitrary: ms ids ds)
  case (Cons c cs)
  obtain f u b ms' where m: "change_model codec h d c = Some (Inr (f, u, b))"
    "checked_map (change_model codec h d) cs = Some (Inr ms')" "ms = (f, u, b) # ms'"
    using Cons.prems(1) by (auto simp: checked_def ok_def split: option.splits sum.splits prod.splits)
  obtain i ids' where i: "ids = i # ids'" "length ids' = length ms'"
    using Cons.prems(3) m(3) by (cases ids) auto
  obtain s a ops where c: "ch_server_seq c = Some s" "id_actor (ch_id c) = Some a"
    "encode_operations codec h (ch_operations c) = Some (Inr ops)" "f = change_filter d s"
    "u = set_fields (change_row_fields c a ops)" "b"
    by (rule change_model_ok [OF m(1)])
  define new where "new = apply_update u ((''_id'', B_Id i) # fixed_fields f)"
  have "\<not> list_ex (matches f) ds" using Cons.prems(4) c(1,4) by (auto simp: list_ex_iff)
  then have r: "fst (ref_update_one f u b i ds) = ds @ [new]" using c(6) by (simp add: ref_update_one_def new_def)
  have st: "stored_as codec h d new c"
    using stored_update [OF c(1-3)] change_filter_self c(4,5) new_def by blast
  have fresh: "\<not> matches (change_filter d s') r"
    if "r \<in> set (ds @ [new])" "c' \<in> set cs" "ch_server_seq c' = Some s'" for r c' s'
  proof (cases "r = new")
    case True
    have "s' \<noteq> s" using Cons.prems(2) that(2,3) c(1) by force
    then show ?thesis using stored_as_seq [OF st] change_filter_seq True c(1) by (metis option.inject)
  next
    case False
    then show ?thesis using Cons.prems(4) that by auto
  qed
  have "distinct (map ch_server_seq cs)" using Cons.prems(2) by simp
  then have "\<exists>rest. ref_bulk_write ms' ids' (ds @ [new]) = (ds @ [new]) @ rest \<and> list_all2 (stored_as codec h d) rest cs"
    by (intro Cons.IH [OF m(2) _ i(2)] fresh)
  then obtain rest where "ref_bulk_write ms' ids' (ds @ [new]) = (ds @ [new]) @ rest"
    "list_all2 (stored_as codec h d) rest cs" by blast
  then have "ref_bulk_write ms ids ds = ds @ new # rest" "list_all2 (stored_as codec h d) (new # rest) (c # cs)"
    using r st by (simp_all add: m(3) i(1))
  then show ?case by blast
qed (simp add: ok_def)

definition range_filter :: "object_id \<Rightarrow> 64 word \<Rightarrow> 64 word \<Rightarrow> mongo_filter" where
  "range_filter d from to = [(''doc_id'', Equals (B_Id d)), (''server_seq'', In_Range (uint from) (uint to))]"

definition in_range :: "64 word \<Rightarrow> 64 word \<Rightarrow> change \<Rightarrow> bool" where
  "in_range from to c \<longleftrightarrow> (case ch_server_seq c of None \<Rightarrow> False | Some s \<Rightarrow> from \<le> s \<and> s \<le> to)"

lemma range_filter_iff:
  "matches (change_filter d s) r \<Longrightarrow> matches (range_filter d from to) r \<longleftrightarrow> from \<le> s \<and> s \<le> to"
  by (auto simp: matches_def change_filter_def range_filter_def word_le_def split: option.splits)

lemma list_all2_choice:
  "(\<And>x. x \<in> set xs \<Longrightarrow> \<exists>y\<in>Y. R x y) \<Longrightarrow> \<exists>ys. list_all2 R xs ys \<and> set ys \<subseteq> Y"
proof (induction xs)
  case (Cons x xs)
  obtain y where "y \<in> Y" "R x y" using Cons.prems [of x] by auto
  moreover obtain ys where "list_all2 R xs ys" "set ys \<subseteq> Y" using Cons by auto
  ultimately show ?case by (intro exI [of _ "y # ys"]) simp
qed simp

lemma written_range:
  assumes doc: "documented m rows" and run: "write_changes m codec h d cs w = Some (v, Inr ())"
    and seqs: "distinct (map ch_server_seq cs)" "list_all (in_range from to) cs"
    and free: "list_all (\<lambda>r. \<not> matches (range_filter d from to) r) (rows w col_changes)"
  shows "\<exists>new. filter (matches (range_filter d from to)) (rows v col_changes) = new \<and> list_all2 (stored_as codec h d) new cs"
proof -
  obtain ms where ms: "checked_map (change_model codec h d) cs = Some (Inr ms)"
    "mg_bulk_write m col_changes ms w = (v, Inr ())"
    using run by (auto simp: write_changes_def io_bind_ok mongo_steps)
  obtain ids where ids: "length ids = length ms" "rows v col_changes = ref_bulk_write ms ids (rows w col_changes)"
    using documented_bulk(1) [OF doc ms(2)] by blast
  have seq: "from \<le> s \<and> s \<le> to" if "c \<in> set cs" "ch_server_seq c = Some s" for c s
    using seqs(2) that by (auto simp: list_all_iff in_range_def)
  have fresh: "\<not> matches (change_filter d s) r"
    if "r \<in> set (rows w col_changes)" "c \<in> set cs" "ch_server_seq c = Some s" for r c s
    using free that(1) seq [OF that(2,3)] range_filter_iff by (auto simp: list_all_iff)
  have "\<exists>new. rows v col_changes = rows w col_changes @ new \<and> list_all2 (stored_as codec h d) new cs"
    unfolding ids(2) by (intro bulk_write_appends [OF ms(1) seqs(1) ids(1)] fresh)
  then obtain new where new: "rows v col_changes = rows w col_changes @ new" "list_all2 (stored_as codec h d) new cs"
    by blast
  have "matches (range_filter d from to) r" if r: "r \<in> set new" for r
  proof -
    obtain c where c: "c \<in> set cs" "stored_as codec h d r c"
      using new(2) r by (metis in_set_conv_nth list_all2_conv_all_nth)
    obtain s where s: "ch_server_seq c = Some s" "matches (change_filter d s) r" using stored_as_seq [OF c(2)] by blast
    show ?thesis using range_filter_iff [OF s(2)] seq [OF c(1) s(1)] by simp
  qed
  then have "filter (matches (range_filter d from to)) (rows v col_changes) = new"
    using free by (simp add: new(1) list_all_iff filter_empty_conv [THEN iffD2])
  then show ?thesis using new(2) by blast
qed

text \<open>C12: what was stored is read back: if no change of the document was stored in a range of server
  sequences and changes are stored there, then asking for the range returns them without error
  (unless the driver reports one), with their ids, server sequences, messages and operations with
  all their fields, values as they arrive from a message; in the order MongoDB chooses, because the
  query does not ask for one.\<close>
theorem stored_changes_roundtrip:
  fixes m :: "('s, 'e) mongo"
  assumes "documented m rows" "encode_id m (di_id di) = Inr d" "codec_inverse codec"
    and "list_all (sendable_change h) cs" "distinct (map ch_server_seq cs)" "list_all (in_range from to) cs"
    and "list_all (\<lambda>r. \<not> matches (range_filter d from to) r) (rows w col_changes)"
    and "mongo_store_changes m codec h di initial cs w = Some (w1, Inr ())"
  shows "case mongo_find_changes m codec (di_id di) from to h0 w1 of
      None \<Rightarrow> False
    | Some (w2, Inl e) \<Rightarrow> \<exists>x. e = Driver_Error x
    | Some (w2, Inr (h1, cs1)) \<Rightarrow> \<exists>p. mset p = mset cs \<and> map ch_id cs1 = map ch_id p \<and>
        map ch_server_seq cs1 = map ch_server_seq p \<and> list_all2 (same_change h h1) p cs1 \<and> to_changes h p \<noteq> None \<and> to_changes h1 cs1 = to_changes h p"
proof -
  obtain v res where v: "write_changes m codec h d cs w = Some (v, Inr ())"
    "mg_update_one m col_documents [(''_id'', Equals (B_Id d)), (''server_seq'', Equals (B_Num (uint initial)))]
       (set_fields [(''server_seq'', B_Num (uint (di_server_seq di))), (''updated_at'', B_Time)]) False v = (w1, Inr res)"
    using assms(2,8)
    by (auto simp: mongo_store_changes_def advance_server_seq_def io_bind_ok mongo_steps split: if_splits)
  have same: "rows w1 col_changes = rows v col_changes"
    by (rule documented_update(2) [OF assms(1) v(2)]) (simp add: col_documents_def col_changes_def)
  define found where "found = filter (matches (range_filter d from to)) (rows w1 col_changes)"
  have found: "list_all2 (stored_as codec h d) found cs"
    using written_range [OF assms(1) v(1) assms(5-7)] by (auto simp: found_def same)
  have row: "\<exists>c\<in>set cs. stored_as codec h d r c" if "r \<in> set found" for r
    using found that by (metis in_set_conv_nth list_all2_conv_all_nth)
  show ?thesis
  proof (cases "mg_find m col_changes (range_filter d from to) w1")
    case (Pair w2 r)
    show ?thesis
    proof (cases r)
      case (Inl e)
      then show ?thesis using Pair assms(2)
        by (simp add: mongo_find_changes_def io_bind_def sum_of_def step_of_def driver_def range_filter_def)
    next
      case (Inr x)
      obtain ds err where x: "x = (ds, err)" by (cases x)
      have ds: "set ds \<subseteq> set found" "err = None \<Longrightarrow> mset ds = mset found"
        using documented_find(2,3) [OF assms(1) Pair [unfolded Inr x]] by (simp_all add: found_def)
      have "\<exists>p. list_all2 (stored_as codec h d) ds p \<and> set p \<subseteq> set cs \<and> (err = None \<longrightarrow> mset p = mset cs)"
      proof (cases err)
        case None
        obtain p where p: "list_all2 (stored_as codec h d) ds p" "mset p = mset cs"
          using list_all2_reorder_left_invariance [OF found] ds(2) [OF None] by blast
        then show ?thesis using mset_eq_setD [OF p(2)] by auto
      next
        case (Some e)
        then show ?thesis using list_all2_choice [of ds "set cs" "stored_as codec h d"] row ds(1) by blast
      qed
      then obtain p where p: "list_all2 (stored_as codec h d) ds p" "set p \<subseteq> set cs" "err = None \<Longrightarrow> mset p = mset cs"
        by blast
      have "list_all (sendable_change h) p" using assms(4) p(2) by (auto simp: list_all_iff)
      from read_changes_stored [OF assms(1,3) p(1) this, of h0]
      obtain h1 cs1 ps where read: "read_changes m codec ds h0 = ok (h1, cs1)" "to_changes h p = Some ps"
        "sent_as to_changes h1 cs1 ps" "map ch_id cs1 = map ch_id p" "map ch_server_seq cs1 = map ch_server_seq p"
        "list_all2 (same_change h h1) p cs1"
        by blast
      have run: "mongo_find_changes m codec (di_id di) from to h0 w1 =
          Some (w2, case err of None \<Rightarrow> Inr (h1, cs1) | Some e \<Rightarrow> Inl (Driver_Error e))"
        using Pair assms(2) read(1)
        by (simp add: Inr x mongo_find_changes_def io_bind_def sum_of_def step_of_def driver_def range_filter_def
            ok_def io_return_def io_fail_def split: option.split)
      show ?thesis
        using p(3) read(2,4-) sent_as_self [OF read(3)] by (auto simp: run split: option.splits intro!: exI [of _ p])
    qed
  qed
qed

section \<open>A sample\<close>

definition sample_stored_change :: "64 word \<Rightarrow> change" where
  "sample_stored_change s = set_server_seq s (new_change (new_id 1 9 (Some (oid 3))) ''x''
     [Remove_Op \<lparr>remove_parent = sample_ticket 1, remove_created = sample_ticket 2, remove_executed = sample_ticket 3\<rparr>])"

definition sample_codec :: op_codec where
  "sample_codec = (let p = to_operations sample_json (ch_operations (sample_stored_change 0)) in
     \<lparr>op_marshal = (\<lambda>q. if p = Some [q] then Some [1] else None),
      op_unmarshal = (\<lambda>bs. if bs = [1] then Some (hd (the p)) else None)\<rparr>)"

definition sample_stored_doc :: "64 word \<Rightarrow> doc_info" where
  "sample_stored_doc s = \<lparr>di_id = hex_encode (oid 9), di_key = ''c$d'', di_server_seq = s, di_owner = hex_encode (oid 1)\<rparr>"

lemma sample_codec_inverse: "codec_inverse sample_codec"
  by (auto simp: codec_inverse_def sample_codec_def Let_def split: if_splits)

lemma sample_conflict:
  "case mongo_store_changes mem_mongo sample_codec sample_json (sample_stored_doc 1) 0 [sample_stored_change 1] sample_store of
     None \<Rightarrow> False | Some (w, r) \<Rightarrow> r = Inl (Conflict_On_Update (hex_encode (oid 9)))"
  by code_simp

lemma sample_stored:
  "case mongo_store_changes mem_mongo sample_codec sample_json (sample_stored_doc 2) 1 [sample_stored_change 2] sample_store of
     None \<Rightarrow> False | Some (w, r) \<Rightarrow> r = Inr ()"
  by code_simp

lemma sample_encoded: "encode_id mem_mongo (hex_encode (oid 9)) = Inr (oid 9)"
  by code_simp

text \<open>The change of the refused push has replaced the one stored at server sequence 1.\<close>

theorem store_changes_optimistic_witness:
  "\<exists>w. mongo_store_changes mem_mongo sample_codec sample_json (sample_stored_doc 1) 0 [sample_stored_change 1] sample_store =
       Some (w, Inl (Conflict_On_Update (hex_encode (oid 9)))) \<and>
     list_ex (\<lambda>r. stored_as sample_codec sample_json (oid 9) r (sample_stored_change 1)) (mem_rows w col_changes) \<and>
     mem_rows w col_documents = mem_rows sample_store col_documents"
proof -
  obtain w where w: "mongo_store_changes mem_mongo sample_codec sample_json (sample_stored_doc 1) 0 [sample_stored_change 1] sample_store =
      Some (w, Inl (Conflict_On_Update (hex_encode (oid 9))))"
    using io_runs [OF sample_conflict] by blast
  have "distinct (map (\<lambda>r. map_of r ''_id'') (mem_rows sample_store col_documents))" by code_simp
  then show ?thesis
    using w store_changes_optimistic [OF mem_mongo_documented _ _ _ w, of "oid 9"] sample_encoded
    by (simp add: sample_stored_doc_def)
qed

theorem stored_changes_roundtrip_witness:
  "\<exists>w. mongo_store_changes mem_mongo sample_codec sample_json (sample_stored_doc 2) 1 [sample_stored_change 2] sample_store = Some (w, Inr ()) \<and>
     (case mongo_find_changes mem_mongo sample_codec (hex_encode (oid 9)) 2 2 sample_json w of
        Some (w2, Inr (h1, cs1)) \<Rightarrow> map ch_server_seq cs1 = [Some 2] \<and>
          to_changes h1 cs1 = to_changes sample_json [sample_stored_change 2]
      | Some (w2, Inl e) \<Rightarrow> e = Driver_Error ()
      | None \<Rightarrow> False)"
proof -
  obtain w where w: "mongo_store_changes mem_mongo sample_codec sample_json (sample_stored_doc 2) 1 [sample_stored_change 2] sample_store =
      Some (w, Inr ())"
    using io_runs [OF sample_stored] by blast
  have t: "wf_ticket (sample_ticket n)" for n by (simp add: wf_ticket_def sample_ticket_def wf_actor_def initial_actor_id_def)
  have "sendable_change sample_json (sample_stored_change 2)"
    using t by (simp add: sendable_change_def sample_stored_change_def set_server_seq_def new_change_def wf_actor_def
        actor_id_size_def oid_def)
  moreover have "list_all (in_range 2 2) [sample_stored_change 2]"
    "list_all (\<lambda>r. \<not> matches (range_filter (oid 9) 2 2) r) (mem_rows sample_store col_changes)"
    by code_simp+
  moreover have "ch_server_seq (sample_stored_change 2) = Some 2" by code_simp
  ultimately show ?thesis
    using w stored_changes_roundtrip [OF mem_mongo_documented _ sample_codec_inverse _ _ _ _ w,
        of "oid 9" 2 2 sample_json] sample_encoded
    by (auto simp: sample_stored_doc_def split: option.splits sum.splits)
qed

end
