(* ===== verification/Coordinators.thy ===== *)
theory Coordinators
  imports Pub_Sub
begin

text \<open>
  The two coordinators of the server: the one in memory (\<open>src/yorkie/backend/sync/memory\<close>) and the
  one over etcd (\<open>src/yorkie/backend/sync/etcd\<close>), which keeps a map of the members of the cluster and
  forwards events to them, and the receiving end of a forwarded event
  (\<open>src/yorkie/rpc/cluster_server.go\<close>).  etcd, its locks, gRPC connections and the JSON of an agent are
  arguments; a wall clock time is left out.  Publishing to the local subscribers is the list of
  sends that \<open>publish_targets\<close> gives (theory Pub_Sub).
\<close>

section \<open>Agents, keys and lockers\<close>

record agent_info =
  ag_id :: string
  ag_hostname :: string
  ag_rpc_addr :: string

type_synonym lock_key = string

definition new_lock_key :: "string \<Rightarrow> lock_key" where
  "new_lock_key k = k"

definition lock_key_string :: "lock_key \<Rightarrow> string" where
  "lock_key_string k = k"

section \<open>The coordinator in memory\<close>

text \<open>The named locks of \<open>github.com/moby/locker\<close>: \<open>Lock\<close> waits (\<open>None\<close>) or takes the lock, \<open>Unlock\<close> may
  report an error.\<close>

record ('s, 'e) named_locks =
  nl_lock :: "string \<Rightarrow> 's \<Rightarrow> 's option"
  nl_unlock :: "string \<Rightarrow> 's \<Rightarrow> 's \<times> 'e option"

record memory_coordinator =
  mc_agent :: agent_info
  mc_pubsub :: pubsub

definition new_memory_coordinator :: "agent_info \<Rightarrow> memory_coordinator" where
  "new_memory_coordinator a = \<lparr>mc_agent = a, mc_pubsub = new_pubsub\<rparr>"

record memory_locker =
  il_key :: string

definition memory_new_locker :: "memory_coordinator \<Rightarrow> lock_key \<Rightarrow> memory_locker" where
  "memory_new_locker m k = \<lparr>il_key = lock_key_string k\<rparr>"

definition memory_lock :: "('s, 'e) named_locks \<Rightarrow> memory_locker \<Rightarrow> 's \<Rightarrow> ('s \<times> 'e option) option" where
  "memory_lock locks il s = map_option (\<lambda>s. (s, None)) (nl_lock locks (il_key il) s)"

definition memory_unlock :: "('s, 'e) named_locks \<Rightarrow> memory_locker \<Rightarrow> 's \<Rightarrow> 's \<times> 'e option" where
  "memory_unlock locks il s =
     (case nl_unlock locks (il_key il) s of (s, Some e) \<Rightarrow> (s, Some e) | (s, None) \<Rightarrow> (s, None))"

definition memory_subscribe :: "client \<Rightarrow> doc_key list \<Rightarrow> memory_coordinator \<Rightarrow>
    sync_error + memory_coordinator \<times> nat \<times> (string \<times> client list) list" where
  "memory_subscribe c topics m =
     (case subscribe c topics (mc_pubsub m) of
        Inl e \<Rightarrow> Inl e
      | Inr (p, n, peers) \<Rightarrow> Inr (m\<lparr>mc_pubsub := p\<rparr>, n, peers))"

definition memory_unsubscribe :: "doc_key list \<Rightarrow> nat \<Rightarrow> memory_coordinator \<Rightarrow> memory_coordinator option" where
  "memory_unsubscribe topics n m = map_option (\<lambda>p. m\<lparr>mc_pubsub := p\<rparr>) (unsubscribe topics n (mc_pubsub m))"

definition memory_publish :: "memory_coordinator \<Rightarrow> actor_id option \<Rightarrow> doc_event \<Rightarrow> nat list option" where
  "memory_publish m pub e = publish_targets (mc_pubsub m) pub e"

definition memory_publish_to_local :: "memory_coordinator \<Rightarrow> actor_id option \<Rightarrow> doc_event \<Rightarrow> nat list option" where
  "memory_publish_to_local m pub e = publish_targets (mc_pubsub m) pub e"

definition memory_members :: "memory_coordinator \<Rightarrow> (string \<times> agent_info) list" where
  "memory_members m = AList.update (ag_id (mc_agent m)) (mc_agent m) []"

definition memory_close :: "memory_coordinator \<Rightarrow> memory_coordinator" where
  "memory_close m = m"

section \<open>The etcd client\<close>

text \<open>What the client uses of etcd, gRPC and \<open>encoding/json\<close>; \<open>'s\<close> is the state of the world, \<open>'c\<close> a
  connection to a member, \<open>'l\<close> a session with its mutex.\<close>

record ('s, 'e, 'c, 'l) etcd =
  et_connect :: "string list \<Rightarrow> int \<Rightarrow> string \<Rightarrow> string \<Rightarrow> 's \<Rightarrow> 's \<times> ('e + unit)"
  et_close :: "'s \<Rightarrow> 's \<times> 'e option"
  et_grant :: "int \<Rightarrow> 's \<Rightarrow> 's \<times> ('e + nat)"
  et_put :: "string \<Rightarrow> string \<Rightarrow> nat \<Rightarrow> 's \<Rightarrow> 's \<times> 'e option"
  et_get_prefix :: "string \<Rightarrow> 's \<Rightarrow> 's \<times> ('e + (string \<times> string) list)"
  et_delete :: "string \<Rightarrow> 's \<Rightarrow> 's \<times> 'e option"
  et_session :: "int \<Rightarrow> string \<Rightarrow> 's \<Rightarrow> 's \<times> ('e + 'l)"
  et_lock :: "'l \<Rightarrow> 's \<Rightarrow> 's \<times> 'e option"
  et_unlock :: "'l \<Rightarrow> 's \<Rightarrow> 's \<times> 'e option"
  et_session_close :: "'l \<Rightarrow> 's \<Rightarrow> 's \<times> 'e option"
  grpc_dial :: "string \<Rightarrow> 's \<Rightarrow> 's \<times> ('e + 'c)"
  grpc_close :: "'c \<Rightarrow> 's \<Rightarrow> 's \<times> 'e option"
  grpc_broadcast :: "'c \<Rightarrow> byte list \<Rightarrow> pb_doc_event \<Rightarrow> 's \<Rightarrow> 's \<times> 'e option"
  agent_to_json :: "agent_info \<Rightarrow> 'e + string"
  agent_from_json :: "string \<Rightarrow> 'e + agent_info"

record etcd_config =
  etc_endpoints :: "string list"
  etc_dial_timeout :: int
  etc_username :: string
  etc_password :: string
  etc_lock_lease :: int

definition default_dial_timeout :: int where "default_dial_timeout = 5"
definition default_lock_lease :: int where "default_lock_lease = 30"

record 'c etcd_client =
  ec_config :: etcd_config
  ec_agent :: agent_info
  ec_pubsub :: pubsub
  ec_members :: "(string \<times> agent_info) list"
  ec_cluster_clients :: "(string \<times> 'c) list"
  ec_cancelled :: bool

definition new_etcd_client :: "etcd_config \<Rightarrow> agent_info \<Rightarrow> 'c etcd_client" where
  "new_etcd_client conf a =
     (let conf = (if etc_dial_timeout conf = 0 then conf\<lparr>etc_dial_timeout := default_dial_timeout\<rparr> else conf);
          conf = (if etc_lock_lease conf = 0 then conf\<lparr>etc_lock_lease := default_lock_lease\<rparr> else conf)
      in \<lparr>ec_config = conf, ec_agent = a, ec_pubsub = new_pubsub, ec_members = [], ec_cluster_clients = [],
        ec_cancelled = False\<rparr>)"

definition etcd_client_dial :: "('s, 'e, 'c, 'l) etcd \<Rightarrow> 'c etcd_client \<Rightarrow> 's \<Rightarrow> 's \<times> ('e + unit)" where
  "etcd_client_dial et c =
     et_connect et (etc_endpoints (ec_config c)) (etc_dial_timeout (ec_config c)) (etc_username (ec_config c))
       (etc_password (ec_config c))"

definition etcd_dial :: "('s, 'e, 'c, 'l) etcd \<Rightarrow> etcd_config \<Rightarrow> agent_info \<Rightarrow> 's \<Rightarrow> 's \<times> ('e + 'c etcd_client)" where
  "etcd_dial et conf a s =
     (let c = new_etcd_client conf a in
      case etcd_client_dial et c s of (s, Inl e) \<Rightarrow> (s, Inl e) | (s, Inr _) \<Rightarrow> (s, Inr c))"

subsection \<open>Locks\<close>

definition etcd_new_locker :: "('s, 'e, 'c, 'l) etcd \<Rightarrow> 'c etcd_client \<Rightarrow> lock_key \<Rightarrow> 's \<Rightarrow> 's \<times> ('e + 'l)" where
  "etcd_new_locker et c k = et_session et (etc_lock_lease (ec_config c)) (lock_key_string k)"

definition etcd_lock :: "('s, 'e, 'c, 'l) etcd \<Rightarrow> 'l \<Rightarrow> 's \<Rightarrow> 's \<times> 'e option" where
  "etcd_lock et l = et_lock et l"

definition etcd_unlock :: "('s, 'e, 'c, 'l) etcd \<Rightarrow> 'l \<Rightarrow> 's \<Rightarrow> 's \<times> 'e option" where
  "etcd_unlock et l s =
     (case et_unlock et l s of (s, Some e) \<Rightarrow> (s, Some e) | (s, None) \<Rightarrow> et_session_close et l s)"

subsection \<open>The members of the cluster\<close>

definition agents_path :: string where "agents_path = ''/agents''"
definition agent_value_ttl :: int where "agent_value_ttl = 7"

definition agent_key :: "string \<Rightarrow> string" where
  "agent_key i = agents_path @ ''/'' @ i"

definition etcd_members :: "'c etcd_client \<Rightarrow> (string \<times> agent_info) list" where
  "etcd_members c = fold (\<lambda>(_, a). AList.update (ag_id a) a) (ec_members c) []"

definition set_agent_info :: "string \<Rightarrow> agent_info \<Rightarrow> 'c etcd_client \<Rightarrow> 'c etcd_client" where
  "set_agent_info k a c = c\<lparr>ec_members := AList.update k a (ec_members c)\<rparr>"

definition remove_agent_info :: "string \<Rightarrow> 'c etcd_client \<Rightarrow> 'c etcd_client" where
  "remove_agent_info k c = c\<lparr>ec_members := AList.delete k (ec_members c)\<rparr>"

fun load_members :: "('s, 'e, 'c, 'l) etcd \<Rightarrow> (string \<times> string) list \<Rightarrow> 'c etcd_client \<Rightarrow> 'c etcd_client \<times> 'e option" where
  "load_members et [] c = (c, None)"
| "load_members et ((k, v) # kvs) c =
     (case agent_from_json et v of
        Inl e \<Rightarrow> (c, Some e)
      | Inr a \<Rightarrow> load_members et kvs (set_agent_info k a c))"

definition initialize_member_map :: "('s, 'e, 'c, 'l) etcd \<Rightarrow> 'c etcd_client \<Rightarrow> 's \<Rightarrow> 's \<times> 'c etcd_client \<times> 'e option" where
  "initialize_member_map et c s =
     (case et_get_prefix et agents_path s of
        (s, Inl e) \<Rightarrow> (s, c, Some e)
      | (s, Inr kvs) \<Rightarrow> (s, load_members et kvs c))"

definition put_agent :: "('s, 'e, 'c, 'l) etcd \<Rightarrow> 'c etcd_client \<Rightarrow> 's \<Rightarrow> 's \<times> 'e option" where
  "put_agent et c s =
     (case et_grant et agent_value_ttl s of
        (s, Inl e) \<Rightarrow> (s, Some e)
      | (s, Inr lease) \<Rightarrow> (case agent_to_json et (ec_agent c) of
          Inl e \<Rightarrow> (s, Some e)
        | Inr bs \<Rightarrow> et_put et (agent_key (ag_id (ec_agent c))) bs lease s))"

definition remove_agent :: "('s, 'e, 'c, 'l) etcd \<Rightarrow> 'c etcd_client \<Rightarrow> 's \<Rightarrow> 's \<times> 'e option" where
  "remove_agent et c = et_delete et (agent_key (ag_id (ec_agent c)))"

definition etcd_initialize :: "('s, 'e, 'c, 'l) etcd \<Rightarrow> 'c etcd_client \<Rightarrow> 's \<Rightarrow> 's \<times> 'c etcd_client \<times> 'e option" where
  "etcd_initialize et c s =
     (case put_agent et c s of
        (s, Some e) \<Rightarrow> (s, c, Some e)
      | (s, None) \<Rightarrow> initialize_member_map et c s)"

text \<open>One round of \<open>putAgentPeriodically\<close>: an error is only logged; the loop ends once the client is
  cancelled.\<close>

definition put_agent_round :: "('s, 'e, 'c, 'l) etcd \<Rightarrow> 'c etcd_client \<Rightarrow> 's \<Rightarrow> 's \<times> bool" where
  "put_agent_round et c s = (fst (put_agent et c s), \<not> ec_cancelled c)"

subsection \<open>Connections to the members\<close>

definition ensure_cluster_client :: "('s, 'e, 'c, 'l) etcd \<Rightarrow> agent_info \<Rightarrow> 'c etcd_client \<Rightarrow> 's \<Rightarrow>
    's \<times> 'c etcd_client \<times> ('e + 'c)" where
  "ensure_cluster_client et a c s =
     (case map_of (ec_cluster_clients c) (ag_id a) of
        Some conn \<Rightarrow> (s, c, Inr conn)
      | None \<Rightarrow> (case grpc_dial et (ag_rpc_addr a) s of
          (s, Inl e) \<Rightarrow> (s, c, Inl e)
        | (s, Inr conn) \<Rightarrow>
            (s, c\<lparr>ec_cluster_clients := AList.update (ag_id a) conn (ec_cluster_clients c)\<rparr>, Inr conn)))"

definition remove_cluster_client :: "('s, 'e, 'c, 'l) etcd \<Rightarrow> string \<Rightarrow> 'c etcd_client \<Rightarrow> 's \<Rightarrow> 's \<times> 'c etcd_client" where
  "remove_cluster_client et i c s =
     (case map_of (ec_cluster_clients c) i of
        None \<Rightarrow> (s, c)
      | Some conn \<Rightarrow> (fst (grpc_close et conn s), c\<lparr>ec_cluster_clients := AList.delete i (ec_cluster_clients c)\<rparr>))"

text \<open>The events of a watch of the agents; one whose value cannot be read is skipped.\<close>

datatype watch_event = Agent_Put string string | Agent_Deleted string

fun sync_agent :: "('s, 'e, 'c, 'l) etcd \<Rightarrow> watch_event \<Rightarrow> 's \<times> 'c etcd_client \<Rightarrow> 's \<times> 'c etcd_client" where
  "sync_agent et (Agent_Put k v) (s, c) =
     (case agent_from_json et v of Inl e \<Rightarrow> (s, c) | Inr a \<Rightarrow> (s, set_agent_info k a c))"
| "sync_agent et (Agent_Deleted k) (s, c) = remove_cluster_client et k (remove_agent_info k c) s"

definition sync_agents :: "('s, 'e, 'c, 'l) etcd \<Rightarrow> watch_event list \<Rightarrow> 's \<times> 'c etcd_client \<Rightarrow> 's \<times> 'c etcd_client" where
  "sync_agents et evs = fold (sync_agent et) evs"

subsection \<open>Events\<close>

definition etcd_subscribe :: "client \<Rightarrow> doc_key list \<Rightarrow> 'c etcd_client \<Rightarrow>
    sync_error + 'c etcd_client \<times> nat \<times> (string \<times> client list) list" where
  "etcd_subscribe cl topics c =
     (case subscribe cl topics (ec_pubsub c) of
        Inl e \<Rightarrow> Inl e
      | Inr (p, n, peers) \<Rightarrow> Inr (c\<lparr>ec_pubsub := p\<rparr>, n, peers))"

definition etcd_unsubscribe :: "doc_key list \<Rightarrow> nat \<Rightarrow> 'c etcd_client \<Rightarrow> 'c etcd_client option" where
  "etcd_unsubscribe topics n c = map_option (\<lambda>p. c\<lparr>ec_pubsub := p\<rparr>) (unsubscribe topics n (ec_pubsub c))"

definition etcd_publish_to_local :: "'c etcd_client \<Rightarrow> actor_id option \<Rightarrow> doc_event \<Rightarrow> nat list option" where
  "etcd_publish_to_local c pub e = publish_targets (ec_pubsub c) pub e"

definition publish_to_member :: "('s, 'e, 'c, 'l) etcd \<Rightarrow> 'c \<Rightarrow> actor_id option \<Rightarrow> doc_event \<Rightarrow> 's \<Rightarrow> 's \<times> 'e option" where
  "publish_to_member et conn pub e = grpc_broadcast et conn (actor_id_bytes pub) (to_doc_event e)"

text \<open>The loop of \<open>Publish\<close> over the other members; the errors are dropped.\<close>

fun publish_to_members :: "('s, 'e, 'c, 'l) etcd \<Rightarrow> actor_id option \<Rightarrow> doc_event \<Rightarrow> (string \<times> agent_info) list \<Rightarrow>
    's \<times> 'c etcd_client \<Rightarrow> 's \<times> 'c etcd_client" where
  "publish_to_members et pub e [] (s, c) = (s, c)"
| "publish_to_members et pub e ((i, a) # as) (s, c) =
     (if ag_rpc_addr a = ag_rpc_addr (ec_agent c) then publish_to_members et pub e as (s, c)
      else case ensure_cluster_client et a c s of
        (s, c, Inl _) \<Rightarrow> publish_to_members et pub e as (s, c)
      | (s, c, Inr conn) \<Rightarrow> publish_to_members et pub e as (fst (publish_to_member et conn pub e s), c))"

definition etcd_publish :: "('s, 'e, 'c, 'l) etcd \<Rightarrow> actor_id option \<Rightarrow> doc_event \<Rightarrow> 's \<times> 'c etcd_client \<Rightarrow>
    nat list option \<times> 's \<times> 'c etcd_client" where
  "etcd_publish et pub e w =
     (etcd_publish_to_local (snd w) pub e, publish_to_members et pub e (etcd_members (snd w)) w)"

definition etcd_client_close :: "('s, 'e, 'c, 'l) etcd \<Rightarrow> 'c etcd_client \<Rightarrow> 's \<Rightarrow> 's \<times> 'c etcd_client \<times> 'e option" where
  "etcd_client_close et c s =
     (let c = c\<lparr>ec_cancelled := True\<rparr>;
          (s, _) = remove_agent et c s;
          (s, err) = et_close et s
      in (s, c, err))"

section \<open>The receiving end\<close>

record pb_broadcast_request =
  pbr_publisher :: "byte list"
  pbr_event :: "pb_doc_event option"

text \<open>A message without event is dereferenced.\<close>

definition broadcast_event :: "(actor_id option \<Rightarrow> doc_event \<Rightarrow> nat list option) \<Rightarrow> pb_broadcast_request \<Rightarrow>
    (conv_error, nat list) result" where
  "broadcast_event publish_to_local req =
     checked (case actor_id_from_bytes (pbr_publisher req) of Inl e \<Rightarrow> fail (Actor_Error e) | Inr a \<Rightarrow> ok a) (\<lambda>a.
     panics (pbr_event req) (\<lambda>p.
     checked (from_doc_event p) (\<lambda>e.
     panics (publish_to_local a e) ok)))"

end
