(* ===== verification/Agent.thy ===== *)
theory Agent
  imports Coordinators Mongo_Client
begin

text \<open>
  The agent around the database and the handlers: the configuration (\<open>src/yorkie/config.go\<close>), the
  interceptors every request passes (\<open>src/yorkie/rpc/interceptors\<close>, \<open>src/client/auth.go\<close>,
  \<open>src/yorkie/auth/token.go\<close>), the life of the backend and of the agent (\<open>src/yorkie/backend/backend.go\<close>,
  \<open>src/yorkie/yorkie.go\<close>, \<open>src/yorkie/rpc/server.go\<close>, \<open>src/yorkie/metrics/prometheus/server.go\<close>).  Listening,
  TLS, HTTP and gRPC are arguments.
\<close>

section \<open>Configuration\<close>

record rpc_config =
  rpc_port :: int
  rpc_cert_file :: string
  rpc_key_file :: string

record metrics_config =
  mtr_port :: int

text \<open>A part that a configuration file does not mention is a nil pointer.\<close>

record yorkie_config =
  cf_rpc :: "rpc_config option"
  cf_metrics :: "metrics_config option"
  cf_mongo :: "mongo_config option"
  cf_etcd :: "etcd_config option"
  cf_backend :: "backend_config option"

definition default_rpc_port :: int where "default_rpc_port = 11101"
definition default_metrics_port :: int where "default_metrics_port = 11102"
definition default_mongo_uri :: string where "default_mongo_uri = ''mongodb://localhost:27017''"
definition default_mongo_connection_timeout :: int where "default_mongo_connection_timeout = 5"
definition default_mongo_ping_timeout :: int where "default_mongo_ping_timeout = 5"
definition default_mongo_database :: string where "default_mongo_database = ''yorkie-meta''"
definition default_snapshot_threshold :: "64 word" where "default_snapshot_threshold = 500"
definition default_snapshot_interval :: "64 word" where "default_snapshot_interval = 100"

definition config_rpc_addr :: "yorkie_config \<Rightarrow> string option" where
  "config_rpc_addr c = map_option (\<lambda>r. ''localhost:'' @ dec_int (rpc_port r)) (cf_rpc c)"

definition make_config :: "int \<Rightarrow> int \<Rightarrow> string \<Rightarrow> yorkie_config" where
  "make_config port metrics_port db_name =
     \<lparr>cf_rpc = Some \<lparr>rpc_port = port, rpc_cert_file = [], rpc_key_file = []\<rparr>,
      cf_metrics = Some \<lparr>mtr_port = metrics_port\<rparr>,
      cf_mongo = Some \<lparr>mc_connection_timeout = default_mongo_connection_timeout, mc_connection_uri = default_mongo_uri,
        mc_ping_timeout = default_mongo_ping_timeout, mc_yorkie_database = db_name\<rparr>,
      cf_etcd = None,
      cf_backend = Some \<lparr>snapshot_threshold = default_snapshot_threshold, snapshot_interval = default_snapshot_interval,
        webhook_url = [], webhook_methods = []\<rparr>\<rparr>"

definition new_config :: yorkie_config where
  "new_config = make_config default_rpc_port default_metrics_port default_mongo_database"

text \<open>Reading the file and decoding its JSON are arguments.\<close>

definition new_config_from_file :: "(string \<Rightarrow> 'e + string) \<Rightarrow> (string \<Rightarrow> 'e + yorkie_config) \<Rightarrow> string \<Rightarrow> 'e + yorkie_config" where
  "new_config_from_file open_file decode path = bind_sum (open_file path) decode"

section \<open>Interceptors\<close>

text \<open>What a request carries: the metadata of the call, and the token once it has been put in the
  context.\<close>

type_synonym call_metadata = "(string \<times> string list) list"

record call_context =
  ctx_metadata :: "call_metadata option"
  ctx_token :: "string option"

datatype status_code =
  Unauthenticated | Invalid_Argument | Unimplemented | Not_Found | Failed_Precondition | Internal_Error

text \<open>\<open>TokenFromCtx\<close> panics when the context has no token.\<close>

definition token_from_ctx :: "call_context \<Rightarrow> string option" where
  "token_from_ctx ctx = ctx_token ctx"

definition ctx_with_token :: "call_context \<Rightarrow> string \<Rightarrow> call_context" where
  "ctx_with_token ctx t = ctx\<lparr>ctx_token := Some t\<rparr>"

definition need_auth :: "string \<Rightarrow> bool" where
  "need_auth webhook \<longleftrightarrow> length webhook > 0"

definition extract_token :: "call_context \<Rightarrow> status_code + string" where
  "extract_token ctx =
     (case ctx_metadata ctx of
        None \<Rightarrow> Inl Unauthenticated
      | Some data \<Rightarrow> (case map_of data ''authorization'' of
          None \<Rightarrow> Inl Unauthenticated
        | Some [] \<Rightarrow> Inl Unauthenticated
        | Some (v # _) \<Rightarrow> Inr v))"

type_synonym ('w, 'e, 'q, 'a) rpc_handler = "call_context \<Rightarrow> 'q \<Rightarrow> ('w, 'e, 'a) io"

definition auth_unary :: "string \<Rightarrow> ('w, status_code, 'q, 'a) rpc_handler \<Rightarrow> ('w, status_code, 'q, 'a) rpc_handler" where
  "auth_unary webhook handler ctx req =
     (if need_auth webhook
      then case extract_token ctx of
        Inl e \<Rightarrow> io_fail e
      | Inr t \<Rightarrow> handler (ctx_with_token ctx t) req
      else handler ctx req)"

text \<open>The stream interceptor wraps the context of the stream in the same way.\<close>

definition auth_stream :: "string \<Rightarrow> (call_context \<Rightarrow> ('w, status_code, unit) io) \<Rightarrow> call_context \<Rightarrow>
    ('w, status_code, unit) io" where
  "auth_stream webhook handler ctx =
     (if need_auth webhook
      then case extract_token ctx of
        Inl e \<Rightarrow> io_fail e
      | Inr t \<Rightarrow> handler (ctx_with_token ctx t)
      else handler ctx)"

text \<open>The client's interceptors replace the metadata of the call.\<close>

definition client_auth_unary :: "string \<Rightarrow> (call_metadata \<Rightarrow> 'q \<Rightarrow> 'r) \<Rightarrow> call_metadata \<Rightarrow> 'q \<Rightarrow> 'r" where
  "client_auth_unary token invoker md req = invoker [(''authorization'', [token])] req"

definition client_auth_stream :: "string \<Rightarrow> (call_metadata \<Rightarrow> 'r) \<Rightarrow> call_metadata \<Rightarrow> 'r" where
  "client_auth_stream token streamer md = streamer [(''authorization'', [token])]"

subsection \<open>Status codes\<close>

fun conv_status :: "conv_error \<Rightarrow> status_code" where
  "conv_status ErrPackRequired = Invalid_Argument"
| "conv_status ErrCheckpointRequired = Invalid_Argument"
| "conv_status (Actor_Error ErrInvalidHexString) = Invalid_Argument"
| "conv_status ErrUnsupportedOperation = Unimplemented"
| "conv_status ErrUnsupportedElement = Unimplemented"
| "conv_status ErrUnsupportedEventType = Unimplemented"
| "conv_status ErrUnsupportedValueType = Unimplemented"
| "conv_status ErrUnsupportedCounterType = Unimplemented"
| "conv_status Proto_Error = Internal_Error"

fun to_status_error :: "'e mongo_error server_error \<Rightarrow> status_code" where
  "to_status_error (Not_Allowed r) = Unauthenticated"
| "to_status_error (Outside (Invalid_Id i)) = Invalid_Argument"
| "to_status_error Invalid_Client_Id = Invalid_Argument"
| "to_status_error Invalid_Client_Key = Invalid_Argument"
| "to_status_error (Conv_Failed e) = conv_status e"
| "to_status_error (Outside (Change_Error e)) = conv_status e"
| "to_status_error (Outside (Client_Not_Found i)) = Not_Found"
| "to_status_error (Outside (Document_Not_Found i)) = Not_Found"
| "to_status_error Client_Not_Activated = Failed_Precondition"
| "to_status_error Document_Not_Attached = Failed_Precondition"
| "to_status_error Document_Already_Attached = Failed_Precondition"
| "to_status_error Invalid_Server_Seq = Failed_Precondition"
| "to_status_error (Outside (Conflict_On_Update i)) = Failed_Precondition"
| "to_status_error e = Internal_Error"

definition default_unary :: "('w, 'e mongo_error server_error, 'q, 'a) rpc_handler \<Rightarrow> ('w, status_code, 'q, 'a) rpc_handler" where
  "default_unary handler ctx req = (\<lambda>w. case handler ctx req w of
     None \<Rightarrow> None
   | Some (w, Inl e) \<Rightarrow> Some (w, Inl (to_status_error e))
   | Some (w, Inr a) \<Rightarrow> Some (w, Inr a))"

definition default_stream :: "(call_context \<Rightarrow> ('w, 'e mongo_error server_error, unit) io) \<Rightarrow> call_context \<Rightarrow>
    ('w, status_code, unit) io" where
  "default_stream handler ctx = (\<lambda>w. case handler ctx w of
     None \<Rightarrow> None
   | Some (w, Inl e) \<Rightarrow> Some (w, Inl (to_status_error e))
   | Some (w, Inr a) \<Rightarrow> Some (w, Inr a))"

text \<open>The chains of the server, for calls and for streams: authentication first.\<close>

definition server_unary :: "backend_config \<Rightarrow> ('w, 'e mongo_error server_error, 'q, 'a) rpc_handler \<Rightarrow>
    ('w, status_code, 'q, 'a) rpc_handler" where
  "server_unary conf handler = auth_unary (webhook_url conf) (default_unary handler)"

definition server_stream :: "backend_config \<Rightarrow> (call_context \<Rightarrow> ('w, 'e mongo_error server_error, unit) io) \<Rightarrow>
    call_context \<Rightarrow> ('w, status_code, unit) io" where
  "server_stream conf handler = auth_stream (webhook_url conf) (default_stream handler)"

subsection \<open>The request of the access check\<close>

record auth_webhook_request =
  awr_token :: string
  awr_method :: rpc_method
  awr_attributes :: "(string \<times> verb) list"

definition access_request :: "call_context \<Rightarrow> access_info \<Rightarrow> auth_webhook_request option" where
  "access_request ctx i = map_option (\<lambda>t. \<lparr>awr_token = t, awr_method = ai_method i, awr_attributes = ai_attributes i\<rparr>)
     (token_from_ctx ctx)"

record auth_webhook_response =
  awp_allowed :: bool
  awp_reason :: string

datatype 'e webhook_error = Webhook_Call 'e | Invalid_Webhook_Request string | Invalid_Webhook_Response string

text \<open>The JSON of the messages and the HTTP call are arguments.\<close>

definition new_auth_webhook_request :: "(string \<Rightarrow> string + auth_webhook_request) \<Rightarrow> string \<Rightarrow>
    'e webhook_error + auth_webhook_request" where
  "new_auth_webhook_request decode msg = map_sum Invalid_Webhook_Request id (decode msg)"

definition new_auth_webhook_response :: "(string \<Rightarrow> string + auth_webhook_response) \<Rightarrow> string \<Rightarrow>
    'e webhook_error + auth_webhook_response" where
  "new_auth_webhook_response decode msg = map_sum Invalid_Webhook_Response id (decode msg)"

definition write_webhook_response :: "(auth_webhook_response \<Rightarrow> 'e + string) \<Rightarrow> (string \<Rightarrow> 'w \<Rightarrow> 'w \<times> ('e + int)) \<Rightarrow>
    auth_webhook_response \<Rightarrow> 'w \<Rightarrow> 'w \<times> ('e + int)" where
  "write_webhook_response encode write r w = (case encode r of Inl e \<Rightarrow> (w, Inl e) | Inr msg \<Rightarrow> write msg w)"

text \<open>The question \<open>VerifyAccess\<close> asks: what \<open>be_webhook\<close> stands for in the handlers.\<close>

definition call_webhook :: "(auth_webhook_request \<Rightarrow> 'e + string) \<Rightarrow> (string \<Rightarrow> string \<Rightarrow> 'e + string) \<Rightarrow>
    (string \<Rightarrow> string + auth_webhook_response) \<Rightarrow> backend_config \<Rightarrow> call_context \<Rightarrow> access_info \<Rightarrow>
    ('e webhook_error, bool \<times> string) result" where
  "call_webhook encode post decode conf ctx i =
     panics (access_request ctx i) (\<lambda>req. Some (
     bind_sum (map_sum Webhook_Call id (encode req)) (\<lambda>msg.
     bind_sum (map_sum Webhook_Call id (post (webhook_url conf) msg)) (\<lambda>resp.
     map_sum id (\<lambda>r. (awp_allowed r, awp_reason r)) (new_auth_webhook_response decode resp)))))"

section \<open>The backend\<close>

datatype 'c coordinator = Memory_Coordinator memory_coordinator | Etcd_Coordinator "'c etcd_client"

fun coordinator_members :: "'c coordinator \<Rightarrow> (string \<times> agent_info) list" where
  "coordinator_members (Memory_Coordinator m) = memory_members m"
| "coordinator_members (Etcd_Coordinator c) = etcd_members c"

text \<open>The goroutines the backend waits for, and the two phases of \<open>Close\<close>.\<close>

record backend_state =
  bs_closing :: bool
  bs_goroutines :: nat
  bs_closed :: bool

definition new_backend_state :: backend_state where
  "new_backend_state = \<lparr>bs_closing = False, bs_goroutines = 0, bs_closed = False\<rparr>"

definition attach_goroutine :: "backend_state \<Rightarrow> backend_state" where
  "attach_goroutine b = (if bs_closing b then b else b\<lparr>bs_goroutines := bs_goroutines b + 1\<rparr>)"

definition goroutine_done :: "backend_state \<Rightarrow> backend_state option" where
  "goroutine_done b = (if bs_goroutines b = 0 then None else Some (b\<lparr>bs_goroutines := bs_goroutines b - 1\<rparr>))"

text \<open>Closing a closed channel panics.\<close>

definition begin_close :: "backend_state \<Rightarrow> backend_state option" where
  "begin_close b = (if bs_closing b then None else Some (b\<lparr>bs_closing := True\<rparr>))"

definition finish_close :: "backend_state \<Rightarrow> backend_state option" where
  "finish_close b = (if bs_closing b \<and> bs_goroutines b = 0 then Some (b\<lparr>bs_closed := True\<rparr>) else None)"

inductive backend_step :: "backend_state \<Rightarrow> backend_state \<Rightarrow> bool" where
  attach: "backend_step b (attach_goroutine b)"
| done_with: "goroutine_done b = Some b' \<Longrightarrow> backend_step b b'"
| begin_closing: "begin_close b = Some b' \<Longrightarrow> backend_step b b'"
| finish_closing: "finish_close b = Some b' \<Longrightarrow> backend_step b b'"

record 'c backend_parts =
  bp_agent :: agent_info
  bp_coordinator :: "'c coordinator"
  bp_state :: backend_state

text \<open>\<open>New\<close>: the host name and the fresh id are arguments.  When etcd fails the connection to MongoDB
  stays open.\<close>

definition new_backend :: "('s, 'e) mongo \<Rightarrow> ('s, 'e, 'c, 'l) etcd \<Rightarrow> 'e + string \<Rightarrow> string \<Rightarrow> mongo_config \<Rightarrow>
    etcd_config option \<Rightarrow> string \<Rightarrow> ('s, 'e mongo_error, 'c backend_parts) io" where
  "new_backend m et host fresh_id mongo_conf etcd_conf addr =
     io_bind (sum_of (map_sum Driver_Error id host)) (\<lambda>hostname.
     let agent = \<lparr>ag_id = fresh_id, ag_hostname = hostname, ag_rpc_addr = addr\<rparr> in
     io_bind (mongo_dial m mongo_conf) (\<lambda>_.
     io_bind (case etcd_conf of
         None \<Rightarrow> io_return (Memory_Coordinator (new_memory_coordinator agent))
       | Some conf \<Rightarrow>
           io_bind (driver (etcd_dial et conf agent)) (\<lambda>c s.
           case etcd_initialize et c s of
             (s, c, Some e) \<Rightarrow> Some (s, Inl (Driver_Error e))
           | (s, c, None) \<Rightarrow> Some (s, Inr (Etcd_Coordinator c)))) (\<lambda>co.
     io_return \<lparr>bp_agent = agent, bp_coordinator = co, bp_state = new_backend_state\<rparr>)))"

section \<open>The agent\<close>

datatype server_state = Not_Started | Serving | Stopped

record rpc_server =
  rs_port :: int
  rs_tls :: bool
  rs_state :: server_state
  rs_cancelled :: bool

text \<open>\<open>load_tls\<close> reads the certificate and key, when both are configured.\<close>

definition new_rpc_server :: "(string \<Rightarrow> string \<Rightarrow> 'e option) \<Rightarrow> rpc_config \<Rightarrow> 'e + rpc_server" where
  "new_rpc_server load_tls conf =
     (let tls = rpc_cert_file conf \<noteq> [] \<and> rpc_key_file conf \<noteq> [];
          s = \<lparr>rs_port = rpc_port conf, rs_tls = tls, rs_state = Not_Started, rs_cancelled = False\<rparr>
      in if tls then (case load_tls (rpc_cert_file conf) (rpc_key_file conf) of Some e \<Rightarrow> Inl e | None \<Rightarrow> Inr s)
         else Inr s)"

definition rpc_start :: "(string \<Rightarrow> 'e option) \<Rightarrow> rpc_server \<Rightarrow> 'e + rpc_server" where
  "rpc_start listen s =
     (case listen (CHR '':'' # dec_int (rs_port s)) of Some e \<Rightarrow> Inl e | None \<Rightarrow> Inr (s\<lparr>rs_state := Serving\<rparr>))"

definition rpc_shutdown :: "bool \<Rightarrow> rpc_server \<Rightarrow> rpc_server" where
  "rpc_shutdown graceful s = s\<lparr>rs_cancelled := True, rs_state := Stopped\<rparr>"

record metrics_server =
  ms_addr :: string
  ms_state :: server_state

definition new_metrics_server :: "metrics_config option \<Rightarrow> metrics_server option" where
  "new_metrics_server conf = map_option (\<lambda>c. \<lparr>ms_addr = CHR '':'' # dec_int (mtr_port c), ms_state = Not_Started\<rparr>) conf"

definition metrics_start :: "metrics_server \<Rightarrow> metrics_server" where
  "metrics_start s = s\<lparr>ms_state := Serving\<rparr>"

definition metrics_shutdown :: "bool \<Rightarrow> metrics_server \<Rightarrow> metrics_server" where
  "metrics_shutdown graceful s = s\<lparr>ms_state := Stopped\<rparr>"

text \<open>\<open>Close\<close> of the backend: no goroutine is started any more, the ones that are left are waited for,
  then the coordinator and the database are closed; their errors are only logged.\<close>

fun coordinator_close :: "('s, 'e, 'c, 'l) etcd \<Rightarrow> 'c coordinator \<Rightarrow> 's \<Rightarrow> 's \<times> 'c coordinator" where
  "coordinator_close et (Memory_Coordinator m) s = (s, Memory_Coordinator (memory_close m))"
| "coordinator_close et (Etcd_Coordinator c) s =
     (let (s, c, _) = etcd_client_close et c s in (s, Etcd_Coordinator c))"

definition backend_close :: "('s, 'e) mongo \<Rightarrow> ('s, 'e, 'c, 'l) etcd \<Rightarrow> 'c backend_parts \<Rightarrow> 's \<Rightarrow>
    ('s \<times> 'c backend_parts) option" where
  "backend_close m et b s = do {
     st \<leftarrow> begin_close (bp_state b);
     let st = st\<lparr>bs_goroutines := 0\<rparr>;
     let (s, co) = coordinator_close et (bp_coordinator b) s;
     (s, _) \<leftarrow> mongo_close m s;
     st \<leftarrow> finish_close st;
     Some (s, b\<lparr>bp_coordinator := co, bp_state := st\<rparr>) }"

record 'c yorkie =
  yk_conf :: yorkie_config
  yk_backend :: "'c backend_parts"
  yk_rpc :: rpc_server
  yk_metrics :: "metrics_server option"
  yk_shutdown :: bool
  yk_shutdown_ch_closed :: bool

text \<open>\<open>New\<close>: a part of the configuration that is missing and needed is a nil pointer that is
  dereferenced.  The backend is not closed again when the RPC server cannot be made.\<close>

definition new_yorkie :: "('s, 'e) mongo \<Rightarrow> ('s, 'e, 'c, 'l) etcd \<Rightarrow> 'e + string \<Rightarrow> string \<Rightarrow>
    (string \<Rightarrow> string \<Rightarrow> 'e option) \<Rightarrow> yorkie_config \<Rightarrow> ('s, 'e mongo_error, 'c yorkie) io" where
  "new_yorkie m et host fresh_id load_tls conf =
     (case (cf_rpc conf, cf_mongo conf, cf_backend conf, config_rpc_addr conf) of
        (Some rpc, Some mc, Some bc, Some addr) \<Rightarrow>
          io_bind (new_backend m et host fresh_id mc (cf_etcd conf) addr) (\<lambda>b.
          case new_rpc_server load_tls rpc of
            Inl e \<Rightarrow> io_fail (Driver_Error e)
          | Inr s \<Rightarrow> io_return \<lparr>yk_conf = conf, yk_backend = b, yk_rpc = s,
              yk_metrics = new_metrics_server (cf_metrics conf), yk_shutdown = False, yk_shutdown_ch_closed = False\<rparr>)
      | _ \<Rightarrow> (\<lambda>_. None))"

text \<open>\<open>Start\<close>: the metrics server is running even when the RPC server does not start.\<close>

definition yorkie_start :: "(string \<Rightarrow> 'e option) \<Rightarrow> 'c yorkie \<Rightarrow> 'c yorkie \<times> 'e option" where
  "yorkie_start listen y =
     (let y = y\<lparr>yk_metrics := map_option metrics_start (yk_metrics y)\<rparr>
      in case rpc_start listen (yk_rpc y) of
        Inl e \<Rightarrow> (y, Some e)
      | Inr s \<Rightarrow> (y\<lparr>yk_rpc := s\<rparr>, None))"

definition yorkie_shutdown :: "('s, 'e) mongo \<Rightarrow> ('s, 'e, 'c, 'l) etcd \<Rightarrow> bool \<Rightarrow> 'c yorkie \<Rightarrow> 's \<Rightarrow>
    ('s \<times> 'c yorkie) option" where
  "yorkie_shutdown m et graceful y s =
     (if yk_shutdown y then Some (s, y)
      else do {
        let y = y\<lparr>yk_rpc := rpc_shutdown graceful (yk_rpc y),
          yk_metrics := map_option (metrics_shutdown graceful) (yk_metrics y)\<rparr>;
        (s, b) \<leftarrow> backend_close m et (yk_backend y) s;
        if yk_shutdown_ch_closed y then None
        else Some (s, y\<lparr>yk_backend := b, yk_shutdown_ch_closed := True, yk_shutdown := True\<rparr>) })"

definition yorkie_rpc_addr :: "'c yorkie \<Rightarrow> string option" where
  "yorkie_rpc_addr y = config_rpc_addr (yk_conf y)"

definition yorkie_members :: "'c yorkie \<Rightarrow> (string \<times> agent_info) list" where
  "yorkie_members y = coordinator_members (bp_coordinator (yk_backend y))"

end
