(* ===== verification/Agent_Facts.thy ===== *)
theory Agent_Facts
  imports Agent Mongo_Clients
begin

text \<open>
  Facts about the cluster of agents (\<open>src/yorkie/backend/sync/etcd\<close>) and about the life of an agent
  (\<open>src/yorkie/backend/backend.go\<close>, \<open>src/yorkie/yorkie.go\<close>), and about what the interceptors
  (\<open>src/yorkie/rpc/interceptors\<close>) make of requests.
\<close>

section \<open>The map of members\<close>

text \<open>What a sequence of watch events says of a key: the last event that could be read decides.\<close>

fun event_effect :: "('s, 'e, 'c, 'l) etcd \<Rightarrow> watch_event \<Rightarrow> (string \<Rightarrow> agent_info option) \<Rightarrow> string \<Rightarrow> agent_info option" where
  "event_effect et (Agent_Put k v) m = (case agent_from_json et v of Inl _ \<Rightarrow> m | Inr a \<Rightarrow> m(k \<mapsto> a))"
| "event_effect et (Agent_Deleted k) m = m(k := None)"

lemma remove_cluster_client_members [simp]:
  "ec_members (snd (remove_cluster_client et i c s)) = ec_members c"
  "ec_agent (snd (remove_cluster_client et i c s)) = ec_agent c"
  by (simp_all add: remove_cluster_client_def split: option.split)

lemma sync_agent_members:
  "map_of (ec_members (snd (sync_agent et ev (s, c)))) = event_effect et ev (map_of (ec_members c))"
  by (cases ev) (simp_all add: set_agent_info_def remove_agent_info_def update_conv' delete_conv' split: sum.split)

text \<open>A member is removed under the key of etcd, but its connection is kept under its id.\<close>

lemma sync_agent_connections:
  assumes "\<forall>(i, conn) \<in> set (ec_cluster_clients c). CHR ''/'' \<notin> set i"
    and "\<forall>k. ev = Agent_Deleted k \<longrightarrow> (\<exists>i. k = agent_key i)"
  shows "ec_cluster_clients (snd (sync_agent et ev (s, c))) = ec_cluster_clients c \<and> fst (sync_agent et ev (s, c)) = s"
proof (cases ev)
  case (Agent_Deleted k)
  then obtain i where k: "k = agent_key i" using assms(2) by blast
  have "CHR ''/'' \<in> set k" by (simp add: k agent_key_def agents_path_def)
  then have "map_of (ec_cluster_clients c) k = None" using assms(1) by (fastforce simp: map_of_eq_None_iff)
  then show ?thesis by (simp add: Agent_Deleted remove_cluster_client_def remove_agent_info_def)
qed (simp add: set_agent_info_def split: sum.split)

text \<open>C17: the member map follows etcd: after any sequence of watch events it says of every key what
  the last readable event of the key said; but no connection to a member that has gone is ever
  closed or forgotten, and nothing outside the client changes.\<close>
theorem members_follow_events:
  assumes "\<forall>(i, conn) \<in> set (ec_cluster_clients c). CHR ''/'' \<notin> set i"
    and "\<forall>k. Agent_Deleted k \<in> set evs \<longrightarrow> (\<exists>i. k = agent_key i)"
  shows "map_of (ec_members (snd (sync_agents et evs (s, c)))) = fold (event_effect et) evs (map_of (ec_members c)) \<and>
    ec_cluster_clients (snd (sync_agents et evs (s, c))) = ec_cluster_clients c \<and> fst (sync_agents et evs (s, c)) = s"
  using assms
proof (induction evs arbitrary: c)
  case (Cons ev evs)
  obtain s' c' where step: "sync_agent et ev (s, c) = (s', c')" by (metis surj_pair)
  have ev: "\<forall>k. ev = Agent_Deleted k \<longrightarrow> (\<exists>i. k = agent_key i)" using Cons.prems(2) by auto
  have keep: "ec_cluster_clients c' = ec_cluster_clients c" "s' = s"
    using sync_agent_connections [OF Cons.prems(1) ev, of et s] by (simp_all add: step)
  have "map_of (ec_members c') = event_effect et ev (map_of (ec_members c))"
    using sync_agent_members [of et ev s c] by (simp add: step)
  then show ?case using Cons.IH [of c'] Cons.prems keep step by (simp add: sync_agents_def)
qed (simp add: sync_agents_def)

section \<open>Events for the other members\<close>

lemma update_values: "snd ` set (AList.update k v ys) \<subseteq> insert v (snd ` set ys)"
proof (induction ys)
  case (Cons y ys)
  then show ?case by (cases y) auto
qed simp

lemma etcd_members_values: "snd ` set (etcd_members c) \<subseteq> snd ` set (ec_members c)"
proof -
  have "snd ` set (fold (\<lambda>(_, a). AList.update (ag_id a) a) ms ys) \<subseteq> snd ` set ms \<union> snd ` set ys"
    for ms ys :: "(string \<times> agent_info) list"
  proof (induction ms arbitrary: ys)
    case (Cons m ms)
    have "fold (\<lambda>(_, a). AList.update (ag_id a) a) (m # ms) ys =
        fold (\<lambda>(_, a). AList.update (ag_id a) a) ms (AList.update (ag_id (snd m)) (snd m) ys)"
      by (simp add: case_prod_unfold)
    also have "snd ` set \<dots> \<subseteq> snd ` set ms \<union> snd ` set (AList.update (ag_id (snd m)) (snd m) ys)"
      by (rule Cons.IH)
    also have "\<dots> \<subseteq> snd ` set (m # ms) \<union> snd ` set ys"
    proof -
      have "snd ` set (m # ms) = insert (snd m) (snd ` set ms)" by simp
      moreover have "A \<union> U \<subseteq> insert v A \<union> B" if "U \<subseteq> insert v B" for A B U :: "agent_info set" and v
        using that by blast
      ultimately show ?thesis using update_values by metis
    qed
    finally show ?case .
  qed simp
  from this [of "ec_members c" "[]"] show ?thesis by (simp add: etcd_members_def)
qed

lemma publish_to_members_same_address:
  "\<forall>a \<in> snd ` set as. ag_rpc_addr a = ag_rpc_addr (ec_agent c) \<Longrightarrow> publish_to_members et pub e as (s, c) = (s, c)"
  by (induction as) auto

text \<open>C31: an agent announces the address \<open>localhost:port\<close>, whatever its host is: in a cluster of
  agents that are configured with the same port, publishing an event dials and calls no other
  member, and only the subscribers of the agent itself are sent the event.\<close>
theorem cluster_with_one_port_not_notified:
  assumes "config_rpc_addr conf = Some (ag_rpc_addr (ec_agent c))"
    and "\<forall>a \<in> snd ` set (ec_members c). \<exists>conf'. config_rpc_addr conf' = Some (ag_rpc_addr a) \<and>
      map_option rpc_port (cf_rpc conf') = map_option rpc_port (cf_rpc conf)"
  shows "etcd_publish et pub e (s, c) = (publish_targets (ec_pubsub c) pub e, s, c)"
proof -
  have "ag_rpc_addr a = ag_rpc_addr (ec_agent c)" if "a \<in> snd ` set (ec_members c)" for a
    using assms(1) assms(2) [rule_format, OF that] by (auto simp: config_rpc_addr_def)
  then have "publish_to_members et pub e (etcd_members c) (s, c) = (s, c)"
    using etcd_members_values [of c] by (intro publish_to_members_same_address) blast
  then show ?thesis by (simp add: etcd_publish_def etcd_publish_to_local_def)
qed

section \<open>The life of the backend and of the agent\<close>

lemma backend_reachable_inv:
  assumes "backend_step\<^sup>*\<^sup>* new_backend_state b"
  shows "bs_closed b \<longrightarrow> bs_closing b \<and> bs_goroutines b = 0"
  using assms
proof (induction rule: rtranclp_induct)
  case (step b b')
  from step.hyps(2) step.IH show ?case
    by cases (auto simp: attach_goroutine_def goroutine_done_def begin_close_def finish_close_def split: if_splits)
qed (simp add: new_backend_state_def)

text \<open>C32: once the coordinator and the database have been closed no goroutine of the backend is
  running, and none is started later, in any interleaving of requests and the shutdown.\<close>
theorem no_goroutine_after_close:
  assumes "backend_step\<^sup>*\<^sup>* new_backend_state b" "bs_closed b" "backend_step\<^sup>*\<^sup>* b b'"
  shows "bs_closed b' \<and> bs_goroutines b' = 0"
  using assms(3)
proof (induction rule: rtranclp_induct)
  case base
  then show ?case using backend_reachable_inv [OF assms(1)] assms(2) by simp
next
  case (step b1 b2)
  have "backend_step\<^sup>*\<^sup>* new_backend_state b1" using assms(1) step.hyps(1) by simp
  then have "bs_closing b1" using backend_reachable_inv step.IH by blast
  with step.hyps(2) step.IH show ?case
    by cases (auto simp: attach_goroutine_def goroutine_done_def begin_close_def finish_close_def split: if_splits)
qed

lemma mongo_close_returns: "\<exists>s' r. mongo_close m s = Some (s', r)"
  by (simp add: mongo_close_def driver_def split: prod.split sum.split)

text \<open>The first shutdown of an agent stops its servers and closes its backend; a second one does
  nothing, whether it is graceful or not, so that no channel is closed twice.\<close>
theorem shutdown_once:
  assumes "\<not> yk_shutdown y" "\<not> bs_closing (bp_state (yk_backend y))" "\<not> yk_shutdown_ch_closed y"
  shows "\<exists>s' y'. yorkie_shutdown m et g y s = Some (s', y') \<and> yk_shutdown y' \<and>
    bs_closed (bp_state (yk_backend y')) \<and> bs_goroutines (bp_state (yk_backend y')) = 0 \<and>
    rs_state (yk_rpc y') = Stopped \<and> rs_cancelled (yk_rpc y') \<and>
    map_option ms_state (yk_metrics y') = map_option (\<lambda>_. Stopped) (yk_metrics y) \<and>
    yorkie_shutdown m et g' y' s' = Some (s', y')"
proof -
  obtain s1 co where co: "coordinator_close et (bp_coordinator (yk_backend y)) s = (s1, co)" by (metis surj_pair)
  obtain s2 r where db: "mongo_close m s1 = Some (s2, r)" using mongo_close_returns [of m s1] by blast
  show ?thesis using assms
    by (simp add: yorkie_shutdown_def backend_close_def begin_close_def finish_close_def rpc_shutdown_def
        metrics_shutdown_def co db Let_def option.map_comp comp_def)
qed

section \<open>Requests through the interceptors\<close>

lemma extract_token_eq:
  "extract_token ctx = Inr t \<longleftrightarrow> (\<exists>md vs. ctx_metadata ctx = Some md \<and> map_of md ''authorization'' = Some (t # vs))"
  "extract_token ctx = Inl e \<longleftrightarrow> e = Unauthenticated \<and>
     \<not> (\<exists>md v vs. ctx_metadata ctx = Some md \<and> map_of md ''authorization'' = Some (v # vs))"
  by (auto simp: extract_token_def split: option.splits list.splits)

text \<open>C24: a method whose access must be checked never runs without the token of its caller, neither a
  call nor a stream (\<open>WatchDocuments\<close>): with the webhook of the configuration the chain of
  interceptors refuses the request as unauthenticated, without changing anything, exactly when it
  has no metadata or no value for \<open>authorization\<close>; otherwise it runs the method with the first value
  as the token, which is the token the access check sends, so that reading it cannot panic.\<close>
theorem checked_method_has_token:
  assumes "require_auth conf method"
  shows "(\<not> (\<exists>md v vs. ctx_metadata ctx = Some md \<and> map_of md ''authorization'' = Some (v # vs)) \<and>
      server_unary conf handler ctx req w = Some (w, Inl Unauthenticated) \<and>
      server_stream conf stream_handler ctx w = Some (w, Inl Unauthenticated)) \<or>
    (\<exists>md v vs. ctx_metadata ctx = Some md \<and> map_of md ''authorization'' = Some (v # vs) \<and>
      server_unary conf handler ctx req = default_unary handler (ctx\<lparr>ctx_token := Some v\<rparr>) req \<and>
      server_stream conf stream_handler ctx = default_stream stream_handler (ctx\<lparr>ctx_token := Some v\<rparr>) \<and>
      access_request (ctx\<lparr>ctx_token := Some v\<rparr>) i =
        Some \<lparr>awr_token = v, awr_method = ai_method i, awr_attributes = ai_attributes i\<rparr>)"
proof -
  have auth: "need_auth (webhook_url conf)" using assms by (simp add: require_auth_def need_auth_def)
  show ?thesis
  proof (cases "extract_token ctx")
    case (Inl e)
    then have "e = Unauthenticated"
      "\<not> (\<exists>md v vs. ctx_metadata ctx = Some md \<and> map_of md ''authorization'' = Some (v # vs))"
      by (simp_all add: extract_token_eq)
    then show ?thesis
      using Inl auth by (simp add: server_unary_def auth_unary_def server_stream_def auth_stream_def io_fail_def)
  next
    case (Inr t)
    then obtain md vs where "ctx_metadata ctx = Some md" "map_of md ''authorization'' = Some (t # vs)"
      by (auto simp: extract_token_eq)
    then show ?thesis using Inr auth
      by (simp add: server_unary_def auth_unary_def server_stream_def auth_stream_def access_request_def
          token_from_ctx_def ctx_with_token_def)
  qed
qed

text \<open>The interceptors are also in front of the cluster service, and an agent that forwards an
  event sends no token: when a webhook is configured every forwarded event is refused.\<close>
theorem forwarded_event_refused:
  assumes "webhook_url conf \<noteq> []" "ctx_metadata ctx = Some md" "map_of md ''authorization'' = None"
  shows "server_unary conf handler ctx (req :: pb_broadcast_request) w = Some (w, Inl Unauthenticated)"
  using assms by (simp add: server_unary_def auth_unary_def need_auth_def extract_token_def io_fail_def)

text \<open>C23: when MongoDB reports an error for the look-up of a client, the error is lost: the look-up
  returns an empty client record, and the request that needs the client and a document fails with
  an invalid id, the empty one, which the caller sees as an invalid argument of its own.\<close>
theorem failed_look_up_lost:
  assumes "documented_decoding m" "encode_id m (id_from_bytes cid) = Inr i"
    and "mg_find_one m col_clients [(''_id'', Equals (B_Id i))] [] w = (w', Inl e)"
    and "be_db be = mongo_db m codec marshal"
  shows "mongo_find_client m (id_from_bytes cid) w = Some (w', Inr zero_client_info) \<and>
    find_client_and_document be cid p create (w, h) = Some ((w', h), Inl (Outside (Invalid_Id []))) \<and>
    default_unary (\<lambda>_ _. find_client_and_document be cid p create) ctx req (w, h) = Some ((w', h), Inl Invalid_Argument)"
proof -
  have find: "mongo_find_client m (id_from_bytes cid) w = Some (w', Inr zero_client_info)"
    using assms(2,3)
    by (simp add: mongo_find_client_def io_bind_def sum_of_def step_of_def single_def decode_client_info_def
        decode_single_def io_return_def)
  have "encode_id m [] = Inl (Invalid_Id [])"
    using assms(1) by (simp add: encode_id_def documented_decoding_def)
  then have "mongo_find_doc m zero_client_info k b v = Some (v, Inl (Invalid_Id []))" for k b v
    by (simp add: mongo_find_doc_def zero_client_info_def io_bind_def sum_of_def step_of_def)
  then have "find_client_and_document be cid p create (w, h) = Some ((w', h), Inl (Outside (Invalid_Id [])))"
    using find by (simp add: find_client_and_document_def assms(4) mongo_db_def io_bind_def db_call_def)
  then show ?thesis using find by (simp add: default_unary_def)
qed

section \<open>Samples\<close>

definition sample_agent :: "string \<Rightarrow> agent_info" where
  "sample_agent i = \<lparr>ag_id = i, ag_hostname = i, ag_rpc_addr = ''localhost:11101''\<rparr>"

text \<open>Every call succeeds, a value is the id of its agent, and a connection is a number.\<close>

definition sample_etcd :: "(unit, unit, nat, unit) etcd" where
  "sample_etcd = \<lparr>et_connect = (\<lambda>_ _ _ _ s. (s, Inr ())), et_close = (\<lambda>s. (s, None)), et_grant = (\<lambda>_ s. (s, Inr 0)),
     et_put = (\<lambda>_ _ _ s. (s, None)), et_get_prefix = (\<lambda>_ s. (s, Inr [])), et_delete = (\<lambda>_ s. (s, None)),
     et_session = (\<lambda>_ _ s. (s, Inr ())), et_lock = (\<lambda>_ s. (s, None)), et_unlock = (\<lambda>_ s. (s, None)),
     et_session_close = (\<lambda>_ s. (s, None)), grpc_dial = (\<lambda>_ s. (s, Inr 0)), grpc_close = (\<lambda>_ s. (s, None)),
     grpc_broadcast = (\<lambda>_ _ _ s. (s, None)), agent_to_json = (\<lambda>a. Inr (ag_id a)),
     agent_from_json = (\<lambda>i. Inr (sample_agent i))\<rparr>"

definition sample_etcd_client :: "nat etcd_client" where
  "sample_etcd_client = \<lparr>ec_config = \<lparr>etc_endpoints = [], etc_dial_timeout = 5, etc_username = [], etc_password = [],
     etc_lock_lease = 30\<rparr>, ec_agent = sample_agent ''a'', ec_pubsub = new_pubsub,
     ec_members = [(agent_key ''a'', sample_agent ''a''), (agent_key ''b'', sample_agent ''b'')],
     ec_cluster_clients = [(''b'', 7)], ec_cancelled = False\<rparr>"

theorem members_follow_events_witness:
  "map_of (ec_members (snd (sync_agents sample_etcd [Agent_Deleted (agent_key ''b''), Agent_Put (agent_key ''c'') ''c''] ((), sample_etcd_client)))) =
     [agent_key ''a'' \<mapsto> sample_agent ''a'', agent_key ''c'' \<mapsto> sample_agent ''c''] \<and>
   ec_cluster_clients (snd (sync_agents sample_etcd [Agent_Deleted (agent_key ''b''), Agent_Put (agent_key ''c'') ''c''] ((), sample_etcd_client))) =
     [(''b'', 7)]"
proof -
  have "fold (event_effect sample_etcd) [Agent_Deleted (agent_key ''b''), Agent_Put (agent_key ''c'') ''c''] (map_of (ec_members sample_etcd_client)) =
      [agent_key ''a'' \<mapsto> sample_agent ''a'', agent_key ''c'' \<mapsto> sample_agent ''c'']"
    by (auto simp: sample_etcd_def sample_etcd_client_def agent_key_def fun_eq_iff)
  moreover have "ec_cluster_clients sample_etcd_client = [(''b'', 7)]" by (simp add: sample_etcd_client_def)
  ultimately show ?thesis
    using members_follow_events [of sample_etcd_client "[Agent_Deleted (agent_key ''b''), Agent_Put (agent_key ''c'') ''c'']" sample_etcd "()"]
    by auto
qed

theorem cluster_with_one_port_not_notified_witness:
  "etcd_publish sample_etcd None \<lparr>ev_type = Documents_Changed_Event, ev_publisher = \<lparr>cl_id = None, cl_metadata = []\<rparr>, ev_document_keys = []\<rparr>
     ((), sample_etcd_client) = (Some [], (), sample_etcd_client)"
proof -
  have "dec 11101 = ''11101''" by (simp add: dec.simps digit_def char_of_def bit_0)
  then have addr: "config_rpc_addr new_config = Some ''localhost:11101''"
    by (simp add: config_rpc_addr_def new_config_def make_config_def default_rpc_port_def dec_int_def)
  then have own: "config_rpc_addr new_config = Some (ag_rpc_addr (ec_agent sample_etcd_client))"
    by (simp add: sample_etcd_client_def sample_agent_def)
  have "\<forall>a \<in> snd ` set (ec_members sample_etcd_client). \<exists>conf'. config_rpc_addr conf' = Some (ag_rpc_addr a) \<and>
      map_option rpc_port (cf_rpc conf') = map_option rpc_port (cf_rpc new_config)"
    using addr by (auto simp: sample_etcd_client_def sample_agent_def)
  then show ?thesis by (subst cluster_with_one_port_not_notified [OF own]) (simp_all add: publish_targets_def)
qed

text \<open>One goroutine is attached and ends while the backend closes.\<close>

theorem no_goroutine_after_close_witness:
  "backend_step\<^sup>*\<^sup>* new_backend_state \<lparr>bs_closing = True, bs_goroutines = 0, bs_closed = True\<rparr> \<and>
   bs_goroutines (attach_goroutine \<lparr>bs_closing = True, bs_goroutines = 0, bs_closed = True\<rparr>) = 0"
proof -
  let ?s = "\<lambda>c n d. \<lparr>bs_closing = c, bs_goroutines = n, bs_closed = d\<rparr>"
  have 1: "backend_step new_backend_state (?s False 1 False)"
    using backend_step.attach [of new_backend_state] by (simp add: attach_goroutine_def new_backend_state_def)
  have 2: "backend_step (?s False 1 False) (?s True 1 False)"
    by (rule backend_step.begin_closing) (simp add: begin_close_def)
  have 3: "backend_step (?s True 1 False) (?s True 0 False)"
    by (rule backend_step.done_with) (simp add: goroutine_done_def)
  have 4: "backend_step (?s True 0 False) (?s True 0 True)"
    by (rule backend_step.finish_closing) (simp add: finish_close_def)
  have run: "backend_step\<^sup>*\<^sup>* new_backend_state (?s True 0 True)"
    using 1 2 3 4 by (meson converse_rtranclp_into_rtranclp rtranclp.rtrancl_refl)
  moreover have "backend_step\<^sup>*\<^sup>* (?s True 0 True) (attach_goroutine (?s True 0 True))"
    by (rule r_into_rtranclp) (rule backend_step.attach)
  ultimately show ?thesis using no_goroutine_after_close [OF run] by simp
qed

definition sample_yorkie :: "nat yorkie" where
  "sample_yorkie = \<lparr>yk_conf = new_config,
     yk_backend = \<lparr>bp_agent = sample_agent ''a'', bp_coordinator = Etcd_Coordinator sample_etcd_client,
       bp_state = \<lparr>bs_closing = False, bs_goroutines = 2, bs_closed = False\<rparr>\<rparr>,
     yk_rpc = \<lparr>rs_port = 11101, rs_tls = False, rs_state = Serving, rs_cancelled = False\<rparr>,
     yk_metrics = None, yk_shutdown = False, yk_shutdown_ch_closed = False\<rparr>"

definition unit_mongo :: "(unit, unit) mongo" where
  "unit_mongo = \<lparr>oid_from_hex = (\<lambda>_. None), oid_hex = (\<lambda>_. []), mg_connect = (\<lambda>_ s. (s, Inr ())), mg_ping = (\<lambda>s. (s, Inr ())),
     mg_disconnect = (\<lambda>s. (s, Inr ())), mg_create_indexes = (\<lambda>_ _ s. (s, Inr ())), mg_update_one = (\<lambda>_ _ _ _ s. (s, Inl ())),
     mg_find_one = (\<lambda>_ _ _ s. (s, Inl ())), mg_find_one_and_update = (\<lambda>_ _ _ s. (s, Inl ())), mg_find = (\<lambda>_ _ s. (s, Inl ())),
     mg_bulk_write = (\<lambda>_ _ s. (s, Inl ())), mg_insert_one = (\<lambda>_ _ s. (s, Inl ())), mg_delete_one = (\<lambda>_ _ s. (s, Inl ())),
     dec_id = (\<lambda>_ _. Inl ()), dec_string = (\<lambda>_ _. Inl ()), dec_uint64 = (\<lambda>_ _. Inl ()), dec_uint32 = (\<lambda>_ _. Inl ()),
     dec_bytes = (\<lambda>_ _. Inl ()), dec_bytes_list = (\<lambda>_ _. Inl ()), dec_docs = (\<lambda>_ _. Inl ()),
     dec_client_rest = (\<lambda>_. zero_client_info)\<rparr>"

theorem shutdown_once_witness:
  "\<exists>s y. yorkie_shutdown unit_mongo sample_etcd True sample_yorkie () = Some (s, y) \<and>
     yorkie_shutdown unit_mongo sample_etcd False y s = Some (s, y) \<and> bs_goroutines (bp_state (yk_backend y)) = 0"
proof -
  have "\<not> yk_shutdown sample_yorkie" "\<not> bs_closing (bp_state (yk_backend sample_yorkie))" "\<not> yk_shutdown_ch_closed sample_yorkie"
    by (simp_all add: sample_yorkie_def)
  from shutdown_once [OF this, of unit_mongo sample_etcd True "()" False] show ?thesis by blast
qed

definition sample_webhook_config :: backend_config where
  "sample_webhook_config = \<lparr>snapshot_threshold = 500, snapshot_interval = 100, webhook_url = ''http://auth'', webhook_methods = []\<rparr>"

text \<open>A call and a stream that return the token they see, with a token, without metadata and without
  the header.\<close>

definition sample_call :: "call_context \<Rightarrow> unit \<Rightarrow> (unit, unit mongo_error server_error, string option) io" where
  "sample_call ctx req = io_return (token_from_ctx ctx)"

definition sample_watch :: "call_context \<Rightarrow> (unit, unit mongo_error server_error, unit) io" where
  "sample_watch ctx = (case token_from_ctx ctx of None \<Rightarrow> (\<lambda>_. None) | Some _ \<Rightarrow> io_return ())"

definition sample_context :: "call_metadata option \<Rightarrow> call_context" where
  "sample_context md = \<lparr>ctx_metadata = md, ctx_token = None\<rparr>"

theorem checked_method_has_token_witness:
  "server_unary sample_webhook_config sample_call (sample_context (Some [(''authorization'', [''t''])])) () () =
     Some ((), Inr (Some ''t'')) \<and>
   server_stream sample_webhook_config sample_watch (sample_context (Some [(''authorization'', [''t''])])) () =
     Some ((), Inr ()) \<and>
   server_unary sample_webhook_config sample_call (sample_context (Some [(''x'', [''t''])])) () () =
     Some ((), Inl Unauthenticated) \<and>
   server_stream sample_webhook_config sample_watch (sample_context None) () = Some ((), Inl Unauthenticated)"
proof -
  have "require_auth sample_webhook_config Watch_Documents" by code_simp
  note chain = checked_method_has_token [OF this, of _ sample_call "()" "()" sample_watch
      "\<lparr>ai_method = Watch_Documents, ai_attributes = []\<rparr>"]
  show ?thesis
    using chain [of "sample_context (Some [(''authorization'', [''t''])])"]
      chain [of "sample_context (Some [(''x'', [''t''])])"] chain [of "sample_context None"]
    by (auto simp: sample_context_def default_unary_def default_stream_def sample_call_def sample_watch_def
        token_from_ctx_def io_return_def)
qed

theorem forwarded_event_refused_witness:
  "server_unary sample_webhook_config
     (\<lambda>ctx req. (io_return () :: (unit, unit mongo_error server_error, unit) io))
     \<lparr>ctx_metadata = Some [], ctx_token = None\<rparr> \<lparr>pbr_publisher = [], pbr_event = None\<rparr> () = Some ((), Inl Unauthenticated)"
  by (rule forwarded_event_refused [where md = "[]"]) (simp_all add: sample_webhook_config_def)

definition sample_backend_of :: "('s, 'e) db_ops \<Rightarrow> ('s, 'e) backend" where
  "sample_backend_of db = \<lparr>be_db = db, be_config = sample_webhook_config,
     be_webhook = (\<lambda>_. Inr (True, [])), be_marshal = (\<lambda>_. None), be_unmarshal = (\<lambda>_. None), be_float = sample_float\<rparr>"

definition failing_mongo :: "(mem_store, unit) mongo" where
  "failing_mongo = mem_mongo\<lparr>mg_find_one := (\<lambda>c f srt s. (s, Inl ()))\<rparr>"

definition sample_failing_backend :: "(mem_store, unit mongo_error) backend" where
  "sample_failing_backend = sample_backend_of (mongo_db failing_mongo
     \<lparr>op_marshal = (\<lambda>_. None), op_unmarshal = (\<lambda>_. None)\<rparr> (\<lambda>_. None))"

theorem failed_look_up_lost_witness:
  "mongo_find_client failing_mongo (id_from_bytes (oid 1)) sample_store = Some (sample_store, Inr zero_client_info) \<and>
   default_unary (\<lambda>_ (_ :: unit). find_client_and_document sample_failing_backend (oid 1)
       (new_pack \<lparr>collection = ''c'', document = ''d''\<rparr> initial_checkpoint [] []) True)
     \<lparr>ctx_metadata = None, ctx_token = None\<rparr> () (sample_store, sample_json) =
       Some ((sample_store, sample_json), Inl Invalid_Argument)"
proof -
  have 1: "documented_decoding failing_mongo"
    using mem_mongo_documented by (simp add: documented_def documented_decoding_def failing_mongo_def)
  have 2: "encode_id failing_mongo (id_from_bytes (oid 1)) = Inr (oid 1)" by code_simp
  have 3: "mg_find_one failing_mongo col_clients [(''_id'', Equals (B_Id (oid 1)))] [] sample_store = (sample_store, Inl ())"
    by (simp add: failing_mongo_def)
  have 4: "be_db sample_failing_backend = mongo_db failing_mongo
     \<lparr>op_marshal = (\<lambda>_. None), op_unmarshal = (\<lambda>_. None)\<rparr> (\<lambda>_. None)"
    by (simp add: sample_failing_backend_def sample_backend_of_def)
  show ?thesis
    by (rule conjI) (rule failed_look_up_lost [OF 1 2 3 4, THEN conjunct1] failed_look_up_lost [OF 1 2 3 4, THEN conjunct2, THEN conjunct2])+
qed

end
