(* ===== verification/Watching.thy ===== *)
theory Watching
  imports Client_Side Sync_Protocol Pub_Sub Converter_Facts
begin

text \<open>
  Watching a document from end to end: the handler \<open>WatchDocuments\<close> of \<open>src/yorkie/rpc/yorkie_server.go\<close>
  around the subscriptions of \<open>Pub_Sub\<close>, and the messages it sends as \<open>Watch\<close> of
  \<open>src/client/client.go\<close> handles them.  The facts say that the peers a client shows are the
  subscribers of its documents.
\<close>

section \<open>The handler of the server\<close>

definition watch_attributes :: "doc_key list \<Rightarrow> (string \<times> verb) list" where
  "watch_attributes keys = map (\<lambda>k. (bson_key k, Read_Verb)) keys"

datatype 'e watch_error = Watch_Refused "'e server_error" | Watch_Not_Subscribed sync_error

definition watched_event :: "doc_event_type \<Rightarrow> client \<Rightarrow> doc_key list \<Rightarrow> doc_event" where
  "watched_event ty c keys = \<lparr>ev_type = ty, ev_publisher = c, ev_document_keys = keys\<rparr>"

text \<open>\<open>watchDocs\<close>: subscribe, then tell the others.  The result has the subscription, the subscriptions
  the event has to be sent to and the peers.\<close>

definition watch_docs :: "client \<Rightarrow> doc_key list \<Rightarrow> pubsub \<Rightarrow>
    ('e watch_error, pubsub \<times> nat \<times> nat list \<times> (string \<times> client list) list) result" where
  "watch_docs c keys m =
     (case subscribe c keys m of
        Inl e \<Rightarrow> fail (Watch_Not_Subscribed e)
      | Inr (m, n, peers) \<Rightarrow>
          let cl = sub_client (ps_subs m n) in
          panics (publish_targets m (cl_id cl) (watched_event Documents_Watched_Event cl keys)) (\<lambda>ts.
          ok (m, n, ts, peers)))"

definition unwatch_docs :: "doc_key list \<Rightarrow> nat \<Rightarrow> pubsub \<Rightarrow> (pubsub \<times> nat list) option" where
  "unwatch_docs keys n m = do {
     m \<leftarrow> unsubscribe keys n m;
     let cl = sub_client (ps_subs m n);
     ts \<leftarrow> publish_targets m (cl_id cl) (watched_event Documents_Unwatched_Event cl keys);
     Some (m, ts) }"

text \<open>The handler up to its loop: the last component is the first message of the stream.\<close>

definition watch_documents :: "('s, 'e) backend \<Rightarrow> pb_watch_request \<Rightarrow> pubsub \<Rightarrow>
    ('e watch_error, pubsub \<times> nat \<times> nat list \<times> pb_watch_response) result" where
  "watch_documents be req m =
     (case from_client (pwr_client req) of
        None \<Rightarrow> None
      | Some (Inl e) \<Rightarrow> fail (Watch_Refused (Conv_Failed e))
      | Some (Inr c) \<Rightarrow>
          let keys = from_document_keys (pwr_keys req) in
          case verify_access be \<lparr>ai_method = Watch_Documents, ai_attributes = watch_attributes keys\<rparr> of
            Inl e \<Rightarrow> fail (Watch_Refused e)
          | Inr _ \<Rightarrow> checked (watch_docs c keys m) (\<lambda>(m, n, ts, peers).
              ok (m, n, ts, Pb_Initialization (to_clients_map peers))))"

text \<open>What the loop sends for an event of the subscription.\<close>

definition event_message :: "doc_event \<Rightarrow> pb_watch_response" where
  "event_message e = Pb_Event \<lparr>pe_type = to_doc_event_type (ev_type e), pe_publisher = Some (to_client (ev_publisher e)),
     pe_document_keys = to_document_keys (ev_document_keys e)\<rparr>"

section \<open>What the client does with the messages\<close>

definition wf_client :: "client \<Rightarrow> bool" where
  "wf_client c \<longleftrightarrow> (case cl_id c of None \<Rightarrow> True | Some a \<Rightarrow> wf_actor a)"

lemma from_to_client: "wf_client c \<Longrightarrow> from_client (Some (to_client c)) = ok c"
  by (cases "cl_id c") (auto simp: from_client_def to_client_def wf_client_def message_def)

lemma from_to_clients: "list_all wf_client cs \<Longrightarrow> from_clients (map to_client cs) = ok cs"
  by (induction cs) (auto simp: from_clients_def from_to_client)

lemma from_to_document_keys [simp]: "from_document_keys (to_document_keys ks) = ks"
  by (induction ks) (simp_all add: from_document_keys_def to_document_keys_def from_document_key_def to_document_key_def)

text \<open>The peers a client shows for a document it has attached, by the text of their ids.\<close>

type_synonym peers_view = "string \<Rightarrow> (string \<rightharpoonup> metadata) option"

definition peers_of :: "yorkie_client \<Rightarrow> peers_view" where
  "peers_of c k = map_option (\<lambda>a. map_of (at_peers a)) (map_of (yc_attachments c) k)"

definition peer_entry :: "client \<Rightarrow> string \<times> metadata" where
  "peer_entry cl = (actor_id_string (cl_id cl), cl_metadata cl)"

lemma peers_of_attached: "peers_of c k \<noteq> None \<longleftrightarrow> map_of (yc_attachments c) k \<noteq> None"
  by (simp add: peers_of_def)

lemma update_peers_spec:
  assumes "peers_of c k = Some p" and f: "\<And>l. map_of (f l) = g (map_of l)"
  shows "\<exists>c'. (update_peers k f :: ('e, unit) peers_io) c = Some (c', Inr ()) \<and> peers_of c' = (peers_of c)(k := Some (g p))"
proof -
  obtain a where a: "map_of (yc_attachments c) k = Some a" "p = map_of (at_peers a)"
    using assms(1) by (auto simp: peers_of_def)
  then show ?thesis
    by (simp add: update_peers_def, intro ext) (simp add: peers_of_def update_conv f)
qed

lemma add_peers_spec:
  "peers_of c k = Some p \<Longrightarrow>
    \<exists>c'. (add_peers k cs :: ('e, unit) peers_io) c = Some (c', Inr ()) \<and>
      peers_of c' = (peers_of c)(k := Some (p ++ map_of (rev (map peer_entry cs))))"
proof (induction cs arbitrary: c p)
  case Nil
  then show ?case by (simp add: io_return_def fun_upd_idem)
next
  case (Cons cl cs)
  obtain c1 where 1: "(update_peers k (AList.update (actor_id_string (cl_id cl)) (cl_metadata cl)) :: ('e, unit) peers_io) c = Some (c1, Inr ())"
    "peers_of c1 = (peers_of c)(k := Some (p(actor_id_string (cl_id cl) \<mapsto> cl_metadata cl)))"
    using update_peers_spec [OF Cons.prems, of "AList.update (actor_id_string (cl_id cl)) (cl_metadata cl)"
        "\<lambda>q. q(actor_id_string (cl_id cl) \<mapsto> cl_metadata cl)"] by (auto simp: update_conv')
  then have "peers_of c1 k = Some (p(actor_id_string (cl_id cl) \<mapsto> cl_metadata cl))" by simp
  from Cons.IH [OF this] obtain c' where "(add_peers k cs :: ('e, unit) peers_io) c1 = Some (c', Inr ())"
    "peers_of c' = (peers_of c1)(k := Some (p(actor_id_string (cl_id cl) \<mapsto> cl_metadata cl) ++ map_of (rev (map peer_entry cs))))"
    by blast
  then show ?case using 1
    by (intro exI [of _ c']) (simp add: io_bind_def peer_entry_def [of cl])
qed

lemma initialize_peers_spec:
  "(\<And>k cs. (k, cs) \<in> set m \<Longrightarrow> peers_of c k \<noteq> None \<and> list_all wf_client cs) \<Longrightarrow> distinct (map fst m) \<Longrightarrow>
    \<exists>c'. (initialize_peers (to_clients_map m) :: ('e, unit) peers_io) c = Some (c', Inr ()) \<and>
      peers_of c' = (\<lambda>k. case map_of m k of
          None \<Rightarrow> peers_of c k
        | Some cs \<Rightarrow> map_option (\<lambda>p. p ++ map_of (rev (map peer_entry cs))) (peers_of c k))"
proof (induction m arbitrary: c)
  case Nil
  then show ?case by (simp add: to_clients_map_def io_return_def)
next
  case (Cons e m)
  obtain k cs where e: "e = (k, cs)" by (cases e)
  then obtain p where p: "peers_of c k = Some p" "list_all wf_client cs" using Cons.prems(1) [of k cs] by auto
  obtain c1 where c1: "(add_peers k cs :: ('e, unit) peers_io) c = Some (c1, Inr ())"
    "peers_of c1 = (peers_of c)(k := Some (p ++ map_of (rev (map peer_entry cs))))"
    using add_peers_spec [OF p(1)] by blast
  have "\<exists>c'. (initialize_peers (to_clients_map m) :: ('e, unit) peers_io) c1 = Some (c', Inr ()) \<and>
      peers_of c' = (\<lambda>k. case map_of m k of
          None \<Rightarrow> peers_of c1 k
        | Some cs \<Rightarrow> map_option (\<lambda>p. p ++ map_of (rev (map peer_entry cs))) (peers_of c1 k))"
  proof (rule Cons.IH)
    show "peers_of c1 j \<noteq> None \<and> list_all wf_client ds" if "(j, ds) \<in> set m" for j ds
      using Cons.prems(1) [of j ds] that e c1(2) by simp
    show "distinct (map fst m)" using Cons.prems(2) by simp
  qed
  moreover have "map_of m k = None" using Cons.prems(2) e by (auto simp: map_of_eq_None_iff)
  ultimately show ?case
    using c1 p by (auto simp: e to_clients_map_def io_bind_def conv_step_def from_to_clients ok_def fun_eq_iff cong: option.case_cong)
qed

text \<open>What an event does to the peers that are shown.\<close>

definition peer_step :: "bool \<Rightarrow> client \<Rightarrow> doc_key \<Rightarrow> peers_view \<Rightarrow> peers_view" where
  "peer_step watched cl d v = v(bson_key d := map_option (\<lambda>p. p(fst (peer_entry cl) :=
     (if watched then Some (snd (peer_entry cl)) else None))) (v (bson_key d)))"

definition event_peers :: "doc_event \<Rightarrow> peers_view \<Rightarrow> peers_view" where
  "event_peers e v = (if ev_type e = Documents_Changed_Event then v
     else fold (peer_step (ev_type e = Documents_Watched_Event) (ev_publisher e)) (ev_document_keys e) v)"

definition attached_event :: "yorkie_client \<Rightarrow> doc_event \<Rightarrow> bool" where
  "attached_event c e \<longleftrightarrow> wf_client (ev_publisher e) \<and>
     list_all (\<lambda>d. map_of (yc_attachments c) (bson_key d) \<noteq> None) (ev_document_keys e)"

lemma peers_event_spec:
  assumes "wf_client cl" "\<And>d. d \<in> set ds \<Longrightarrow> peers_of c (bson_key d) \<noteq> None"
  shows "\<exists>c'. (peers_event b (Some (to_client cl)) ds :: ('e, unit) peers_io) c = Some (c', Inr ()) \<and>
    peers_of c' = fold (peer_step b cl) ds (peers_of c)"
  using assms(2)
proof (induction ds arbitrary: c)
  case Nil
  then show ?case by (simp add: io_return_def)
next
  case (Cons d ds)
  let ?f = "if b then AList.update (actor_id_string (cl_id cl)) (cl_metadata cl) else AList.delete (actor_id_string (cl_id cl))"
  have f: "map_of (?f l) = (map_of l)(fst (peer_entry cl) := (if b then Some (snd (peer_entry cl)) else None))" for l
    by (auto simp: update_conv' delete_conv' peer_entry_def)
  obtain p where p: "peers_of c (bson_key d) = Some p" using Cons.prems [of d] by auto
  obtain c1 where 1: "(update_peers (bson_key d) ?f :: ('e, unit) peers_io) c = Some (c1, Inr ())"
    "peers_of c1 = (peers_of c)(bson_key d := Some (p(fst (peer_entry cl) := (if b then Some (snd (peer_entry cl)) else None))))"
    using update_peers_spec [where f = ?f and ?'e = 'e and
        g = "\<lambda>q. q(fst (peer_entry cl) := (if b then Some (snd (peer_entry cl)) else None))", OF p f] by blast
  have "\<And>d'. d' \<in> set ds \<Longrightarrow> peers_of c1 (bson_key d') \<noteq> None" using Cons.prems 1(2) by auto
  from Cons.IH [OF this] obtain c' where
    "(peers_event b (Some (to_client cl)) ds :: ('e, unit) peers_io) c1 = Some (c', Inr ())"
    "peers_of c' = fold (peer_step b cl) ds (peers_of c1)"
    by blast
  then show ?case using 1 p
    by (intro exI [of _ c']) (simp add: io_bind_def conv_step_def from_to_client [OF assms(1)] ok_def peer_step_def [of b cl d])
qed

lemma fold_peers_domain: "(fold (peer_step b cl) ds v k = None) = (v k = None)"
  by (induction ds arbitrary: v) (auto simp: peer_step_def)

lemma event_peers_domain: "event_peers e v k = None \<longleftrightarrow> v k = None"
  by (simp add: event_peers_def fold_peers_domain)

lemma handle_event_spec:
  assumes "attached_event c e"
  shows "\<exists>c' r. (handle_watch_response (event_message e) :: ('e, watch_response option) peers_io) c = Some (c', Inr (Some r)) \<and>
    peers_of c' = event_peers e (peers_of c)"
proof -
  have d: "\<And>d. d \<in> set (ev_document_keys e) \<Longrightarrow> peers_of c (bson_key d) \<noteq> None"
    using assms by (auto simp: attached_event_def peers_of_def list_all_iff)
  have cl: "wf_client (ev_publisher e)" using assms by (simp add: attached_event_def)
  have ex: "\<exists>c'. (peers_event b (Some (to_client (ev_publisher e))) (ev_document_keys e) :: ('e, unit) peers_io) c = Some (c', Inr ()) \<and>
      peers_of c' = fold (peer_step b (ev_publisher e)) (ev_document_keys e) (peers_of c)" for b
    using d by (intro peers_event_spec [OF cl])
  show ?thesis
    using ex [of True] ex [of False]
    by (cases "ev_type e")
      (auto simp: event_message_def conv_step_def ok_def io_bind_def event_peers_def Let_def io_return_def)
qed

lemma watch_loop_spec:
  "list_all (attached_event c) es \<Longrightarrow>
    \<exists>c' ch'. watch_loop (map (\<lambda>e. Inr (event_message e) :: 'e + pb_watch_response) es) (c, ch) = Some (c', ch') \<and>
      wc_closed ch' = wc_closed ch \<and> length (wc_items ch') = length (wc_items ch) + length es \<and>
      peers_of c' = fold event_peers es (peers_of c)"
proof (induction es arbitrary: c ch)
  case (Cons e es)
  obtain c1 r where 1: "(handle_watch_response (event_message e) :: ('e, watch_response option) peers_io) c = Some (c1, Inr (Some r))"
    "peers_of c1 = event_peers e (peers_of c)"
    using handle_event_spec [of c e, where ?'e = 'e] Cons.prems by auto
  have "map_of (yc_attachments c1) k = None \<longleftrightarrow> map_of (yc_attachments c) k = None" for k
    using event_peers_domain [of e "peers_of c" k] 1(2) peers_of_attached [of c1 k] peers_of_attached [of c k] by metis
  then have "list_all (attached_event c1) es"
    using Cons.prems by (auto simp: attached_event_def list_all_iff)
  from Cons.IH [OF this, of "ch\<lparr>wc_items := wc_items ch @ [Watch_Response r]\<rparr>"] 1 show ?case by auto
qed simp

section \<open>Whom the client sees\<close>

lemma subscribe_topics_peers:
  "subscribe_topics n topics m peers = (m', peers') \<Longrightarrow> distinct (map fst peers) \<Longrightarrow>
    distinct (map fst peers') \<and>
    map_of peers' = (\<lambda>k. if k \<in> bson_key ` set topics then Some (map (\<lambda>x. sub_client (ps_subs m' x)) (topic_subs m' k))
      else map_of peers k) \<and>
    (\<forall>k. topic_subs m' k = (if k \<in> bson_key ` set topics then List.insert n (topic_subs m k) else topic_subs m k))"
proof (induction topics arbitrary: m peers)
  case (Cons t ts)
  let ?k = "bson_key t" and ?m = "subs_add (bson_key t) n m"
  have add: "topic_subs ?m k = (if k = ?k then List.insert n (topic_subs m ?k) else topic_subs m k)" for k
    by (simp add: subs_add_def topic_subs_def update_conv)
  have run: "subscribe_topics n ts ?m (AList.update ?k (map (\<lambda>x. sub_client (ps_subs ?m x)) (topic_subs ?m ?k)) peers) = (m', peers')"
    using Cons.prems(1) by (simp add: Let_def)
  have subs: "ps_subs m' = ps_subs ?m" by (rule subscribe_topics_facts(2) [OF run])
  have "distinct (map fst (AList.update ?k (map (\<lambda>x. sub_client (ps_subs ?m x)) (topic_subs ?m ?k)) peers))"
    using Cons.prems(2) by (rule distinct_update)
  from Cons.IH [OF run this] show ?case
    by (auto simp: add subs update_conv fun_eq_iff List.insert_def)
qed simp

lemma subscribe_peers:
  assumes "subscribe cl keys m = Inr (m', n, peers)"
  shows "distinct (map fst peers)"
    "map_of peers = (\<lambda>k. if k \<in> bson_key ` set keys then Some (map (\<lambda>x. sub_client (ps_subs m' x)) (topic_subs m' k)) else None)"
proof -
  obtain m0 where "subscribe_topics n keys m0 [] = (m', peers)"
    using assms by (auto simp: subscribe_def Let_def split: if_splits prod.splits)
  then show "distinct (map fst peers)"
    "map_of peers = (\<lambda>k. if k \<in> bson_key ` set keys then Some (map (\<lambda>x. sub_client (ps_subs m' x)) (topic_subs m' k)) else None)"
    using subscribe_topics_peers [of n keys m0 "[]" m' peers] by (auto simp: fun_eq_iff)
qed

text \<open>The stream of the handler: its first message, then one for every event of the subscription.\<close>

definition watch_stream :: "('s, 'e) backend \<Rightarrow> pubsub \<Rightarrow> doc_event list \<Rightarrow> 'f \<Rightarrow> pb_watch_request \<Rightarrow>
    'f + ('f + pb_watch_response) \<times> ('f + pb_watch_response) list" where
  "watch_stream be m es e req =
     (case watch_documents be req m of
        Some (Inr (m, n, ts, msg)) \<Rightarrow> Inr (Inr msg, map (\<lambda>e. Inr (event_message e)) es)
      | _ \<Rightarrow> Inl e)"

text \<open>C15: watching from end to end: when the server accepts a stream of documents the client has attached,
  the client shows for each of them the subscribers of the document (itself among them), next to the
  peers it knew, and after that what the events say; the channel of the user gets one response for
  every event and stays open.\<close>
theorem watch_shows_subscribers:
  fixes be :: "('s, 'e) backend" and x :: 'f
  assumes "keys = map (\<lambda>r. idoc_key (doc_internal (docs r))) rs"
    and "list_all (\<lambda>d. map_of (yc_attachments c) (bson_key d) \<noteq> None) keys"
    and "watch_documents be (watch_request docs c rs) m = ok (m', n, ts, msg)"
    and "\<forall>k. \<forall>i \<in> set (topic_subs m' k). wf_client (sub_client (ps_subs m' i))" "list_all (attached_event c) es"
  shows "\<exists>c' ch. client_watch (watch_stream be m es x) docs rs c = Some (c', Inr ch) \<and>
    \<not> wc_closed ch \<and> length (wc_items ch) = length es \<and>
    peers_of c' = fold event_peers es (\<lambda>k. if k \<in> bson_key ` set keys
      then map_option (\<lambda>p. p ++ map_of (rev (map (\<lambda>i. peer_entry (sub_client (ps_subs m' i))) (topic_subs m' k)))) (peers_of c k)
      else peers_of c k)"
proof -
  let ?req = "watch_request docs c rs"
  obtain cl peers where sub: "subscribe cl keys m = Inr (m', n, peers)" and msg: "msg = Pb_Initialization (to_clients_map peers)"
    using assms(3)
    by (auto simp: watch_documents_def watch_docs_def watch_request_def Let_def assms(1) checked_ok panics_def ok_def
        checked_def fail_def split: option.splits sum.splits bind_splits)
  note ps = subscribe_peers [OF sub]
  have mem: "peers_of c k \<noteq> None \<and> list_all wf_client cs" if "(k, cs) \<in> set peers" for k cs
  proof -
    have "map_of peers k = Some cs" using that ps(1) by (simp add: map_of_eq_Some_iff)
    then have "k \<in> bson_key ` set keys" "cs = map (\<lambda>x. sub_client (ps_subs m' x)) (topic_subs m' k)"
      using ps(2) by (auto split: if_splits)
    then show ?thesis using assms(2,4) by (auto simp: list_all_iff peers_of_def)
  qed
  obtain c1 where c1: "(initialize_peers (to_clients_map peers) :: ('f, unit) peers_io) c = Some (c1, Inr ())"
    "peers_of c1 = (\<lambda>k. case map_of peers k of
          None \<Rightarrow> peers_of c k
        | Some cs \<Rightarrow> map_option (\<lambda>p. p ++ map_of (rev (map peer_entry cs))) (peers_of c k))"
    using initialize_peers_spec [OF mem ps(1), where ?'e = 'f] by blast
  have "map_of (yc_attachments c1) k = None \<longleftrightarrow> map_of (yc_attachments c) k = None" for k
    using peers_of_attached [of c1 k] peers_of_attached [of c k] by (auto simp: c1(2) split: option.splits)
  then have "list_all (attached_event c1) es"
    using assms(5) by (auto simp: attached_event_def list_all_iff)
  from watch_loop_spec [OF this, where ?'e = 'f and ch = "\<lparr>wc_items = [], wc_closed = False\<rparr>"]
  obtain c' ch where c': "watch_loop (map (\<lambda>e. Inr (event_message e) :: 'f + pb_watch_response) es)
      (c1, \<lparr>wc_items = [], wc_closed = False\<rparr>) = Some (c', ch)"
    "\<not> wc_closed ch" "length (wc_items ch) = length es" "peers_of c' = fold event_peers es (peers_of c1)"
    by auto
  have view: "peers_of c1 = (\<lambda>k. if k \<in> bson_key ` set keys
      then map_option (\<lambda>p. p ++ map_of (rev (map (\<lambda>i. peer_entry (sub_client (ps_subs m' i))) (topic_subs m' k)))) (peers_of c k)
      else peers_of c k)"
    by (simp add: c1(2) ps(2) fun_eq_iff comp_def)
  have "client_watch (watch_stream be m es x) docs rs c = Some (c', Inr ch)"
    using c' c1(1)
    by (simp add: client_watch_def watch_stream_def assms(3) [unfolded ok_def] msg io_bind_def io_return_def)
  then show ?thesis using c' view by (intro exI [of _ c'] exI [of _ ch]) simp
qed

lemma actor_id_compare_zero: "actor_id_compare i j = Some 0 \<Longrightarrow> i = j"
  by (auto simp: actor_id_compare_def bytes_compare_order split: option.splits if_splits)

text \<open>C16: a client that watches one document is sent the event of another that watches this and further
  documents, and it dereferences nil for the first of them that it has not attached itself.\<close>
theorem peer_with_more_documents_panics_client:
  fixes cl :: client
  assumes "watch_docs cl keys m = (ok (m', n, ts, peers) :: ('e watch_error, pubsub \<times> nat \<times> nat list \<times> (string \<times> client list) list) result)"
    and "d1 \<in> set keys" "i \<in> set (topic_subs m (bson_key d1))" "i < ps_next m"
    and "cl_id (sub_client (ps_subs m i)) \<noteq> cl_id cl"
    and "wf_client cl" "d2 \<in> set keys" "map_of (yc_attachments c) (bson_key d2) = None"
  shows "i \<in> set ts \<and>
    (handle_watch_response (event_message (watched_event Documents_Watched_Event cl keys)) :: ('f, watch_response option) peers_io) c = None"
proof
  obtain peers' where sub: "subscribe cl keys m = Inr (m', n, peers')"
    and ts: "publish_targets m' (cl_id cl) (watched_event Documents_Watched_Event cl keys) = Some ts"
    using assms(1)
    by (auto simp: watch_docs_def Let_def subscribe_facts(1,3) new_subscription_def panics_def ok_def fail_def split: sum.splits bind_splits)
  note fs = subscribe_facts [OF sub]
  have i: "i \<in> set (topic_subs m' (bson_key d1))" "ps_subs m' i = ps_subs m i"
    using assms(3,4) fs(1,3,5) by auto
  have sent: "i \<in> set ts'" if "other_subscribers m' (cl_id cl) ns = Some ts'" "i \<in> set ns" for ns ts'
    using that
  proof (induction ns arbitrary: ts')
    case (Cons j ns)
    obtain b ts0 where b: "actor_id_compare (cl_id (sub_client (ps_subs m' j))) (cl_id cl) = Some b"
      "other_subscribers m' (cl_id cl) ns = Some ts0" "ts' = (if b = 0 then ts0 else j # ts0)"
      using Cons.prems(1) by (auto split: bind_splits)
    have "i = j \<Longrightarrow> b \<noteq> 0" using b(1) assms(5) i(2) by (auto simp: actor_id_compare_zero)
    then show ?case using Cons.IH [OF b(2)] Cons.prems(2) b(3) by auto
  qed simp
  have "i \<in> set (concat (map (\<lambda>k. topic_subs m' (bson_key k)) keys))" using i(1) assms(2) by auto
  then show "i \<in> set ts"
    using sent ts by (simp add: publish_targets_def watched_event_def)
  have "(peers_event True (Some (to_client cl)) keys :: ('f, unit) peers_io) c = None"
    using assms(7,8)
  proof (induction keys arbitrary: c)
    case (Cons k ks)
    show ?case
    proof (cases "peers_of c (bson_key k)")
      case None
      then show ?thesis
        by (simp add: io_bind_def conv_step_def from_to_client [OF assms(6)] ok_def update_peers_def peers_of_def)
    next
      case (Some p)
      obtain c1 where c1: "(update_peers (bson_key k) (AList.update (actor_id_string (cl_id cl)) (cl_metadata cl)) :: ('f, unit) peers_io) c = Some (c1, Inr ())"
        "peers_of c1 = (peers_of c)(bson_key k := Some (p(actor_id_string (cl_id cl) \<mapsto> cl_metadata cl)))"
        using update_peers_spec [where f = "AList.update (actor_id_string (cl_id cl)) (cl_metadata cl)" and ?'e = 'f and
            g = "\<lambda>q. q(actor_id_string (cl_id cl) \<mapsto> cl_metadata cl)", OF Some] by (auto simp: update_conv')
      have "bson_key d2 \<noteq> bson_key k" using Some Cons.prems(2) by (auto simp: peers_of_def)
      then have "d2 \<in> set ks" "map_of (yc_attachments c1) (bson_key d2) = None"
        using Cons.prems c1(2) peers_of_attached [of c1 "bson_key d2"] peers_of_attached [of c "bson_key d2"] by auto
      from Cons.IH [OF this] c1(1) show ?thesis
        by (simp add: io_bind_def conv_step_def from_to_client [OF assms(6)] ok_def)
    qed
  qed simp
  then show "(handle_watch_response (event_message (watched_event Documents_Watched_Event cl keys)) :: ('f, watch_response option) peers_io) c = None"
    by (simp add: event_message_def watched_event_def io_bind_def conv_step_def ok_def Let_def)
qed

section \<open>Samples\<close>

definition sample_watcher :: yorkie_client where
  "sample_watcher = \<lparr>yc_id = Some (replicate 12 2), yc_key = ''k'', yc_metadata = [], yc_status = Activated_Client,
     yc_attachments = [(bson_key sample_doc_key, \<lparr>at_doc = 0, at_peers = []\<rparr>)]\<rparr>"

definition sample_docs :: "nat \<Rightarrow> document" where
  "sample_docs r = \<lparr>doc_internal = sample_idoc, doc_clone = None\<rparr>"

definition sample_client :: "8 word \<Rightarrow> client" where
  "sample_client n = \<lparr>cl_id = Some (replicate 12 n), cl_metadata = []\<rparr>"

text \<open>Client 1 watches the document.\<close>

definition sample_watched :: pubsub where
  "sample_watched = ws_pubsub (sample_system [] Not_Watching [])"

lemma sample_key: "idoc_key sample_idoc = sample_doc_key" "bson_key sample_doc_key = ''c$d''"
  by code_simp+

lemma sample_wf_client [simp]: "wf_client (sample_client n)"
  by (simp add: wf_client_def sample_client_def wf_actor_def actor_id_size_def)

text \<open>Client 2 joins.\<close>

definition sample_joined :: pubsub where
  "sample_joined = \<lparr>ps_topics = [(bson_key sample_doc_key, [1, 0])],
     ps_subs = (ps_subs sample_watched)(1 := new_subscription (sample_client 2)), ps_next = 2\<rparr>"

lemma sample_joined_subs [simp]:
  "sub_client (ps_subs sample_joined 0) = sample_client 1" "sub_client (ps_subs sample_joined (Suc 0)) = sample_client 2"
  "topic_subs sample_joined k = (if k = bson_key sample_doc_key then [1, 0] else [])"
  by (simp_all add: sample_joined_def sample_watched_def sample_system_def sample_subscription_def sample_client_def
      new_subscription_def topic_subs_def)

lemma sample_targets_of_joined:
  "publish_targets sample_joined (cl_id (sample_client 2)) (watched_event ty (sample_client 2) [sample_doc_key]) = Some [0]"
proof -
  have "actor_id_compare (Some (replicate 12 1)) (Some (replicate 12 2)) = Some (-1)"
    "actor_id_compare (Some (replicate 12 2)) (Some (replicate 12 2)) = Some 0" by code_simp+
  then show ?thesis by (simp add: publish_targets_def watched_event_def) (simp add: sample_client_def)
qed

lemma sample_join:
  "subscribe (sample_client 2) [sample_doc_key] sample_watched = Inr (sample_joined, 1, [(bson_key sample_doc_key, [sample_client 2, sample_client 1])])"
  by (simp add: subscribe_def Let_def subs_add_def topic_subs_def sample_joined_def)
    (simp add: sample_watched_def sample_system_def sample_subscription_def sample_client_def new_subscription_def)

lemma sample_accepted:
  "watch_documents sample_backend (watch_request sample_docs sample_watcher [0]) sample_watched =
     ok (sample_joined, 1, [0], Pb_Initialization (to_clients_map [(bson_key sample_doc_key, [sample_client 2, sample_client 1])]))"
proof -
  have "from_client (pwr_client (watch_request sample_docs sample_watcher [0])) = ok (sample_client 2)"
    using from_to_client [OF sample_wf_client, of 2] by (simp add: watch_request_def sample_watcher_def sample_client_def)
  moreover have "from_document_keys (pwr_keys (watch_request sample_docs sample_watcher [0])) = [sample_doc_key]"
    by (simp add: watch_request_def sample_docs_def sample_key)
  moreover have "verify_access sample_backend i = Inr ()" for i
    by (simp add: verify_access_def require_auth_def sample_backend_def)
  ultimately show ?thesis
    by (simp add: watch_documents_def watch_docs_def sample_join ok_def [of "sample_client 2"] sample_targets_of_joined Let_def)
qed

theorem watch_shows_subscribers_witness:
  "\<exists>c' ch. client_watch (watch_stream sample_backend sample_watched
       [watched_event Documents_Unwatched_Event (sample_client 1) [sample_doc_key]] ()) sample_docs [0] sample_watcher = Some (c', Inr ch) \<and>
     \<not> wc_closed ch \<and> length (wc_items ch) = 1 \<and>
     peers_of c' (bson_key sample_doc_key) = Some [fst (peer_entry (sample_client 2)) \<mapsto> []]"
proof -
  let ?e = "watched_event Documents_Unwatched_Event (sample_client 1) [sample_doc_key]"
  have att: "attached_event sample_watcher ?e" and other: "fst (peer_entry (sample_client 2)) \<noteq> fst (peer_entry (sample_client 1))"
    by code_simp+
  have none: "peers_of sample_watcher (bson_key sample_doc_key) = Some Map.empty"
    by (simp add: peers_of_def sample_watcher_def)
  obtain c' ch where c': "client_watch (watch_stream sample_backend sample_watched [?e] ()) sample_docs [0] sample_watcher = Some (c', Inr ch)"
    "\<not> wc_closed ch" "length (wc_items ch) = 1"
    "peers_of c' = event_peers ?e (\<lambda>k. if k \<in> bson_key ` set [sample_doc_key]
      then map_option (\<lambda>p. p ++ map_of (rev (map (\<lambda>i. peer_entry (sub_client (ps_subs sample_joined i))) (topic_subs sample_joined k)))) (peers_of sample_watcher k)
      else peers_of sample_watcher k)"
    using watch_shows_subscribers [of "[sample_doc_key]" sample_docs "[0]" sample_watcher, OF _ _ sample_accepted, of "[?e]" "()"] att
    by (auto simp: sample_docs_def sample_key(1) sample_watcher_def simp del: sample_joined_subs(3)
        simp flip: One_nat_def) (auto simp: sample_key(1))
  have "peers_of c' (bson_key sample_doc_key) = Some [fst (peer_entry (sample_client 2)) \<mapsto> []]"
    using other by (simp add: c'(4) event_peers_def peer_step_def watched_event_def none fun_eq_iff)
      (auto simp: peer_entry_def sample_client_def)
  then show ?thesis using c'(1-3) by blast
qed

text \<open>Client 2 watches a second document that client 1 has not attached.\<close>

definition sample_other_key :: doc_key where
  "sample_other_key = \<lparr>collection = ''c'', document = ''e''\<rparr>"

lemma sample_watch_more:
  "\<exists>m' n ts peers. (watch_docs (sample_client 2) [sample_doc_key, sample_other_key] sample_watched ::
     (unit watch_error, pubsub \<times> nat \<times> nat list \<times> (string \<times> client list) list) result) = ok (m', n, ts, peers)"
proof -
  have "case watch_docs (sample_client 2) [sample_doc_key, sample_other_key] sample_watched of
      Some (Inr r) \<Rightarrow> True | Some (Inl (e :: unit watch_error)) \<Rightarrow> False | None \<Rightarrow> False"
    by code_simp
  then show ?thesis by (auto simp: ok_def split: option.splits sum.splits)
qed

theorem peer_with_more_documents_panics_client_witness:
  "\<exists>m' n ts peers. (watch_docs (sample_client 2) [sample_doc_key, sample_other_key] sample_watched ::
     (unit watch_error, pubsub \<times> nat \<times> nat list \<times> (string \<times> client list) list) result) = ok (m', n, ts, peers) \<and>
     0 \<in> set ts \<and> (handle_watch_response (event_message (watched_event Documents_Watched_Event (sample_client 2)
       [sample_doc_key, sample_other_key])) :: (unit, watch_response option) peers_io) sample_watcher = None"
proof -
  have 1: "0 \<in> set (topic_subs sample_watched (bson_key sample_doc_key))" "0 < ps_next sample_watched"
    "cl_id (sub_client (ps_subs sample_watched 0)) \<noteq> cl_id (sample_client 2)"
    "map_of (yc_attachments sample_watcher) (bson_key sample_other_key) = None"
    by code_simp+
  then show ?thesis
    using sample_watch_more
      peer_with_more_documents_panics_client [of "sample_client 2" "[sample_doc_key, sample_other_key]" sample_watched, OF _ _ 1(1-3) sample_wf_client _ 1(4), where ?'f = unit]
    by fastforce
qed

end
