(* ===== verification/Durability.thy ===== *)
theory Durability
  imports Mongo_Changes Sync_Protocol
begin

text \<open>
  A push-pull on the database: \<open>PushPull\<close> of \<open>src/yorkie/packs/packs.go\<close> composed with the MongoDB
  client of \<open>src/yorkie/backend/db/mongo/client.go\<close>, given the documented behaviour of MongoDB.  What
  the server acknowledges is in the database.
\<close>

section \<open>What a call keeps\<close>

text \<open>A successful call does not change this part of the world.\<close>

definition keeps :: "('w \<Rightarrow> 'v) \<Rightarrow> ('w, 'e, 'a) io \<Rightarrow> bool" where
  "keeps g f \<longleftrightarrow> (\<forall>w w' a. f w = Some (w', Inr a) \<longrightarrow> g w' = g w)"

named_theorems keep_rules

lemma keepsD: "keeps g f \<Longrightarrow> f w = Some (w', Inr a) \<Longrightarrow> g w' = g w"
  by (simp add: keeps_def)

lemma keeps_bind [keep_rules]: "keeps g m \<Longrightarrow> (\<And>a. keeps g (f a)) \<Longrightarrow> keeps g (io_bind m f)"
  unfolding keeps_def io_bind_ok by metis

lemma keeps_simple [keep_rules]: "keeps g (io_return a)" "keeps g (io_fail e)"
  by (simp_all add: keeps_def io_fail_def)

lemma keeps_pure [keep_rules]: "keeps g (pure_call r)"
  by (simp add: keeps_def)

lemma keeps_conv [keep_rules]: "keeps (\<lambda>w. g (fst w)) (conv_call f)"
  by (auto simp: keeps_def conv_call_def split: option.splits sum.splits)

lemma keeps_check [keep_rules]: "keeps g m \<Longrightarrow> keeps g (io_check b e m)"
  by (simp add: keeps_def io_check_ok)

lemma keeps_if [keep_rules]: "keeps g m \<Longrightarrow> keeps g n \<Longrightarrow> keeps g (if b then m else n)"
  by simp

lemma keeps_heap [keep_rules]: "(\<And>h. keeps g (f h)) \<Longrightarrow> keeps g (with_heap f)"
  by (auto simp: keeps_def with_heap_def)

lemma keeps_db [keep_rules]: "keeps g f \<Longrightarrow> keeps (\<lambda>w. g (fst w)) (db_call f)"
  by (auto simp: keeps_def db_call_def split: option.splits sum.splits prod.splits)

lemma db_call_ok: "db_call f (w, h) = Some ((w', h'), Inr a) \<longleftrightarrow> f w = Some (w', Inr a) \<and> h' = h"
  by (auto simp: db_call_def split: option.splits sum.splits)

section \<open>The methods of the database\<close>

lemma keeps_steps [keep_rules]:
  "keeps g (sum_of q)" "keeps g (step_of e p)"
  by (simp_all add: keeps_def mongo_steps)

lemma keeps_find [keep_rules]: "documented m rows \<Longrightarrow> keeps rows (driver (mg_find m c f))"
  by (auto simp: keeps_def mongo_steps dest: documented_find(1))

lemma keeps_find_one:
  assumes "documented m rows" "\<And>r. keeps rows (f (Inr r))" "\<And>e w w' a. f (Inl e) w \<noteq> Some (w', Inr a)"
  shows "keeps rows (io_bind (single (mg_find_one m c q srt)) f)"
  unfolding keeps_def
proof (intro allI impI)
  fix w w' a assume "io_bind (single (mg_find_one m c q srt)) f w = Some (w', Inr a)"
  then obtain v r where r: "mg_find_one m c q srt w = (v, r)" "f r v = Some (w', Inr a)"
    by (auto simp: io_bind_ok mongo_steps)
  then show "rows w' = rows w"
    using assms(3) documented_find_one(1) [OF assms(1)] keepsD [OF assms(2)] by (cases r) metis+
qed

lemma mongo_reads_keep [keep_rules]:
  assumes "documented m rows"
  shows "keeps rows (mongo_find_changes m codec i from to h)" "keeps rows (mongo_last_snapshot m i)"
    "keeps rows (find_ticket_by_server_seq m i s)" "keeps rows (find_min_synced_ticket m i)"
proof -
  show "keeps rows (mongo_find_changes m codec i from to h)"
    unfolding mongo_find_changes_def using assms
    by (auto intro!: keep_rules split: prod.split option.split)
  show "keeps rows (mongo_last_snapshot m i)"
    unfolding mongo_last_snapshot_def using assms
    by (intro keeps_bind [OF keeps_steps(1)] keeps_find_one)
      (auto intro!: keep_rules simp: result_err_def mongo_steps split: option.split)
  show t: "keeps rows (find_ticket_by_server_seq m i s)" for s
    unfolding find_ticket_by_server_seq_def using assms
    by (intro keeps_bind [OF keeps_steps(1)] keeps_find_one)
      (auto intro!: keep_rules simp: result_err_def mongo_steps split: option.split)
  show "keeps rows (find_min_synced_ticket m i)"
    unfolding find_min_synced_ticket_def using assms
    by (intro keeps_bind [OF keeps_steps(1)] keeps_find_one)
      (auto intro!: keep_rules t simp: result_err_def mongo_steps split: option.split)
qed

lemma mongo_writes_keep [keep_rules]:
  assumes "documented m rows"
  shows "c \<noteq> col_clients \<Longrightarrow> keeps (\<lambda>w. rows w c) (mongo_update_client m ci di)"
    "c \<noteq> col_synced_seqs \<Longrightarrow> keeps (\<lambda>w. rows w c) (update_and_find_min_synced_ticket m ci i q)"
proof -
  show "keeps (\<lambda>w. rows w c) (mongo_update_client m ci di)" if "c \<noteq> col_clients"
    unfolding keeps_def
  proof (intro allI impI)
    fix w w' a assume "mongo_update_client m ci di w = Some (w', Inr a)"
    then obtain f u r where "mg_find_one_and_update m col_clients f u w = (w', r)" "result_err r = None"
      by (auto simp: mongo_update_client_def Let_def io_bind_ok mongo_steps split: option.splits)
    then show "rows w' c = rows w c"
      using documented_find_one_and_update(3) [OF assms] that by (cases r) (auto simp: result_err_def)
  qed
  have upd: "keeps (\<lambda>w. rows w c) (driver (mg_update_one m col_synced_seqs f u b))"
    "keeps (\<lambda>w. rows w c) (driver (mg_delete_one m col_synced_seqs f))" if "c \<noteq> col_synced_seqs" for f u b
    using that assms unfolding documented_def documented_writes_def others_kept_def
    by (auto simp: keeps_def mongo_steps)
  show "keeps (\<lambda>w. rows w c) (update_and_find_min_synced_ticket m ci i q)" if "c \<noteq> col_synced_seqs"
  proof -
    have "keeps (\<lambda>w. rows w c) (find_min_synced_ticket m i)"
      using mongo_reads_keep(4) [OF assms, of i] by (auto simp: keeps_def fun_eq_iff)
    then show ?thesis
      unfolding update_and_find_min_synced_ticket_def update_synced_seq_def
      by (intro keep_rules upd that)
  qed
qed

section \<open>Server sequences\<close>

lemma numbered_distinct:
  assumes "length cs < 2 ^ 64"
  shows "distinct (map ch_server_seq (numbered s cs))"
proof -
  have "inj_on (\<lambda>i. Some (s + of_nat i) :: 64 word option) {1..<Suc (length cs)}"
  proof (rule inj_onI)
    fix i j assume "i \<in> {1..<Suc (length cs)}" "j \<in> {1..<Suc (length cs)}" "Some (s + of_nat i) = Some (s + of_nat j)"
    then have "of_nat i = (of_nat j :: 64 word)" "i < 2 ^ 64" "j < 2 ^ 64" using assms by auto
    then show "i = j" by (simp add: word_of_nat_eq_iff take_bit_nat_eq_self)
  qed
  then show ?thesis by (simp add: numbered_seqs distinct_map del: upt_Suc)
qed

section \<open>What push-pull asks of a database\<close>

text \<open>The part of the store that is looked at is \<open>view\<close>.  Storing changes moves a document from the
  sequence it is at to its new one; nothing else that a push-pull calls changes the view.\<close>

locale change_store =
  fixes db :: "('s, 'e) db_ops" and view :: "'s \<Rightarrow> 'v" and consistent :: "'v \<Rightarrow> bool"
    and stored :: "json_heap \<Rightarrow> db_id \<Rightarrow> 'v \<Rightarrow> change \<Rightarrow> bool" and at_seq :: "db_id \<Rightarrow> 'v \<Rightarrow> 64 word \<Rightarrow> bool"
  assumes find_changes_keeps: "keeps view (db_find_changes db i from to h)"
    and last_snapshot_keeps: "keeps view (db_last_snapshot db i)"
    and update_client_keeps: "keeps view (db_update_client db ci di)"
    and min_synced_keeps: "keeps view (db_min_synced db ci i q)"
    and store_changes: "db_store_changes db h di initial cs w = Some (w', Inr ()) \<Longrightarrow> consistent (view w) \<Longrightarrow>
      distinct (map ch_server_seq cs) \<Longrightarrow>
      (\<forall>c \<in> set cs. stored h (di_id di) (view w') c) \<and> at_seq (di_id di) (view w) initial \<and>
      (\<forall>s. at_seq (di_id di) (view w') s \<longleftrightarrow> s = di_server_seq di)"
begin

lemma pull_pack_keeps:
  assumes "be_db be = db"
  shows "keeps (\<lambda>w. view (fst w)) (pull_pack be d req cp initial)"
proof -
  have changes: "keeps (\<lambda>w. view (fst w)) (pull_changes be d req cp initial)"
    unfolding pull_changes_def assms
    by (intro keep_rules find_changes_keeps) (auto simp: keeps_def)
  have build: "keeps (\<lambda>w. view (fst w)) (build_document be d si q)" for si q
    unfolding build_document_def apply_stored_def assms
    by (intro keep_rules find_changes_keeps)
      (auto simp: keeps_def split: option.splits prod.splits doc_error.splits)
  have "keeps (\<lambda>w. view (fst w)) (pull_snapshot be d cp initial)"
    unfolding pull_snapshot_def assms Let_def
    by (intro keep_rules last_snapshot_keeps build)
  then show ?thesis
    unfolding pull_pack_def using changes
    by (auto intro!: keep_rules split: prod.split)
qed

lemma push_pull_stores:
  assumes be: "be_db be = db" and consistent: "consistent (view w)" and len: "length (pk_changes req) < 2 ^ 64"
    and push: "push_changes ci di req = (cp, di', pushed)"
    and run: "push_pull be ci di req (w, h) = Some ((w', h'), Inr resp)"
  shows "map ch_id pushed = map ch_id (accepted (cp_client_seq (client_checkpoint (di_id di) ci)) (pk_changes req)) \<and>
    (\<forall>c \<in> set pushed. stored h' (di_id di) (view w') c) \<and>
    (if pushed = [] then view w' = view w
     else at_seq (di_id di) (view w) (di_server_seq di) \<and>
       (\<forall>s. at_seq (di_id di) (view w') s \<longleftrightarrow> s = di_server_seq di + of_nat (length pushed)))"
proof -
  let ?cs = "accepted (cp_client_seq (client_checkpoint (di_id di) ci)) (pk_changes req)"
  have pushed: "pushed = numbered (di_server_seq di) ?cs" "di_id di' = di_id di"
    "di_server_seq di' = di_server_seq di + of_nat (length pushed)"
    using push [unfolded push_changes_def push_loop_accepts Let_def] by auto
  obtain w1 r1 ci1 w2 w3 t where calls: "pull_pack be di' req cp (di_server_seq di) (w, h) = Some ((w1, h'), Inr r1)"
    "(if pushed = [] then w2 = w1 else db_store_changes db h' di' (di_server_seq di) pushed w1 = Some (w2, Inr ()))"
    "db_update_client db ci1 di' w2 = Some (w3, Inr ())"
    "db_min_synced db ci1 (di_id di') (cp_server_seq (pk_checkpoint req)) w3 = Some (w', Inr t)"
    using run by (auto simp: push_pull_def Let_def be push io_bind_ok db_call_ok with_heap_def split: if_splits)
  have pull: "view w1 = view w" using keepsD [OF pull_pack_keeps [OF be] calls(1)] by simp
  have later: "view w' = view w2"
    using keepsD [OF update_client_keeps calls(3)] keepsD [OF min_synced_keeps calls(4)] by simp
  have "length (accepted k cs) \<le> length cs" for k cs by (induction cs arbitrary: k) (auto intro: le_SucI)
  then have dist: "distinct (map ch_server_seq pushed)"
    unfolding pushed(1) using len by (intro numbered_distinct) (rule le_less_trans)
  have ids: "map ch_id pushed = map ch_id ?cs" by (simp add: pushed(1))
  show ?thesis
  proof (cases "pushed = []")
    case True
    then show ?thesis using calls(2) pull later ids by simp
  next
    case False
    then show ?thesis
      using store_changes [of h' di' "di_server_seq di" pushed w1 w2] calls(2) dist consistent pull later ids
        pushed(2,3) by simp
  qed
qed

end

section \<open>MongoDB is such a database\<close>

lemma mongo_db_simps [simp]:
  "db_find_changes (mongo_db m codec marshal) = mongo_find_changes m codec"
  "db_last_snapshot (mongo_db m codec marshal) = mongo_last_snapshot m"
  "db_store_changes (mongo_db m codec marshal) = mongo_store_changes m codec"
  "db_update_client (mongo_db m codec marshal) = mongo_update_client m"
  "db_min_synced (mongo_db m codec marshal) = update_and_find_min_synced_ticket m"
  by (simp_all add: mongo_db_def)

definition changes_and_documents :: "('s \<Rightarrow> string \<Rightarrow> bson_doc list) \<Rightarrow> 's \<Rightarrow> bson_doc list \<times> bson_doc list" where
  "changes_and_documents rows w = (rows w col_changes, rows w col_documents)"

definition change_in :: "('s, 'e) mongo \<Rightarrow> op_codec \<Rightarrow> json_heap \<Rightarrow> db_id \<Rightarrow> bson_doc list \<times> bson_doc list \<Rightarrow> change \<Rightarrow> bool" where
  "change_in m codec h i v c \<longleftrightarrow> (\<exists>d. encode_id m i = Inr d \<and> list_ex (\<lambda>r. stored_as codec h d r c) (fst v))"

definition document_at :: "('s, 'e) mongo \<Rightarrow> db_id \<Rightarrow> bson_doc list \<times> bson_doc list \<Rightarrow> 64 word \<Rightarrow> bool" where
  "document_at m i v s \<longleftrightarrow> (\<exists>d. encode_id m i = Inr d \<and> doc_at d s (snd v))"

definition distinct_documents :: "bson_doc list \<times> bson_doc list \<Rightarrow> bool" where
  "distinct_documents v \<longleftrightarrow> distinct (map (\<lambda>r. map_of r ''_id'') (snd v))"

locale documented_mongo =
  fixes m :: "('s, 'e) mongo" and rows :: "'s \<Rightarrow> string \<Rightarrow> bson_doc list"
  assumes documented: "documented m rows"
begin

lemma view_kept_by_reads:
  "keeps (changes_and_documents rows) (mongo_find_changes m codec i from to h)"
  "keeps (changes_and_documents rows) (mongo_last_snapshot m i)"
  using mongo_reads_keep(1,2) [OF documented] by (auto simp: keeps_def changes_and_documents_def fun_eq_iff)

lemma view_kept_by_writes:
  "keeps (changes_and_documents rows) (mongo_update_client m ci di)"
  "keeps (changes_and_documents rows) (update_and_find_min_synced_ticket m ci i q)"
proof -
  have "c \<noteq> col_clients \<and> c \<noteq> col_synced_seqs" if "c = col_changes \<or> c = col_documents" for c
    using that by (auto simp: col_changes_def col_documents_def col_clients_def col_synced_seqs_def)
  then show "keeps (changes_and_documents rows) (mongo_update_client m ci di)"
    "keeps (changes_and_documents rows) (update_and_find_min_synced_ticket m ci i q)"
    using mongo_writes_keep [OF documented] by (auto simp: keeps_def changes_and_documents_def)
qed

lemma store_advances_view:
  assumes run: "mongo_store_changes m codec h di initial cs w = Some (w', Inr ())"
    and ids: "distinct_documents (changes_and_documents rows w)" and dist: "distinct (map ch_server_seq cs)"
  shows "(\<forall>c \<in> set cs. change_in m codec h (di_id di) (changes_and_documents rows w') c) \<and>
    document_at m (di_id di) (changes_and_documents rows w) initial \<and>
    (\<forall>s. document_at m (di_id di) (changes_and_documents rows w') s \<longleftrightarrow> s = di_server_seq di)"
proof -
  obtain d v where v: "encode_id m (di_id di) = Inr d" "write_changes m codec h d cs w = Some (v, Inr ())"
    "advance_server_seq m d di initial v = Some (w', Inr ())"
    using run by (auto simp: mongo_store_changes_def io_bind_ok mongo_steps)
  note stored = write_changes_spec [OF documented v(2) dist]
  have "rows w' col_changes = rows v col_changes \<and> doc_at d initial (rows v col_documents) \<and>
      doc_at d (di_server_seq di) (rows w' col_documents) \<and> (\<forall>s. doc_at d s (rows w' col_documents) \<longrightarrow> s = di_server_seq di)"
    using advance_server_seq_spec [OF documented _ v(3)] ids stored
    by (simp add: distinct_documents_def changes_and_documents_def)
  then show ?thesis
    using stored v(1) by (auto simp: change_in_def document_at_def changes_and_documents_def list_all_iff)
qed

end

sublocale documented_mongo < store: change_store "mongo_db m codec marshal" "changes_and_documents rows"
  distinct_documents "change_in m codec" "document_at m" for codec marshal
  by unfold_locales (simp_all add: view_kept_by_reads view_kept_by_writes store_advances_view)

context documented_mongo begin

lemmas push_pull_on_mongo = store.push_pull_stores

end

text \<open>The collections in memory of \<open>Mongo_Facts\<close> are an instance.\<close>

interpretation memory: documented_mongo mem_mongo mem_rows
  by unfold_locales (rule mem_mongo_documented)

section \<open>What is acknowledged is stored\<close>

text \<open>C2: a push-pull that is answered has its changes in the database: every change the server accepted is
  stored under the document at the server sequence it was given, and the document is at the last of
  them; an answer to a pack without new changes leaves both collections as they are.\<close>
theorem pushed_changes_durable:
  fixes be :: "('s, 'e mongo_error) backend"
  assumes "documented m rows" "be_db be = mongo_db m codec marshal" "encode_id m (di_id di) = Inr d"
    and "distinct (map (\<lambda>r. map_of r ''_id'') (rows w col_documents))" "length (pk_changes req) < 2 ^ 64"
    and "push_changes ci di req = (cp, di', pushed)"
    and "push_pull be ci di req (w, h) = Some ((w', h'), Inr resp)"
  shows "map ch_id pushed = map ch_id (accepted (cp_client_seq (client_checkpoint (di_id di) ci)) (pk_changes req)) \<and>
    list_all (\<lambda>c. list_ex (\<lambda>r. stored_as codec h' d r c) (rows w' col_changes)) pushed \<and>
    (if pushed = [] then rows w' col_changes = rows w col_changes \<and> rows w' col_documents = rows w col_documents
     else doc_at d (di_server_seq di) (rows w col_documents) \<and>
       (\<forall>s. doc_at d s (rows w' col_documents) \<longleftrightarrow> s = di_server_seq di + of_nat (length pushed)))"
  using documented_mongo.push_pull_on_mongo [OF documented_mongo.intro [OF assms(1)] assms(2) _ assms(5-7)] assms(3,4)
  by (cases "pushed = []")
    (simp_all add: change_in_def document_at_def changes_and_documents_def distinct_documents_def list_all_iff)

section \<open>A sample\<close>

definition sample_mongo_backend :: "(mem_store, unit mongo_error) backend" where
  "sample_mongo_backend = \<lparr>be_db = mongo_db mem_mongo sample_codec (\<lambda>_. None),
     be_config = \<lparr>snapshot_threshold = 500, snapshot_interval = 100, webhook_url = [], webhook_methods = []\<rparr>,
     be_webhook = (\<lambda>_. Inr (True, [])), be_marshal = (\<lambda>_. None), be_unmarshal = (\<lambda>_. None), be_float = sample_float\<rparr>"

definition sample_new_change :: change where
  "sample_new_change = new_change (new_id 2 9 (Some (oid 3))) ''x'' (ch_operations (sample_stored_change 0))"

definition sample_push :: pack where
  "sample_push = new_pack \<lparr>collection = ''c'', document = ''d''\<rparr> (new_checkpoint 1 2) [sample_new_change] []"

lemma sample_pushed:
  "push_changes sample_attached (sample_stored_doc 1) sample_push =
     (new_checkpoint 2 2, sample_stored_doc 2, [set_server_seq 2 sample_new_change])"
  by code_simp

lemma sample_answered:
  "case push_pull sample_mongo_backend sample_attached (sample_stored_doc 1) sample_push (sample_store, sample_json) of
     None \<Rightarrow> False | Some (wh, Inl e) \<Rightarrow> False | Some (wh, Inr resp) \<Rightarrow> True"
  by code_simp

theorem pushed_changes_durable_witness:
  "\<exists>w h resp. push_pull sample_mongo_backend sample_attached (sample_stored_doc 1) sample_push (sample_store, sample_json) =
       Some ((w, h), Inr resp) \<and>
     list_ex (\<lambda>r. stored_as sample_codec h (oid 9) r (set_server_seq 2 sample_new_change)) (mem_rows w col_changes) \<and>
     doc_at (oid 9) 2 (mem_rows w col_documents)"
proof -
  obtain w h resp where run: "push_pull sample_mongo_backend sample_attached (sample_stored_doc 1) sample_push (sample_store, sample_json) =
      Some ((w, h), Inr resp)"
    using sample_answered by (auto split: option.splits prod.splits sum.splits)
  have db: "be_db sample_mongo_backend = mongo_db mem_mongo sample_codec (\<lambda>_. None)"
    by (simp add: sample_mongo_backend_def)
  have id: "encode_id mem_mongo (di_id (sample_stored_doc 1)) = Inr (oid 9)"
    "distinct (map (\<lambda>r. map_of r ''_id'') (mem_rows sample_store col_documents))"
    by code_simp+
  have len: "length (pk_changes sample_push) < 2 ^ 64" by (simp add: sample_push_def new_pack_def)
  from pushed_changes_durable [OF mem_mongo_documented db id len sample_pushed run]
  have "list_ex (\<lambda>r. stored_as sample_codec h (oid 9) r (set_server_seq 2 sample_new_change)) (mem_rows w col_changes)"
    "doc_at (oid 9) 2 (mem_rows w col_documents)"
    by (simp_all add: sample_stored_doc_def)
  then show ?thesis using run by blast
qed

end
