(* ===== verification/Command_Line.thy ===== *)
theory Command_Line
  imports Agent_Facts
begin

text \<open>
  The command \<open>yorkie agent\<close>: \<open>src/internal/cli/agent.go\<close>.  The parser of the command line is the
  list of the flags that were given, in their order; registering a flag stores its default in the
  variable it is bound to.  Signals, the timer and the end of the shutdown are what the two
  \<open>select\<close> statements of \<open>handleSignal\<close> receive.
\<close>

section \<open>Flags\<close>

text \<open>The variables of the package; \<open>None\<close> is the nil slice of end points.\<close>

record cli_state =
  cli_config_path :: string
  cli_mongo_connection_timeout :: int
  cli_mongo_ping_timeout :: int
  cli_etcd_endpoints :: "string list option"
  cli_rpc :: rpc_config
  cli_metrics :: metrics_config
  cli_mongo :: mongo_config
  cli_backend :: backend_config

datatype agent_flag =
    Flag_Config string | Flag_Rpc_Port int | Flag_Rpc_Cert_File string | Flag_Rpc_Key_File string
  | Flag_Metrics_Port int | Flag_Mongo_Connection_Timeout int | Flag_Mongo_Uri string | Flag_Mongo_Database string
  | Flag_Mongo_Ping_Timeout int | Flag_Etcd_Endpoints "string list" | Flag_Snapshot_Threshold "64 word"
  | Flag_Snapshot_Interval "64 word" | Flag_Webhook_Url string | Flag_Webhook_Methods "string list"

text \<open>The parts of \<open>conf\<close> after \<open>init\<close>: those of \<open>NewConfig\<close> with the defaults of the flags.\<close>

definition init_flags :: cli_state where
  "init_flags = \<lparr>cli_config_path = [], cli_mongo_connection_timeout = default_mongo_connection_timeout,
     cli_mongo_ping_timeout = default_mongo_ping_timeout, cli_etcd_endpoints = None,
     cli_rpc = \<lparr>rpc_port = default_rpc_port, rpc_cert_file = [], rpc_key_file = []\<rparr>,
     cli_metrics = \<lparr>mtr_port = default_metrics_port\<rparr>,
     cli_mongo = \<lparr>mc_connection_timeout = default_mongo_connection_timeout, mc_connection_uri = default_mongo_uri,
       mc_ping_timeout = default_mongo_ping_timeout, mc_yorkie_database = default_mongo_database\<rparr>,
     cli_backend = \<lparr>snapshot_threshold = default_snapshot_threshold, snapshot_interval = default_snapshot_interval,
       webhook_url = [], webhook_methods = []\<rparr>\<rparr>"

text \<open>A flag that takes a list and is given again adds to it.  The flag of the key file is bound to the
  variable of the certificate.\<close>

fun set_flag :: "agent_flag \<Rightarrow> cli_state \<Rightarrow> cli_state" where
  "set_flag (Flag_Config p) s = s\<lparr>cli_config_path := p\<rparr>"
| "set_flag (Flag_Rpc_Port p) s = s\<lparr>cli_rpc := (cli_rpc s)\<lparr>rpc_port := p\<rparr>\<rparr>"
| "set_flag (Flag_Rpc_Cert_File f) s = s\<lparr>cli_rpc := (cli_rpc s)\<lparr>rpc_cert_file := f\<rparr>\<rparr>"
| "set_flag (Flag_Rpc_Key_File f) s = s\<lparr>cli_rpc := (cli_rpc s)\<lparr>rpc_cert_file := f\<rparr>\<rparr>"
| "set_flag (Flag_Metrics_Port p) s = s\<lparr>cli_metrics := (cli_metrics s)\<lparr>mtr_port := p\<rparr>\<rparr>"
| "set_flag (Flag_Mongo_Connection_Timeout t) s = s\<lparr>cli_mongo_connection_timeout := t\<rparr>"
| "set_flag (Flag_Mongo_Uri u) s = s\<lparr>cli_mongo := (cli_mongo s)\<lparr>mc_connection_uri := u\<rparr>\<rparr>"
| "set_flag (Flag_Mongo_Database d) s = s\<lparr>cli_mongo := (cli_mongo s)\<lparr>mc_yorkie_database := d\<rparr>\<rparr>"
| "set_flag (Flag_Mongo_Ping_Timeout t) s = s\<lparr>cli_mongo_ping_timeout := t\<rparr>"
| "set_flag (Flag_Etcd_Endpoints es) s = s\<lparr>cli_etcd_endpoints :=
     Some (case cli_etcd_endpoints s of None \<Rightarrow> es | Some es' \<Rightarrow> es' @ es)\<rparr>"
| "set_flag (Flag_Snapshot_Threshold n) s = s\<lparr>cli_backend := (cli_backend s)\<lparr>snapshot_threshold := n\<rparr>\<rparr>"
| "set_flag (Flag_Snapshot_Interval n) s = s\<lparr>cli_backend := (cli_backend s)\<lparr>snapshot_interval := n\<rparr>\<rparr>"
| "set_flag (Flag_Webhook_Url u) s = s\<lparr>cli_backend := (cli_backend s)\<lparr>webhook_url := u\<rparr>\<rparr>"
| "set_flag (Flag_Webhook_Methods ms) s = s\<lparr>cli_backend := (cli_backend s)\<lparr>webhook_methods := webhook_methods (cli_backend s) @ ms\<rparr>\<rparr>"

definition parse_flags :: "agent_flag list \<Rightarrow> cli_state" where
  "parse_flags fs = fold set_flag fs init_flags"

section \<open>The command\<close>

datatype 'e cli_error =
  Create_Config_Failed string | Invalid_Backend_Config | Agent_Failed "'e mongo_error" | Exit_Code int

text \<open>The configuration the flags make, and the one of the file when there is one.\<close>

definition flags_config :: "cli_state \<Rightarrow> yorkie_config" where
  "flags_config s =
     \<lparr>cf_rpc = Some (cli_rpc s), cf_metrics = Some (cli_metrics s),
      cf_mongo = Some ((cli_mongo s)\<lparr>mc_connection_timeout := cli_mongo_connection_timeout s,
        mc_ping_timeout := cli_mongo_ping_timeout s\<rparr>),
      cf_etcd = map_option (\<lambda>es. \<lparr>etc_endpoints = es, etc_dial_timeout = 0, etc_username = [], etc_password = [],
        etc_lock_lease = 0\<rparr>) (cli_etcd_endpoints s),
      cf_backend = Some (cli_backend s)\<rparr>"

definition agent_config :: "(string \<Rightarrow> 'e + yorkie_config) \<Rightarrow> cli_state \<Rightarrow> 'e cli_error + yorkie_config" where
  "agent_config from_file s =
     (if cli_config_path s \<noteq> []
      then map_sum (\<lambda>_. Create_Config_Failed (cli_config_path s)) id (from_file (cli_config_path s))
      else Inr (flags_config s))"

definition start_agent :: "('s, 'e) mongo \<Rightarrow> ('s, 'e, 'c, 'l) etcd \<Rightarrow> 'e + string \<Rightarrow> string \<Rightarrow>
    (string \<Rightarrow> string \<Rightarrow> 'e option) \<Rightarrow> (string \<Rightarrow> 'e option) \<Rightarrow> (string \<Rightarrow> 'e + yorkie_config) \<Rightarrow> agent_flag list \<Rightarrow>
    ('s, 'e cli_error, 'c yorkie) io" where
  "start_agent m et host fresh_id load_tls listen from_file flags =
     io_bind (\<lambda>s. Some (s, agent_config from_file (parse_flags flags))) (\<lambda>conf.
     case cf_backend conf of
       None \<Rightarrow> (\<lambda>_. None)
     | Some bc \<Rightarrow> io_check (config_valid bc) Invalid_Backend_Config
         (\<lambda>s. case new_yorkie m et host fresh_id load_tls conf s of
            None \<Rightarrow> None
          | Some (s, Inl e) \<Rightarrow> Some (s, Inl (Agent_Failed e))
          | Some (s, Inr y) \<Rightarrow> (case yorkie_start listen y of
              (y, Some e) \<Rightarrow> Some (s, Inl (Agent_Failed (Driver_Error e)))
            | (y, None) \<Rightarrow> Some (s, Inr y))))"

section \<open>Signals\<close>

datatype os_signal = Sig_Int | Sig_Term | Sig_Hup

datatype awaited = Got_Signal os_signal | Already_Shut_Down

datatype outcome = Another_Signal | Timed_Out | Shut_Down

definition graceful_timeout :: int where
  "graceful_timeout = 10"

definition signal_graceful :: "os_signal \<Rightarrow> bool" where
  "signal_graceful sig \<longleftrightarrow> sig = Sig_Int \<or> sig = Sig_Term"

text \<open>The shutdown runs next to the second \<open>select\<close>; when another signal or the timer wins, the process
  ends while it is still running, and the state is that before it.\<close>

fun handle_signal :: "('s, 'e) mongo \<Rightarrow> ('s, 'e, 'c, 'l) etcd \<Rightarrow> awaited \<Rightarrow> outcome \<Rightarrow> 'c yorkie \<Rightarrow> 's \<Rightarrow>
    ('s \<times> 'c yorkie \<times> int) option" where
  "handle_signal m et Already_Shut_Down out y s = Some (s, y, 0)"
| "handle_signal m et (Got_Signal sig) Shut_Down y s =
     map_option (\<lambda>(s, y). (s, y, 0)) (yorkie_shutdown m et (signal_graceful sig) y s)"
| "handle_signal m et (Got_Signal sig) out y s = Some (s, y, 1)"

definition run_agent :: "('s, 'e) mongo \<Rightarrow> ('s, 'e, 'c, 'l) etcd \<Rightarrow> 'e + string \<Rightarrow> string \<Rightarrow>
    (string \<Rightarrow> string \<Rightarrow> 'e option) \<Rightarrow> (string \<Rightarrow> 'e option) \<Rightarrow> (string \<Rightarrow> 'e + yorkie_config) \<Rightarrow> agent_flag list \<Rightarrow>
    awaited \<Rightarrow> outcome \<Rightarrow> ('s, 'e cli_error, 'c yorkie) io" where
  "run_agent m et host fresh_id load_tls listen from_file flags a out =
     io_bind (start_agent m et host fresh_id load_tls listen from_file flags) (\<lambda>y s.
     case handle_signal m et a out y s of
       None \<Rightarrow> None
     | Some (s, y, code) \<Rightarrow> Some (s, if code \<noteq> 0 then Inl (Exit_Code code) else Inr y))"

text \<open>The exit status of the process.\<close>

definition exit_status :: "('e cli_error + 'a) \<Rightarrow> int" where
  "exit_status r = (case r of Inl _ \<Rightarrow> 1 | Inr _ \<Rightarrow> 0)"

section \<open>Properties\<close>

lemma parse_flags_key_file: "rpc_key_file (cli_rpc (parse_flags fs)) = []"
proof -
  have "rpc_key_file (cli_rpc (set_flag f s)) = rpc_key_file (cli_rpc s)" for f s by (cases f) simp_all
  then have "rpc_key_file (cli_rpc (fold set_flag fs s)) = rpc_key_file (cli_rpc s)" for s
    by (induction fs arbitrary: s) simp_all
  then show ?thesis by (simp add: parse_flags_def init_flags_def)
qed

text \<open>C31: whatever flags are given, an agent that has no configuration file serves without TLS, because the
  flag of the key file sets the certificate: with both flags no file is read and the last of the two
  is the certificate.\<close>
theorem flags_never_give_tls:
  assumes "start_agent m et host fresh_id load_tls listen from_file flags s = Some (s', Inr y)"
    and "cli_config_path (parse_flags flags) = []"
  shows "\<not> rs_tls (yk_rpc y) \<and> rs_state (yk_rpc y) = Serving \<and> rpc_key_file (the (cf_rpc (yk_conf y))) = []"
proof -
  let ?conf = "flags_config (parse_flags flags)"
  obtain y0 where y0: "new_yorkie m et host fresh_id load_tls ?conf s = Some (s', Inr y0)" "yorkie_start listen y0 = (y, None)"
    using assms
    by (auto simp: start_agent_def agent_config_def io_bind_def io_check_def io_fail_def flags_config_def
        split: option.splits sum.splits prod.splits if_splits)
  have conf: "cf_rpc ?conf = Some (cli_rpc (parse_flags flags))" by (simp add: flags_config_def)
  have "yk_conf y0 = ?conf \<and> \<not> rs_tls (yk_rpc y0)"
    using y0(1)
    by (auto simp: new_yorkie_def io_bind_def new_rpc_server_def conf parse_flags_key_file io_return_def
        split: option.splits sum.splits)
  moreover have "yk_conf y = yk_conf y0 \<and> rs_tls (yk_rpc y) = rs_tls (yk_rpc y0) \<and> rs_state (yk_rpc y) = Serving"
    using y0(2) by (auto simp: yorkie_start_def rpc_start_def Let_def split: sum.splits option.splits)
  ultimately show ?thesis by (simp add: conf parse_flags_key_file)
qed

definition sample_flags :: "agent_flag list" where
  "sample_flags = [Flag_Rpc_Cert_File ''cert'', Flag_Rpc_Key_File ''key'']"

lemma sample_start:
  "case start_agent unit_mongo sample_etcd (Inr ''host'') ''id'' (\<lambda>_ _. None) (\<lambda>_. None) (\<lambda>_. Inl ()) sample_flags () of
     Some (s, Inr y) \<Rightarrow> rpc_cert_file (the (cf_rpc (yk_conf y))) = ''key'' | _ \<Rightarrow> False"
  by (simp add: start_agent_def agent_config_def sample_flags_def parse_flags_def init_flags_def flags_config_def
      io_bind_def io_check_def config_valid_def new_yorkie_def config_rpc_addr_def new_backend_def sum_of_def
      mongo_dial_def ensure_indexes_def driver_def step_of_def unit_mongo_def io_return_def new_rpc_server_def yorkie_start_def rpc_start_def Let_def)

theorem flags_never_give_tls_witness:
  "\<exists>y. start_agent unit_mongo sample_etcd (Inr ''host'') ''id'' (\<lambda>_ _. None) (\<lambda>_. None) (\<lambda>_. Inl ()) sample_flags () =
       Some ((), Inr y) \<and> rpc_cert_file (the (cf_rpc (yk_conf y))) = ''key'' \<and> \<not> rs_tls (yk_rpc y)"
proof -
  obtain y where y: "start_agent unit_mongo sample_etcd (Inr ''host'') ''id'' (\<lambda>_ _. None) (\<lambda>_. None) (\<lambda>_. Inl ()) sample_flags () =
      Some ((), Inr y)" "rpc_cert_file (the (cf_rpc (yk_conf y))) = ''key''"
    using sample_start by (auto split: option.splits prod.splits sum.splits)
  have "cli_config_path (parse_flags sample_flags) = []" by code_simp
  from flags_never_give_tls [OF y(1) this] y show ?thesis by blast
qed

end
