(* ===== verification/Measurements.thy ===== *)
theory Measurements
  imports Values
begin

text \<open>
  What the server measures: \<open>src/yorkie/metrics/prometheus/metrics.go\<close>.  A gauge is its last value, a
  histogram the list of its observations, a registry the names that are registered with it; a float
  is its bit pattern, as in \<open>Values\<close>.
\<close>

type_synonym registry = "string list"

record metrics =
  mt_registry :: "registry option"
  mt_agent_version :: "(string \<times> 64 word) list"
  mt_response_seconds :: "64 word list"
  mt_received_changes :: "64 word"
  mt_sent_changes :: "64 word"
  mt_snapshot_seconds :: "64 word list"
  mt_snapshot_bytes :: "64 word"

definition metric_name :: "string \<Rightarrow> string \<Rightarrow> string" where
  "metric_name subsystem name = ''yorkie_'' @ subsystem @ ''_'' @ name"

text \<open>Registering a name again is a panic of \<open>promauto\<close>.\<close>

fun register_metrics :: "string list \<Rightarrow> registry \<Rightarrow> registry option" where
  "register_metrics [] reg = Some reg"
| "register_metrics (n # ns) reg = (if n \<in> set reg then None else register_metrics ns (reg @ [n]))"

definition all_metrics :: "string list" where
  "all_metrics = [metric_name ''agent'' ''version'', metric_name ''rpcserver'' ''pushpull_response_seconds'',
     metric_name ''rpcserver'' ''pushpull_received_changes'', metric_name ''rpcserver'' ''pushpull_sent_changes'',
     metric_name ''db'' ''pushpull_snapshot_duration_seconds'', metric_name ''db'' ''pushpull_snapshot_bytes'']"

text \<open>The registry the metrics are registered with is not put into the struct.\<close>

definition new_metrics :: "float_ops \<Rightarrow> string \<Rightarrow> (registry \<times> metrics) option" where
  "new_metrics fl version = do {
     reg \<leftarrow> register_metrics all_metrics [];
     Some (reg, \<lparr>mt_registry = None, mt_agent_version = [(version, float_of_int fl 1)], mt_response_seconds = [],
       mt_received_changes = 0, mt_sent_changes = 0, mt_snapshot_seconds = [], mt_snapshot_bytes = 0\<rparr>) }"

definition observe_response_seconds :: "64 word \<Rightarrow> metrics \<Rightarrow> metrics" where
  "observe_response_seconds s m = m\<lparr>mt_response_seconds := mt_response_seconds m @ [s]\<rparr>"

definition set_received_changes :: "float_ops \<Rightarrow> 64 word \<Rightarrow> metrics \<Rightarrow> metrics" where
  "set_received_changes fl n m = m\<lparr>mt_received_changes := float_of_int fl n\<rparr>"

definition set_sent_changes :: "float_ops \<Rightarrow> 64 word \<Rightarrow> metrics \<Rightarrow> metrics" where
  "set_sent_changes fl n m = m\<lparr>mt_sent_changes := float_of_int fl n\<rparr>"

definition observe_snapshot_seconds :: "64 word \<Rightarrow> metrics \<Rightarrow> metrics" where
  "observe_snapshot_seconds s m = m\<lparr>mt_snapshot_seconds := mt_snapshot_seconds m @ [s]\<rparr>"

definition set_snapshot_bytes :: "float_ops \<Rightarrow> 64 word \<Rightarrow> metrics \<Rightarrow> metrics" where
  "set_snapshot_bytes fl n m = m\<lparr>mt_snapshot_bytes := float_of_int fl n\<rparr>"

definition metrics_registry :: "metrics \<Rightarrow> registry option" where
  "metrics_registry m = mt_registry m"

text \<open>The measurements of the server.\<close>

inductive metrics_step :: "float_ops \<Rightarrow> metrics \<Rightarrow> metrics \<Rightarrow> bool" for fl where
  response: "metrics_step fl m (observe_response_seconds s m)"
| received: "metrics_step fl m (set_received_changes fl n m)"
| sent: "metrics_step fl m (set_sent_changes fl n m)"
| snapshot_seconds: "metrics_step fl m (observe_snapshot_seconds s m)"
| snapshot_bytes: "metrics_step fl m (set_snapshot_bytes fl n m)"

text \<open>All the metrics are registered, but \<open>Registry\<close>, which the HTTP handler of the metrics is made from,
  is nil whatever has been measured.\<close>

lemma metrics_registry_nil:
  assumes "new_metrics fl version = Some (reg, m)" "(metrics_step fl)\<^sup>*\<^sup>* m m'"
  shows "reg = all_metrics \<and> metrics_registry m' = None"
proof -
  have "register_metrics all_metrics [] = Some all_metrics" by code_simp
  then have m: "reg = all_metrics" "mt_registry m = None" using assms(1) by (auto simp: new_metrics_def)
  have "metrics_step fl k k' \<Longrightarrow> mt_registry k' = mt_registry k" for k k'
    by (induction rule: metrics_step.induct)
      (simp_all add: observe_response_seconds_def set_received_changes_def set_sent_changes_def
        observe_snapshot_seconds_def set_snapshot_bytes_def)
  with assms(2) have "mt_registry m' = mt_registry m" by (induction rule: rtranclp_induct) auto
  then show ?thesis using m by (simp add: metrics_registry_def)
qed

end
