(* ===== verification/Spec2Isabelle.thy ===== *)
theory Spec2Isabelle
  imports Clock Llrb Priority_Queue Splay Rht Values Rga_Tree_List Rht_Pq_Map Text_Elements Proxies Server Pub_Sub
    Client_Side Sync_Protocol Garbage_Facts Converter_Facts Mongo_Clients Mongo_Changes Agent_Facts
    Watching Durability Command_Line Measurements
begin

text \<open>
  Yorkie: a verification library for the documents, the synchronisation and the server of this
  repository.  This theory only gathers the others; each of them opens with what it holds.

  \<^bold>\<open>The program.\<close>  A client (\<open>src/client\<close>) keeps replicas of JSON documents (\<open>src/pkg/document\<close>).  A user
  edits a replica through proxies (\<open>proxy\<close>); an edit is made on a clone and recorded as operations of a
  change (\<open>change\<close>, \<open>operation\<close>), with a ticket of a Lamport clock (\<open>time\<close>) for every element and
  operation.  Changes travel in packs, as protobuf messages (\<open>src/api/converter\<close>), to a server
  (\<open>src/yorkie\<close>), which numbers them, stores them in MongoDB, answers with the changes of the others or a
  snapshot, and tells the watching clients, also those of the other agents of a cluster it knows from
  etcd.  Applying the operations of all the clients, in any order the server's numbering allows, is
  meant to give the same document everywhere: the elements (\<open>json\<close>) are CRDTs, built on a
  red-black tree (\<open>llrb\<close>), a splay tree (\<open>splay\<close>) and a priority queue (\<open>pq\<close>).

  \<^bold>\<open>Theories and sources.\<close>
  \<^item> Shared: \<open>Prelude\<close> (lists, maps, words), \<open>Results\<close> (errors and panics, calls that change a world).
  \<^item> Clocks and names: \<open>Ticket\<close> (\<open>time/actor_id.go\<close>, \<open>time/ticket.go\<close>), \<open>Clock\<close> (\<open>checkpoint.go\<close>,
    \<open>change/id.go\<close>, \<open>key.go\<close>).
  \<^item> Containers: \<open>Llrb\<close> (\<open>llrb.go\<close>), \<open>Splay\<close> (\<open>splay.go\<close>), \<open>Priority_Queue\<close> (\<open>priority_queue.go\<close> with
    \<open>container/heap\<close>).
  \<^item> Elements, all in \<open>src/pkg/document/json\<close>: \<open>Cells\<close> (the heap, and what every element has), \<open>Rht\<close>
    (\<open>rht.go\<close>), \<open>Values\<close> (\<open>primitive.go\<close>, \<open>counter.go\<close>), \<open>Rht_Pq_Map\<close> (\<open>rht_pq_map.go\<close>), \<open>Rga_Order\<close> and
    \<open>Rga_Tree_List\<close> (\<open>rga_tree_list.go\<close>), \<open>Rga_Tree_Split\<close> and \<open>Rga_Split_Facts\<close> (\<open>rga_tree_split.go\<close>),
    \<open>Utf16\<close> and \<open>Text_Elements\<close> (\<open>text.go\<close>, \<open>rich_text.go\<close>), \<open>Json_Elements\<close> (\<open>element.go\<close>,
    \<open>object.go\<close>, \<open>array.go\<close>), \<open>Document_Root\<close> (\<open>root.go\<close>); \<open>Heap_Facts\<close> has what they keep.
  \<^item> Documents: \<open>Operations\<close> (\<open>operation/*.go\<close>), \<open>Changes\<close> (\<open>change/*.go\<close>), \<open>Documents\<close>
    (\<open>internal_document.go\<close>, \<open>document.go\<close>), \<open>Proxies\<close> (\<open>proxy/*.go\<close>); \<open>Operation_Facts\<close>, \<open>Document_Facts\<close>
    and \<open>Garbage_Facts\<close> are about them.
  \<^item> Messages: \<open>Messages\<close> (\<open>api/yorkie.proto\<close>), \<open>Converter\<close> (\<open>to_pb.go\<close>, \<open>from_pb.go\<close>),
    \<open>Snapshot_Converter\<close> (\<open>to_bytes.go\<close>, \<open>from_bytes.go\<close>), \<open>Converter_Facts\<close>.
  \<^item> Server: \<open>Server\<close> (\<open>backend/db\<close>, \<open>packs.go\<close>, \<open>clients.go\<close>, \<open>auth\<close>, \<open>rpc/yorkie_server.go\<close>),
    \<open>Pub_Sub\<close> (\<open>backend/sync/pubsub.go\<close>, \<open>memory/pubsub.go\<close>), \<open>Mongo_Client\<close> (\<open>backend/db/mongo\<close>) with
    \<open>Mongo_Facts\<close>, \<open>Mongo_Clients\<close> and \<open>Mongo_Changes\<close>, \<open>Coordinators\<close> (\<open>backend/sync/memory\<close>,
    \<open>backend/sync/etcd\<close>, \<open>rpc/cluster_server.go\<close>), \<open>Agent\<close> (\<open>config.go\<close>, \<open>yorkie.go\<close>, \<open>backend.go\<close>,
    \<open>rpc/server.go\<close>, \<open>rpc/interceptors\<close>) with \<open>Agent_Facts\<close>, \<open>Command_Line\<close> (\<open>internal/cli\<close>),
    \<open>Measurements\<close> (\<open>metrics/prometheus/metrics.go\<close>).
  \<^item> Client: \<open>Client_Side\<close> (\<open>client.go\<close>).
  \<^item> Across components: \<open>Sync_Protocol\<close> (client and server over a network), \<open>Watching\<close> (a watching stream
    from the handler to the client's peers), \<open>Durability\<close> (a push-pull on MongoDB).

  \<^bold>\<open>How the code is modelled.\<close>  A Go struct is a record, a pointer to an element a number in a heap of
  cells (so that a document, its clone and its tables share elements as in the code), a nil pointer
  \<open>None\<close>.  A function that can panic returns an option, and \<open>None\<close> is the panic: a nil dereference, an
  index out of range, \<open>log.Fatal\<close>.  An error result is the left side of a sum.  A call that changes a
  world is a function of it that returns it next to the result, also next to an error.  Integers have
  the width they have in Go, except offsets and lengths, which are \<open>int\<close>.  Go maps are association
  lists, whose order stands for the order of an iteration, which Go does not fix; a fact does not
  depend on it unless it says so.  Strings are byte lists, and lists of code points in \<open>Utf16\<close>.
  Recursion along the elements is limited by a depth, \<open>depth_of\<close>, which is one more than the number
  of cells: \<open>recursion_depth_suffices\<close> shows that this is enough, so that \<open>None\<close> never stands for a
  recursion cut short.  Concurrent behaviour is a step relation: watching streams and publishers
  (\<open>watch_step\<close>), a client, the server and a network that loses, repeats and reorders messages
  (\<open>sync_step\<close>), the goroutines of the backend (\<open>backend_step\<close>).

  \<^bold>\<open>What is outside.\<close>  The MongoDB driver (record \<open>mongo\<close>), etcd and gRPC (\<open>etcd\<close>, \<open>client_env\<close>), JSON,
  \<open>proto.Marshal\<close>, HTTP, files, TLS and the arithmetic of floats (\<open>float_ops\<close>) are arguments of the
  definitions.  The facts about MongoDB assume \<open>documented\<close>, which says of the driver what its
  documentation says of the filters and updates the code sends, when it reports no error;
  \<open>mem_mongo\<close>, collections in memory, satisfies it.  \<open>Durability\<close> states what push-pull needs of a
  database as the locale \<open>change_store\<close> and proves it for every documented driver.

  \<^bold>\<open>What is shown.\<close>
  \<^item> Containers refine a finite map, a sequence and a multiset and keep their invariants; no
    operation dereferences nil.
  \<^item> Elements: concurrent insertions into an array, writes to an object and to attributes, removals
    and increases commute; an edit of a text is a splice of its units; collecting garbage of a text
    takes out exactly the due blocks and keeps what is shown.
  \<^item> Documents: executing changes, applying packs and snapshots and collecting garbage keep the heap
    well formed and the tables of the document right; the errors of operations are characterised.
  \<^item> Messages: a change pack is read back, and stored changes are, with the same changes field by field:
    values as equal primitives and counters, containers empty (\<open>same_change\<close>).
  \<^item> Synchronisation: over an unreliable network every change is stored exactly once and in order, and
    a client that is answered has nothing left to push; what is answered is in the database; the
    ticket for the collection of garbage is that of the slowest client.
  \<^item> Server: publishing never panics, the members of a cluster follow etcd, a shutdown leaves no
    goroutine, a checked call or stream never runs without a token.
  \<^item> Where the code does something else than it means to, the fact says what it does: removed text that
    is live again after a split, an older member of an object that shows again after a purge, lengths
    that depend on the order of deletions, offsets beyond 32 bits, streams that can deadlock, a
    client that dereferences nil for a peer's other documents, metrics without a registry, a conflict
    that has overwritten changes, errors of a look-up that are lost, agents that do not notify each other, and flags that
    cannot turn on TLS.

  \<^bold>\<open>Not modelled.\<close>  Where the handlers set the counters of \<open>Measurements\<close>, logging, the version command,
  \<open>tools\<close> and the helpers of tests, the generated protobuf code, the one-line accessors that are fields
  of the records, and a failure to send on a watching stream that is already open.  Wall clock times are left
  out of the records (a stored one is \<open>B_Time\<close>), as are the locks of a request, which are what
  \<open>sync_step\<close> takes to be exclusive; contexts appear where the code waits for them.
\<close>

end
